(* ===== verification/LP_Prelude.thy ===== *)
theory LP_Prelude
  imports Main "HOL-Library.Word" "HOL-Library.List_Lexorder"
begin

unbundle bit_operations_syntax

text \<open>
  Shared vocabulary of the development: bytes and byte strings, the fixed-width
  integer encodings of Go's \<open>encoding/binary\<close>, hexadecimal text, \<open>bytes.Compare\<close>
  (the lexicographic order of lists over \<open>8 word\<close>), and the generic list and map
  facts the component theories rely on.

  Go values are translated as follows throughout:
  \<^item> \<open>[]byte\<close> is \<open>bytes\<close>, and \<open>bytes option\<close> where the code tells \<open>nil\<close> from an
    empty slice;
  \<^item> \<open>uint64\<close> is \<open>64 word\<close> (addition wraps) where the value is stored or can wrap;
  \<^item> a pair \<open>(v, err)\<close> is a sum, \<open>Inl\<close> the error, or a value of type \<open>go\<close> where the
    call can also panic;
  \<^item> a loop that does not end is \<open>None\<close> of an option type.
\<close>

type_synonym byte = "8 word"
type_synonym bytes = "byte list"
type_synonym u64 = "64 word"

named_theorems go_enc \<open>lengths and round trips of the integer encodings\<close>
named_theorems store_simps \<open>rewriting of store contents after an operation\<close>
named_theorems inv_intros \<open>preservation of well-formedness by operations\<close>

section \<open>Results of Go calls\<close>

text \<open>
  A call returns a value, returns an error, or panics. \<open>go_bind\<close> stops at the first
  call that does not return a value.
\<close>

datatype ('e, 'a) go = Ret 'a | Err 'e | Panic

fun go_bind :: "('e, 'a) go \<Rightarrow> ('a \<Rightarrow> ('e, 'b) go) \<Rightarrow> ('e, 'b) go" where
  "go_bind (Ret a) f = f a"
| "go_bind (Err e) f = Err e"
| "go_bind Panic f = Panic"

lemma go_bind_Ret_iff: "go_bind m f = Ret b \<longleftrightarrow> (\<exists>a. m = Ret a \<and> f a = Ret b)"
  by (cases m) auto

text \<open>
  \<open>copy(dst, src)\<close> overwrites a prefix of \<open>dst\<close> and keeps its length; \<open>slice_put\<close> is the
  effect on a whole slice \<open>b\<close> of replacing the window that starts at \<open>lo\<close>.
\<close>

definition go_copy :: "'a list \<Rightarrow> 'a list \<Rightarrow> 'a list" where
  "go_copy dst src = take (length dst) src @ drop (length src) dst"

definition slice_put :: "'a list \<Rightarrow> nat \<Rightarrow> 'a list \<Rightarrow> 'a list" where
  "slice_put b lo w = take lo b @ w @ drop (lo + length w) b"

lemma length_go_copy [simp]: "length (go_copy dst src) = length dst"
  by (simp add: go_copy_def)

lemma go_copy_same_length [simp]: "length src = length dst \<Longrightarrow> go_copy dst src = src"
  by (simp add: go_copy_def)

lemma length_slice_put [simp]: "lo + length w \<le> length b \<Longrightarrow> length (slice_put b lo w) = length b"
  by (simp add: slice_put_def)

lemma nth_slice_put:
  assumes "lo + length w \<le> length b" "k < length b"
  shows "slice_put b lo w ! k =
    (if k < lo then b ! k else if k < lo + length w then w ! (k - lo) else b ! k)"
  using assms by (auto simp: slice_put_def nth_append)

section \<open>Fixed-width integer encodings\<close>

text \<open>
  \<open>le_enc n v\<close> is the \<open>n\<close>-byte little-endian encoding of \<open>v\<close> and \<open>le_dec\<close> its
  inverse. \<open>binary.LittleEndian.PutUint64\<close> and \<open>Uint64\<close> are the eight-byte instances,
  the big-endian ones are their reversals.
\<close>

fun le_enc :: "nat \<Rightarrow> nat \<Rightarrow> bytes" where
  "le_enc 0 v = []"
| "le_enc (Suc n) v = of_nat (v mod 256) # le_enc n (v div 256)"

fun le_dec :: "bytes \<Rightarrow> nat" where
  "le_dec [] = 0"
| "le_dec (b # bs) = unat b + 256 * le_dec bs"

definition LittleEndian_PutUint64 :: "u64 \<Rightarrow> bytes" where
  "LittleEndian_PutUint64 v = le_enc 8 (unat v)"

definition LittleEndian_Uint64 :: "bytes \<Rightarrow> u64" where
  "LittleEndian_Uint64 bs = of_nat (le_dec (take 8 bs))"

definition BigEndian_PutUint64 :: "u64 \<Rightarrow> bytes" where
  "BigEndian_PutUint64 v = rev (le_enc 8 (unat v))"

definition BigEndian_Uint64 :: "bytes \<Rightarrow> u64" where
  "BigEndian_Uint64 bs = of_nat (le_dec (rev (take 8 bs)))"

lemma length_le_enc [simp, go_enc]: "length (le_enc n v) = n"
  by (induction n arbitrary: v) auto

lemma unat_byte_lt [simp]: "unat (b :: byte) < 256"
  using unsigned_less [of b] by simp

lemma unat_byte_of_nat_mod [simp]: "unat (of_nat (v mod 256) :: byte) = v mod 256"
  by (simp add: unat_of_nat)

lemma le_dec_le_enc [go_enc]: "le_dec (le_enc n v) = v mod 256 ^ n"
proof (induction n arbitrary: v)
  case 0
  then show ?case by simp
next
  case (Suc n)
  have "le_dec (le_enc (Suc n) v) = v mod 256 + 256 * ((v div 256) mod 256 ^ n)"
    by (simp add: Suc.IH)
  also have "\<dots> = v mod (256 * 256 ^ n)"
    by (simp add: mod_mult2_eq)
  finally show ?case by simp
qed

lemma le_dec_bound: "le_dec bs < 256 ^ length bs"
proof (induction bs)
  case (Cons b bs)
  have "unat b + 256 * le_dec bs < 256 + 256 * le_dec bs" by simp
  also have "\<dots> = 256 * Suc (le_dec bs)" by simp
  also have "\<dots> \<le> 256 * 256 ^ length bs"
    using Cons.IH by (intro mult_le_mono2) simp
  finally show ?case by simp
qed simp

lemma le_enc_le_dec: "le_enc (length bs) (le_dec bs) = bs"
proof (induction bs)
  case (Cons b bs)
  have m: "(unat b + 256 * le_dec bs) mod 256 = unat b"
    by simp
  have d: "(unat b + 256 * le_dec bs) div 256 = le_dec bs"
    using unat_byte_lt [of b] by simp
  show ?case
    by (simp only: le_dec.simps length_Cons le_enc.simps m d Cons.IH) simp
qed simp

lemma le_enc_inject:
  assumes "le_enc n v = le_enc n w" "v < 256 ^ n" "w < 256 ^ n"
  shows "v = w"
proof -
  have "le_dec (le_enc n v) = le_dec (le_enc n w)" using assms(1) by simp
  then show ?thesis using assms(2,3) by (simp add: le_dec_le_enc)
qed

lemma unat_u64_lt: "unat (v :: u64) < 256 ^ 8"
  using unsigned_less [of v] by simp

lemma length_PutUint64 [simp, go_enc]:
  "length (LittleEndian_PutUint64 v) = 8" "length (BigEndian_PutUint64 v) = 8"
  by (simp_all add: LittleEndian_PutUint64_def BigEndian_PutUint64_def)

lemma PutUint64_nonempty [simp]:
  "LittleEndian_PutUint64 v \<noteq> []" "BigEndian_PutUint64 v \<noteq> []"
  using length_PutUint64 [of v] by (metis list.size(3) zero_neq_numeral)+

lemma Uint64_PutUint64 [simp, go_enc]:
  "LittleEndian_Uint64 (LittleEndian_PutUint64 v @ xs) = v"
  "BigEndian_Uint64 (BigEndian_PutUint64 v @ xs) = v"
proof -
  have "unat v mod 256 ^ 8 = unat v"
    using unat_u64_lt [of v] by simp
  then have e: "of_nat (unat v mod 18446744073709551616) = v"
    by simp
  show "LittleEndian_Uint64 (LittleEndian_PutUint64 v @ xs) = v"
    by (simp only: LittleEndian_Uint64_def LittleEndian_PutUint64_def) (simp add: le_dec_le_enc e)
  show "BigEndian_Uint64 (BigEndian_PutUint64 v @ xs) = v"
    by (simp only: BigEndian_Uint64_def BigEndian_PutUint64_def) (simp add: le_dec_le_enc e)
qed

lemma Uint64_PutUint64' [simp, go_enc]:
  "LittleEndian_Uint64 (LittleEndian_PutUint64 v) = v"
  "BigEndian_Uint64 (BigEndian_PutUint64 v) = v"
  using Uint64_PutUint64 [of v "[]"] by simp_all

lemma PutUint64_inject [simp]:
  "LittleEndian_PutUint64 v = LittleEndian_PutUint64 w \<longleftrightarrow> v = w"
  "BigEndian_PutUint64 v = BigEndian_PutUint64 w \<longleftrightarrow> v = w"
  by (metis Uint64_PutUint64')+

section \<open>The byte order of \<open>bytes.Compare\<close>\<close>

text \<open>
  \<open>bytes.Compare\<close> orders byte slices lexicographically, byte by byte as unsigned
  values: the order \<open>List_Lexorder\<close> puts on \<open>bytes\<close>. Big-endian encodings of the same
  width are ordered like the numbers they encode.
\<close>

lemma lex_append_same [simp]: "(ps @ xs :: 'a::linorder list) < ps @ ys \<longleftrightarrow> xs < ys"
  by (induction ps) auto

lemma lex_append_len:
  fixes xs ys :: "'a::linorder list"
  assumes "length xs = length ys"
  shows "xs @ us < ys @ vs \<longleftrightarrow> xs < ys \<or> (xs = ys \<and> us < vs)"
  using assms by (induction xs ys rule: list_induct2) auto

lemma be_enc_less:
  assumes "v < 256 ^ n" "w < 256 ^ n"
  shows "rev (le_enc n v) < rev (le_enc n w) \<longleftrightarrow> v < w"
  using assms
proof (induction n arbitrary: v w)
  case 0
  then show ?case by simp
next
  case (Suc n)
  have b: "v div 256 < 256 ^ n" "w div 256 < 256 ^ n"
    using Suc.prems by (simp_all add: div_less_iff_less_mult mult.commute)
  have byte_lt: "(of_nat (v mod 256) :: byte) < of_nat (w mod 256) \<longleftrightarrow> v mod 256 < w mod 256"
    by (simp add: word_less_nat_alt)
  have "rev (le_enc (Suc n) v) < rev (le_enc (Suc n) w) \<longleftrightarrow>
        v div 256 < w div 256 \<or>
        (rev (le_enc n (v div 256)) = rev (le_enc n (w div 256)) \<and> v mod 256 < w mod 256)"
    by (simp add: lex_append_len Suc.IH [OF b] byte_lt)
  also have "\<dots> \<longleftrightarrow> v div 256 < w div 256 \<or> (v div 256 = w div 256 \<and> v mod 256 < w mod 256)"
    using le_enc_inject [OF _ b] by auto
  also have "\<dots> \<longleftrightarrow> v < w"
  proof -
    have "v = 256 * (v div 256) + v mod 256" "w = 256 * (w div 256) + w mod 256"
      by simp_all
    moreover have "v mod 256 < 256" "w mod 256 < 256" by simp_all
    ultimately show ?thesis by linarith
  qed
  finally show ?case .
qed

lemma BigEndian_PutUint64_less [simp]:
  "BigEndian_PutUint64 v < BigEndian_PutUint64 w \<longleftrightarrow> v < w"
  unfolding BigEndian_PutUint64_def
  by (subst be_enc_less [OF unat_u64_lt unat_u64_lt]) (simp add: word_less_nat_alt)

section \<open>Hexadecimal text\<close>

text \<open>
  \<open>fmt.Sprintf("%x", b)\<close> and \<open>hex.EncodeToString\<close> write two lower-case digits per byte.
  \<open>hex.DecodeString\<close> reads either case and reports malformed text, here \<open>None\<close>;
  \<open>common.Hex2Bytes\<close> drops that error and hands on the \<open>nil\<close> slice that came with it.
\<close>

definition hex_digit :: "nat \<Rightarrow> char" where
  "hex_digit n = (if n < 10 then char_of (48 + n) else char_of (87 + n))"

definition from_hex_digit :: "char \<Rightarrow> nat option" where
  "from_hex_digit c =
     (let n = of_char c in
      if 48 \<le> n \<and> n \<le> 57 then Some (n - 48)
      else if 97 \<le> n \<and> n \<le> 102 then Some (n - 87)
      else if 65 \<le> n \<and> n \<le> 70 then Some (n - 55)
      else None)"

fun hex_encode :: "bytes \<Rightarrow> string" where
  "hex_encode [] = []"
| "hex_encode (b # bs) = hex_digit (unat b div 16) # hex_digit (unat b mod 16) # hex_encode bs"

fun hex_decode :: "string \<Rightarrow> bytes option" where
  "hex_decode [] = Some []"
| "hex_decode [c] = None"
| "hex_decode (c # d # cs) =
     (case (from_hex_digit c, from_hex_digit d) of
        (Some x, Some y) \<Rightarrow> map_option ((#) (of_nat (16 * x + y))) (hex_decode cs)
      | _ \<Rightarrow> None)"

definition Hex2Bytes :: "string \<Rightarrow> bytes" where
  "Hex2Bytes s = (case hex_decode s of Some b \<Rightarrow> b | None \<Rightarrow> [])"

lemma from_hex_digit_hex_digit [simp]: "n < 16 \<Longrightarrow> from_hex_digit (hex_digit n) = Some n"
  by (auto simp: from_hex_digit_def hex_digit_def Let_def)

lemma length_hex_encode [simp]: "length (hex_encode bs) = 2 * length bs"
  by (induction bs) auto

lemma hex_decode_encode [simp]: "hex_decode (hex_encode bs) = Some bs"
proof (induction bs)
  case (Cons b bs)
  have "unat b div 16 < 16" using unat_byte_lt [of b] by (simp add: div_less_iff_less_mult)
  then show ?case using Cons.IH by simp
qed simp

lemma Hex2Bytes_hex_encode [simp]: "Hex2Bytes (hex_encode bs) = bs"
  by (simp add: Hex2Bytes_def)

lemma hex_encode_inject [simp]: "hex_encode xs = hex_encode ys \<longleftrightarrow> xs = ys"
  by (metis hex_decode_encode option.inject)

section \<open>Generic lemmas\<close>

lemma u64_less_Suc:
  assumes "(x :: u64) \<noteq> -1"
  shows "x < x + 1" "unat (x + 1) = Suc (unat x)"
proof -
  have "unat x \<noteq> 2 ^ 64 - 1"
  proof
    assume "unat x = 2 ^ 64 - 1"
    moreover have "unat (-1 :: u64) = 2 ^ 64 - 1" by (simp add: unsigned_minus_1_eq_mask mask_eq_exp_minus_1)
    ultimately show False using assms by (metis word_unat_eq_iff)
  qed
  then have "Suc (unat x) < 2 ^ 64" using unat_u64_lt [of x] by simp
  then show "unat (x + 1) = Suc (unat x)" by (simp add: unat_word_ariths)
  then show "x < x + 1" by (simp add: word_less_nat_alt)
qed

lemma take_add_drop: "take (m + n) xs = take m xs @ take n (drop m xs)"
  by (metis take_add)

lemma foldl_append_acc: "foldl (\<lambda>acc x. acc @ f x) a xs = a @ concat (map f xs)"
  by (induction xs arbitrary: a) auto

lemma dropWhile_ge:
  assumes "sorted_wrt (<) (map fst es)"
  shows "set (dropWhile (\<lambda>e. fst e < (k :: bytes)) es) = {e \<in> set es. k \<le> fst e}"
  using assms by (induction es) (auto simp: not_less intro: less_imp_le)

lemma takeWhile_less:
  assumes "sorted_wrt (<) (map fst es)"
  shows "set (takeWhile (\<lambda>e. fst e < (k :: bytes)) es) = {e \<in> set es. fst e < k}"
  using assms by (induction es) (auto simp: not_less dest: less_trans)

lemma sorted_wrt_dropWhile: "sorted_wrt R xs \<Longrightarrow> sorted_wrt R (dropWhile P xs)"
  by (metis sorted_wrt_append takeWhile_dropWhile_id)

lemma sorted_wrt_takeWhile: "sorted_wrt R xs \<Longrightarrow> sorted_wrt R (takeWhile P xs)"
  by (metis sorted_wrt_append takeWhile_dropWhile_id)

lemma map_of_filter_key:
  "map_of (filter (\<lambda>kv. P (fst kv)) xs) k = (if P k then map_of xs k else None)"
  by (induction xs) auto

end
