(* ===== verification/Storage_Keys.thy ===== *)
theory Storage_Keys
  imports LP_Prelude
begin

text \<open>
  \<open>storage/types.go\<close>: content keys, the bit slices of a key that address the memory
  cache, the textual forms of a key, and the chunk and request-status objects that every
  store passes around. \<open>Key_bits\<close> is \<open>None\<close> where the code would index past the key.
\<close>

type_synonym Key = bytes

section \<open>Hash functions\<close>

record Hasher =
  h_Size :: nat
  h_Sum :: "bytes \<Rightarrow> bytes"

definition hasher_ok :: "Hasher \<Rightarrow> bool" where
  "hasher_ok H \<longleftrightarrow> 0 < h_Size H \<and> (\<forall>x. length (h_Sum H x) = h_Size H)"

definition MakeHashFunc :: "Hasher \<Rightarrow> Hasher \<Rightarrow> string \<Rightarrow> Hasher option" where
  "MakeHashFunc sha256 keccak256 hash =
     (if hash = ''SHA256'' then Some sha256
      else if hash = ''SHA3'' then Some keccak256
      else None)"

section \<open>Keys\<close>

definition Key_Size :: "Key \<Rightarrow> nat" where
  "Key_Size x = length x"

definition Key_isEqual :: "Key \<Rightarrow> Key \<Rightarrow> bool" where
  "Key_isEqual x y \<longleftrightarrow> x = y"

text \<open>
  The loop of \<open>bits\<close>: \<open>ii\<close> the byte read last, \<open>jj\<close> the number of bits already in
  \<open>res\<close>, \<open>j\<close> the number still to read.
\<close>

function Key_bits_loop :: "Key \<Rightarrow> nat \<Rightarrow> nat \<Rightarrow> nat \<Rightarrow> nat \<Rightarrow> nat option" where
  "Key_bits_loop h ii jj j res =
     (if j = 0 then Some res
      else if \<not> Suc ii < length h then None
      else if j < 8 then Some (res + unat (h ! Suc ii) mod 2 ^ j * 2 ^ jj)
      else Key_bits_loop h (Suc ii) (jj + 8) (j - 8) (res + unat (h ! Suc ii) * 2 ^ jj))"
  by pat_completeness auto
termination by (relation "measure (\<lambda>(h, ii, jj, j, res). j)") auto

definition Key_bits :: "Key \<Rightarrow> nat \<Rightarrow> nat \<Rightarrow> nat option" where
  "Key_bits h i j =
     (let ii = i div 8; jj = i mod 8 in
      if ii \<ge> Key_Size h then Some 0
      else if jj + j \<le> 8 then Some (unat (h ! ii) div 2 ^ jj mod 2 ^ j)
      else Key_bits_loop h ii (8 - jj) (j - (8 - jj)) (unat (h ! ii) div 2 ^ jj))"

definition ZeroKey :: Key where
  "ZeroKey = replicate 32 0"

definition IsZeroKey :: "Key \<Rightarrow> bool" where
  "IsZeroKey key \<longleftrightarrow> length key = 0 \<or> key = ZeroKey"

text \<open>\<open>%064x\<close> pads on the left with zero digits to 64 characters.\<close>

definition Key_String :: "Key \<Rightarrow> string" where
  "Key_String key = replicate (64 - 2 * length key) (CHR ''0'') @ hex_encode key"

definition Key_Hex :: "Key \<Rightarrow> string" where
  "Key_Hex key = replicate (64 - 2 * length key) (CHR ''0'') @ hex_encode key"

definition Key_Log :: "Key \<Rightarrow> string" where
  "Key_Log key = (if length key < 4 then hex_encode key else hex_encode (take 4 key))"

definition quote :: char where
  "quote = char_of (34 :: nat)"

definition Key_MarshalJSON :: "Key \<Rightarrow> string" where
  "Key_MarshalJSON key = [quote] @ Key_String key @ [quote]"

text \<open>
  \<open>s[1 : len(s)-1]\<close> panics on text of fewer than two characters; \<open>copy\<close> into the fresh
  32-byte slice keeps at most 32 bytes and leaves the rest zero.
\<close>

definition Key_UnmarshalJSON :: "string \<Rightarrow> Key option" where
  "Key_UnmarshalJSON s =
     (if length s < 2 then None
      else let h = Hex2Bytes (butlast (tl s)) in
        Some (take 32 h @ replicate (32 - length h) 0))"

section \<open>Chunks and request status\<close>

text \<open>
  Peers and channels are identified by numbers: a peer is a pointer the storage layer
  never looks into, a channel is identified with the number under which the stores record
  whether it has been closed. \<open>'r\<close> is the type of retrieve requests. \<open>Req\<close> is a pointer
  to a request status.
\<close>

type_synonym peer_id = nat
type_synonym chan_id = nat
type_synonym addr = nat

record 'r RequestStatus =
  rs_Key :: Key
  rs_Source :: "peer_id option"
  rs_C :: chan_id
  rs_Requesters :: "u64 \<rightharpoonup> 'r list"

definition newRequestStatus :: "Key \<Rightarrow> chan_id \<Rightarrow> 'r RequestStatus" where
  "newRequestStatus key c =
     \<lparr>rs_Key = key, rs_Source = None, rs_C = c, rs_Requesters = Map.empty\<rparr>"

record Chunk =
  ch_Key :: Key
  ch_SData :: "bytes option"
  ch_Size :: int
  ch_Source :: "peer_id option"
  ch_C :: "chan_id option"
  ch_Req :: "addr option"
  ch_wg :: "nat option"
  ch_dbStored :: "chan_id option"

definition NewChunk :: "Key \<Rightarrow> addr option \<Rightarrow> Chunk" where
  "NewChunk key rs = \<lparr>ch_Key = key, ch_SData = None, ch_Size = 0, ch_Source = None,
     ch_C = None, ch_Req = rs, ch_wg = None, ch_dbStored = None\<rparr>"

text \<open>\<open>int64(binary.LittleEndian.Uint64(data[0:8]))\<close>, which panics on short data.\<close>

definition data_size :: "bytes \<Rightarrow> int option" where
  "data_size d = (if length d < 8 then None else Some (sint (LittleEndian_Uint64 d)))"

section \<open>Lemmas\<close>

lemma nth_le_dec: "i < length h \<Longrightarrow> le_dec h div 2 ^ (8 * i) mod 256 = unat (h ! i)"
proof (induction h arbitrary: i)
  case (Cons b h)
  show ?case
  proof (cases i)
    case 0
    then show ?thesis by simp
  next
    case (Suc k)
    have "(unat b + 256 * le_dec h) div 2 ^ (8 * i) =
          (unat b + 256 * le_dec h) div 256 div 2 ^ (8 * k)"
      by (simp add: Suc div_mult2_eq power_add)
    also have "(unat b + 256 * le_dec h) div 256 = le_dec h"
      using unat_byte_lt [of b] by simp
    finally show ?thesis using Cons by (simp add: Suc)
  qed
qed simp

lemma div_pow_split:
  fixes v :: nat
  shows "v div 2 ^ s mod 2 ^ (a + b) = v div 2 ^ s mod 2 ^ a + v div 2 ^ (s + a) mod 2 ^ b * 2 ^ a"
  by (simp add: power_add mod_mult2_eq mult.commute flip: div_mult2_eq)

lemma byte_slice:
  assumes "i < length h" "a + b \<le> 8"
  shows "unat (h ! i) div 2 ^ a mod 2 ^ b = le_dec h div 2 ^ (8 * i + a) mod 2 ^ b"
proof -
  have "unat (h ! i) = le_dec h div 2 ^ (8 * i) mod 2 ^ 8"
    using nth_le_dec [OF assms(1)] by simp
  also have "2 ^ 8 = (2 :: nat) ^ a * 2 ^ (8 - a)"
    using assms(2) by (simp flip: power_add)
  finally have "unat (h ! i) div 2 ^ a = le_dec h div 2 ^ (8 * i) div 2 ^ a mod 2 ^ (8 - a)"
    by (simp add: mod_mult2_eq)
  also have "\<dots> mod 2 ^ b = le_dec h div 2 ^ (8 * i) div 2 ^ a mod 2 ^ b"
    using assms(2) by (metis (no_types) Nat.le_diff_conv2 add.commute add_leD1 dvd_power_le
        le_refl mod_mod_cancel le_imp_power_dvd)
  finally show ?thesis by (simp add: div_mult2_eq power_add)
qed

lemma Key_bits_loop_spec:
  assumes "8 * Suc ii + j \<le> 8 * length h" "8 * Suc ii = i + jj"
    "res = le_dec h div 2 ^ i mod 2 ^ jj"
  shows "Key_bits_loop h ii jj j res = Some (le_dec h div 2 ^ i mod 2 ^ (jj + j))"
  using assms
proof (induction h ii jj j res rule: Key_bits_loop.induct)
  case (1 h ii jj j res)
  show ?case
  proof (cases "j = 0")
    case True
    then show ?thesis using "1.prems" by simp
  next
    case False
    have ii: "Suc ii < length h" using False "1.prems"(1) by simp
    show ?thesis
    proof (cases "j < 8")
      case True
      have "unat (h ! Suc ii) mod 2 ^ j = le_dec h div 2 ^ (i + jj) mod 2 ^ j"
        using byte_slice [OF ii, of 0 j] True "1.prems"(2) by simp
      then show ?thesis
        using True False ii "1.prems"(3) by (simp add: div_pow_split [of _ i jj j])
    next
      case ge: False
      have "unat (h ! Suc ii) = le_dec h div 2 ^ (i + jj) mod 2 ^ 8"
        using nth_le_dec [OF ii] "1.prems"(2) by simp
      then have "res + unat (h ! Suc ii) * 2 ^ jj = le_dec h div 2 ^ i mod 2 ^ (jj + 8)"
        using "1.prems"(3) by (simp only: div_pow_split [of _ i jj 8])
      moreover have "8 * Suc (Suc ii) + (j - 8) \<le> 8 * length h"
        "8 * Suc (Suc ii) = i + (jj + 8)"
        using "1.prems" ge by simp_all
      ultimately have "Key_bits_loop h (Suc ii) (jj + 8) (j - 8) (res + unat (h ! Suc ii) * 2 ^ jj)
          = Some (le_dec h div 2 ^ i mod 2 ^ (jj + 8 + (j - 8)))"
        using "1.IH" False ii ge by blast
      moreover have "jj + 8 + (j - 8) = jj + j" using ge by simp
      ultimately show ?thesis using False ii ge by simp
    qed
  qed
qed

declare Key_bits_loop.simps [simp del]

lemma Key_bits_spec:
  assumes "i + j \<le> 8 * length h"
  shows "Key_bits h i j = Some (le_dec h div 2 ^ i mod 2 ^ j)"
proof (cases "i div 8 < length h")
  case False
  then have "j = 0" using assms by linarith
  then show ?thesis using False by (simp add: Key_bits_def Key_Size_def)
next
  case True
  have i: "8 * (i div 8) + i mod 8 = i" and r: "i mod 8 < 8" by simp_all
  show ?thesis
  proof (cases "i mod 8 + j \<le> 8")
    case le: True
    then show ?thesis
      using byte_slice [OF True le] True by (simp add: Key_bits_def Key_Size_def Let_def i)
  next
    case gt: False
    have "unat (h ! (i div 8)) div 2 ^ (i mod 8) mod 2 ^ (8 - i mod 8)
          = le_dec h div 2 ^ i mod 2 ^ (8 - i mod 8)"
      using byte_slice [OF True, of "i mod 8" "8 - i mod 8"] by (simp add: i)
    moreover have "unat (h ! (i div 8)) div 2 ^ (i mod 8) < 2 ^ (8 - i mod 8)"
    proof -
      have "unat (h ! (i div 8)) < 2 ^ (i mod 8) * 2 ^ (8 - i mod 8)"
        by (simp flip: power_add)
      then show ?thesis by (simp add: div_less_iff_less_mult mult.commute)
    qed
    ultimately have "unat (h ! (i div 8)) div 2 ^ (i mod 8)
          = le_dec h div 2 ^ i mod 2 ^ (8 - i mod 8)"
      by simp
    moreover have "8 * Suc (i div 8) + (j - (8 - i mod 8)) \<le> 8 * length h"
      "8 * Suc (i div 8) = i + (8 - i mod 8)"
      unfolding mult_Suc_right using assms gt i r by linarith+
    ultimately have "Key_bits_loop h (i div 8) (8 - i mod 8) (j - (8 - i mod 8))
          (unat (h ! (i div 8)) div 2 ^ (i mod 8))
        = Some (le_dec h div 2 ^ i mod 2 ^ (8 - i mod 8 + (j - (8 - i mod 8))))"
      by (intro Key_bits_loop_spec)
    then show ?thesis using gt True by (simp add: Key_bits_def Key_Size_def Let_def)
  qed
qed

lemma Key_bits_lt: "Key_bits h i j = Some n \<Longrightarrow> i + j \<le> 8 * length h \<Longrightarrow> n < 2 ^ j"
  by (auto simp: Key_bits_spec)

lemma Key_String_length: "length key \<le> 32 \<Longrightarrow> length (Key_String key) = 64"
  by (simp add: Key_String_def)

section \<open>Properties\<close>

text \<open>
  \<open>bits(i, j)\<close> reads \<open>j\<close> bits from position \<open>i\<close> of the key taken as a little-endian
  number, whatever byte boundaries the window crosses, as long as it lies inside the key.
\<close>

theorem key_bits_window:
  assumes "i + j \<le> 8 * length h"
  shows "Key_bits h i j = Some (le_dec h div 2 ^ i mod 2 ^ j)"
  using assms by (rule Key_bits_spec)

theorem key_bits_window_witness:
  "Key_bits [0xF0, 0x5A, 0x03] 5 12 = Some 0xAD7"
  using key_bits_window [of 5 12 "[0xF0, 0x5A, 0x03]"] by simp

text \<open>
  A 32-byte key survives \<open>MarshalJSON\<close> followed by \<open>UnmarshalJSON\<close>.
\<close>

theorem Key_JSON_roundtrip:
  assumes "length key = 32"
  shows "Key_UnmarshalJSON (Key_MarshalJSON key) = Some key"
  using assms by (simp add: Key_UnmarshalJSON_def Key_MarshalJSON_def Key_String_def butlast_append)

theorem Key_JSON_roundtrip_witness:
  "Key_UnmarshalJSON (Key_MarshalJSON (0xAB # replicate 31 7)) = Some (0xAB # replicate 31 7)"
  by (rule Key_JSON_roundtrip) simp

end
