(* ===== verification/Chunker.thy ===== *)
theory Chunker
  imports Storage_Keys
begin

text \<open>
  \<open>storage/chunker.go\<close>, the splitting half: \<open>TreeChunker.Split\<close> reads a document from an
  \<open>io.Reader\<close> and emits the chunks of its Merkle tree.

  The code hands every finished chunk to hash workers over a channel; a parent waits for
  all its children (\<open>childrenWg.Wait\<close>) before its own chunk is queued, so the bytes of
  every chunk, its key and the root key do not depend on the workers. The model emits the
  chunks in the order in which they are queued. \<open>hash\<close> is the hash function
  (\<open>crypto.SHA256\<close> or Keccak), a parameter of which only the length of the digest is used.
\<close>

section \<open>Chunker parameters\<close>

record ChunkerParams =
  cp_Branches :: nat
  cp_Hash :: string

definition NewChunkerParams :: ChunkerParams where
  "NewChunkerParams = \<lparr>cp_Branches = 128, cp_Hash = ''SHA3''\<rparr>"

record TreeChunker =
  branches :: nat
  hashFunc :: Hasher
  hashSize :: nat
  chunkSize :: nat
  workerCount :: nat

definition NewTreeChunker :: "Hasher \<Rightarrow> Hasher \<Rightarrow> ChunkerParams \<Rightarrow> TreeChunker option" where
  \<comment> \<open>\<open>None\<close>: an unknown hash name leaves a nil function, whose call panics\<close>
  "NewTreeChunker sha256 keccak256 params =
     (case MakeHashFunc sha256 keccak256 (cp_Hash params) of
        None \<Rightarrow> None
      | Some H \<Rightarrow> Some \<lparr>branches = cp_Branches params, hashFunc = H, hashSize = h_Size H,
                      chunkSize = h_Size H * cp_Branches params, workerCount = 1\<rparr>)"

section \<open>Readers\<close>

text \<open>
  An \<open>io.Reader\<close> is the list of what its successive reads can deliver: a block of bytes
  and the error that comes with its last byte. A read into a buffer shorter than the block
  takes a part of it. Past the list the reader reports \<open>EOF\<close>. Blocks may be empty: a
  reader may return \<open>(0, nil)\<close>.
\<close>

datatype io_error = EOF | ErrUnexpectedEOF | IOErr nat

type_synonym reader = "(bytes \<times> io_error option) list"

fun reader_Read :: "reader \<Rightarrow> nat \<Rightarrow> bytes \<times> io_error option \<times> reader" where
  "reader_Read [] n = ([], Some EOF, [])"
| "reader_Read ((blk, e) # rs) n =
     (if n < length blk then (take n blk, None, (drop n blk, e) # rs) else (blk, e, rs))"

definition reader_content :: "reader \<Rightarrow> bytes" where
  "reader_content rs = concat (map fst rs)"

text \<open>A reader that fails nowhere; it may announce \<open>EOF\<close> with its last block.\<close>

definition reader_clean :: "reader \<Rightarrow> bool" where
  "reader_clean rs \<longleftrightarrow>
     (\<forall>x \<in> set (butlast rs). snd x = None) \<and> (rs \<noteq> [] \<longrightarrow> snd (last rs) \<in> {None, Some EOF})"

lemma reader_Read_progress:
  "reader_Read rs n = (d, err, rs') \<Longrightarrow>
     length rs' < length rs \<or> (length rs' = length rs \<and> length d = n \<and> err = None)
     \<or> (rs = [] \<and> rs' = [] \<and> d = [] \<and> err = Some EOF)"
  by (cases "(rs, n)" rule: reader_Read.cases) (auto split: if_splits)

text \<open>
  The read loop of a leaf: \<open>acc\<close> is what \<open>chunkData[8:]\<close> holds so far.
\<close>

function read_loop :: "nat \<Rightarrow> bytes \<Rightarrow> reader \<Rightarrow> io_error + bytes \<times> reader" where
  "read_loop sz acc rs =
     (if length acc < sz then
        (case reader_Read rs (sz - length acc) of (d, err, rs') \<Rightarrow>
           (case err of
              None \<Rightarrow> read_loop sz (acc @ d) rs'
            | Some e \<Rightarrow> if e = EOF \<and> length (acc @ d) = sz then read_loop sz (acc @ d) rs'
                       else Inl e))
      else Inr (acc, rs))"
  by pat_completeness auto
termination
  by (relation "measures [\<lambda>(sz, acc, rs). length rs, \<lambda>(sz, acc, rs). sz - length acc]")
     (auto dest!: reader_Read_progress [OF sym])

declare read_loop.simps [simp del]

section \<open>Splitting\<close>

text \<open>The loop at the head of \<open>split\<close> (and of \<open>join\<close>): skip levels the data does not fill.\<close>

fun shrink :: "nat \<Rightarrow> nat \<Rightarrow> nat \<Rightarrow> int \<Rightarrow> nat \<times> nat" where
  "shrink br 0 treeSize sz = (0, treeSize)"
| "shrink br (Suc depth) treeSize sz =
     (if sz < int treeSize then shrink br depth (treeSize div br) sz else (Suc depth, treeSize))"

lemma shrink_depth_le: "fst (shrink br depth treeSize sz) \<le> depth"
  by (induction depth arbitrary: treeSize) (auto intro: le_SucI)

lemma shrink_depth: "shrink br depth treeSize sz = (d', t') \<Longrightarrow> d' \<le> depth"
  using shrink_depth_le [of br depth treeSize sz] by simp

text \<open>
  \<open>hashChunk\<close>: the key of a chunk is the digest of its bytes; the digest is copied into the
  slice the parent (or \<open>Split\<close>) reserved for it, of \<open>hashSize\<close> bytes.
\<close>

definition hashChunk :: "TreeChunker \<Rightarrow> nat option \<Rightarrow> bytes \<Rightarrow> nat \<Rightarrow> bytes \<times> Chunk" where
  "hashChunk T swg chunk sz =
     (let h = h_Sum (hashFunc T) chunk in
      (go_copy (replicate (hashSize T) 0) h,
       (NewChunk h None)\<lparr>ch_SData := Some chunk, ch_Size := int sz, ch_wg := swg\<rparr>))"

function split_tree :: "TreeChunker \<Rightarrow> nat option \<Rightarrow> nat \<Rightarrow> nat \<Rightarrow> reader \<Rightarrow> nat
      \<Rightarrow> io_error + bytes \<times> Chunk list \<times> reader"
  and split_children :: "TreeChunker \<Rightarrow> nat option \<Rightarrow> nat \<Rightarrow> nat \<Rightarrow> reader \<Rightarrow> nat \<Rightarrow> nat \<Rightarrow> nat
      \<Rightarrow> io_error + bytes list \<times> Chunk list \<times> reader"
where
  "split_tree T swg depth0 treeSize0 data sz =
     (case shrink (branches T) depth0 treeSize0 (int sz) of (depth, treeSize) \<Rightarrow>
        if depth = 0 then
          (case read_loop sz [] data of
             Inl e \<Rightarrow> Inl e
           | Inr (bs, data') \<Rightarrow>
               (case hashChunk T swg (LittleEndian_PutUint64 (of_nat sz) @ bs) sz of
                  (key, c) \<Rightarrow> Inr (key, [c], data')))
        else
          (case split_children T swg depth treeSize data sz
                  ((sz + treeSize - 1) div treeSize) 0 of
             Inl e \<Rightarrow> Inl e
           | Inr (keys, cs, data') \<Rightarrow>
               (case hashChunk T swg (LittleEndian_PutUint64 (of_nat sz) @ concat keys) sz of
                  (key, c) \<Rightarrow> Inr (key, cs @ [c], data'))))"
| "split_children T swg depth treeSize data sz n pos =
     (if n = 0 \<or> depth = 0 then Inr ([], [], data)
      else let secSize = (if sz - pos < treeSize then sz - pos else treeSize) in
        (case split_tree T swg (depth - 1) (treeSize div branches T) data secSize of
           Inl e \<Rightarrow> Inl e
         | Inr (key, cs, data') \<Rightarrow>
             (case split_children T swg depth treeSize data' sz (n - 1) (pos + treeSize) of
                Inl e \<Rightarrow> Inl e
              | Inr (keys, cs', data'') \<Rightarrow> Inr (key # keys, cs @ cs', data''))))"
  by pat_completeness auto
termination
  by (relation "measures
      [\<lambda>x. case x of Inl (T, swg, d, t, r, s) \<Rightarrow> 2 * d + 1
                   | Inr (T, swg, d, t, r, s, n, p) \<Rightarrow> 2 * d,
       \<lambda>x. case x of Inl (T, swg, d, t, r, s) \<Rightarrow> 0 | Inr (T, swg, d, t, r, s, n, p) \<Rightarrow> n]")
     (auto dest!: shrink_depth [OF sym])

declare split_tree.simps [simp del] split_children.simps [simp del]

text \<open>
  The search for the depth of the tree runs on \<open>int64\<close>: \<open>wrap64\<close> is the value a product
  wraps to. It does not end once \<open>treeSize\<close> has wrapped to zero, hence the option.
\<close>

definition wrap64 :: "int \<Rightarrow> int" where
  "wrap64 x = (x + 2 ^ 63) mod 2 ^ 64 - 2 ^ 63"

partial_function (option) depth_loop :: "int \<Rightarrow> int \<Rightarrow> int \<Rightarrow> nat \<Rightarrow> (nat \<times> int) option" where
  "depth_loop br sz treeSize depth =
     (if treeSize < sz then depth_loop br sz (wrap64 (treeSize * br)) (Suc depth)
      else Some (depth, treeSize))"

declare depth_loop.simps [code]

datatype split_error = NoReturn | ReadError io_error

text \<open>
  \<open>Split\<close>: the root key and the chunks, an error of the reader, or a panic. \<open>NoReturn\<close>
  stands for the depth search that never ends. A division by zero branches panics.
\<close>

definition TreeChunker_Split ::
    "TreeChunker \<Rightarrow> nat option \<Rightarrow> reader \<Rightarrow> nat \<Rightarrow> (split_error, Key \<times> Chunk list) go" where
  "TreeChunker_Split T swg data sz =
     (if chunkSize T \<le> 0 then Panic
      else case depth_loop (int (branches T)) (int sz) (int (chunkSize T)) 0 of
        None \<Rightarrow> Err NoReturn
      | Some (depth, treeSize) \<Rightarrow>
          if branches T = 0 then Panic
          else (case split_tree T swg depth (nat treeSize div branches T) data sz of
             Inl e \<Rightarrow> Err (ReadError e)
           | Inr (key, cs, _) \<Rightarrow> Ret (key, cs)))"

section \<open>The tree hash as a function of the data\<close>

text \<open>
  The reference definition: the chunks of a document as a function of its bytes alone. A
  level splits the data into slices of \<open>treeSize\<close> bytes; the chunk of a level is the
  length of its data followed by the keys of the slices.
\<close>

function blocks :: "nat \<Rightarrow> 'a list \<Rightarrow> 'a list list" where
  "blocks t xs = (if t = 0 \<or> xs = [] then [] else take t xs # blocks t (drop t xs))"
  by pat_completeness auto
termination by (relation "measure (\<lambda>(t, xs). length xs)") auto

declare blocks.simps [simp del]

definition level_chunk :: "TreeChunker \<Rightarrow> nat option \<Rightarrow> nat \<Rightarrow> bytes \<Rightarrow> bytes \<times> Chunk" where
  "level_chunk T swg n body = hashChunk T swg (LittleEndian_PutUint64 (of_nat n) @ body) n"

function merkle :: "TreeChunker \<Rightarrow> nat option \<Rightarrow> nat \<Rightarrow> nat \<Rightarrow> bytes \<Rightarrow> bytes \<times> Chunk list" where
  "merkle T swg depth0 treeSize0 data =
     (case shrink (branches T) depth0 treeSize0 (int (length data)) of (depth, treeSize) \<Rightarrow>
        if depth = 0 then
          (case level_chunk T swg (length data) data of (k, c) \<Rightarrow> (k, [c]))
        else
          (let subs = map (merkle T swg (depth - 1) (treeSize div branches T)) (blocks treeSize data)
           in case level_chunk T swg (length data) (concat (map fst subs)) of
                (k, c) \<Rightarrow> (k, concat (map snd subs) @ [c])))"
  by pat_completeness auto
termination
  by (relation "measure (\<lambda>(T, swg, d, t, data). d)") (auto dest!: shrink_depth [OF sym])

declare merkle.simps [simp del]

text \<open>The depths and slice sizes \<open>Split\<close> and \<open>ReadAt\<close> start from and pass down.\<close>

definition level :: "TreeChunker \<Rightarrow> nat \<Rightarrow> nat \<Rightarrow> bool" where
  "level T d t \<longleftrightarrow> (0 < d \<longrightarrow> t = chunkSize T * branches T ^ (d - 1))"

definition chunker_ok :: "TreeChunker \<Rightarrow> bool" where
  "chunker_ok T \<longleftrightarrow> 0 < branches T \<and> hasher_ok (hashFunc T)
     \<and> hashSize T = h_Size (hashFunc T) \<and> chunkSize T = hashSize T * branches T"

section \<open>Reading\<close>

lemma reader_clean_Cons:
  "reader_clean (x # rs) \<longleftrightarrow>
     (if rs = [] then snd x \<in> {None, Some EOF} else snd x = None) \<and> reader_clean rs"
  by (auto simp: reader_clean_def)

lemma reader_content_simps [simp]:
  "reader_content [] = []" "reader_content (x # rs) = fst x @ reader_content rs"
  by (simp_all add: reader_content_def)

lemma read_loop_clean:
  assumes "reader_clean rs" "length acc \<le> sz" "sz \<le> length acc + length (reader_content rs)"
  shows "\<exists>rs'. read_loop sz acc rs = Inr (acc @ take (sz - length acc) (reader_content rs), rs')
     \<and> reader_content rs' = drop (sz - length acc) (reader_content rs) \<and> reader_clean rs'"
  using assms
proof (induction sz acc rs rule: read_loop.induct)
  case (1 sz acc rs)
  show ?case
  proof (cases "length acc < sz")
    case False
    then show ?thesis using "1.prems" by (subst read_loop.simps) simp
  next
    case True
    then obtain blk e rs0 where rs: "rs = (blk, e) # rs0"
      using "1.prems"(3) by (cases rs) auto
    show ?thesis
    proof (cases "sz - length acc < length blk")
      case part: True
      let ?acc = "acc @ take (sz - length acc) blk"
      have len: "length ?acc = sz" using part True by simp
      have "read_loop sz acc rs = read_loop sz ?acc ((drop (sz - length acc) blk, e) # rs0)"
        using True part by (subst read_loop.simps) (simp add: rs)
      also have "\<dots> = Inr (?acc, (drop (sz - length acc) blk, e) # rs0)"
        using len by (subst read_loop.simps) simp
      finally show ?thesis
        using part "1.prems"(1) by (auto simp: rs reader_clean_Cons)
    next
      case whole: False
      have clean: "reader_clean rs0" using "1.prems"(1) by (simp add: rs reader_clean_Cons)
      have e: "e = None \<or> (e = Some EOF \<and> rs0 = [])"
        using "1.prems"(1) by (auto simp: rs reader_clean_Cons split: if_splits)
      have full: "rs0 = [] \<Longrightarrow> length (acc @ blk) = sz"
        using "1.prems"(3) whole True by (simp add: rs)
      have le: "length (acc @ blk) \<le> sz" using whole True by simp
      have step: "read_loop sz acc rs = read_loop sz (acc @ blk) rs0"
        using True whole e full by (subst read_loop.simps) (auto simp: rs)
      have "\<exists>rs'. read_loop sz (acc @ blk) rs0 =
          Inr ((acc @ blk) @ take (sz - length (acc @ blk)) (reader_content rs0), rs')
          \<and> reader_content rs' = drop (sz - length (acc @ blk)) (reader_content rs0)
          \<and> reader_clean rs'"
        using e
      proof
        assume "e = None"
        then show ?thesis
          using "1.IH"(1) [OF True, of blk "(e, rs0)" e rs0] whole clean le "1.prems"(3)
          by (simp add: rs)
      next
        assume "e = Some EOF \<and> rs0 = []"
        then show ?thesis
          using full clean by (subst read_loop.simps) simp
      qed
      then show ?thesis
        unfolding step using whole by (simp add: rs)
    qed
  qed
qed

section \<open>Slices\<close>

lemma ceil_step: "(0::nat) < n \<Longrightarrow> 0 < t \<Longrightarrow> (n + t - 1) div t = Suc ((n - t + t - 1) div t)"
proof -
  assume a: "0 < n" "0 < t"
  show ?thesis
  proof (cases "n < t")
    case True
    then have "n + t - 1 = t + (n - 1)" "n - 1 < t" using a by simp_all
    moreover have "(t + (n - 1)) div t = (n - 1) div t + 1" using a by (intro div_add_self1) simp
    ultimately have "(n + t - 1) div t = 1" by (simp only: div_less)
    moreover have "(n - t + t - 1) div t = 0" using True a by simp
    ultimately show ?thesis by simp
  next
    case False
    then have "n + t - 1 = (n - t + t - 1) + t" using a by simp
    then show ?thesis using a by (metis Suc_eq_plus1 div_add_self2 less_numeral_extra(3))
  qed
qed

lemma less_ceil: "(0::nat) < t \<Longrightarrow> i < (n + t - 1) div t \<longleftrightarrow> i * t < n"
proof -
  assume t: "0 < t"
  have "i < (n + t - 1) div t \<longleftrightarrow> Suc i * t \<le> n + t - 1"
    using less_eq_div_iff_mult_less_eq [OF t, of "Suc i" "n + t - 1"] by (simp only: Suc_le_eq)
  also have "\<dots> \<longleftrightarrow> i * t < n" using t by auto
  finally show ?thesis .
qed

lemma blocks_Nil [simp]: "blocks t [] = []"
  by (simp add: blocks.simps)

lemma length_blocks: "0 < t \<Longrightarrow> length (blocks t xs) = (length xs + t - 1) div t"
proof (induction t xs rule: blocks.induct)
  case (1 t xs)
  show ?case
  proof (cases "xs = []")
    case True
    then show ?thesis using 1 by (simp add: blocks.simps)
  next
    case False
    then show ?thesis
      using 1 ceil_step [of "length xs" t] by (subst blocks.simps) simp
  qed
qed

lemma nth_blocks: "0 < t \<Longrightarrow> i * t < length xs \<Longrightarrow> blocks t xs ! i = take t (drop (i * t) xs)"
proof (induction t xs arbitrary: i rule: blocks.induct)
  case (1 t xs)
  then have ne: "xs \<noteq> []" by auto
  show ?case
  proof (cases i)
    case 0
    then show ?thesis using 1 ne by (subst blocks.simps) simp
  next
    case (Suc j)
    have "j * t < length (drop t xs)" using "1.prems" Suc by simp
    then have "blocks t (drop t xs) ! j = take t (drop (j * t) (drop t xs))"
      using "1.IH" "1.prems"(1) ne by simp
    then show ?thesis
      using "1.prems" ne Suc by (subst blocks.simps) (simp add: add.commute)
  qed
qed

lemma set_blocks_nonempty: "x \<in> set (blocks t xs) \<Longrightarrow> x \<noteq> [] \<and> length x \<le> t"
  by (induction t xs rule: blocks.induct) (subst (asm) (2) blocks.simps, auto split: if_splits)

lemma concat_blocks: "0 < t \<Longrightarrow> concat (blocks t xs) = xs"
  by (induction t xs rule: blocks.induct) (subst blocks.simps, simp)

lemma shrink_level:
  assumes "level T d t" "shrink (branches T) d t s = (d', t')" "0 < branches T"
  shows "level T d' t'"
  using assms
proof (induction d arbitrary: t)
  case 0
  then show ?case by (simp add: level_def)
next
  case (Suc d)
  show ?case
  proof (cases "s < int t")
    case False
    then show ?thesis using Suc.prems by auto
  next
    case True
    have "level T d (t div branches T)"
      using Suc.prems(1,3) by (cases d) (simp_all add: level_def)
    then show ?thesis using Suc True by simp
  qed
qed

lemma level_child:
  "level T d t \<Longrightarrow> 0 < d \<Longrightarrow> 0 < branches T \<Longrightarrow> level T (d - 1) (t div branches T)"
  by (cases "d - 1") (auto simp: level_def)

lemma level_pos: "level T d t \<Longrightarrow> 0 < d \<Longrightarrow> chunker_ok T \<Longrightarrow> 0 < t"
  by (auto simp: level_def chunker_ok_def hasher_ok_def)

section \<open>\<open>split\<close> computes the tree hash\<close>

definition splits_like_merkle :: "TreeChunker \<Rightarrow> nat option \<Rightarrow> nat \<Rightarrow> nat \<Rightarrow> bool" where
  "splits_like_merkle T swg d t \<longleftrightarrow>
     (\<forall>r sz. reader_clean r \<longrightarrow> sz \<le> length (reader_content r) \<longrightarrow>
       (\<exists>r'. split_tree T swg d t r sz =
            Inr (fst (merkle T swg d t (take sz (reader_content r))),
                 snd (merkle T swg d t (take sz (reader_content r))), r')
          \<and> reader_content r' = drop sz (reader_content r) \<and> reader_clean r'))"

lemma split_children_merkle:
  assumes "splits_like_merkle T swg (d - 1) (t div branches T)" "0 < d" "0 < t"
    "reader_clean r" "n = (sz - pos + t - 1) div t" "sz - pos \<le> length (reader_content r)"
  shows "\<exists>r'. split_children T swg d t r sz n pos =
      (let subs = map (merkle T swg (d - 1) (t div branches T))
                      (blocks t (take (sz - pos) (reader_content r)))
       in Inr (map fst subs, concat (map snd subs), r'))
    \<and> reader_content r' = drop (sz - pos) (reader_content r) \<and> reader_clean r'"
  using assms(4-6)
proof (induction n arbitrary: r pos)
  case 0
  then have "sz - pos = 0"
    using \<open>0 < t\<close> less_ceil [of t 0 "sz - pos"] by (metis mult_0 neq0_conv not_less_zero)
  then show ?case using 0 by (subst split_children.simps) (simp add: Let_def)
next
  case (Suc n)
  let ?rem = "sz - pos" and ?C = "reader_content r"
  define sec where "sec = (if ?rem < t then ?rem else t)"
  have rem: "0 < ?rem"
    using Suc.prems(2) less_ceil [OF \<open>0 < t\<close>, of 0 ?rem] by (metis mult_0 zero_less_Suc)
  have "sec \<le> length ?C" using Suc.prems(3) by (simp add: sec_def)
  then obtain r1 where r1: "split_tree T swg (d - 1) (t div branches T) r sec =
      Inr (fst (merkle T swg (d - 1) (t div branches T) (take sec ?C)),
           snd (merkle T swg (d - 1) (t div branches T) (take sec ?C)), r1)"
    and c1: "reader_content r1 = drop sec ?C" and "reader_clean r1"
    using assms(1) Suc.prems(1) unfolding splits_like_merkle_def by blast
  have rem': "sz - (pos + t) = ?rem - t" by simp
  have n: "n = (sz - (pos + t) + t - 1) div t"
    using Suc.prems(2) ceil_step [OF rem \<open>0 < t\<close>] unfolding rem' by simp
  have "sz - (pos + t) \<le> length (reader_content r1)"
    using Suc.prems(3) by (simp add: c1 sec_def) arith
  from Suc.IH [OF \<open>reader_clean r1\<close> n this] obtain r2 where
    r2: "split_children T swg d t r1 sz n (pos + t) =
      (let subs = map (merkle T swg (d - 1) (t div branches T))
                      (blocks t (take (?rem - t) (reader_content r1)))
       in Inr (map fst subs, concat (map snd subs), r2))"
    and c2: "reader_content r2 = drop (?rem - t) (reader_content r1)" and "reader_clean r2"
    unfolding rem' by blast
  have ne: "take ?rem ?C \<noteq> []" using rem Suc.prems(3) by auto
  have hd: "take t (take ?rem ?C) = take sec ?C"
    by (simp add: min_def sec_def)
  have tl: "drop t (take ?rem ?C) = take (?rem - t) (reader_content r1)"
    using c1 by (auto simp: drop_take sec_def)
  have bl: "blocks t (take ?rem ?C) = take sec ?C # blocks t (take (?rem - t) (reader_content r1))"
    using ne \<open>0 < t\<close> by (subst blocks.simps) (simp only: hd tl, simp)
  have "split_children T swg d t r sz (Suc n) pos =
      (let subs = map (merkle T swg (d - 1) (t div branches T)) (blocks t (take ?rem ?C))
       in Inr (map fst subs, concat (map snd subs), r2))"
    using \<open>0 < d\<close> by (subst split_children.simps) (simp add: Let_def bl
        r1 [unfolded One_nat_def] r2 [unfolded One_nat_def] flip: sec_def)
  moreover have "reader_content r2 = drop ?rem ?C"
    using c1 c2 by (auto simp: sec_def intro!: arg_cong2 [where f = drop])
  ultimately show ?case using \<open>reader_clean r2\<close> by blast
qed

lemma split_merkle:
  assumes "chunker_ok T" "level T d t"
  shows "splits_like_merkle T swg d t"
  using assms
proof (induction d arbitrary: t rule: less_induct)
  case (less d)
  show ?case
    unfolding splits_like_merkle_def
  proof (intro allI impI)
    fix r sz
    assume r: "reader_clean r" and sz: "sz \<le> length (reader_content r)"
    let ?data = "take sz (reader_content r)"
    obtain d' t' where sh: "shrink (branches T) d t (int sz) = (d', t')"
      by (cases "shrink (branches T) d t (int sz)")
    have len: "length ?data = sz" using sz by simp
    have br: "0 < branches T" using less.prems(1) by (simp add: chunker_ok_def)
    have lv: "level T d' t'" using shrink_level [OF less.prems(2) sh br] .
    show "\<exists>r'. split_tree T swg d t r sz =
            Inr (fst (merkle T swg d t ?data), snd (merkle T swg d t ?data), r')
          \<and> reader_content r' = drop sz (reader_content r) \<and> reader_clean r'"
    proof (cases "d' = 0")
      case True
      obtain r' where "read_loop sz [] r = Inr (?data, r')"
        and "reader_content r' = drop sz (reader_content r)" "reader_clean r'"
        using read_loop_clean [OF r, of "[]" sz] sz by auto
      then show ?thesis
        using True sh by (subst split_tree.simps, subst (1 2) merkle.simps)
          (simp only: len, simp add: level_chunk_def split: prod.splits)
    next
      case False
      have pos: "0 < t'" using level_pos lv False less.prems(1) by blast
      have "splits_like_merkle T swg (d' - 1) (t' div branches T)"
        using less.IH [of "d' - 1"] shrink_depth [OF sh] False level_child [OF lv _ br] less.prems(1)
        by fastforce
      from split_children_merkle [OF this _ pos r, of "(sz - 0 + t' - 1) div t'" sz 0] False sz
      obtain r' where "split_children T swg d' t' r sz ((sz + t' - 1) div t') 0 =
          (let subs = map (merkle T swg (d' - 1) (t' div branches T)) (blocks t' ?data)
           in Inr (map fst subs, concat (map snd subs), r'))"
        "reader_content r' = drop sz (reader_content r)" "reader_clean r'"
        by auto
      then show ?thesis
        using False sh by (subst split_tree.simps, subst (1 2) merkle.simps)
          (simp only: len, simp add: level_chunk_def Let_def split: prod.splits)
    qed
  qed
qed

section \<open>The depth search\<close>

lemma wrap64_id: "- (2 ^ 63) \<le> x \<Longrightarrow> x < 2 ^ 63 \<Longrightarrow> wrap64 x = x"
  by (simp add: wrap64_def)

lemma depth_loop_from:
  assumes "1 < br" "0 < cs" "k \<le> m" "sz \<le> cs * br ^ m" "cs * br ^ m < 2 ^ 63"
    "\<And>j. j < k \<Longrightarrow> cs * br ^ j < sz"
  shows "\<exists>d. d \<le> m \<and> depth_loop (int br) (int sz) (int (cs * br ^ k)) k = Some (d, int (cs * br ^ d))
     \<and> sz \<le> cs * br ^ d \<and> (\<forall>j<d. cs * br ^ j < sz)"
  using assms(3,6)
proof (induction "m - k" arbitrary: k)
  case 0
  then have "k = m" by simp
  have "\<not> int (cs * br ^ k) < int sz" using assms(4) \<open>k = m\<close>
    by (simp only: of_nat_less_iff not_less)
  then show ?case
    using 0 assms(4) \<open>k = m\<close> by (subst depth_loop.simps) auto
next
  case (Suc x)
  show ?case
  proof (cases "cs * br ^ k < sz")
    case False
    then have "\<not> int (cs * br ^ k) < int sz" by (simp only: of_nat_less_iff simp_thms)
    then show ?thesis
      using Suc.prems False by (subst depth_loop.simps) (auto simp: not_less)
  next
    case True
    have "k < m" using Suc.hyps(2) by simp
    have "cs * br ^ Suc k \<le> cs * br ^ m"
      using \<open>k < m\<close> assms(1) by (intro mult_le_mono2 power_increasing) auto
    then have "int (cs * br ^ Suc k) < 2 ^ 63" using assms(5)
      by (metis (mono_tags) le_less_trans of_nat_less_iff of_nat_numeral of_nat_power)
    then have "wrap64 (int (cs * br ^ k) * int br) = int (cs * br ^ Suc k)"
      by (subst wrap64_id) (auto simp: algebra_simps intro: order_trans [of _ 0])
    moreover have "int (cs * br ^ k) < int sz" using True by (simp only: of_nat_less_iff)
    ultimately have "depth_loop (int br) (int sz) (int (cs * br ^ k)) k =
        depth_loop (int br) (int sz) (int (cs * br ^ Suc k)) (Suc k)"
      by (subst depth_loop.simps) simp
    moreover have "\<And>j. j < Suc k \<Longrightarrow> cs * br ^ j < sz"
      using Suc.prems(2) True by (metis less_SucE)
    ultimately show ?thesis using Suc.hyps(1) [of "Suc k"] Suc.hyps(2) \<open>k < m\<close> by simp
  qed
qed

lemma depth_loop_total:
  assumes "1 < br" "0 < cs" "sz \<le> cs * br ^ m" "cs * br ^ m < 2 ^ 63"
  shows "\<exists>d\<le>m. depth_loop (int br) (int sz) (int cs) 0 = Some (d, int (cs * br ^ d))
     \<and> sz \<le> cs * br ^ d \<and> (\<forall>j<d. cs * br ^ j < sz)"
  using depth_loop_from [OF assms(1,2), of 0 m sz] assms(3,4) by auto

text \<open>Once the product has wrapped to zero the search never ends.\<close>

lemma depth_loop_zero_diverges:
  assumes "0 < sz"
  shows "depth_loop br sz 0 d = None"
proof (rule ccontr)
  assume "depth_loop br sz 0 d \<noteq> None"
  then obtain r where "depth_loop br sz 0 d = Some r" by auto
  then have "0 < sz \<longrightarrow> (0::int) \<noteq> 0"
  proof (rule depth_loop.raw_induct [where P = "\<lambda>br sz t d r. 0 < sz \<longrightarrow> t \<noteq> 0", rotated])
    fix f br sz t d r
    assume IH: "\<And>br sz t d r. f br sz t d = Some r \<Longrightarrow> 0 < sz \<longrightarrow> t \<noteq> (0::int)"
      and eq: "(if t < sz then f br sz (wrap64 (t * br)) (Suc d) else Some (d, t)) = Some r"
    show "0 < sz \<longrightarrow> t \<noteq> 0"
    proof (intro impI notI)
      assume "0 < sz" "t = 0"
      then have "f br sz 0 (Suc d) = Some r" using eq by (simp add: wrap64_id)
      then show False using IH \<open>0 < sz\<close> by blast
    qed
  qed
  then show False using assms by simp
qed

end
