(* ===== verification/Chunk_Join.thy ===== *)
theory Chunk_Join
  imports Chunker
begin

text \<open>
  \<open>storage/chunker.go\<close>, the joining half: the lazy reader \<open>TreeChunker.Join\<close> returns,
  which fetches the chunks of a document on demand. \<open>fetch key\<close> is what the retrieval side
  (the DPA's retrieve workers) leaves in the fields \<open>SData\<close> and \<open>Size\<close> of the request
  chunk before it closes the chunk's channel; \<open>(None, 0)\<close> where nothing was found.

  The goroutines of \<open>join\<close> write disjoint windows of the caller's buffer, so their order
  does not matter where all of them succeed; the model visits the children in order and
  stops at the first that fails. Slices are taken to have no spare capacity.
\<close>

type_synonym fetch = "Key \<Rightarrow> bytes option \<times> int"

record LazyChunkReader =
  lr_key :: Key
  lr_chunk :: "Chunk option"
  lr_off :: int
  lr_chunkSize :: nat
  lr_branches :: nat
  lr_hashSize :: nat

datatype join_error = RootChunkNotFound | ChunkNotFound | DepthNoReturn | ErrWhence | ErrOffset

definition sdata :: "Chunk \<Rightarrow> bytes" where
  "sdata c = (case ch_SData c of None \<Rightarrow> [] | Some d \<Rightarrow> d)"

definition TreeChunker_Join :: "TreeChunker \<Rightarrow> Key \<Rightarrow> LazyChunkReader" where
  "TreeChunker_Join T key = \<lparr>lr_key = key, lr_chunk = None, lr_off = 0,
     lr_chunkSize = chunkSize T, lr_branches = branches T, lr_hashSize = hashSize T\<rparr>"

definition retrieve :: "fetch \<Rightarrow> Key \<Rightarrow> Chunk option" where
  "retrieve fetch key =
     (let chunk = (NewChunk key None)\<lparr>ch_SData := fst (fetch key), ch_Size := snd (fetch key)\<rparr>
      in if length (sdata chunk) = 0 then None else Some chunk)"

definition LazyChunkReader_Size ::
    "fetch \<Rightarrow> LazyChunkReader \<Rightarrow> (join_error, int) go \<times> LazyChunkReader" where
  "LazyChunkReader_Size fetch R =
     (case lr_chunk R of
        Some c \<Rightarrow> (Ret (ch_Size c), R)
      | None \<Rightarrow>
          (case retrieve fetch (lr_key R) of
             None \<Rightarrow> (Err RootChunkNotFound, R)
           | Some c \<Rightarrow> (Ret (ch_Size c), R\<lparr>lr_chunk := Some c\<rparr>)))"

function join_tree :: "LazyChunkReader \<Rightarrow> fetch \<Rightarrow> bytes \<Rightarrow> nat \<Rightarrow> nat \<Rightarrow> nat \<Rightarrow> nat \<Rightarrow> Chunk
      \<Rightarrow> (join_error, bytes) go"
  and join_children :: "LazyChunkReader \<Rightarrow> fetch \<Rightarrow> bytes \<Rightarrow> nat \<Rightarrow> nat \<Rightarrow> nat \<Rightarrow> nat \<Rightarrow> Chunk
      \<Rightarrow> nat \<Rightarrow> nat \<Rightarrow> (join_error, bytes) go"
where
  "join_tree R fetch b off eoff depth0 treeSize0 chunk =
     (case shrink (lr_branches R) depth0 treeSize0 (ch_Size chunk) of (depth, treeSize) \<Rightarrow>
        if depth = 0 then
          (let extra = 8 + int eoff - int (length (sdata chunk));
               eoff' = (if extra > 0 then int eoff - extra else int eoff)
           in if eoff' < int off then Panic
              else Ret (go_copy b (take (nat eoff' - off) (drop (8 + off) (sdata chunk)))))
        else if treeSize = 0 then Panic
        else
          (let start = off div treeSize; end' = (eoff + treeSize - 1) div treeSize
           in join_children R fetch b off eoff depth treeSize chunk start (end' - start)))"
| "join_children R fetch b off eoff depth treeSize chunk i n =
     (if n = 0 \<or> depth = 0 then Ret b
      else
        (let roff = i * treeSize;
             soff = (if roff < off then off else roff);
             seoff = (if roff + treeSize > eoff then eoff else roff + treeSize)
         in if length (sdata chunk) < 8 + (i + 1) * lr_hashSize R then Panic
            else case retrieve fetch (take (lr_hashSize R) (drop (8 + i * lr_hashSize R) (sdata chunk))) of
              None \<Rightarrow> Err ChunkNotFound
            | Some c \<Rightarrow>
                if seoff < soff \<or> length b < seoff - off then Panic
                else
                  (case join_tree R fetch (take (seoff - soff) (drop (soff - off) b))
                          (soff - roff) (seoff - roff) (depth - 1) (treeSize div lr_branches R) c of
                     Err e \<Rightarrow> Err e
                   | Panic \<Rightarrow> Panic
                   | Ret w \<Rightarrow> join_children R fetch (slice_put b (soff - off) w) off eoff depth
                               treeSize chunk (Suc i) (n - 1))))"
  by pat_completeness auto
termination
  by (relation "measures
      [\<lambda>x. case x of Inl (R, f, b, off, eoff, d, t, c) \<Rightarrow> 2 * d + 1
                   | Inr (R, f, b, off, eoff, d, t, c, i, n) \<Rightarrow> 2 * d,
       \<lambda>x. case x of Inl (R, f, b, off, eoff, d, t, c) \<Rightarrow> 0
                   | Inr (R, f, b, off, eoff, d, t, c, i, n) \<Rightarrow> n]")
     (auto dest!: shrink_depth [OF sym])

declare join_tree.simps [simp del] join_children.simps [simp del]

text \<open>
  \<open>ReadAt\<close>: the number of bytes reported, the buffer after the call and the error that
  comes with them (\<open>EOF\<close> at the end of the document). The reader remembers the root chunk.
\<close>

definition LazyChunkReader_ReadAt ::
    "fetch \<Rightarrow> LazyChunkReader \<Rightarrow> bytes \<Rightarrow> nat
      \<Rightarrow> (join_error, nat \<times> bytes \<times> io_error option) go \<times> LazyChunkReader" where
  "LazyChunkReader_ReadAt fetch R b off =
     (if length b = 0 then (Ret (0, b, None), R)
      else case LazyChunkReader_Size fetch R of
        (Err e, R') \<Rightarrow> (Err e, R')
      | (Panic, R') \<Rightarrow> (Panic, R')
      | (Ret sz, R') \<Rightarrow>
          (case depth_loop (int (lr_branches R)) sz (int (lr_chunkSize R)) 0 of
             None \<Rightarrow> (Err DepthNoReturn, R')
           | Some (depth, treeSize) \<Rightarrow>
               if lr_branches R = 0 then (Panic, R')
               else (case lr_chunk R' of
                  None \<Rightarrow> (Panic, R')
                | Some c \<Rightarrow>
                    (case join_tree R' fetch b off (off + length b) depth
                            (nat treeSize div lr_branches R) c of
                       Err e \<Rightarrow> (Err e, R')
                     | Panic \<Rightarrow> (Panic, R')
                     | Ret b' \<Rightarrow>
                         (Ret (length b, b', if int off + int (length b) \<ge> sz then Some EOF else None),
                          R')))))"

text \<open>
  \<open>Read\<close> reads at the cursor and advances it by the reported count; the cursor is never
  negative (\<open>Seek\<close> refuses to make it so).
\<close>

definition LazyChunkReader_Read ::
    "fetch \<Rightarrow> LazyChunkReader \<Rightarrow> bytes
      \<Rightarrow> (join_error, nat \<times> bytes \<times> io_error option) go \<times> LazyChunkReader" where
  "LazyChunkReader_Read fetch R b =
     (case LazyChunkReader_ReadAt fetch R b (nat (lr_off R)) of
        (Ret (n, b', err), R') \<Rightarrow> (Ret (n, b', err), R'\<lparr>lr_off := lr_off R' + int n\<rparr>)
      | (Err e, R') \<Rightarrow> (Err e, R')
      | (Panic, R') \<Rightarrow> (Panic, R'))"

definition LazyChunkReader_Seek ::
    "fetch \<Rightarrow> LazyChunkReader \<Rightarrow> int \<Rightarrow> int \<Rightarrow> (join_error, int) go \<times> LazyChunkReader" where
  "LazyChunkReader_Seek fetch R offset whence =
     (if whence = 0 then
        (if offset < 0 then (Err ErrOffset, R) else (Ret offset, R\<lparr>lr_off := offset\<rparr>))
      else if whence = 1 then
        (let offset' = offset + lr_off R in
         if offset' < 0 then (Err ErrOffset, R) else (Ret offset', R\<lparr>lr_off := offset'\<rparr>))
      else if whence = 2 then
        (case LazyChunkReader_Size fetch R of
           (Err e, R') \<Rightarrow> (Err e, R')
         | (Panic, R') \<Rightarrow> (Panic, R')
         | (Ret sz, R') \<Rightarrow>
             (let offset' = offset + sz in
              if offset' < 0 then (Err ErrOffset, R') else (Ret offset', R'\<lparr>lr_off := offset'\<rparr>)))
      else (Err ErrWhence, R))"

section \<open>Joining inverts splitting\<close>

text \<open>The retrieval side delivers a chunk as it was emitted.\<close>

definition serves :: "fetch \<Rightarrow> Chunk list \<Rightarrow> bool" where
  "serves fetch cs \<longleftrightarrow> (\<forall>c \<in> set cs. fetch (ch_Key c) = (ch_SData c, ch_Size c))"

lemma serves_append [simp]: "serves f (xs @ ys) \<longleftrightarrow> serves f xs \<and> serves f ys"
  by (auto simp: serves_def)

lemma serves_concat [simp]: "serves f (concat xss) \<longleftrightarrow> (\<forall>xs \<in> set xss. serves f xs)"
  by (auto simp: serves_def)

lemma level_chunk_simps:
  assumes "chunker_ok T"
  shows "fst (level_chunk T swg n body) = ch_Key (snd (level_chunk T swg n body))"
    "length (fst (level_chunk T swg n body)) = hashSize T"
    "ch_SData (snd (level_chunk T swg n body)) = Some (LittleEndian_PutUint64 (of_nat n) @ body)"
    "ch_Size (snd (level_chunk T swg n body)) = int n"
  using assms by (simp_all add: level_chunk_def hashChunk_def Let_def NewChunk_def chunker_ok_def
      hasher_ok_def)

text \<open>What a request for the root of a tree receives.\<close>

definition root_reply :: "TreeChunker \<Rightarrow> nat option \<Rightarrow> nat \<Rightarrow> nat \<Rightarrow> bytes \<Rightarrow> Chunk option \<Rightarrow> bool" where
  "root_reply T swg d t data r \<longleftrightarrow>
     (\<exists>c. r = Some c \<and> ch_Size c = int (length data) \<and>
       ch_SData c = ch_SData (last (snd (merkle T swg d t data))))"

lemma merkle_leaf:
  assumes "shrink (branches T) d t (int (length data)) = (0, t')"
  shows "merkle T swg d t data =
    (fst (level_chunk T swg (length data) data), [snd (level_chunk T swg (length data) data)])"
  using assms by (subst merkle.simps) (simp split: prod.splits)

lemma merkle_inner:
  assumes "shrink (branches T) d t (int (length data)) = (d', t')" "0 < d'"
    "subs = map (merkle T swg (d' - 1) (t' div branches T)) (blocks t' data)"
  shows "merkle T swg d t data =
    (fst (level_chunk T swg (length data) (concat (map fst subs))),
     concat (map snd subs) @ [snd (level_chunk T swg (length data) (concat (map fst subs)))])"
  using assms by (subst merkle.simps) (simp add: Let_def split: prod.splits)

lemma merkle_root:
  obtains body cs where "merkle T swg d t data =
    (fst (level_chunk T swg (length data) body), cs @ [snd (level_chunk T swg (length data) body)])"
proof -
  obtain d' t' where sh: "shrink (branches T) d t (int (length data)) = (d', t')"
    by (cases "shrink (branches T) d t (int (length data))")
  show ?thesis
  proof (cases "d' = 0")
    case True
    show ?thesis
      by (rule that [of data "[]"]) (use merkle_leaf sh True in simp)
  next
    case False
    show ?thesis
      by (rule that, rule merkle_inner [OF sh _ refl]) (use False in simp)
  qed
qed

lemma merkle_nonempty: "snd (merkle T swg d t data) \<noteq> []"
  by (rule merkle_root [of T swg d t data]) simp

lemma merkle_key:
  assumes "chunker_ok T"
  shows "fst (merkle T swg d t data) = ch_Key (last (snd (merkle T swg d t data)))"
    and "length (fst (merkle T swg d t data)) = hashSize T"
    and "ch_Size (last (snd (merkle T swg d t data))) = int (length data)"
    and "\<exists>body. ch_SData (last (snd (merkle T swg d t data))) =
           Some (LittleEndian_PutUint64 (of_nat (length data)) @ body)"
proof -
  obtain body cs where m: "merkle T swg d t data =
    (fst (level_chunk T swg (length data) body), cs @ [snd (level_chunk T swg (length data) body)])"
    by (rule merkle_root)
  note lc = level_chunk_simps [OF assms, of swg "length data" body]
  show "fst (merkle T swg d t data) = ch_Key (last (snd (merkle T swg d t data)))"
    "length (fst (merkle T swg d t data)) = hashSize T"
    "ch_Size (last (snd (merkle T swg d t data))) = int (length data)"
    "\<exists>body. ch_SData (last (snd (merkle T swg d t data))) =
       Some (LittleEndian_PutUint64 (of_nat (length data)) @ body)"
    using lc by (simp_all add: m)
qed

lemma retrieve_served:
  assumes "chunker_ok T" "serves f (snd (merkle T swg d t data))"
  shows "root_reply T swg d t data (retrieve f (fst (merkle T swg d t data)))"
proof -
  let ?c = "last (snd (merkle T swg d t data))"
  have "f (ch_Key ?c) = (ch_SData ?c, ch_Size ?c)"
    using assms(2) merkle_nonempty unfolding serves_def by (metis last_in_set)
  moreover obtain body where "ch_SData ?c = Some (LittleEndian_PutUint64 (of_nat (length data)) @ body)"
    using merkle_key(4) [OF assms(1)] by blast
  ultimately show ?thesis
    using merkle_key(1,3) [OF assms(1), of swg d t data]
    by (simp add: retrieve_def root_reply_def sdata_def Let_def NewChunk_def)
qed

text \<open>Keys laid end to end in an inner chunk are found at multiples of the key length.\<close>

lemma nth_concat_fixed:
  "(\<forall>k \<in> set ks. length k = h) \<Longrightarrow> i < length ks \<Longrightarrow> take h (drop (i * h) (concat ks)) = ks ! i"
proof (induction ks arbitrary: i)
  case (Cons k ks)
  then show ?case by (cases i) simp_all
qed simp

lemma length_concat_fixed: "(\<forall>k \<in> set ks. length k = h) \<Longrightarrow> length (concat ks) = length ks * h"
  by (induction ks) auto

definition joins_data :: "TreeChunker \<Rightarrow> nat option \<Rightarrow> LazyChunkReader \<Rightarrow> fetch \<Rightarrow> nat \<Rightarrow> nat \<Rightarrow> bytes \<Rightarrow> bool"
where
  "joins_data T swg R f d t data \<longleftrightarrow>
     (\<forall>b off c. off + length b \<le> length data \<longrightarrow>
        root_reply T swg d t data (Some c) \<longrightarrow>
        join_tree R f b off (off + length b) d t c = Ret (take (length b) (drop off data)))"

text \<open>
  The loop over the children: after child \<open>i - 1\<close> the buffer is right up to document
  position \<open>i * treeSize\<close>.
\<close>

lemma join_children_data:
  assumes ok: "chunker_ok T" and R: "lr_branches R = branches T" "lr_hashSize R = hashSize T"
    and d: "0 < d" and t: "0 < t"
    and sub: "\<And>i. i < length (blocks t data) \<Longrightarrow>
        serves f (snd (merkle T swg (d - 1) (t div branches T) (blocks t data ! i))) \<and>
        joins_data T swg R f (d - 1) (t div branches T) (blocks t data ! i)"
    and sd: "sdata chunk = LittleEndian_PutUint64 (of_nat (length data)) @
        concat (map (fst \<circ> merkle T swg (d - 1) (t div branches T)) (blocks t data))"
    and b: "off + length b = eoff" "eoff \<le> length data"
    and i: "i + n = (eoff + t - 1) div t" "off div t \<le> i"
  shows "join_children R f b off eoff d t chunk i n =
     Ret (take (i * t - off) b @ drop (i * t - off) (take (length b) (drop off data)))"
  using b i
proof (induction n arbitrary: i b)
  case 0
  have "\<not> i * t < eoff" using less_ceil [OF t, of i eoff] 0 by simp
  then have "length b \<le> i * t - off" using 0 by simp
  then show ?case using 0 by (subst join_children.simps) simp
next
  case (Suc n)
  let ?ks = "map (fst \<circ> merkle T swg (d - 1) (t div branches T)) (blocks t data)"
  let ?h = "hashSize T"
  have it: "i * t < eoff" using less_ceil [OF t, of i eoff] Suc.prems(3) by linarith
  then have itd: "i * t < length data" using Suc.prems(2) by simp
  then have ib: "i < length (blocks t data)" using less_ceil [OF t, of i] length_blocks [OF t, of data]
    by metis
  define roff where "roff = i * t"
  define soff where "soff = (if roff < off then off else roff)"
  define seoff where "seoff = (if roff + t > eoff then eoff else roff + t)"
  have off: "off < roff + t"
    using Suc.prems(4) t unfolding roff_def
    by (metis add.commute div_less_iff_less_mult less_Suc_eq_le mult_Suc)
  have rng: "off \<le> soff" "roff \<le> soff" "soff \<le> seoff" "seoff \<le> eoff" "seoff \<le> roff + t"
    using off it Suc.prems(1) unfolding soff_def seoff_def roff_def by auto
  have kl: "\<forall>k \<in> set ?ks. length k = ?h" using merkle_key(2) [OF ok] by auto
  have key: "take ?h (drop (8 + i * ?h) (sdata chunk)) =
      fst (merkle T swg (d - 1) (t div branches T) (blocks t data ! i))"
    using nth_concat_fixed [OF kl, of i] ib by (simp add: sd)
  have len: "\<not> length (sdata chunk) < 8 + (i + 1) * ?h"
  proof -
    have "Suc i * ?h \<le> length (blocks t data) * ?h" using ib by (intro mult_le_mono1) simp
    then show ?thesis using length_concat_fixed [OF kl] by (simp add: sd)
  qed
  obtain c where c: "retrieve f (fst (merkle T swg (d - 1) (t div branches T) (blocks t data ! i))) = Some c"
    "root_reply T swg (d - 1) (t div branches T) (blocks t data ! i) (Some c)"
    using retrieve_served [OF ok] sub [OF ib] unfolding root_reply_def by metis
  define w where "w = take (seoff - soff) (drop soff data)"
  have blk: "blocks t data ! i = take t (drop roff data)"
    unfolding roff_def using nth_blocks [OF t itd] .
  have lw: "length (take (seoff - soff) (drop (soff - off) b)) = seoff - soff"
    using rng Suc.prems(1) by simp
  have fit: "soff - roff + (seoff - soff) \<le> length (blocks t data ! i)"
    using rng Suc.prems(2) by (simp add: blk) linarith
  have "soff - roff + (seoff - soff) = seoff - roff" using rng by simp
  then have "join_tree R f (take (seoff - soff) (drop (soff - off) b)) (soff - roff) (seoff - roff)
        (d - 1) (t div branches T) c = Ret (take (seoff - soff) (drop (soff - roff) (blocks t data ! i)))"
    using sub [OF ib] c(2) lw fit unfolding joins_data_def by metis
  also have "take (seoff - soff) (drop (soff - roff) (blocks t data ! i)) = w"
    using rng by (simp add: blk w_def drop_take)
  finally have child: "join_tree R f (take (seoff - soff) (drop (soff - off) b)) (soff - roff)
      (seoff - roff) (d - 1) (t div branches T) c = Ret w" .
  have lenw: "length w = seoff - soff" using rng Suc.prems(2) by (simp add: w_def)
  have lb: "soff - off + length w \<le> length b" using rng Suc.prems(1) lenw by simp
  have g: "\<not> (seoff < soff \<or> length b < seoff - off)" using rng Suc.prems(1) by auto
  define b' where "b' = slice_put b (soff - off) w"
  have lb': "length b' = length b" unfolding b'_def using lb by simp
  have "join_children R f b off eoff d t chunk i (Suc n) = join_children R f b' off eoff d t chunk (Suc i) n"
    using d len key c(1) child g unfolding b'_def
    by (subst join_children.simps)
      (simp add: Let_def R sd flip: roff_def soff_def seoff_def)
  also have "\<dots> = Ret (take (Suc i * t - off) b' @ drop (Suc i * t - off) (take (length b) (drop off data)))"
    using Suc.IH [of b' "Suc i"] Suc.prems lb' by simp
  also have "take (Suc i * t - off) b' @ drop (Suc i * t - off) (take (length b) (drop off data)) =
      take (i * t - off) b @ drop (i * t - off) (take (length b) (drop off data))" (is "?l = ?r")
  proof (rule nth_equalityI)
    show "length ?l = length ?r" using lb' Suc.prems(1,2) by simp
    fix k
    assume k: "k < length ?l"
    have kb: "k < length b" using k lb' Suc.prems(1,2) by simp
    show "?l ! k = ?r ! k"
      using kb lb' Suc.prems(1,2) rng lenw lb
      unfolding b'_def
      by (auto simp: nth_append nth_slice_put w_def soff_def seoff_def roff_def
          intro!: arg_cong [where f = "(!) data"] split: if_splits)
  qed
  finally show ?case .
qed

lemma sdata_reply:
  assumes "root_reply T swg d t data (Some c)"
    "last (snd (merkle T swg d t data)) = snd (level_chunk T swg (length data) body)" "chunker_ok T"
  shows "sdata c = LittleEndian_PutUint64 (of_nat (length data)) @ body"
  using assms level_chunk_simps(3) [OF assms(3), of swg "length data" body]
  by (simp add: root_reply_def sdata_def)

lemma join_merkle:
  assumes ok: "chunker_ok T" and R: "lr_branches R = branches T" "lr_hashSize R = hashSize T"
    and "level T d t" "serves f (snd (merkle T swg d t data))"
  shows "joins_data T swg R f d t data"
  using assms(4,5)
proof (induction d arbitrary: t data rule: less_induct)
  case (less d)
  obtain d' t' where sh: "shrink (branches T) d t (int (length data)) = (d', t')"
    by (cases "shrink (branches T) d t (int (length data))")
  have br: "0 < branches T" using ok by (simp add: chunker_ok_def)
  have lv: "level T d' t'" using shrink_level [OF less.prems(1) sh br] .
  show ?case
    unfolding joins_data_def
  proof (intro allI impI)
    fix b :: bytes and off c
    assume off: "off + length b \<le> length data" and c: "root_reply T swg d t data (Some c)"
    have cs: "ch_Size c = int (length data)" using c by (simp add: root_reply_def)
    show "join_tree R f b off (off + length b) d t c = Ret (take (length b) (drop off data))"
    proof (cases "d' = 0")
      case True
      have "last (snd (merkle T swg d t data)) = snd (level_chunk T swg (length data) data)"
        using merkle_leaf [of T d t data t' swg] sh True by simp
      then have sd: "sdata c = LittleEndian_PutUint64 (of_nat (length data)) @ data"
        by (rule sdata_reply [OF c _ ok])
      show ?thesis
        using sh True off
        by (subst join_tree.simps) (simp add: R cs sd Let_def nat_add_distrib)
    next
      case False
      have t': "0 < t'" using level_pos lv False ok by blast
      define subs where "subs = map (merkle T swg (d' - 1) (t' div branches T)) (blocks t' data)"
      note m = merkle_inner [OF sh _ subs_def]
      have sd: "sdata c = LittleEndian_PutUint64 (of_nat (length data)) @
          concat (map (fst \<circ> merkle T swg (d' - 1) (t' div branches T)) (blocks t' data))"
        using sdata_reply [OF c _ ok, of "concat (map fst subs)"] m False by (simp add: subs_def)
      have sv: "serves f (concat (map snd subs))" using less.prems(2) m False by simp
      have sub: "serves f (snd (merkle T swg (d' - 1) (t' div branches T) (blocks t' data ! i))) \<and>
          joins_data T swg R f (d' - 1) (t' div branches T) (blocks t' data ! i)"
        if "i < length (blocks t' data)" for i
      proof -
        have s: "serves f (snd (merkle T swg (d' - 1) (t' div branches T) (blocks t' data ! i)))"
          using sv that by (auto simp: subs_def)
        have "d' - 1 < d" using shrink_depth [OF sh] False by simp
        then show ?thesis using less.IH level_child [OF lv _ br] False s by simp
      qed
      have "off div t' \<le> (off + length b + t' - 1) div t'"
        using t' by (intro div_le_mono) simp
      then have "join_children R f b off (off + length b) d' t' c (off div t')
          ((off + length b + t' - 1) div t' - off div t') =
          Ret (take (off div t' * t' - off) b @
               drop (off div t' * t' - off) (take (length b) (drop off data)))"
        using False by (intro join_children_data [OF ok R _ t' sub sd refl off]) auto
      moreover have "off div t' * t' - off = 0" by simp
      ultimately show ?thesis
        using sh False t' by (subst join_tree.simps) (simp add: R cs Let_def)
    qed
  qed
qed

section \<open>Reading a stored document\<close>

lemma Split_merkle:
  assumes "chunker_ok T" "1 < branches T" "reader_clean r"
    "sz = length (reader_content r)" "sz \<le> chunkSize T * branches T ^ m"
    "chunkSize T * branches T ^ m < 2 ^ 63"
  shows "\<exists>d. depth_loop (int (branches T)) (int sz) (int (chunkSize T)) 0 =
        Some (d, int (chunkSize T * branches T ^ d))
      \<and> sz \<le> chunkSize T * branches T ^ d \<and> (\<forall>j<d. chunkSize T * branches T ^ j < sz)
      \<and> level T d (chunkSize T * branches T ^ d div branches T)
      \<and> TreeChunker_Split T swg r sz =
         Ret (merkle T swg d (chunkSize T * branches T ^ d div branches T) (reader_content r))"
proof -
  have cs: "0 < chunkSize T" using assms(1,2) by (auto simp: chunker_ok_def hasher_ok_def)
  obtain d where d: "depth_loop (int (branches T)) (int sz) (int (chunkSize T)) 0 =
      Some (d, int (chunkSize T * branches T ^ d))"
    and fit: "sz \<le> chunkSize T * branches T ^ d" "\<forall>j<d. chunkSize T * branches T ^ j < sz"
    using depth_loop_total [OF assms(2) cs assms(5,6)] by blast
  let ?t = "chunkSize T * branches T ^ d div branches T"
  have lv: "level T d ?t" using assms(2) by (cases d) (simp_all add: level_def)
  have "\<exists>r'. split_tree T swg d ?t r sz =
      Inr (fst (merkle T swg d ?t (reader_content r)), snd (merkle T swg d ?t (reader_content r)), r')"
    using split_merkle [OF assms(1) lv, of swg] assms(3,4) unfolding splits_like_merkle_def
    by fastforce
  then have "TreeChunker_Split T swg r sz = Ret (merkle T swg d ?t (reader_content r))"
    using d cs assms(2) by (auto simp: TreeChunker_Split_def nat_mult_distrib nat_power_eq)
  then show ?thesis using d lv fit by blast
qed

lemma ReadAt_slice:
  assumes ok: "chunker_ok T" "1 < branches T" and r: "reader_clean r"
    and sz: "sz = length (reader_content r)" "sz \<le> chunkSize T * branches T ^ m"
      "chunkSize T * branches T ^ m < 2 ^ 63"
    and split: "TreeChunker_Split T swg r sz = Ret (key, cs)"
    and serves: "serves f cs" and b: "b \<noteq> []" "off + length b \<le> sz"
  shows "fst (LazyChunkReader_ReadAt f (TreeChunker_Join T key) b off) =
    Ret (length b, take (length b) (drop off (reader_content r)),
         if off + length b = sz then Some EOF else None)"
proof -
  let ?data = "reader_content r" and ?R = "TreeChunker_Join T key"
  obtain d where d: "depth_loop (int (branches T)) (int sz) (int (chunkSize T)) 0 =
        Some (d, int (chunkSize T * branches T ^ d))"
    and lv: "level T d (chunkSize T * branches T ^ d div branches T)"
    and sp: "TreeChunker_Split T swg r sz =
         Ret (merkle T swg d (chunkSize T * branches T ^ d div branches T) ?data)"
    using Split_merkle [OF ok r sz(1) sz(2,3)] by blast
  let ?t = "chunkSize T * branches T ^ d div branches T"
  have m: "merkle T swg d ?t ?data = (key, cs)" using sp split by simp
  obtain c where c: "retrieve f key = Some c" "root_reply T swg d ?t ?data (Some c)"
    using retrieve_served [OF ok(1), of f swg d ?t ?data] serves m
    unfolding root_reply_def by auto
  have cz: "ch_Size c = int sz" using c(2) sz(1) by (simp add: root_reply_def)
  let ?R' = "?R\<lparr>lr_chunk := Some c\<rparr>"
  have "joins_data T swg ?R' f d ?t ?data"
    using serves m by (intro join_merkle [OF ok(1) _ _ lv]) (simp_all add: TreeChunker_Join_def)
  then have j: "join_tree ?R' f b off (off + length b) d ?t c = Ret (take (length b) (drop off ?data))"
    using c(2) b(2) sz(1) unfolding joins_data_def by blast
  have nt: "nat (int (chunkSize T * branches T ^ d)) div branches T = ?t"
    by (simp only: nat_int)
  have sR: "LazyChunkReader_Size f ?R = (Ret (int sz), ?R')"
    using c(1) cz by (simp add: LazyChunkReader_Size_def TreeChunker_Join_def)
  have lr: "lr_branches ?R = branches T" "lr_chunkSize ?R = chunkSize T" "lr_chunk ?R' = Some c"
    by (simp_all add: TreeChunker_Join_def)
  show ?thesis
    using b ok(2) j
    by (auto simp del: of_nat_mult of_nat_power simp: LazyChunkReader_ReadAt_def sR lr d nt Let_def)
qed

section \<open>Bounds\<close>

text \<open>No emitted chunk holds more than \<open>chunkSize\<close> bytes after its eight-byte length.\<close>

lemma shrink_fits:
  assumes "level T d t" "shrink (branches T) d t (int n) = (d', t')"
    "n \<le> chunkSize T * branches T ^ d" "0 < branches T"
  shows "n \<le> chunkSize T * branches T ^ d'"
  using assms
proof (induction d arbitrary: t)
  case (Suc d)
  show ?case
  proof (cases "int n < int t")
    case False
    then show ?thesis using Suc.prems by auto
  next
    case True
    then have "n \<le> chunkSize T * branches T ^ d" using Suc.prems(1) by (simp add: level_def)
    moreover have "level T d (t div branches T)"
      using Suc.prems(1,4) by (cases d) (simp_all add: level_def)
    ultimately show ?thesis using Suc True by simp
  qed
qed simp

lemma merkle_chunk_bound:
  assumes "chunker_ok T" "level T d t" "length data \<le> chunkSize T * branches T ^ d"
    "c \<in> set (snd (merkle T swg d t data))"
  shows "length (sdata c) \<le> 8 + chunkSize T"
  using assms(2-4)
proof (induction d arbitrary: t data rule: less_induct)
  case (less d)
  obtain d' t' where sh: "shrink (branches T) d t (int (length data)) = (d', t')"
    by (cases "shrink (branches T) d t (int (length data))")
  have br: "0 < branches T" using assms(1) by (simp add: chunker_ok_def)
  have lv: "level T d' t'" using shrink_level [OF less.prems(1) sh br] .
  have fits: "length data \<le> chunkSize T * branches T ^ d'"
    using shrink_fits [OF less.prems(1) sh less.prems(2) br] .
  have lc: "length (sdata (snd (level_chunk T swg n body))) = 8 + length body" for n body
    using level_chunk_simps(3) [OF assms(1), of swg n body] by (simp add: sdata_def)
  show ?case
  proof (cases "d' = 0")
    case True
    then show ?thesis
      using merkle_leaf [of T d t data t' swg] sh less.prems(3) fits by (auto simp: lc)
  next
    case False
    have t': "0 < t'" using level_pos lv False assms(1) by blast
    define subs where "subs = map (merkle T swg (d' - 1) (t' div branches T)) (blocks t' data)"
    note m = merkle_inner [OF sh _ subs_def]
    have tt: "t' = chunkSize T * branches T ^ (d' - 1)" using lv False by (simp add: level_def)
    have "length (blocks t' data) \<le> branches T"
    proof -
      have "chunkSize T * branches T ^ d' = t' * branches T"
        using False tt by (cases d') simp_all
      then have "\<not> branches T * t' < length data" using fits by (simp add: mult.commute)
      then show ?thesis
        using less_ceil [OF t', of "branches T" "length data"] length_blocks [OF t', of data]
        by (metis not_less)
    qed
    moreover have "\<forall>k \<in> set (map fst subs). length k = hashSize T"
      using merkle_key(2) [OF assms(1)] by (auto simp: subs_def)
    ultimately have inner: "length (concat (map fst subs)) \<le> chunkSize T"
      using assms(1) length_concat_fixed [of "map fst subs" "hashSize T"]
      by (simp add: subs_def chunker_ok_def mult.commute)
    consider "c = snd (level_chunk T swg (length data) (concat (map fst subs)))"
      | x where "x \<in> set (blocks t' data)"
          "c \<in> set (snd (merkle T swg (d' - 1) (t' div branches T) x))"
      using less.prems(3) m False by (auto simp: subs_def)
    then show ?thesis
    proof cases
      case 1
      then show ?thesis using inner by (simp add: lc)
    next
      case 2
      have "length x \<le> chunkSize T * branches T ^ (d' - 1)"
        using set_blocks_nonempty [OF 2(1)] tt by simp
      moreover have "d' - 1 < d" using shrink_depth [OF sh] False by simp
      ultimately show ?thesis using less.IH level_child [OF lv _ br] False 2(2) by simp
    qed
  qed
qed

section \<open>Properties\<close>

text \<open>A small chunker for concrete runs: one-byte digests, four branches, four-byte chunks.\<close>

definition toy_hasher :: Hasher where
  "toy_hasher = \<lparr>h_Size = 1, h_Sum = (\<lambda>x. [foldl (\<lambda>a b. 5 * a + b) 7 x])\<rparr>"

definition toy_chunker :: TreeChunker where
  "toy_chunker = \<lparr>branches = 4, hashFunc = toy_hasher, hashSize = 1, chunkSize = 4, workerCount = 1\<rparr>"

definition toy_reader :: reader where
  "toy_reader = [([1, 2, 3], None), ([], None), ([4, 5, 6, 7, 8, 9], None), ([10], Some EOF)]"

definition toy_chunks :: "Chunk list" where
  "toy_chunks = (case TreeChunker_Split toy_chunker None toy_reader 10 of Ret (k, cs) \<Rightarrow> cs | _ \<Rightarrow> [])"

definition toy_key :: Key where
  "toy_key = (case TreeChunker_Split toy_chunker None toy_reader 10 of Ret (k, cs) \<Rightarrow> k | _ \<Rightarrow> [])"

definition toy_fetch :: fetch where
  "toy_fetch k = (case find (\<lambda>c. ch_Key c = k) toy_chunks of
     Some c \<Rightarrow> (ch_SData c, ch_Size c) | None \<Rightarrow> (None, 0))"

lemma toy_chunker_ok: "chunker_ok toy_chunker"
  by (simp add: chunker_ok_def toy_chunker_def hasher_ok_def toy_hasher_def)

lemma toy_split:
  "TreeChunker_Split toy_chunker None toy_reader 10 = Ret (toy_key, toy_chunks)"
  by code_simp

lemma toy_branches: "1 < branches toy_chunker"
  by (simp add: toy_chunker_def)

lemma toy_reader_clean: "reader_clean toy_reader"
  by (simp add: toy_reader_def reader_clean_def)

lemma toy_length: "length toy_chunks = 4"
  by code_simp

lemma toy_serves: "serves toy_fetch toy_chunks"
  by code_simp

text \<open>
  C5: splitting a document of \<open>sz\<close> bytes emits the chunks of its tree hash. The depth is the
  least one whose capacity \<open>chunkSize * branches ^ depth\<close> holds the document, however the
  reader cuts the data into blocks. The bound by \<open>2 ^ 63\<close> keeps the depth search inside
  \<open>int64\<close>.
\<close>

theorem split_emits_tree_hash:
  assumes "chunker_ok T" "1 < branches T" "reader_clean r"
    "sz = length (reader_content r)" "sz \<le> chunkSize T * branches T ^ m"
    "chunkSize T * branches T ^ m < 2 ^ 63"
  shows "\<exists>d. sz \<le> chunkSize T * branches T ^ d \<and> (\<forall>j<d. chunkSize T * branches T ^ j < sz)
      \<and> TreeChunker_Split T swg r sz =
         Ret (merkle T swg d (chunkSize T * branches T ^ d div branches T) (reader_content r))"
  using Split_merkle [OF assms] by blast

theorem split_emits_tree_hash_witness:
  "\<exists>d. 10 \<le> 4 * (4::nat) ^ d \<and> (\<forall>j<d. 4 * (4::nat) ^ j < 10)
      \<and> TreeChunker_Split toy_chunker None toy_reader 10 =
         Ret (merkle toy_chunker None d (4 * 4 ^ d div 4) [1, 2, 3, 4, 5, 6, 7, 8, 9, 10])"
  using split_emits_tree_hash [OF toy_chunker_ok, of toy_reader 10 2 None]
  by (simp add: toy_chunker_def toy_reader_def reader_clean_def)

text \<open>
  C1: reading back what was split. Where the retrieval side serves the chunks the split
  emitted, \<open>ReadAt\<close> on the root key fills any buffer that lies inside the document with the
  bytes at that offset, reports the full count, and signals \<open>EOF\<close> exactly at the end of the
  document.
\<close>

theorem split_then_read:
  assumes "chunker_ok T" "1 < branches T" "reader_clean r"
    "sz = length (reader_content r)" "sz \<le> chunkSize T * branches T ^ m"
    "chunkSize T * branches T ^ m < 2 ^ 63"
    "TreeChunker_Split T swg r sz = Ret (key, cs)" "serves f cs"
    "b \<noteq> []" "off + length b \<le> sz"
  shows "fst (LazyChunkReader_ReadAt f (TreeChunker_Join T key) b off) =
    Ret (length b, take (length b) (drop off (reader_content r)),
         if off + length b = sz then Some EOF else None)"
  using assms by (rule ReadAt_slice)

theorem split_then_read_witness:
  "fst (LazyChunkReader_ReadAt toy_fetch (TreeChunker_Join toy_chunker toy_key) [0, 0, 0, 0] 3) =
    Ret (4, [4, 5, 6, 7], None)"
  by (subst split_then_read [OF toy_chunker_ok toy_branches toy_reader_clean _ _ _ toy_split toy_serves,
        of 2]) (simp_all add: toy_reader_def toy_chunker_def)

text \<open>
  No chunk a split emits is longer than \<open>chunkSize\<close> bytes after the eight bytes of its
  length field.
\<close>

theorem split_chunks_bounded:
  assumes "chunker_ok T" "1 < branches T" "reader_clean r"
    "sz = length (reader_content r)" "sz \<le> chunkSize T * branches T ^ m"
    "chunkSize T * branches T ^ m < 2 ^ 63"
    "TreeChunker_Split T swg r sz = Ret (key, cs)" "c \<in> set cs"
  shows "length (sdata c) \<le> 8 + chunkSize T"
proof -
  obtain d where d: "sz \<le> chunkSize T * branches T ^ d"
    "level T d (chunkSize T * branches T ^ d div branches T)"
    "merkle T swg d (chunkSize T * branches T ^ d div branches T) (reader_content r) = (key, cs)"
    using Split_merkle [OF assms(1-6), of swg] assms(7) by auto
  then show ?thesis
    using merkle_chunk_bound [OF assms(1) d(2)] assms(4,8) by (metis snd_conv)
qed

theorem split_chunks_bounded_witness:
  "length (sdata (toy_chunks ! 3)) \<le> 8 + chunkSize toy_chunker"
  by (rule split_chunks_bounded [OF toy_chunker_ok toy_branches toy_reader_clean _ _ _ toy_split, of 2])
    (simp_all add: toy_reader_def toy_chunker_def toy_length)

text \<open>
  C38: with the default parameters (128 branches, 4096-byte chunks) the depth search of
  \<open>Split\<close> does not end for a declared size above \<open>2 ^ 61\<close>: the product wraps to zero and
  stays there.
\<close>

theorem split_oversized_never_returns:
  assumes "branches T = 128" "chunkSize T = 4096" "2 ^ 61 < sz"
  shows "TreeChunker_Split T swg r sz = Err NoReturn"
proof -
  have step: "depth_loop 128 (int sz) (2 ^ k) d = depth_loop 128 (int sz) (2 ^ (k + 7)) (Suc d)"
    if "k + 7 < 63" for k d
  proof -
    have "(2::int) ^ k \<le> 2 ^ 61" "(2::int) ^ (k + 7) < 2 ^ 63"
      by (rule power_increasing power_strict_increasing; use that in simp)+
    moreover have "(2::int) ^ 61 < int sz" using assms(3)
      by (metis of_nat_less_iff of_nat_numeral of_nat_power)
    moreover have "wrap64 (2 ^ k * 128) = 2 ^ (k + 7)"
      using calculation(2) by (subst wrap64_id) (auto simp: power_add intro: order_trans [of _ 0])
    moreover have "(2::int) ^ k < int sz" using calculation(1,3) by (rule le_less_trans)
    ultimately show ?thesis by (subst depth_loop.simps) (simp only: if_True)
  qed
  have "depth_loop 128 (int sz) (2 ^ 61) 7 = depth_loop 128 (int sz) 0 8"
    using assms(3) by (subst depth_loop.simps) (simp add: wrap64_def)
  moreover have "depth_loop 128 (int sz) 0 8 = None"
    using assms(3) by (intro depth_loop_zero_diverges) simp
  ultimately have "depth_loop 128 (int sz) (2 ^ 12) 0 = None"
    using step [of 12 0] step [of 19 1] step [of 26 2] step [of 33 3] step [of 40 4]
      step [of 47 5] step [of 54 6] by (simp add: numeral_eq_Suc)
  then show ?thesis using assms by (simp add: TreeChunker_Split_def)
qed

theorem split_oversized_never_returns_witness:
  "TreeChunker_Split (toy_chunker\<lparr>branches := 128, chunkSize := 4096\<rparr>) None [] (2 ^ 62) = Err NoReturn"
  by (rule split_oversized_never_returns) simp_all

end
