(* ===== verification/Level_Db.thy ===== *)
theory Level_Db
  imports LP_Prelude
begin

text \<open>
  \<open>storage/database.go\<close>: the thin wrapper around a LevelDB handle that the chunk store,
  the sync queues and their iterators share.

  LevelDB itself is a parameter: a record of the operations the wrapper calls on a handle
  of type \<open>'d\<close>. The locale \<open>leveldb\<close> names what its documentation promises: reads see the
  last write, a batch is applied in order and as a whole, and an iterator walks a snapshot
  in key order.
\<close>

section \<open>The LevelDB operations\<close>

datatype batch_op = BPut bytes bytes | BDelete bytes

record 'd leveldb_ops =
  ldb_Get :: "'d \<Rightarrow> bytes \<Rightarrow> bytes option"
  ldb_Put :: "'d \<Rightarrow> bytes \<Rightarrow> bytes \<Rightarrow> 'd"
  ldb_Delete :: "'d \<Rightarrow> bytes \<Rightarrow> 'd"
  ldb_Write :: "'d \<Rightarrow> batch_op list \<Rightarrow> 'd"
  ldb_snapshot :: "'d \<Rightarrow> (bytes \<times> bytes) list"

fun batch_step :: "batch_op \<Rightarrow> (bytes \<rightharpoonup> bytes) \<Rightarrow> (bytes \<rightharpoonup> bytes)" where
  "batch_step (BPut k v) m = m(k \<mapsto> v)"
| "batch_step (BDelete k) m = m(k := None)"

locale leveldb =
  fixes L :: "'d leveldb_ops"
  assumes Get_Put: "ldb_Get L (ldb_Put L d k v) = (ldb_Get L d)(k \<mapsto> v)"
    and Get_Delete: "ldb_Get L (ldb_Delete L d k) = (ldb_Get L d)(k := None)"
    and Get_Write: "ldb_Get L (ldb_Write L d b) = fold batch_step b (ldb_Get L d)"
    and snapshot_sorted: "sorted_wrt (<) (map fst (ldb_snapshot L d))"
    and snapshot_Get: "map_of (ldb_snapshot L d) = ldb_Get L d"
begin

lemma snapshot_distinct: "distinct (map fst (ldb_snapshot L d))"
  using snapshot_sorted [of d] by (simp add: strict_sorted_iff)

lemma snapshot_mem: "(k, v) \<in> set (ldb_snapshot L d) \<longleftrightarrow> ldb_Get L d k = Some v"
  using snapshot_distinct [of d] by (simp flip: snapshot_Get)

end

section \<open>The wrapper\<close>

text \<open>
  \<open>comp\<close> is set to false by \<open>NewLDBDatabase\<close> and never changed; \<open>rle\<close> is the pair of
  run-length routines the code would call otherwise (decompression can fail). \<open>Put\<close> only
  prints an error of the engine.
\<close>

record 'd LDBDatabase =
  ldb_db :: 'd
  ldb_comp :: bool

type_synonym rle = "(bytes \<Rightarrow> bytes) \<times> (bytes \<Rightarrow> bytes option)"

definition NewLDBDatabase :: "'d \<Rightarrow> 'd LDBDatabase" where
  "NewLDBDatabase opened = \<lparr>ldb_db = opened, ldb_comp = False\<rparr>"

definition LDBDatabase_Put ::
    "'d leveldb_ops \<Rightarrow> rle \<Rightarrow> 'd LDBDatabase \<Rightarrow> bytes \<Rightarrow> bytes \<Rightarrow> 'd LDBDatabase" where
  "LDBDatabase_Put L rle self key value =
     (let value = (if ldb_comp self then fst rle value else value)
      in self\<lparr>ldb_db := ldb_Put L (ldb_db self) key value\<rparr>)"

definition LDBDatabase_Get ::
    "'d leveldb_ops \<Rightarrow> rle \<Rightarrow> 'd LDBDatabase \<Rightarrow> bytes \<Rightarrow> bytes option" where
  "LDBDatabase_Get L rle self key =
     (case ldb_Get L (ldb_db self) key of
        None \<Rightarrow> None
      | Some dat \<Rightarrow> if ldb_comp self then snd rle dat else Some dat)"

definition LDBDatabase_Delete :: "'d leveldb_ops \<Rightarrow> 'd LDBDatabase \<Rightarrow> bytes \<Rightarrow> 'd LDBDatabase" where
  "LDBDatabase_Delete L self key = self\<lparr>ldb_db := ldb_Delete L (ldb_db self) key\<rparr>"

definition LDBDatabase_Write ::
    "'d leveldb_ops \<Rightarrow> 'd LDBDatabase \<Rightarrow> batch_op list \<Rightarrow> 'd LDBDatabase" where
  "LDBDatabase_Write L self batch = self\<lparr>ldb_db := ldb_Write L (ldb_db self) batch\<rparr>"

definition LDBDatabase_LastKnownTD :: "'d leveldb_ops \<Rightarrow> rle \<Rightarrow> 'd LDBDatabase \<Rightarrow> bytes" where
  "LDBDatabase_LastKnownTD L rle self =
     (case LDBDatabase_Get L rle self [0x4C, 0x54, 0x44] of
        None \<Rightarrow> [0]
      | Some data \<Rightarrow> if length data = 0 then [0] else data)"

text \<open>
  An iterator: the snapshot it was opened on and the entries from its position on, none
  where it is not valid.
\<close>

record ldb_iter =
  it_all :: "(bytes \<times> bytes) list"
  it_rest :: "(bytes \<times> bytes) list"

definition LDBDatabase_NewIterator :: "'d leveldb_ops \<Rightarrow> 'd LDBDatabase \<Rightarrow> ldb_iter" where
  "LDBDatabase_NewIterator L self = \<lparr>it_all = ldb_snapshot L (ldb_db self), it_rest = []\<rparr>"

definition it_Seek :: "ldb_iter \<Rightarrow> bytes \<Rightarrow> ldb_iter" where
  "it_Seek it k = it\<lparr>it_rest := dropWhile (\<lambda>e. fst e < k) (it_all it)\<rparr>"

definition it_Next :: "ldb_iter \<Rightarrow> ldb_iter" where
  "it_Next it = it\<lparr>it_rest := tl (it_rest it)\<rparr>"

definition it_Valid :: "ldb_iter \<Rightarrow> bool" where
  "it_Valid it \<longleftrightarrow> it_rest it \<noteq> []"

definition it_Key :: "ldb_iter \<Rightarrow> bytes option" where
  "it_Key it = (case it_rest it of [] \<Rightarrow> None | e # _ \<Rightarrow> Some (fst e))"

definition it_Value :: "ldb_iter \<Rightarrow> bytes" where
  "it_Value it = (case it_rest it of [] \<Rightarrow> [] | e # _ \<Rightarrow> snd e)"

lemmas it_defs = it_Seek_def it_Next_def it_Valid_def it_Key_def it_Value_def
  LDBDatabase_NewIterator_def

section \<open>The wrapper as a key-value store\<close>

text \<open>
  What the stores rely on: a lookup that reflects every update. \<open>kv_store\<close> is that
  contract over a handle type; the wrapper with compression off meets it for every engine
  that meets \<open>leveldb\<close>.
\<close>

locale kv_store =
  fixes look :: "'h \<Rightarrow> bytes \<Rightarrow> bytes option"
    and upd :: "'h \<Rightarrow> bytes \<Rightarrow> bytes \<Rightarrow> 'h"
    and del :: "'h \<Rightarrow> bytes \<Rightarrow> 'h"
    and wr :: "'h \<Rightarrow> batch_op list \<Rightarrow> 'h"
    and ok :: "'h \<Rightarrow> bool"
  assumes look_upd: "ok h \<Longrightarrow> look (upd h k v) = (look h)(k \<mapsto> v)"
    and look_del: "ok h \<Longrightarrow> look (del h k) = (look h)(k := None)"
    and look_write: "ok h \<Longrightarrow> look (wr h b) = fold batch_step b (look h)"
    and ok_upd: "ok h \<Longrightarrow> ok (upd h k v)"
    and ok_del: "ok h \<Longrightarrow> ok (del h k)"
    and ok_write: "ok h \<Longrightarrow> ok (wr h b)"
begin

text \<open>A batch touches only the keys it names.\<close>

lemma look_write_other:
  assumes "ok h" "k \<notin> (\<lambda>x. case x of BPut k v \<Rightarrow> k | BDelete k \<Rightarrow> k) ` set b"
  shows "look (wr h b) k = look h k"
proof -
  have "fold batch_step b m k = m k" for m
    using assms(2)
  proof (induction b arbitrary: m)
    case (Cons x b)
    then show ?case by (cases x) auto
  qed simp
  then show ?thesis using look_write [OF assms(1)] by simp
qed

lemma write_Cons: "ok h \<Longrightarrow> look (wr h (x # b)) = fold batch_step b (batch_step x (look h))"
  by (simp add: look_write)

end

lemma wrapper_kv:
  assumes "leveldb L"
  shows "kv_store (LDBDatabase_Get L rle) (LDBDatabase_Put L rle) (LDBDatabase_Delete L)
    (LDBDatabase_Write L) (\<lambda>h. \<not> ldb_comp h)"
proof -
  have g: "\<not> ldb_comp h \<Longrightarrow> LDBDatabase_Get L rle h = ldb_Get L (ldb_db h)" for h
    by (auto simp: LDBDatabase_Get_def split: option.splits)
  show ?thesis
    by unfold_locales
      (simp_all add: g LDBDatabase_Put_def LDBDatabase_Delete_def LDBDatabase_Write_def
        leveldb.Get_Put [OF assms] leveldb.Get_Delete [OF assms] leveldb.Get_Write [OF assms])
qed

sublocale leveldb \<subseteq> wrapped: kv_store "LDBDatabase_Get L rle" "LDBDatabase_Put L rle"
    "LDBDatabase_Delete L" "LDBDatabase_Write L" "\<lambda>h. \<not> ldb_comp h" for rle
  by (rule wrapper_kv) unfold_locales

section \<open>An ordered association list as engine\<close>

text \<open>An engine for concrete runs: the entries in key order.\<close>

type_synonym memdb = "(bytes \<times> bytes) list"

fun memdb_put :: "memdb \<Rightarrow> bytes \<Rightarrow> bytes \<Rightarrow> memdb" where
  "memdb_put [] k v = [(k, v)]"
| "memdb_put ((k', v') # d) k v =
     (if k < k' then (k, v) # (k', v') # d
      else if k = k' then (k, v) # d
      else (k', v') # memdb_put d k v)"

definition memdb_del :: "memdb \<Rightarrow> bytes \<Rightarrow> memdb" where
  "memdb_del d k = filter (\<lambda>e. fst e \<noteq> k) d"

fun memdb_step :: "batch_op \<Rightarrow> memdb \<Rightarrow> memdb" where
  "memdb_step (BPut k v) d = memdb_put d k v"
| "memdb_step (BDelete k) d = memdb_del d k"

typedef memdb_t = "{d :: memdb. sorted_wrt (<) (map fst d)}"
  by (rule exI [of _ "[]"]) simp

lemma fst_memdb_put: "fst ` set (memdb_put d k v) = insert k (fst ` set d)"
  by (induction d k v rule: memdb_put.induct) auto

lemma sorted_memdb_put: "sorted_wrt (<) (map fst d) \<Longrightarrow> sorted_wrt (<) (map fst (memdb_put d k v))"
proof (induction d k v rule: memdb_put.induct)
  case (2 k' v' d k v)
  have set: "set (map fst (memdb_put d k v)) = insert k (fst ` set d)"
    by (simp add: fst_memdb_put)
  show ?case
  proof (cases "k' < k")
    case True
    then show ?thesis using 2 set by (auto simp del: set_map simp add: image_iff) force+
  next
    case False
    then show ?thesis using 2 by (auto simp: not_less intro: less_trans)
  qed
qed simp

lemma sorted_memdb_del: "sorted_wrt (<) (map fst d) \<Longrightarrow> sorted_wrt (<) (map fst (memdb_del d k))"
  unfolding memdb_del_def by (induction d) auto

lemma sorted_memdb_fold:
  "sorted_wrt (<) (map fst d) \<Longrightarrow> sorted_wrt (<) (map fst (fold memdb_step b d))"
proof (induction b arbitrary: d)
  case (Cons x b)
  then show ?case by (cases x) (auto intro: sorted_memdb_put sorted_memdb_del)
qed simp

lemma map_of_memdb_put:
  "sorted_wrt (<) (map fst d) \<Longrightarrow> map_of (memdb_put d k v) = (map_of d)(k \<mapsto> v)"
  by (induction d k v rule: memdb_put.induct) (auto simp: fun_eq_iff)

lemma map_of_memdb_del: "map_of (memdb_del d k) = (map_of d)(k := None)"
  by (rule ext) (simp add: memdb_del_def map_of_filter_key [where P = "\<lambda>x. x \<noteq> k"])

lemma map_of_memdb_fold:
  "sorted_wrt (<) (map fst d) \<Longrightarrow> map_of (fold memdb_step b d) = fold batch_step b (map_of d)"
proof (induction b arbitrary: d)
  case (Cons x b)
  then show ?case
    by (cases x) (simp_all add: map_of_memdb_put map_of_memdb_del sorted_memdb_put sorted_memdb_del
        del: fun_upd_apply)
qed simp

declare Rep_memdb_t_inverse [code abstype]

instantiation memdb_t :: equal
begin

definition equal_memdb_t :: "memdb_t \<Rightarrow> memdb_t \<Rightarrow> bool" where
  "equal_memdb_t d e \<longleftrightarrow> Rep_memdb_t d = Rep_memdb_t e"

instance
  by standard (simp add: equal_memdb_t_def Rep_memdb_t_inject)

end

definition mem_get :: "memdb_t \<Rightarrow> bytes \<Rightarrow> bytes option" where
  "mem_get d = map_of (Rep_memdb_t d)"

definition mem_snapshot :: "memdb_t \<Rightarrow> (bytes \<times> bytes) list" where
  "mem_snapshot d = Rep_memdb_t d"

definition mem_put :: "memdb_t \<Rightarrow> bytes \<Rightarrow> bytes \<Rightarrow> memdb_t" where
  "mem_put d k v = Abs_memdb_t (memdb_put (Rep_memdb_t d) k v)"

definition mem_del :: "memdb_t \<Rightarrow> bytes \<Rightarrow> memdb_t" where
  "mem_del d k = Abs_memdb_t (memdb_del (Rep_memdb_t d) k)"

definition mem_write :: "memdb_t \<Rightarrow> batch_op list \<Rightarrow> memdb_t" where
  "mem_write d b = Abs_memdb_t (fold memdb_step b (Rep_memdb_t d))"

definition mem_empty :: memdb_t where
  "mem_empty = Abs_memdb_t []"

lemma sorted_Rep_memdb: "sorted_wrt (<) (map fst (Rep_memdb_t d))"
  using Rep_memdb_t [of d] by simp

lemma Rep_memdb_simps [simp, code abstract]:
  "Rep_memdb_t (mem_put d k v) = memdb_put (Rep_memdb_t d) k v"
  "Rep_memdb_t (mem_del d k) = memdb_del (Rep_memdb_t d) k"
  "Rep_memdb_t (mem_write d b) = fold memdb_step b (Rep_memdb_t d)"
  "Rep_memdb_t mem_empty = []"
  using sorted_Rep_memdb [of d]
  by (simp_all add: mem_put_def mem_del_def mem_write_def mem_empty_def Abs_memdb_t_inverse
      sorted_memdb_put sorted_memdb_del sorted_memdb_fold)

definition memdb_ops :: "memdb_t leveldb_ops" where
  "memdb_ops = \<lparr>ldb_Get = mem_get, ldb_Put = mem_put, ldb_Delete = mem_del, ldb_Write = mem_write,
     ldb_snapshot = mem_snapshot\<rparr>"

interpretation mem: leveldb memdb_ops
  by unfold_locales
    (simp_all add: memdb_ops_def mem_get_def mem_snapshot_def sorted_Rep_memdb
      map_of_memdb_put map_of_memdb_del map_of_memdb_fold)

end
