(* ===== verification/Gc_Select.thy ===== *)
theory Gc_Select
  imports LP_Prelude "HOL-Library.Multiset"
begin

text \<open>
  \<open>storage/dbstore.go\<close>, \<open>gcListPartition\<close> and \<open>gcListSelect\<close>: the in-place quickselect
  that finds the access value below which garbage collection deletes. The list is the
  preallocated array of pointers \<open>gcArray\<close>, \<open>None\<close> a nil pointer; an index outside the
  array and a nil dereference both panic.
\<close>

section \<open>The array\<close>

record gcItem =
  gi_idx :: u64
  gi_value :: u64
  gi_idxKey :: bytes

type_synonym gcArray = "gcItem option list"

definition gc_in :: "gcArray \<Rightarrow> int \<Rightarrow> bool" where
  "gc_in xs i \<longleftrightarrow> 0 \<le> i \<and> i < int (length xs)"

definition gc_at :: "gcArray \<Rightarrow> int \<Rightarrow> gcItem option" where
  "gc_at xs i = (if gc_in xs i then xs ! nat i else None)"

definition gc_swap :: "gcArray \<Rightarrow> int \<Rightarrow> int \<Rightarrow> gcArray" where
  "gc_swap xs i j = xs[nat i := xs ! nat j, nat j := xs ! nat i]"

section \<open>Partition and selection\<close>

text \<open>The loop of \<open>gcListPartition\<close>; \<open>None\<close> is a panic.\<close>

function part_loop :: "u64 \<Rightarrow> int \<Rightarrow> gcArray \<Rightarrow> int \<Rightarrow> int \<Rightarrow> (gcArray \<times> int) option" where
  "part_loop pivotValue right xs i storeIndex =
     (if i < right then
        (case gc_at xs i of
           None \<Rightarrow> None
         | Some it \<Rightarrow>
             if gi_value it < pivotValue then
               part_loop pivotValue right (gc_swap xs storeIndex i) (i + 1) (storeIndex + 1)
             else part_loop pivotValue right xs (i + 1) storeIndex)
      else Some (xs, storeIndex))"
  by pat_completeness auto
termination by (relation "measure (\<lambda>(pv, right, xs, i, st). nat (right - i))") auto

declare part_loop.simps [simp del]

definition gcListPartition :: "gcArray \<Rightarrow> int \<Rightarrow> int \<Rightarrow> int \<Rightarrow> (gcArray \<times> int) option" where
  "gcListPartition xs left right pivotIndex =
     (case gc_at xs pivotIndex of
        None \<Rightarrow> None
      | Some p \<Rightarrow>
          if \<not> gc_in xs right then None
          else
            (case part_loop (gi_value p) right (gc_swap xs pivotIndex right) left left of
               None \<Rightarrow> None
             | Some (ys, storeIndex) \<Rightarrow>
                 if \<not> gc_in ys storeIndex then None
                 else Some (gc_swap ys storeIndex right, storeIndex)))"

text \<open>
  \<open>gcListSelect\<close>: the outer option is \<open>None\<close> where the recursion does not end, the inner
  result is a panic or the rearranged array and the index found. Go's division truncates.
\<close>

definition go_half :: "int \<Rightarrow> int" where
  "go_half x = (if x < 0 then - ((- x) div 2) else x div 2)"

partial_function (option) gcListSelect ::
    "gcArray \<Rightarrow> int \<Rightarrow> int \<Rightarrow> int \<Rightarrow> (unit, gcArray \<times> int) go option" where
  "gcListSelect xs left right n =
     (if left = right then Some (Ret (xs, left))
      else case gcListPartition xs left right (go_half (left + right)) of
        None \<Rightarrow> Some Panic
      | Some (ys, pivotIndex) \<Rightarrow>
          if n = pivotIndex then Some (Ret (ys, n))
          else if n < pivotIndex then gcListSelect ys left (pivotIndex - 1) n
          else gcListSelect ys (pivotIndex + 1) right n)"

declare gcListSelect.simps [code]

section \<open>Rearranging a segment\<close>

definition seg_eq :: "nat \<Rightarrow> nat \<Rightarrow> 'a list \<Rightarrow> 'a list \<Rightarrow> bool" where
  "seg_eq l r xs ys \<longleftrightarrow> length ys = length xs \<and> mset ys = mset xs
     \<and> (\<forall>k. k < l \<or> r < k \<longrightarrow> ys ! k = xs ! k) \<and> (!) ys ` {l..r} = (!) xs ` {l..r}"

lemma seg_eq_refl [simp]: "seg_eq l r xs xs"
  by (simp add: seg_eq_def)

lemma seg_eq_trans [trans]: "seg_eq l r xs ys \<Longrightarrow> seg_eq l r ys zs \<Longrightarrow> seg_eq l r xs zs"
  by (auto simp: seg_eq_def)

lemma seg_eq_length: "seg_eq l r xs ys \<Longrightarrow> length ys = length xs"
  by (simp add: seg_eq_def)

lemma seg_eq_outside: "seg_eq l r xs ys \<Longrightarrow> k < l \<or> r < k \<Longrightarrow> ys ! k = xs ! k"
  unfolding seg_eq_def by blast

lemma seg_eq_all:
  "seg_eq l r xs ys \<Longrightarrow> (\<forall>k\<in>{l..r}. P (xs ! k)) \<Longrightarrow> k \<in> {l..r} \<Longrightarrow> P (ys ! k)"
  unfolding seg_eq_def by (metis imageE imageI)

lemma seg_eq_mono:
  assumes "seg_eq l r xs ys" "l' \<le> l" "r \<le> r'"
  shows "seg_eq l' r' xs ys"
proof -
  have "(!) ys ` ({l'..r'} - {l..r}) = (!) xs ` ({l'..r'} - {l..r})"
    using seg_eq_outside [OF assms(1)] by (intro image_cong) auto
  moreover have "{l'..r'} = {l'..r'} - {l..r} \<union> {l..r} \<or> {l..r} = {}"
    using assms(2,3) by auto
  ultimately have "(!) ys ` {l'..r'} = (!) xs ` {l'..r'}"
    using assms(1) unfolding seg_eq_def by (metis Diff_empty image_Un)
  then show ?thesis using assms unfolding seg_eq_def by auto
qed

lemma seg_eq_swap:
  assumes "i \<in> {l..r}" "j \<in> {l..r}" "r < length xs"
  shows "seg_eq l r xs (gc_swap xs (int i) (int j))"
proof -
  let ?ys = "xs[i := xs ! j, j := xs ! i]"
  have nth: "?ys ! k = (if k = j then xs ! i else if k = i then xs ! j else xs ! k)" if "k \<le> r" for k
    using that assms by (simp add: nth_list_update)
  have "(!) ?ys ` {l..r} = (!) xs ` {l..r}"
  proof (intro subset_antisym subsetI)
    fix x
    assume "x \<in> (!) ?ys ` {l..r}"
    then show "x \<in> (!) xs ` {l..r}" using assms nth by (auto split: if_splits)
  next
    fix x
    assume "x \<in> (!) xs ` {l..r}"
    then obtain k where k: "k \<in> {l..r}" "x = xs ! k" by auto
    let ?k = "if k = j then i else if k = i then j else k"
    have "x = ?ys ! ?k" using k assms nth by simp
    moreover have "?k \<in> {l..r}" using k assms by simp
    ultimately show "x \<in> (!) ?ys ` {l..r}" by (rule image_eqI)
  qed
  moreover have "mset ?ys = mset xs"
    using assms mset_swap [of j xs i] by simp
  moreover have "?ys ! k = xs ! k" if "k < l \<or> r < k" for k
    using that assms by auto
  ultimately show ?thesis
    unfolding seg_eq_def gc_swap_def by simp
qed

lemma gc_swap_nth:
  "i < length xs \<Longrightarrow> j < length xs \<Longrightarrow> gc_swap xs (int i) (int j) ! k =
     (if k = j then xs ! i else if k = i then xs ! j else xs ! k)"
  by (simp add: gc_swap_def nth_list_update)

section \<open>Correctness of the partition\<close>

definition gval :: "gcArray \<Rightarrow> nat \<Rightarrow> u64" where
  "gval xs k = (case xs ! k of Some it \<Rightarrow> gi_value it | None \<Rightarrow> 0)"

definition live :: "gcArray \<Rightarrow> nat \<Rightarrow> nat \<Rightarrow> bool" where
  "live xs l r \<longleftrightarrow> r < length xs \<and> (\<forall>k\<in>{l..r}. xs ! k \<noteq> None)"

lemma gc_at_int: "k < length xs \<Longrightarrow> gc_at xs (int k) = xs ! k"
  by (simp add: gc_at_def gc_in_def)

lemma live_seg: "live xs l r \<Longrightarrow> seg_eq l r xs ys \<Longrightarrow> live ys l r"
  unfolding live_def using seg_eq_all [of l r xs ys "\<lambda>x. x \<noteq> None"] by (simp add: seg_eq_length)

lemma part_loop_spec:
  assumes "live xs l r" "l \<le> st" "st \<le> i" "i \<le> r"
    "\<forall>k\<in>{l..<st}. gval xs k < pv" "\<forall>k\<in>{st..<i}. pv \<le> gval xs k"
  shows "\<exists>ys st'. part_loop pv (int r) xs (int i) (int st) = Some (ys, int st')
    \<and> seg_eq l r xs ys \<and> ys ! r = xs ! r \<and> st \<le> st' \<and> st' \<le> r
    \<and> (\<forall>k\<in>{l..<st'}. gval ys k < pv) \<and> (\<forall>k\<in>{st'..<r}. pv \<le> gval ys k)"
  using assms
proof (induction "r - i" arbitrary: xs i st)
  case 0
  then have "i = r" by simp
  then show ?case using 0 by (subst part_loop.simps) auto
next
  case (Suc x)
  have ir: "i < r" using Suc.hyps(2) by simp
  have len: "r < length xs" using Suc.prems(1) by (simp add: live_def)
  obtain it where it: "xs ! i = Some it"
    using Suc.prems(1-4) unfolding live_def by (metis atLeastAtMost_iff le_trans not_None_eq)
  have at: "gc_at xs (int i) = Some it" using it ir len by (simp add: gc_at_int)
  have gi: "gval xs i = gi_value it" by (simp add: gval_def it)
  show ?case
  proof (cases "gi_value it < pv")
    case True
    let ?ys = "gc_swap xs (int st) (int i)"
    have sw: "seg_eq l r xs ?ys" using Suc.prems ir len by (intro seg_eq_swap) auto
    have nth: "?ys ! k = (if k = i then xs ! st else if k = st then xs ! i else xs ! k)" for k
      using gc_swap_nth [of st xs i k] Suc.prems(3) ir len by simp
    have gv: "gval ?ys k = (if k = i then gval xs st else if k = st then gval xs i else gval xs k)" for k
      by (simp add: gval_def nth)
    have "\<exists>ys st'. part_loop pv (int r) ?ys (int (Suc i)) (int (Suc st)) = Some (ys, int st')
      \<and> seg_eq l r ?ys ys \<and> ys ! r = ?ys ! r \<and> Suc st \<le> st' \<and> st' \<le> r
      \<and> (\<forall>k\<in>{l..<st'}. gval ys k < pv) \<and> (\<forall>k\<in>{st'..<r}. pv \<le> gval ys k)"
    proof (rule Suc.hyps(1))
      show "\<forall>k\<in>{l..<Suc st}. gval ?ys k < pv"
        using Suc.prems(2,3,5) True by (auto simp: gv gi less_Suc_eq)
      show "\<forall>k\<in>{Suc st..<Suc i}. pv \<le> gval ?ys k"
        using Suc.prems(2,3,6) True by (auto simp: gv gi less_Suc_eq)
    qed (use Suc.prems Suc.hyps(2) ir live_seg [OF _ sw] in auto)
    then show ?thesis
      using True at ir nth [of r] Suc.prems(3) seg_eq_trans [OF sw]
      by (subst part_loop.simps) (fastforce simp: ac_simps)
  next
    case False
    have "\<exists>ys st'. part_loop pv (int r) xs (int (Suc i)) (int st) = Some (ys, int st')
      \<and> seg_eq l r xs ys \<and> ys ! r = xs ! r \<and> st \<le> st' \<and> st' \<le> r
      \<and> (\<forall>k\<in>{l..<st'}. gval ys k < pv) \<and> (\<forall>k\<in>{st'..<r}. pv \<le> gval ys k)"
    proof (rule Suc.hyps(1))
      show "\<forall>k\<in>{st..<Suc i}. pv \<le> gval xs k"
        using Suc.prems(6) False by (auto simp: gi less_Suc_eq)
    qed (use Suc.prems Suc.hyps(2) ir in auto)
    then show ?thesis using False at ir by (subst part_loop.simps) (simp add: ac_simps)
  qed
qed

lemma gcListPartition_spec:
  assumes "live xs l r" "l \<le> p" "p \<le> r"
  shows "\<exists>ys st. gcListPartition xs (int l) (int r) (int p) = Some (ys, int st)
    \<and> seg_eq l r xs ys \<and> l \<le> st \<and> st \<le> r
    \<and> (\<forall>k\<in>{l..<st}. gval ys k < gval ys st) \<and> (\<forall>k\<in>{st..r}. gval ys st \<le> gval ys k)"
proof -
  have len: "r < length xs" using assms(1) by (simp add: live_def)
  obtain it where it: "xs ! p = Some it" using assms unfolding live_def by fastforce
  let ?xs1 = "gc_swap xs (int p) (int r)"
  have sw: "seg_eq l r xs ?xs1" using assms len by (intro seg_eq_swap) auto
  have r1: "?xs1 ! r = Some it" using gc_swap_nth [of p xs r r] assms(3) len it by simp
  obtain ys st where l: "part_loop (gi_value it) (int r) ?xs1 (int l) (int l) = Some (ys, int st)"
    "seg_eq l r ?xs1 ys" "ys ! r = ?xs1 ! r" "l \<le> st" "st \<le> r"
    "\<forall>k\<in>{l..<st}. gval ys k < gi_value it" "\<forall>k\<in>{st..<r}. gi_value it \<le> gval ys k"
    using part_loop_spec [OF live_seg [OF assms(1) sw], of l l "gi_value it"] assms(2,3) by auto
  have ly: "length ys = length xs" using seg_eq_length [OF sw] seg_eq_length [OF l(2)] by simp
  let ?zs = "gc_swap ys (int st) (int r)"
  have nth: "?zs ! k = (if k = r then ys ! st else if k = st then ys ! r else ys ! k)" for k
    using gc_swap_nth [of st ys r k] l(5) len ly by simp
  have gr: "gval ys r = gi_value it" using l(3) r1 by (simp add: gval_def)
  have gv: "gval ?zs k = (if k = r then gval ys st else if k = st then gi_value it else gval ys k)" for k
    using gr by (simp add: gval_def nth)
  have zst: "gval ?zs st = gi_value it" using gr by (simp add: gv)
  have "seg_eq l r ys ?zs" using l(4,5) ly len by (intro seg_eq_swap) auto
  then have "seg_eq l r xs ?zs" using sw l(2) seg_eq_trans by blast
  moreover have "\<forall>k\<in>{l..<st}. gval ?zs k < gval ?zs st"
    unfolding zst using l(5,6) by (auto simp: gv)
  moreover have "\<forall>k\<in>{st..r}. gval ?zs st \<le> gval ?zs k"
    unfolding zst using l(5,7) gr by (auto simp: gv)
  moreover have "gcListPartition xs (int l) (int r) (int p) = Some (?zs, int st)"
    using it l(1,5) len assms(3) ly
    by (simp add: gcListPartition_def gc_at_int gc_in_def)
  ultimately show ?thesis using l(4,5) by blast
qed

section \<open>Correctness of the selection\<close>

lemma go_half_mid: "l \<le> r \<Longrightarrow> \<exists>p. go_half (int l + int r) = int p \<and> l \<le> p \<and> p \<le> r"
  by (rule exI [of _ "(l + r) div 2"]) (auto simp: go_half_def zdiv_int)

definition selected :: "gcArray \<Rightarrow> nat \<Rightarrow> nat \<Rightarrow> nat \<Rightarrow> bool" where
  "selected ys l n r \<longleftrightarrow> (\<forall>k\<in>{l..n}. gval ys k \<le> gval ys n) \<and> (\<forall>k\<in>{n..r}. gval ys n \<le> gval ys k)"

lemma gval_seg_bound:
  assumes "seg_eq l r xs ys" "\<forall>k\<in>{l..r}. Q (gval xs k)" "k \<in> {l..r}"
  shows "Q (gval ys k)"
  using seg_eq_all [OF assms(1), of "\<lambda>x. Q (case x of Some it \<Rightarrow> gi_value it | None \<Rightarrow> 0)"] assms(2,3)
  by (simp add: gval_def)

lemma gcListSelect_spec:
  assumes "live xs l r" "l \<le> n" "n \<le> r"
  shows "\<exists>ys. gcListSelect xs (int l) (int r) (int n) = Some (Ret (ys, int n))
    \<and> seg_eq l r xs ys \<and> selected ys l n r"
  using assms
proof (induction "r - l" arbitrary: xs l r rule: less_induct)
  case less
  show ?case
  proof (cases "l = r")
    case True
    then have "n = l" using less.prems by simp
    then show ?thesis using True by (subst gcListSelect.simps) (simp add: selected_def)
  next
    case False
    then have lr: "l < r" using less.prems by simp
    obtain p where p: "go_half (int l + int r) = int p" "l \<le> p" "p \<le> r"
      using go_half_mid [of l r] lr by auto
    obtain ys st where ys: "gcListPartition xs (int l) (int r) (int p) = Some (ys, int st)"
      "seg_eq l r xs ys" "l \<le> st" "st \<le> r" "\<forall>k\<in>{l..<st}. gval ys k < gval ys st"
      "\<forall>k\<in>{st..r}. gval ys st \<le> gval ys k"
      using gcListPartition_spec [OF less.prems(1) p(2,3)] by blast
    have lv: "live ys l r" using live_seg [OF less.prems(1) ys(2)] .
    consider "n = st" | "n < st" | "st < n" by linarith
    then show ?thesis
    proof cases
      case 1
      have "selected ys l n r" unfolding selected_def 1 using ys(5,6) by (auto simp: le_less)
      then show ?thesis using 1 lr p(1) ys(1,2) by (subst gcListSelect.simps) auto
    next
      case 2
      have "live ys l (st - 1)" using lv ys(4) by (auto simp: live_def)
      then obtain zs where zs: "gcListSelect ys (int l) (int (st - 1)) (int n) = Some (Ret (zs, int n))"
        "seg_eq l (st - 1) ys zs" "selected zs l n (st - 1)"
        using less.hyps [of "st - 1" l ys, OF _ _ less.prems(2)] 2 less.prems(2) lr ys(4) by fastforce
      have "selected zs l n r"
      proof -
        have "gval zs n \<le> gval ys st"
        proof (rule gval_seg_bound [OF zs(2)])
          show "\<forall>k\<in>{l..st - 1}. gval ys k \<le> gval ys st" using ys(5) 2 by (auto simp: le_less)
        qed (use 2 less.prems(2) in auto)
        moreover have "gval zs k = gval ys k" if "st \<le> k" for k
          using seg_eq_outside [OF zs(2), of k] that 2 unfolding gval_def by fastforce
        ultimately have "gval zs n \<le> gval zs k" if "k \<in> {st..r}" for k
          using ys(6) that by (metis atLeastAtMost_iff order_trans)
        then show ?thesis using zs(3) unfolding selected_def
          by (metis One_nat_def atLeastAtMost_iff diff_Suc_1 le_neq_implies_less less_imp_le
              less_Suc_eq_le not_le Suc_pred zero_less_iff_neq_zero)
      qed
      moreover have "seg_eq l r xs zs"
        using seg_eq_trans [OF ys(2) seg_eq_mono [OF zs(2)]] ys(4) by simp
      moreover have "int st - 1 = int (st - 1)" using 2 by simp
      ultimately show ?thesis using 2 lr p(1) ys(1) zs(1) by (subst gcListSelect.simps) auto
    next
      case 3
      have "live ys (Suc st) r" using lv ys(3) by (auto simp: live_def)
      then obtain zs where zs: "gcListSelect ys (int (Suc st)) (int r) (int n) = Some (Ret (zs, int n))"
        "seg_eq (Suc st) r ys zs" "selected zs (Suc st) n r"
        using less.hyps [of r "Suc st" ys, OF _ _ _ less.prems(3)] 3 less.prems(3) lr ys(3) by fastforce
      have low: "gval zs k \<le> gval zs n" if "k \<in> {l..st}" for k
      proof -
        have "gval ys st \<le> gval zs n"
          using gval_seg_bound [OF zs(2), of "\<lambda>v. gval ys st \<le> v" n] ys(6) 3 less.prems(3) by auto
        moreover have "gval zs k = gval ys k"
          using seg_eq_outside [OF zs(2), of k] that by (simp add: gval_def)
        moreover have "gval ys k \<le> gval ys st" using ys(5) that by (auto simp: le_less)
        ultimately show ?thesis by simp
      qed
      then have "selected zs l n r" using zs(3) unfolding selected_def
        by (metis atLeastAtMost_iff not_less_eq_eq)
      moreover have "seg_eq l r xs zs"
        using seg_eq_trans [OF ys(2) seg_eq_mono [OF zs(2)]] ys(3) by simp
      ultimately show ?thesis using 3 lr p(1) ys(1) zs(1)
        by (subst gcListSelect.simps) (auto simp: ac_simps)
    qed
  qed
qed

section \<open>Property\<close>

text \<open>
  C28: on a segment of live items \<open>gcListSelect\<close> returns the requested index \<open>n\<close>, having
  only rearranged the segment; the value at \<open>n\<close> is then at least every value before it and
  at most every value after it.
\<close>

theorem gcListSelect_selects:
  assumes "live xs l r" "l \<le> n" "n \<le> r"
  shows "\<exists>ys. gcListSelect xs (int l) (int r) (int n) = Some (Ret (ys, int n))
    \<and> mset ys = mset xs \<and> (\<forall>k. k < l \<or> r < k \<longrightarrow> ys ! k = xs ! k)
    \<and> (\<forall>k\<in>{l..n}. gval ys k \<le> gval ys n) \<and> (\<forall>k\<in>{n..r}. gval ys n \<le> gval ys k)"
  using gcListSelect_spec [OF assms] unfolding seg_eq_def selected_def by blast

definition gc_sample :: gcArray where
  "gc_sample = map (\<lambda>v. Some \<lparr>gi_idx = v, gi_value = v, gi_idxKey = []\<rparr>) [9, 3, 7, 1, 8] @ [None]"

theorem gcListSelect_selects_witness:
  "\<exists>ys. gcListSelect gc_sample 0 4 1 = Some (Ret (ys, 1)) \<and> mset ys = mset gc_sample
    \<and> (\<forall>k. k < 0 \<or> 4 < k \<longrightarrow> ys ! k = gc_sample ! k)
    \<and> (\<forall>k\<in>{0..1}. gval ys k \<le> gval ys 1) \<and> (\<forall>k\<in>{1..4}. gval ys 1 \<le> gval ys k)"
  using gcListSelect_selects [of gc_sample 0 4 1]
  by (simp add: live_def gc_sample_def atLeastAtMostSuc_conv numeral_eq_Suc)

end
