(* ===== verification/Db_Store.thy ===== *)
theory Db_Store
  imports Level_Db Gc_Select Storage_Keys "HOL-Library.Log_Nat"
begin

text \<open>
  \<open>storage/dbstore.go\<close>: the persistent chunk store. A chunk has an index entry (prefix 0,
  then its key) that names a storage counter and the last access, and a data entry (prefix
  1, then the counter in big-endian order). When the store is full, \<open>collectGarbage\<close>
  evicts the entries that were accessed least recently.

  Parameters, collected in \<open>db_env\<close>: the LevelDB operations, the (unused) run-length
  routines, the RLP codec of an index entry, and \<open>env_held\<close>, what a slice that
  \<open>iterator.Key\<close> returned reads after the iterator has moved to another key. The
  documentation of LevelDB iterators says that its contents may change; \<open>key_copied\<close> is an
  iterator that never changes them, \<open>key_reuse\<close> is goleveldb's, which writes every key
  into one buffer.
\<close>

section \<open>Single precision\<close>

text \<open>
  \<open>float32\<close> values are rationals; \<open>f32\<close> rounds to 24 significant bits, ties to even (no
  value of this store comes near the limits of the exponent).
\<close>

definition f32_exp :: "rat \<Rightarrow> int" where
  "f32_exp q = (case quotient_of q of (n, d) \<Rightarrow>
     (let k = int (floorlog 2 (nat n)) - int (floorlog 2 (nat d))
      in if 2 powi k \<le> q then k else k - 1))"

definition rne :: "rat \<Rightarrow> int" where
  "rne q = (let f = \<lfloor>q\<rfloor>; r = q - of_int f in
     if r < 1 / 2 then f else if 1 / 2 < r then f + 1 else if even f then f else f + 1)"

definition f32 :: "rat \<Rightarrow> rat" where
  "f32 q = (if q = 0 then 0
            else let u = 2 powi (f32_exp \<bar>q\<bar> - 23) in sgn q * of_int (rne (\<bar>q\<bar> / u)) * u)"

section \<open>State\<close>

record dpaDBIndex =
  ix_Idx :: u64
  ix_Access :: u64

record 'd db_env =
  env_L :: "'d leveldb_ops"
  env_rle :: rle
  env_enc :: "dpaDBIndex \<Rightarrow> bytes"
  env_dec :: "bytes \<Rightarrow> dpaDBIndex \<Rightarrow> dpaDBIndex"
  env_held :: "bytes \<Rightarrow> bytes \<Rightarrow> bytes"

record 'd DbStore =
  ds_db :: "'d LDBDatabase"
  ds_entryCnt :: u64
  ds_accessCnt :: u64
  ds_dataIdx :: u64
  ds_capacity :: u64
  ds_gcPos :: "bytes option"
  ds_gcStartPos :: bytes
  ds_gcArray :: gcArray
  ds_hashfunc :: Hasher

datatype db_error = NotFound | LevelDbError | InvalidChunk

definition gcArraySize :: nat where
  "gcArraySize = 10000"

definition gcArrayFreeRatio :: rat where
  "gcArrayFreeRatio = f32 (1 / 10)"

definition keyAccessCnt :: bytes where "keyAccessCnt = [2]"
definition keyEntryCnt :: bytes where "keyEntryCnt = [3]"
definition keyDataIdx :: bytes where "keyDataIdx = [4]"
definition keyGCPos :: bytes where "keyGCPos = [5]"

definition zero_index :: dpaDBIndex where
  "zero_index = \<lparr>ix_Idx = 0, ix_Access = 0\<rparr>"

text \<open>How the iterators of two engines treat a key slice that is still held.\<close>

definition key_copied :: "bytes \<Rightarrow> bytes \<Rightarrow> bytes" where
  "key_copied b k = b"

definition key_reuse :: "bytes \<Rightarrow> bytes \<Rightarrow> bytes" where
  "key_reuse b k = take (length b) (k @ drop (length k) b)"

section \<open>Encodings\<close>

definition BytesToU64 :: "bytes \<Rightarrow> u64" where
  "BytesToU64 data = (if length data < 8 then 0 else LittleEndian_Uint64 data)"

definition U64ToBytes :: "u64 \<Rightarrow> bytes" where
  "U64ToBytes val = LittleEndian_PutUint64 val"

definition getIndexGCValue :: "dpaDBIndex \<Rightarrow> u64" where
  "getIndexGCValue index = ix_Access index"

definition updateIndexAccess :: "'d DbStore \<Rightarrow> dpaDBIndex \<Rightarrow> dpaDBIndex" where
  "updateIndexAccess s index = index\<lparr>ix_Access := ds_accessCnt s\<rparr>"

definition getIndexKey :: "Key \<Rightarrow> bytes" where
  "getIndexKey hash = 0 # hash"

definition getDataKey :: "u64 \<Rightarrow> bytes" where
  "getDataKey idx = 1 # BigEndian_PutUint64 idx"

definition encodeIndex :: "'d db_env \<Rightarrow> dpaDBIndex \<Rightarrow> bytes" where
  "encodeIndex E index = env_enc E index"

definition encodeData :: "Chunk \<Rightarrow> bytes" where
  "encodeData chunk = (case ch_SData chunk of None \<Rightarrow> [] | Some d \<Rightarrow> d)"

definition decodeIndex :: "'d db_env \<Rightarrow> bytes \<Rightarrow> dpaDBIndex \<Rightarrow> dpaDBIndex" where
  "decodeIndex E data index = env_dec E data index"

text \<open>\<open>None\<close>: slicing \<open>data[0:8]\<close> panics on short data.\<close>

definition decodeData :: "bytes \<Rightarrow> Chunk \<Rightarrow> Chunk option" where
  "decodeData data chunk =
     map_option (\<lambda>n. chunk\<lparr>ch_SData := Some data, ch_Size := n\<rparr>) (data_size data)"

section \<open>Database access\<close>

definition dbGet :: "'d db_env \<Rightarrow> 'd DbStore \<Rightarrow> bytes \<Rightarrow> bytes option" where
  "dbGet E s = LDBDatabase_Get (env_L E) (env_rle E) (ds_db s)"

definition dbWrite :: "'d db_env \<Rightarrow> 'd DbStore \<Rightarrow> batch_op list \<Rightarrow> 'd DbStore" where
  "dbWrite E s b = s\<lparr>ds_db := LDBDatabase_Write (env_L E) (ds_db s) b\<rparr>"

definition dbPut :: "'d db_env \<Rightarrow> 'd DbStore \<Rightarrow> bytes \<Rightarrow> bytes \<Rightarrow> 'd DbStore" where
  "dbPut E s k v = s\<lparr>ds_db := LDBDatabase_Put (env_L E) (env_rle E) (ds_db s) k v\<rparr>"

definition dbDelete :: "'d db_env \<Rightarrow> 'd DbStore \<Rightarrow> bytes \<Rightarrow> 'd DbStore" where
  "dbDelete E s k = s\<lparr>ds_db := LDBDatabase_Delete (env_L E) (ds_db s) k\<rparr>"

section \<open>Garbage collection\<close>

text \<open>\<open>(gcPos == nil) || (gcPos[0] != kpIndex)\<close>; \<open>None\<close> where the index expression panics.\<close>

definition off_index :: "bytes option \<Rightarrow> bool option" where
  "off_index p = (case p of None \<Rightarrow> Some True | Some [] \<Rightarrow> None | Some (b # _) \<Rightarrow> Some (b \<noteq> 0))"

text \<open>The iterator has moved: what the key slices of the collected items read now.\<close>

definition touch :: "'d db_env \<Rightarrow> ldb_iter \<Rightarrow> gcItem list \<Rightarrow> gcItem list" where
  "touch E it items =
     (case it_Key it of
        None \<Rightarrow> items
      | Some k \<Rightarrow> map (\<lambda>g. g\<lparr>gi_idxKey := env_held E (gi_idxKey g) k\<rparr>) items)"

lemma length_touch [simp]: "length (touch E it items) = length items"
  by (simp add: touch_def split: option.splits)

definition gc_item :: "'d db_env \<Rightarrow> ldb_iter \<Rightarrow> bytes \<Rightarrow> gcItem" where
  "gc_item E it pos =
     (let index = decodeIndex E (it_Value it) zero_index
      in \<lparr>gi_idx = ix_Idx index, gi_value = getIndexGCValue index, gi_idxKey = pos\<rparr>)"

text \<open>The collecting loop: the position it stops at and the items in array order.\<close>

function gc_loop :: "'d db_env \<Rightarrow> bytes \<Rightarrow> u64 \<Rightarrow> ldb_iter \<Rightarrow> bytes option \<Rightarrow> gcItem list
    \<Rightarrow> (db_error, bytes option \<times> gcItem list) go" where
  "gc_loop E start cnt it gcPos items =
     (if length items < gcArraySize \<and> of_nat (length items) < cnt then
        (case off_index gcPos of
           None \<Rightarrow> Panic
         | Some off \<Rightarrow>
             (let it1 = (if off then it_Seek it start else it);
                  pos1 = (if off then it_Key it1 else gcPos);
                  items1 = (if off then touch E it1 items else items)
              in case off_index pos1 of
                   None \<Rightarrow> Panic
                 | Some True \<Rightarrow> Ret (pos1, items1)
                 | Some False \<Rightarrow>
                     (let it2 = it_Next it1
                      in gc_loop E start cnt it2 (it_Key it2)
                           (touch E it2 (items1 @ [gc_item E it1 (the pos1)])))))
      else Ret (gcPos, items))"
  by pat_completeness auto

termination
  by (relation "measure (\<lambda>(E, start, cnt, it, pos, items). gcArraySize - length items)") auto

declare gc_loop.simps [simp del]

definition gc_evict :: "'d db_env \<Rightarrow> gcItem \<Rightarrow> 'd DbStore \<Rightarrow> 'd DbStore" where
  "gc_evict E g s =
     (let cnt = ds_entryCnt s - 1
      in dbWrite E (s\<lparr>ds_entryCnt := cnt\<rparr>)
           [BDelete (gi_idxKey g), BDelete (getDataKey (gi_idx g)), BPut keyEntryCnt (U64ToBytes cnt)])"

fun gc_delete :: "'d db_env \<Rightarrow> u64 \<Rightarrow> gcItem option list \<Rightarrow> 'd DbStore
    \<Rightarrow> (db_error, 'd DbStore) go" where
  "gc_delete E cutval [] s = Ret s"
| "gc_delete E cutval (None # gs) s = Panic"
| "gc_delete E cutval (Some g # gs) s =
     gc_delete E cutval gs (if gi_value g \<le> cutval then gc_evict E g s else s)"

definition f32_cut :: "nat \<Rightarrow> rat \<Rightarrow> nat" where
  "f32_cut gcnt ratio = nat \<lfloor>f32 (f32 (of_nat gcnt) * ratio)\<rfloor>"

definition gc_run :: "'d db_env \<Rightarrow> rat \<Rightarrow> 'd DbStore \<Rightarrow> bytes option \<Rightarrow> gcItem list
    \<Rightarrow> (db_error, 'd DbStore) go option" where
  "gc_run E ratio s gcPos items =
     (let gcnt = length items; arr = map Some items @ drop gcnt (ds_gcArray s)
      in case gcListSelect arr 0 (int gcnt - 1) (int (f32_cut gcnt ratio)) of
           None \<Rightarrow> None
         | Some (Ret (arr', cutidx)) \<Rightarrow>
             (case gc_at arr' cutidx of
                None \<Rightarrow> Some Panic
              | Some g \<Rightarrow>
                  (case gc_delete E (gi_value g) (take gcnt arr')
                          (s\<lparr>ds_gcPos := gcPos, ds_gcArray := arr'\<rparr>) of
                     Ret s' \<Rightarrow> Some (Ret (dbPut E s' keyGCPos (case gcPos of None \<Rightarrow> [] | Some p \<Rightarrow> p)))
                   | r \<Rightarrow> Some r))
         | Some r \<Rightarrow> Some Panic)"

definition collectGarbage ::
    "'d db_env \<Rightarrow> rat \<Rightarrow> 'd DbStore \<Rightarrow> (db_error, 'd DbStore) go option" where
  "collectGarbage E ratio s =
     (let it = it_Seek (LDBDatabase_NewIterator (env_L E) (ds_db s))
                 (case ds_gcPos s of None \<Rightarrow> [] | Some p \<Rightarrow> p)
      in case gc_loop E (ds_gcStartPos s) (ds_entryCnt s) it (it_Key it) [] of
           Ret (gcPos, items) \<Rightarrow> gc_run E ratio s gcPos items
         | Err e \<Rightarrow> Some (Err e)
         | Panic \<Rightarrow> Some Panic)"

section \<open>The store operations\<close>

definition DbStore_Counter :: "'d DbStore \<Rightarrow> u64" where
  "DbStore_Counter s = ds_dataIdx s"

definition DbStore_getEntryCnt :: "'d DbStore \<Rightarrow> u64" where
  "DbStore_getEntryCnt s = ds_entryCnt s"

text \<open>The index entry with its new access value, where there is one.\<close>

definition tryAccessIdx ::
    "'d db_env \<Rightarrow> bytes \<Rightarrow> dpaDBIndex \<Rightarrow> 'd DbStore \<Rightarrow> dpaDBIndex option \<times> 'd DbStore" where
  "tryAccessIdx E ikey index s =
     (case dbGet E s ikey of
        None \<Rightarrow> (None, s)
      | Some idata \<Rightarrow>
          (let index = decodeIndex E idata index;
               b1 = BPut keyAccessCnt (U64ToBytes (ds_accessCnt s));
               s = s\<lparr>ds_accessCnt := ds_accessCnt s + 1\<rparr>;
               index = updateIndexAccess s index
           in (Some index, dbWrite E s [b1, BPut ikey (encodeIndex E index)])))"

text \<open>
  \<open>Put\<close> returns the channel \<open>dbStored\<close> that it closes. The outer option is \<open>None\<close> where
  the selection inside the collection does not end.
\<close>

definition put_new :: "'d db_env \<Rightarrow> bytes \<Rightarrow> bytes \<Rightarrow> 'd DbStore \<Rightarrow> 'd DbStore" where
  "put_new E ikey data s =
     (let index = updateIndexAccess s (zero_index\<lparr>ix_Idx := ds_dataIdx s\<rparr>);
          batch = [BPut (getDataKey (ds_dataIdx s)) data,
                   BPut ikey (encodeIndex E index),
                   BPut keyEntryCnt (U64ToBytes (ds_entryCnt s)),
                   BPut keyDataIdx (U64ToBytes (ds_dataIdx s)),
                   BPut keyAccessCnt (U64ToBytes (ds_accessCnt s))]
      in dbWrite E (s\<lparr>ds_entryCnt := ds_entryCnt s + 1, ds_dataIdx := ds_dataIdx s + 1,
                     ds_accessCnt := ds_accessCnt s + 1\<rparr>) batch)"

definition DbStore_Put ::
    "'d db_env \<Rightarrow> Chunk \<Rightarrow> 'd DbStore \<Rightarrow> (db_error, 'd DbStore \<times> chan_id option) go option" where
  "DbStore_Put E chunk s =
     (let ikey = getIndexKey (ch_Key chunk)
      in case tryAccessIdx E ikey zero_index s of
           (Some index, s') \<Rightarrow> Some (Ret (s', ch_dbStored chunk))
         | (None, s') \<Rightarrow>
             (let data = encodeData chunk
              in case (if ds_entryCnt s' \<ge> ds_capacity s'
                       then collectGarbage E gcArrayFreeRatio s' else Some (Ret s')) of
                   None \<Rightarrow> None
                 | Some (Ret s'') \<Rightarrow> Some (Ret (put_new E ikey data s'', ch_dbStored chunk))
                 | Some (Err e) \<Rightarrow> Some (Err e)
                 | Some Panic \<Rightarrow> Some Panic))"

definition DbStore_Get ::
    "'d db_env \<Rightarrow> Key \<Rightarrow> 'd DbStore \<Rightarrow> (db_error, Chunk) go \<times> 'd DbStore" where
  "DbStore_Get E key s =
     (case tryAccessIdx E (getIndexKey key) zero_index s of
        (None, s') \<Rightarrow> (Err NotFound, s')
      | (Some index, s') \<Rightarrow>
          (case dbGet E s' (getDataKey (ix_Idx index)) of
             None \<Rightarrow> (Err LevelDbError, s')
           | Some data \<Rightarrow>
               if h_Sum (ds_hashfunc s') data \<noteq> key
               then (Err InvalidChunk, dbDelete E s' (getDataKey (ix_Idx index)))
               else (case decodeData data (NewChunk key None) of
                  None \<Rightarrow> (Panic, s')
                | Some chunk \<Rightarrow> (Ret chunk, s'))))"

definition DbStore_updateAccessCnt :: "'d db_env \<Rightarrow> Key \<Rightarrow> 'd DbStore \<Rightarrow> 'd DbStore" where
  "DbStore_updateAccessCnt E key s = snd (tryAccessIdx E (getIndexKey key) zero_index s)"

partial_function (option) setCapacity_loop ::
    "'d db_env \<Rightarrow> u64 \<Rightarrow> rat \<Rightarrow> 'd DbStore \<Rightarrow> (db_error, 'd DbStore) go option" where
  "setCapacity_loop E c ratio s =
     (if ds_entryCnt s > c then
        (case collectGarbage E ratio s of
           None \<Rightarrow> None
         | Some (Ret s') \<Rightarrow> setCapacity_loop E c ratio s'
         | Some (Err e) \<Rightarrow> Some (Err e)
         | Some Panic \<Rightarrow> Some Panic)
      else Some (Ret s))"

definition f32_u64 :: "u64 \<Rightarrow> rat" where
  "f32_u64 n = f32 (of_nat (unat n))"

definition gc_ratio :: "u64 \<Rightarrow> u64 \<Rightarrow> rat" where
  "gc_ratio c entryCnt =
     (let ratio = f32 (f32 (101 / 100) - f32 (f32_u64 c / f32_u64 entryCnt));
          ratio = (if ratio < gcArrayFreeRatio then gcArrayFreeRatio else ratio)
      in if ratio > 1 then 1 else ratio)"

definition DbStore_setCapacity ::
    "'d db_env \<Rightarrow> u64 \<Rightarrow> 'd DbStore \<Rightarrow> (db_error, 'd DbStore) go option" where
  "DbStore_setCapacity E c s0 =
     (let s = s0\<lparr>ds_capacity := c\<rparr>
      in if ds_entryCnt s > c then setCapacity_loop E c (gc_ratio c (ds_entryCnt s)) s
         else Some (Ret s))"

text \<open>
  \<open>NewDbStore\<close> on an opened database; \<open>setCapacity\<close> runs on the fresh store, before the
  counters are read back.
\<close>

definition read_counters :: "'d db_env \<Rightarrow> 'd DbStore \<Rightarrow> 'd DbStore" where
  "read_counters E s =
     (let u64 = (\<lambda>k. BytesToU64 (case dbGet E s k of None \<Rightarrow> [] | Some d \<Rightarrow> d))
      in s\<lparr>ds_entryCnt := u64 keyEntryCnt, ds_accessCnt := u64 keyAccessCnt,
           ds_dataIdx := u64 keyDataIdx,
           ds_gcPos := (case dbGet E s keyGCPos of None \<Rightarrow> Some (ds_gcStartPos s) | Some p \<Rightarrow> Some p)\<rparr>)"

definition NewDbStore ::
    "'d db_env \<Rightarrow> 'd \<Rightarrow> Hasher \<Rightarrow> u64 \<Rightarrow> (db_error, 'd DbStore) go option" where
  "NewDbStore E opened hash capacity =
     (case DbStore_setCapacity E capacity
             \<lparr>ds_db = NewLDBDatabase opened, ds_entryCnt = 0, ds_accessCnt = 0, ds_dataIdx = 0,
              ds_capacity = 0, ds_gcPos = None, ds_gcStartPos = [], ds_gcArray = [],
              ds_hashfunc = hash\<rparr> of
        None \<Rightarrow> None
      | Some (Ret s) \<Rightarrow>
          Some (Ret (read_counters E
            (s\<lparr>ds_gcStartPos := [0], ds_gcArray := replicate gcArraySize None\<rparr>)))
      | Some r \<Rightarrow> Some r)"

end
