(* ===== verification/Db_Store_Laws.thy ===== *)
theory Db_Store_Laws
  imports Db_Store
begin

text \<open>
  Laws of the persistent chunk store of theory \<open>Db_Store\<close>: what it holds as a map from
  keys to data, that every operation keeps its invariant, what \<open>Put\<close> and \<open>Get\<close> do to the
  map, what a garbage collection removes, and what is left after a restart.
\<close>

section \<open>Single precision\<close>

lemma rne_le: "of_int (rne q) \<le> q + 1 / 2"
proof -
  have "rne q = \<lfloor>q\<rfloor> \<or> rne q = \<lfloor>q\<rfloor> + 1 \<and> 1 / 2 \<le> q - of_int \<lfloor>q\<rfloor>"
    by (auto simp: rne_def Let_def)
  then show ?thesis
  proof
    assume "rne q = \<lfloor>q\<rfloor>"
    moreover have "of_int \<lfloor>q\<rfloor> \<le> q + 1 / 2" using of_int_floor_le [of q] by linarith
    ultimately show ?thesis by simp
  next
    assume "rne q = \<lfloor>q\<rfloor> + 1 \<and> 1 / 2 \<le> q - of_int \<lfloor>q\<rfloor>"
    then show ?thesis by simp
  qed
qed

lemma floorlog_bounds: "0 < n \<Longrightarrow> 2 ^ (floorlog 2 n - 1) \<le> n \<and> n < 2 ^ floorlog 2 n"
  using floorlog_bounds [of n 2] by simp

lemma f32_exp_le:
  assumes "0 < q"
  shows "2 powi f32_exp q \<le> q"
proof -
  obtain n d where nd: "quotient_of q = (n, d)" by (cases "quotient_of q")
  have d: "0 < d" using quotient_of_denom_pos [OF nd] .
  have q: "q = of_int n / of_int d" using quotient_of_div [OF nd] .
  have n: "0 < n" using assms d q by (simp add: zero_less_divide_iff)
  let ?a = "floorlog 2 (nat n)" and ?b = "floorlog 2 (nat d)"
  have fa: "(2::nat) ^ (?a - 1) \<le> nat n" using floorlog_bounds [of "nat n"] n by simp
  have fb: "nat d < (2::nat) ^ ?b" using floorlog_bounds [of "nat d"] d by simp
  have "0 < ?a" using n by (simp add: floorlog_def)
  have "int ?a - int ?b - 1 = int (?a - 1) - int ?b" using \<open>0 < ?a\<close> by simp
  then have "(2::rat) powi (int ?a - int ?b - 1) = 2 powi (int (?a - 1)) / 2 powi int ?b"
    using power_int_diff [of "2::rat" "int (?a - 1)" "int ?b"] by (simp only: rel_simps simp_thms)
  also have "\<dots> = 2 ^ (?a - 1) / 2 ^ ?b" by simp
  also have "\<dots> \<le> of_int n / of_int d"
  proof (rule frac_le)
    have "of_nat (2 ^ (?a - 1)) \<le> (of_nat (nat n) :: rat)" using fa by (simp only: of_nat_le_iff)
    then show "(2::rat) ^ (?a - 1) \<le> of_int n" using n by simp
    have "of_nat (nat d) \<le> (of_nat (2 ^ ?b) :: rat)" using fb by (simp only: of_nat_le_iff)
    then show "of_int d \<le> (2::rat) ^ ?b" using d by simp
  qed (use n d in simp_all)
  finally show ?thesis using nd q by (simp add: f32_exp_def Let_def)
qed

text \<open>Rounding never doubles a value: enough to keep the cut inside the collected items.\<close>

lemma f32_le:
  assumes "0 \<le> q"
  shows "f32 q \<le> 2 * q"
proof (cases "q = 0")
  case False
  then have q: "0 < q" using assms by simp
  let ?u = "2 powi (f32_exp q - 23) :: rat"
  have u: "0 < ?u" by simp
  have "?u \<le> 2 powi f32_exp q" by (intro power_int_increasing) simp_all
  then have "?u \<le> q" using f32_exp_le [OF q] by simp
  then have "1 \<le> q / ?u" using u by simp
  then have "of_int (rne (q / ?u)) \<le> 2 * (q / ?u)" using rne_le [of "q / ?u"] by linarith
  then have "of_int (rne (q / ?u)) * ?u \<le> 2 * (q / ?u) * ?u" using u by (intro mult_right_mono) auto
  also have "2 * (q / ?u) * ?u = 2 * q" using u by simp
  finally show ?thesis using q by (simp add: f32_def Let_def)
qed (simp add: f32_def)

lemma rne_nonneg: "0 \<le> q \<Longrightarrow> 0 \<le> rne q"
  by (auto simp: rne_def Let_def)

lemma f32_nonneg: "0 \<le> q \<Longrightarrow> 0 \<le> f32 q"
  by (cases "q = 0") (auto simp: f32_def Let_def intro!: mult_nonneg_nonneg rne_nonneg)

lemma f32_cut_lt:
  assumes "0 < n"
  shows "f32_cut n gcArrayFreeRatio < n"
proof -
  have r: "0 \<le> gcArrayFreeRatio" "gcArrayFreeRatio \<le> 1 / 5"
    using f32_le [of "1 / 10"] f32_nonneg [of "1 / 10"] by (simp_all add: gcArrayFreeRatio_def)
  have n: "0 \<le> f32 (of_nat n)" "f32 (of_nat n) \<le> 2 * of_nat n"
    by (simp_all add: f32_le f32_nonneg)
  have p: "0 \<le> f32 (of_nat n) * gcArrayFreeRatio" using r n by simp
  have "f32 (f32 (of_nat n) * gcArrayFreeRatio) \<le> 2 * (f32 (of_nat n) * gcArrayFreeRatio)"
    using f32_le [OF p] .
  also have "\<dots> \<le> 2 * (2 * of_nat n * (1 / 5))" using r n by (intro mult_left_mono mult_mono) auto
  also have "\<dots> < of_nat n" using assms by simp
  finally show ?thesis using f32_nonneg [OF p] by (simp add: f32_cut_def nat_less_iff floor_less_iff)
qed

section \<open>Keys of the database\<close>

lemma key_prefixes [simp]:
  "getIndexKey k \<noteq> []" "getDataKey i \<noteq> []" "keyAccessCnt \<noteq> []" "keyEntryCnt \<noteq> []"
  "keyDataIdx \<noteq> []" "keyGCPos \<noteq> []"
  "[] \<noteq> getIndexKey k" "[] \<noteq> getDataKey i" "[] \<noteq> keyAccessCnt" "[] \<noteq> keyEntryCnt"
  "[] \<noteq> keyDataIdx" "[] \<noteq> keyGCPos"
  "getIndexKey k \<noteq> getDataKey i" "getIndexKey k \<noteq> keyAccessCnt" "getIndexKey k \<noteq> keyEntryCnt"
  "getIndexKey k \<noteq> keyDataIdx" "getIndexKey k \<noteq> keyGCPos"
  "getDataKey i \<noteq> keyAccessCnt" "getDataKey i \<noteq> keyEntryCnt" "getDataKey i \<noteq> keyDataIdx"
  "getDataKey i \<noteq> keyGCPos" "getDataKey i \<noteq> getIndexKey k"
  "keyAccessCnt \<noteq> getIndexKey k" "keyEntryCnt \<noteq> getIndexKey k"
  "keyDataIdx \<noteq> getIndexKey k" "keyGCPos \<noteq> getIndexKey k"
  "keyAccessCnt \<noteq> getDataKey i" "keyEntryCnt \<noteq> getDataKey i" "keyDataIdx \<noteq> getDataKey i"
  "keyGCPos \<noteq> getDataKey i"
  "keyAccessCnt \<noteq> keyEntryCnt" "keyAccessCnt \<noteq> keyDataIdx" "keyEntryCnt \<noteq> keyDataIdx"
  "keyEntryCnt \<noteq> keyAccessCnt" "keyDataIdx \<noteq> keyAccessCnt" "keyDataIdx \<noteq> keyEntryCnt"
  "keyGCPos \<noteq> keyAccessCnt" "keyGCPos \<noteq> keyDataIdx" "keyGCPos \<noteq> keyEntryCnt"
  by (auto simp: getIndexKey_def getDataKey_def keyAccessCnt_def keyEntryCnt_def keyDataIdx_def keyGCPos_def)

lemma getDataKey_inject [simp]: "getDataKey i = getDataKey j \<longleftrightarrow> i = j"
  by (simp add: getDataKey_def)

lemma getIndexKey_inject [simp]: "getIndexKey k = getIndexKey k' \<longleftrightarrow> k = k'"
  by (simp add: getIndexKey_def)

lemma BytesToU64_U64ToBytes [simp]: "BytesToU64 (U64ToBytes v) = v"
  by (simp add: BytesToU64_def U64ToBytes_def)

section \<open>The store as a map\<close>

definition plain :: "'d DbStore \<Rightarrow> bool" where
  "plain s \<longleftrightarrow> \<not> ldb_comp (ds_db s)"

definition index_of :: "'d db_env \<Rightarrow> 'd DbStore \<Rightarrow> Key \<Rightarrow> u64 option" where
  "index_of E s k = map_option (\<lambda>v. ix_Idx (env_dec E v zero_index)) (dbGet E s (getIndexKey k))"

definition entry_of :: "'d db_env \<Rightarrow> 'd DbStore \<Rightarrow> Key \<Rightarrow> dpaDBIndex option" where
  "entry_of E s k = map_option (\<lambda>v. env_dec E v zero_index) (dbGet E s (getIndexKey k))"

lemma index_of_entry: "index_of E s k = map_option ix_Idx (entry_of E s k)"
  by (simp add: index_of_def entry_of_def option.map_comp comp_def)

definition content :: "'d db_env \<Rightarrow> 'd DbStore \<Rightarrow> Key \<Rightarrow> bytes option" where
  "content E s k = (case index_of E s k of None \<Rightarrow> None | Some i \<Rightarrow> dbGet E s (getDataKey i))"

text \<open>
  The invariant: counters of index entries lie below the storage counter and no two keys
  share one, the array of the collector has its fixed size, and no database key is empty.
  Data may be missing (an invalid chunk is dropped on reading).
\<close>

definition dbstore_inv :: "'d db_env \<Rightarrow> 'd DbStore \<Rightarrow> bool" where
  "dbstore_inv E s \<longleftrightarrow> plain s
     \<and> (\<forall>k i. index_of E s k = Some i \<longrightarrow> i < ds_dataIdx s)
     \<and> (\<forall>k k' i. index_of E s k = Some i \<longrightarrow> index_of E s k' = Some i \<longrightarrow> k = k')
     \<and> length (ds_gcArray s) = gcArraySize \<and> ds_gcStartPos s = [0] \<and> dbGet E s [] = None"

text \<open>What the store relies on: the engine, and that the codec reads back what it wrote.\<close>

locale dbstore_env = leveldb "env_L E" for E :: "'d db_env" +
  assumes codec: "env_dec E (env_enc E i) j = i"
begin

lemma dbGet_dbWrite: "plain s \<Longrightarrow> dbGet E (dbWrite E s b) = fold batch_step b (dbGet E s)"
  by (simp add: dbGet_def dbWrite_def plain_def wrapped.look_write)

lemma dbGet_dbPut: "plain s \<Longrightarrow> dbGet E (dbPut E s k v) = (dbGet E s)(k \<mapsto> v)"
  by (simp add: dbGet_def dbPut_def plain_def wrapped.look_upd)

lemma dbGet_dbDelete: "plain s \<Longrightarrow> dbGet E (dbDelete E s k) = (dbGet E s)(k := None)"
  by (simp add: dbGet_def dbDelete_def plain_def wrapped.look_del)

lemma plain_ops [simp]:
  "plain (dbWrite E s b) = plain s" "plain (dbPut E s k v) = plain s" "plain (dbDelete E s k) = plain s"
  by (simp_all add: plain_def dbWrite_def dbPut_def dbDelete_def LDBDatabase_Write_def
      LDBDatabase_Put_def LDBDatabase_Delete_def Let_def)

end

lemma frame_fields [simp]:
  "ds_dataIdx (dbWrite E s b) = ds_dataIdx s" "ds_entryCnt (dbWrite E s b) = ds_entryCnt s"
  "ds_accessCnt (dbWrite E s b) = ds_accessCnt s" "ds_capacity (dbWrite E s b) = ds_capacity s"
  "ds_gcStartPos (dbWrite E s b) = ds_gcStartPos s" "ds_gcStartPos (dbPut E s k v) = ds_gcStartPos s"
  "ds_gcStartPos (dbDelete E s k) = ds_gcStartPos s"
  "ds_gcArray (dbWrite E s b) = ds_gcArray s" "ds_hashfunc (dbWrite E s b) = ds_hashfunc s"
  "ds_dataIdx (dbPut E s k v) = ds_dataIdx s" "ds_entryCnt (dbPut E s k v) = ds_entryCnt s"
  "ds_gcArray (dbPut E s k v) = ds_gcArray s" "ds_hashfunc (dbPut E s k v) = ds_hashfunc s"
  "ds_dataIdx (dbDelete E s k) = ds_dataIdx s" "ds_entryCnt (dbDelete E s k) = ds_entryCnt s"
  "ds_gcArray (dbDelete E s k) = ds_gcArray s" "ds_hashfunc (dbDelete E s k) = ds_hashfunc s"
  by (simp_all add: dbWrite_def dbPut_def dbDelete_def)

lemma frame_get [simp]:
  "dbGet E (ds_entryCnt_update f s) = dbGet E s" "plain (ds_entryCnt_update f s) = plain s"
  "dbGet E (ds_accessCnt_update f s) = dbGet E s" "plain (ds_accessCnt_update f s) = plain s"
  "dbGet E (ds_dataIdx_update f s) = dbGet E s" "plain (ds_dataIdx_update f s) = plain s"
  "dbGet E (ds_capacity_update f s) = dbGet E s" "plain (ds_capacity_update f s) = plain s"
  "dbGet E (ds_gcPos_update g s) = dbGet E s" "plain (ds_gcPos_update g s) = plain s"
  "dbGet E (ds_gcStartPos_update h s) = dbGet E s" "plain (ds_gcStartPos_update h s) = plain s"
  "dbGet E (ds_gcArray_update e s) = dbGet E s" "plain (ds_gcArray_update e s) = plain s"
  by (simp_all add: dbGet_def plain_def)

section \<open>Looking up and storing\<close>

context dbstore_env
begin

text \<open>An access changes neither counters nor data of any index entry.\<close>

lemma tryAccessIdx_None_iff: "fst (tryAccessIdx E (getIndexKey k) j s) = None \<longleftrightarrow> index_of E s k = None"
  by (simp add: tryAccessIdx_def index_of_def Let_def split: option.splits)

lemma tryAccessIdx_miss:
  "index_of E s k = None \<Longrightarrow> tryAccessIdx E (getIndexKey k) j s = (None, s)"
  by (simp add: tryAccessIdx_def index_of_def split: option.splits)

lemma tryAccessIdx_hit:
  assumes "plain s" "tryAccessIdx E (getIndexKey k) zero_index s = (Some ix, s')"
  shows "index_of E s k = Some (ix_Idx ix)" "index_of E s' = index_of E s"
    "dbGet E s' (getDataKey i) = dbGet E s (getDataKey i)" "plain s'"
    "ds_dataIdx s' = ds_dataIdx s" "ds_gcArray s' = ds_gcArray s" "ds_hashfunc s' = ds_hashfunc s"
    "ds_entryCnt s' = ds_entryCnt s" "ds_gcStartPos s' = ds_gcStartPos s" "dbGet E s' [] = dbGet E s []"
  using assms
  by (auto simp: tryAccessIdx_def index_of_def Let_def dbGet_dbWrite updateIndexAccess_def
      decodeIndex_def encodeIndex_def codec fun_eq_iff split: option.splits)

text \<open>An access sets the access value of the entry to the new counter; every other entry stays as it is.\<close>

lemma tryAccessIdx_entry:
  assumes "plain s" "entry_of E s k = Some ix"
  shows "\<exists>s'. tryAccessIdx E (getIndexKey k) zero_index s = (Some (ix\<lparr>ix_Access := ds_accessCnt s + 1\<rparr>), s')
    \<and> entry_of E s' = (entry_of E s)(k \<mapsto> ix\<lparr>ix_Access := ds_accessCnt s + 1\<rparr>)
    \<and> ds_accessCnt s' = ds_accessCnt s + 1 \<and> ds_entryCnt s' = ds_entryCnt s \<and> ds_dataIdx s' = ds_dataIdx s"
  using assms
  by (auto simp: tryAccessIdx_def entry_of_def Let_def dbGet_dbWrite updateIndexAccess_def
      decodeIndex_def encodeIndex_def codec fun_eq_iff)

lemma tryAccessIdx_frame:
  assumes "dbstore_inv E s" "tryAccessIdx E (getIndexKey k) zero_index s = (r, s')"
  shows "dbstore_inv E s'" "content E s' = content E s"
proof -
  have p: "plain s" using assms(1) by (simp add: dbstore_inv_def)
  have "index_of E s' = index_of E s \<and> (\<forall>i. dbGet E s' (getDataKey i) = dbGet E s (getDataKey i))
    \<and> plain s' \<and> ds_dataIdx s' = ds_dataIdx s \<and> ds_gcArray s' = ds_gcArray s
    \<and> ds_gcStartPos s' = ds_gcStartPos s \<and> dbGet E s' [] = dbGet E s []"
  proof (cases r)
    case None
    then show ?thesis using assms(2) p tryAccessIdx_miss tryAccessIdx_None_iff
      by (metis fst_conv snd_conv)
  next
    case (Some ix)
    then have hit: "tryAccessIdx E (getIndexKey k) zero_index s = (Some ix, s')" using assms(2) by simp
    then show ?thesis using tryAccessIdx_hit [OF p hit] by simp
  qed
  then show "dbstore_inv E s'" "content E s' = content E s"
    using assms(1) by (auto simp: dbstore_inv_def content_def fun_eq_iff split: option.splits)
qed

lemma access_frame:
  assumes "dbstore_inv E s"
  shows "dbstore_inv E (snd (tryAccessIdx E (getIndexKey k) zero_index s))"
    "content E (snd (tryAccessIdx E (getIndexKey k) zero_index s)) = content E s"
    "index_of E (snd (tryAccessIdx E (getIndexKey k) zero_index s)) = index_of E s"
proof -
  obtain r s' where t: "tryAccessIdx E (getIndexKey k) zero_index s = (r, s')"
    by (cases "tryAccessIdx E (getIndexKey k) zero_index s")
  have p: "plain s" using assms by (simp add: dbstore_inv_def)
  show "dbstore_inv E (snd (tryAccessIdx E (getIndexKey k) zero_index s))"
    "content E (snd (tryAccessIdx E (getIndexKey k) zero_index s)) = content E s"
    using tryAccessIdx_frame [OF assms t] by (simp_all add: t)
  show "index_of E (snd (tryAccessIdx E (getIndexKey k) zero_index s)) = index_of E s"
  proof (cases r)
    case None
    then have "index_of E s k = None" using tryAccessIdx_None_iff [of k zero_index s] by (simp add: t)
    then show ?thesis by (simp add: tryAccessIdx_miss)
  next
    case (Some ix)
    then show ?thesis using tryAccessIdx_hit(2) [OF p] t by simp
  qed
qed

lemma put_new_index:
  "plain s \<Longrightarrow> index_of E (put_new E (getIndexKey k) data s) = (index_of E s)(k \<mapsto> ds_dataIdx s)"
  by (auto simp: put_new_def Let_def index_of_def dbGet_dbWrite fun_eq_iff encodeIndex_def codec
      updateIndexAccess_def)

lemma put_new_entry:
  "plain s \<Longrightarrow> entry_of E (put_new E (getIndexKey k) data s) =
     (entry_of E s)(k \<mapsto> \<lparr>ix_Idx = ds_dataIdx s, ix_Access = ds_accessCnt s\<rparr>)"
  by (auto simp: put_new_def Let_def entry_of_def dbGet_dbWrite fun_eq_iff encodeIndex_def codec
      updateIndexAccess_def zero_index_def)

lemma put_new_counters:
  "ds_entryCnt (put_new E ikey data s) = ds_entryCnt s + 1" "ds_dataIdx (put_new E ikey data s) = ds_dataIdx s + 1"
  "ds_accessCnt (put_new E ikey data s) = ds_accessCnt s + 1"
  by (simp_all add: put_new_def Let_def)

lemma put_new_data:
  "plain s \<Longrightarrow> dbGet E (put_new E (getIndexKey k) data s) (getDataKey i) =
     (if i = ds_dataIdx s then Some data else dbGet E s (getDataKey i))"
  by (simp add: put_new_def Let_def dbGet_dbWrite)

lemma put_new_content:
  assumes "dbstore_inv E s"
  shows "content E (put_new E (getIndexKey k) data s) = (content E s)(k \<mapsto> data)"
proof
  fix k'
  have p: "plain s" using assms by (simp add: dbstore_inv_def)
  have "i \<noteq> ds_dataIdx s" if "index_of E s k' = Some i" for i
    using assms that unfolding dbstore_inv_def by fastforce
  then show "content E (put_new E (getIndexKey k) data s) k' = ((content E s)(k \<mapsto> data)) k'"
    by (simp add: content_def put_new_index [OF p] put_new_data [OF p] split: option.splits)
qed

lemma put_new_inv:
  assumes "dbstore_inv E s" "ds_dataIdx s \<noteq> -1"
  shows "dbstore_inv E (put_new E (getIndexKey k) data s)"
proof -
  have p: "plain s" using assms by (simp add: dbstore_inv_def)
  have lt: "ds_dataIdx s < ds_dataIdx s + 1" using assms(2) by (rule u64_less_Suc)
  have old: "i < ds_dataIdx s" if "index_of E s k' = Some i" for k' i
    using assms(1) that unfolding dbstore_inv_def by blast
  have uniq: "k' = k''" if "index_of E s k' = Some i" "index_of E s k'' = Some i" for k' k'' i
    using assms(1) that unfolding dbstore_inv_def by blast
  have "plain (put_new E (getIndexKey k) data s)" "ds_dataIdx (put_new E (getIndexKey k) data s) = ds_dataIdx s + 1"
    "length (ds_gcArray (put_new E (getIndexKey k) data s)) = gcArraySize"
    "ds_gcStartPos (put_new E (getIndexKey k) data s) = [0]"
    "dbGet E (put_new E (getIndexKey k) data s) [] = None"
    using assms(1) p by (simp_all add: put_new_def Let_def dbstore_inv_def dbGet_dbWrite)
  moreover have "i < ds_dataIdx s + 1" if "((index_of E s)(k \<mapsto> ds_dataIdx s)) k' = Some i" for k' i
    using that lt old [of k' i] by (auto split: if_splits)
  moreover have "k' = k''" if "((index_of E s)(k \<mapsto> ds_dataIdx s)) k' = Some i"
      "((index_of E s)(k \<mapsto> ds_dataIdx s)) k'' = Some i" for k' k'' i
    using that old [of k' i] old [of k'' i] uniq [of k' i k''] by (auto split: if_splits)
  ultimately show ?thesis unfolding dbstore_inv_def put_new_index [OF p] by metis
qed

end

section \<open>Garbage collection\<close>

text \<open>What a collection may change: entries disappear, nothing else does.\<close>

definition shrinks :: "'d db_env \<Rightarrow> 'd DbStore \<Rightarrow> 'd DbStore \<Rightarrow> bool" where
  "shrinks E s s' \<longleftrightarrow> plain s' \<and> ds_dataIdx s' = ds_dataIdx s \<and> ds_gcStartPos s' = ds_gcStartPos s
     \<and> length (ds_gcArray s') = length (ds_gcArray s) \<and> ds_hashfunc s' = ds_hashfunc s
     \<and> index_of E s' \<subseteq>\<^sub>m index_of E s
     \<and> (\<lambda>i. dbGet E s' (getDataKey i)) \<subseteq>\<^sub>m (\<lambda>i. dbGet E s (getDataKey i))
     \<and> (dbGet E s [] = None \<longrightarrow> dbGet E s' [] = None)"

lemma shrinks_refl: "plain s \<Longrightarrow> shrinks E s s"
  by (simp add: shrinks_def)

lemma shrinks_trans: "shrinks E s s' \<Longrightarrow> shrinks E s' s'' \<Longrightarrow> shrinks E s s''"
  unfolding shrinks_def by (auto intro: map_le_trans)

lemma shrinks_inv:
  assumes "dbstore_inv E s" "shrinks E s s'"
  shows "dbstore_inv E s'"
proof -
  have "index_of E s' k = Some i \<Longrightarrow> index_of E s k = Some i" for k i
    using assms(2) unfolding shrinks_def map_le_def by (metis domI)
  then show ?thesis using assms unfolding dbstore_inv_def shrinks_def by metis
qed

lemma shrinks_content: "shrinks E s s' \<Longrightarrow> content E s' \<subseteq>\<^sub>m content E s"
  unfolding shrinks_def content_def map_le_def
  by (auto split: option.splits simp: dom_def)

lemma shrinks_data_None:
  "shrinks E s s' \<Longrightarrow> dbGet E s (getDataKey i) = None \<Longrightarrow> dbGet E s' (getDataKey i) = None"
  unfolding shrinks_def map_le_def by (metis domIff)

lemma gc_select_items:
  assumes "items \<noteq> []" "length items \<le> length arr0" "c < length items"
  shows "\<exists>ys. gcListSelect (map Some items @ drop (length items) arr0) 0 (int (length items) - 1) (int c)
      = Some (Ret (ys, int c)) \<and> length ys = length arr0 \<and> selected ys 0 c (length items - 1)
    \<and> mset (take (length items) ys) = mset (map Some items)
    \<and> set (take (length items) ys) = Some ` set items"
proof -
  let ?n = "length items" and ?arr = "map Some items @ drop (length items) arr0"
  have n: "0 < ?n" and r: "int ?n - 1 = int (?n - 1)" using assms(1) by (simp_all add: Suc_le_eq)
  have len: "length ?arr = length arr0" using assms(2) by simp
  have "live ?arr 0 (?n - 1)" using n by (cases items) (auto simp: live_def nth_append nth_Cons')
  then obtain ys where ys: "gcListSelect ?arr 0 (int ?n - 1) (int c) = Some (Ret (ys, int c))"
    "seg_eq 0 (?n - 1) ?arr ys" "selected ys 0 c (?n - 1)"
    using gcListSelect_spec [of ?arr 0 "?n - 1" c] assms(3) unfolding r by fastforce
  have ly: "length ys = length arr0" using seg_eq_length [OF ys(2)] len by simp
  have tail: "drop ?n ys = drop ?n ?arr"
  proof (rule nth_equalityI)
    fix k
    assume "k < length (drop ?n ys)"
    moreover have "?n - 1 < ?n + k" using n by linarith
    then have "ys ! (?n + k) = ?arr ! (?n + k)" using seg_eq_outside [OF ys(2)] by blast
    ultimately show "drop ?n ys ! k = drop ?n ?arr ! k" using ly len assms(2) by (simp add: nth_append)
  qed (use ly len in simp)
  have "mset (take ?n ys) + mset (drop ?n ys) = mset (take ?n ?arr) + mset (drop ?n ?arr)"
    using ys(2) unfolding seg_eq_def by (simp only: append_take_drop_id flip: mset_append)
  then have ms: "mset (take ?n ys) = mset (map Some items)" using tail by simp
  then have "set (take ?n ys) = Some ` set items" by (metis list.set_map mset_eq_setD)
  then show ?thesis using ys ly ms by blast
qed

text \<open>The database keys that go with the collected items of access value at most \<open>cv\<close>.\<close>

definition doomed :: "u64 \<Rightarrow> gcItem set \<Rightarrow> bytes set" where
  "doomed cv items = (\<Union>g \<in> {g \<in> items. gi_value g \<le> cv}. {gi_idxKey g, getDataKey (gi_idx g)})"

lemma doomed_insert: "doomed cv (insert g items) = (if gi_value g \<le> cv then {gi_idxKey g, getDataKey (gi_idx g)} else {}) \<union> doomed cv items"
  by (auto simp: doomed_def)

lemma doomed_empty [simp]: "doomed cv {} = {}"
  by (simp add: doomed_def)

context dbstore_env
begin

lemma gc_evict_get:
  "plain s \<Longrightarrow> dbGet E (gc_evict E g s) =
     (dbGet E s)(gi_idxKey g := None, getDataKey (gi_idx g) := None,
        keyEntryCnt \<mapsto> U64ToBytes (ds_entryCnt s - 1))"
  by (simp add: gc_evict_def Let_def dbGet_dbWrite)

lemma gc_evict_shrinks:
  assumes "plain s"
  shows "shrinks E s (gc_evict E g s)"
proof -
  have "index_of E (gc_evict E g s) \<subseteq>\<^sub>m index_of E s"
    by (auto simp: map_le_def index_of_def gc_evict_get [OF assms] split: if_splits)
  moreover have "(\<lambda>i. dbGet E (gc_evict E g s) (getDataKey i)) \<subseteq>\<^sub>m (\<lambda>i. dbGet E s (getDataKey i))"
    by (auto simp: map_le_def gc_evict_get [OF assms] split: if_splits)
  moreover have "dbGet E s [] = None \<longrightarrow> dbGet E (gc_evict E g s) [] = None"
    by (simp add: gc_evict_get [OF assms])
  moreover have "plain (gc_evict E g s)" "ds_dataIdx (gc_evict E g s) = ds_dataIdx s"
    "ds_gcStartPos (gc_evict E g s) = ds_gcStartPos s" "ds_gcArray (gc_evict E g s) = ds_gcArray s"
    "ds_hashfunc (gc_evict E g s) = ds_hashfunc s"
    using assms by (simp_all add: gc_evict_def Let_def)
  ultimately show ?thesis unfolding shrinks_def by simp
qed

lemma gc_delete_total:
  assumes "plain s" "None \<notin> set gs"
  shows "\<exists>s'. gc_delete E cv gs s = Ret s' \<and> shrinks E s s'
    \<and> ds_entryCnt s' = ds_entryCnt s - of_nat (length (filter (\<lambda>g. gi_value (the g) \<le> cv) gs))
    \<and> (\<forall>x. x \<noteq> keyEntryCnt \<longrightarrow> dbGet E s' x = (if x \<in> doomed cv (the ` set gs) then None else dbGet E s x))"
  using assms
proof (induction gs arbitrary: s)
  case Nil
  then show ?case by (simp add: shrinks_refl)
next
  case (Cons x gs)
  then obtain g where x: "x = Some g" by (cases x) auto
  let ?s1 = "if gi_value g \<le> cv then gc_evict E g s else s"
  have s1: "shrinks E s ?s1" using Cons.prems gc_evict_shrinks by (simp add: shrinks_refl)
  then have "plain ?s1" unfolding shrinks_def by blast
  then obtain s' where s': "gc_delete E cv gs ?s1 = Ret s'" "shrinks E ?s1 s'"
    "ds_entryCnt s' = ds_entryCnt ?s1 - of_nat (length (filter (\<lambda>g. gi_value (the g) \<le> cv) gs))"
    "\<forall>x. x \<noteq> keyEntryCnt \<longrightarrow> dbGet E s' x = (if x \<in> doomed cv (the ` set gs) then None else dbGet E ?s1 x)"
    using Cons.IH [of ?s1] Cons.prems(2) by auto
  have "dbGet E s' x = (if x \<in> doomed cv (the ` set (Some g # gs)) then None else dbGet E s x)" if "x \<noteq> keyEntryCnt" for x
    using s'(4) that Cons.prems(1) by (simp add: gc_evict_get doomed_insert)
  moreover have "ds_entryCnt ?s1 = (if gi_value g \<le> cv then ds_entryCnt s - 1 else ds_entryCnt s)"
    by (simp add: gc_evict_def Let_def)
  ultimately show ?case using s' shrinks_trans [OF s1 s'(2)] by (auto simp: x)
qed

lemma gc_run_ok:
  assumes "plain s" "items \<noteq> []" "length items \<le> length (ds_gcArray s)"
    "f32_cut (length items) ratio < length items"
  shows "\<exists>s' cv. gc_run E ratio s pos items = Some (Ret s') \<and> shrinks E s s' \<and> cv \<in> gi_value ` set items
    \<and> length (filter (\<lambda>g. gi_value g < cv) items) \<le> f32_cut (length items) ratio
    \<and> f32_cut (length items) ratio < length (filter (\<lambda>g. gi_value g \<le> cv) items)
    \<and> ds_entryCnt s' = ds_entryCnt s - of_nat (length (filter (\<lambda>g. gi_value g \<le> cv) items))
    \<and> (\<forall>x. x \<noteq> keyEntryCnt \<longrightarrow> x \<noteq> keyGCPos \<longrightarrow> dbGet E s' x = (if x \<in> doomed cv (set items) then None else dbGet E s x))"
proof -
  let ?n = "length items" and ?arr = "map Some items @ drop (length items) (ds_gcArray s)"
  define c where "c = f32_cut ?n ratio"
  have cn: "c < ?n" using assms(4) by (simp add: c_def)
  obtain ys where ys: "gcListSelect ?arr 0 (int ?n - 1) (int c) = Some (Ret (ys, int c))"
    and ly: "length ys = length (ds_gcArray s)" and sel: "selected ys 0 c (?n - 1)"
    and ms: "mset (take ?n ys) = mset (map Some items)" and st: "set (take ?n ys) = Some ` set items"
    using gc_select_items [OF assms(2,3) cn] by blast
  have "ys ! c \<in> set (take ?n ys)" using cn ly assms(3)
    by (metis in_set_conv_nth length_take min.absorb2 nth_take)
  then obtain g where g: "ys ! c = Some g" using st by auto
  define cv where "cv = gi_value g"
  let ?P = "\<lambda>x. gi_value (the x) \<le> cv"
  have cnt: "length (filter (\<lambda>x. R (gi_value (the x))) (take ?n ys)) = length (filter (\<lambda>g. R (gi_value g)) items)" for R
    using arg_cong [OF ms, of "\<lambda>m. size (filter_mset (\<lambda>x. R (gi_value (the x))) m)"]
    by (simp add: filter_map comp_def flip: mset_filter del: mset_map)
  have cvin: "cv \<in> gi_value ` set items" using \<open>ys ! c \<in> set (take ?n ys)\<close> st g by (auto simp: cv_def)
  have low: "?P x" if x: "x \<in> set (take (Suc c) ys)" for x
  proof -
    obtain k where k: "k \<le> c" "x = ys ! k" "k < length ys"
      using x by (auto simp: in_set_conv_nth less_Suc_eq_le)
    have "gval ys k \<le> gval ys c" using sel k(1) by (simp add: selected_def)
    moreover have "x \<in> Some ` set items"
      using st k cn by (metis in_set_conv_nth length_take min_less_iff_conj nth_take order_le_less_trans)
    ultimately show ?thesis using k(2) g by (auto simp: gval_def cv_def)
  qed
  have "\<not> gi_value (the x) < cv" if x: "x \<in> set (drop c (take ?n ys))" for x
  proof -
    obtain k where k: "c \<le> k" "k \<le> ?n - 1" "x = ys ! k" "k < ?n"
    proof -
      obtain i where "i < ?n - c" "x = ys ! (c + i)" using x ly assms(3) by (auto simp: in_set_conv_nth)
      then show thesis by (intro that [of "c + i"]) auto
    qed
    have "gval ys c \<le> gval ys k" using sel k(1,2) by (simp add: selected_def)
    moreover have "x \<in> Some ` set items"
      using st k ly assms(3) by (metis in_set_conv_nth length_take min.absorb2 nth_take)
    ultimately show ?thesis using k(3) g by (auto simp: gval_def cv_def)
  qed
  then have "filter (\<lambda>x. gi_value (the x) < cv) (drop c (take ?n ys)) = []" by (simp add: filter_empty_conv)
  moreover have "take ?n ys = take c ys @ drop c (take ?n ys)"
    using cn by (metis append_take_drop_id less_imp_le min.absorb1 take_take)
  ultimately have "length (filter (\<lambda>x. gi_value (the x) < cv) (take ?n ys)) \<le> length (take c ys)"
    by (metis append_Nil2 filter_append length_filter_le)
  then have few: "length (filter (\<lambda>g. gi_value g < cv) items) \<le> c"
    using cnt [of "\<lambda>v. v < cv"] by simp
  have "take ?n ys = take (Suc c) ys @ drop (Suc c) (take ?n ys)"
    using cn by (metis Suc_leI append_take_drop_id min.absorb1 take_take)
  then have "length (filter ?P (take (Suc c) ys)) \<le> length (filter ?P (take ?n ys))"
    by (metis filter_append le_add1 length_append)
  moreover have "filter ?P (take (Suc c) ys) = take (Suc c) ys" using low by (simp add: filter_id_conv)
  ultimately have more: "c < length (filter (\<lambda>g. gi_value g \<le> cv) items)"
    using cnt [of "\<lambda>v. v \<le> cv"] cn assms(3) ly by simp
  let ?s = "s\<lparr>ds_gcPos := pos, ds_gcArray := ys\<rparr>"
  have base: "shrinks E s ?s" using assms(1) ly by (simp add: shrinks_def index_of_def map_le_def fun_eq_iff)
  obtain s1 where s1: "gc_delete E cv (take ?n ys) ?s = Ret s1" "shrinks E ?s s1"
    "ds_entryCnt s1 = ds_entryCnt s - of_nat (length (filter ?P (take ?n ys)))"
    "\<forall>x. x \<noteq> keyEntryCnt \<longrightarrow> dbGet E s1 x = (if x \<in> doomed cv (set items) then None else dbGet E s x)"
    using gc_delete_total [of ?s "take ?n ys" cv] st assms(1) by (auto simp: image_image)
  let ?v = "case pos of None \<Rightarrow> [] | Some p \<Rightarrow> p"
  have p1: "plain s1" using s1(2) unfolding shrinks_def by blast
  have "shrinks E s1 (dbPut E s1 keyGCPos ?v)"
    using p1 by (auto simp: shrinks_def index_of_def dbGet_dbPut map_le_def)
  then have "shrinks E s (dbPut E s1 keyGCPos ?v)" using base s1(2) shrinks_trans by blast
  moreover have "gc_run E ratio s pos items = Some (Ret (dbPut E s1 keyGCPos ?v))"
    using ys g s1(1) cn ly assms(3)
    by (simp add: gc_run_def Let_def gc_at_int flip: c_def cv_def)
  moreover have "\<forall>x. x \<noteq> keyEntryCnt \<longrightarrow> x \<noteq> keyGCPos \<longrightarrow>
      dbGet E (dbPut E s1 keyGCPos ?v) x = (if x \<in> doomed cv (set items) then None else dbGet E s x)"
    using s1(4) p1 by (simp add: dbGet_dbPut)
  moreover have "ds_entryCnt (dbPut E s1 keyGCPos ?v) = ds_entryCnt s - of_nat (length (filter (\<lambda>g. gi_value g \<le> cv) items))"
    using s1(3) cnt [of "\<lambda>v. v \<le> cv"] by simp
  ultimately show ?thesis using few more cvin unfolding c_def by blast
qed

end

end
