(* ===== verification/Db_Store_Props.thy ===== *)
theory Db_Store_Props
  imports Db_Store_Laws
begin

text \<open>
  The collecting loop of the garbage collector, the laws of \<open>Put\<close> and \<open>Get\<close> on the whole
  store, and the properties of \<open>storage/dbstore.go\<close>.
\<close>

section \<open>The collecting loop\<close>

text \<open>
  An item of the collector comes from an index entry of the snapshot; where the iterator never overwrites a key slice that is held, the
  item still names that entry at the end.
\<close>

definition from_entry :: "'d db_env \<Rightarrow> (bytes \<times> bytes) list \<Rightarrow> gcItem \<Rightarrow> bool" where
  "from_entry E es g \<longleftrightarrow> (\<exists>k v. (getIndexKey k, v) \<in> set es
     \<and> gi_idx g = ix_Idx (env_dec E v zero_index) \<and> gi_value g = ix_Access (env_dec E v zero_index)
     \<and> (env_held E = key_copied \<longrightarrow> gi_idxKey g = getIndexKey k))"

lemma from_entry_touch: "\<forall>g\<in>set items. from_entry E es g \<Longrightarrow> \<forall>g\<in>set (touch E it items). from_entry E es g"
  by (fastforce simp: touch_def from_entry_def key_copied_def split: option.splits)

lemma set_dropWhile_sub: "set (dropWhile P xs) \<subseteq> set xs"
  by (auto dest: set_dropWhileD)

lemma set_tl_sub: "set (tl xs) \<subseteq> set xs"
  by (cases xs) auto

text \<open>Iterators that walk the snapshot \<open>es\<close>.\<close>

definition walks :: "(bytes \<times> bytes) list \<Rightarrow> ldb_iter \<Rightarrow> bool" where
  "walks es it \<longleftrightarrow> it_all it = es \<and> set (it_rest it) \<subseteq> set es"

lemma walks_move: "walks es it \<Longrightarrow> walks es (it_Next it)" "walks es it \<Longrightarrow> walks es (it_Seek it k)"
  using set_tl_sub [of "it_rest it"] set_dropWhile_sub by (fastforce simp: walks_def it_defs)+

lemma walks_key:
  "walks es it \<Longrightarrow> it_Key it = Some k \<Longrightarrow> (k, it_Value it) \<in> set es"
  by (auto simp: walks_def it_defs split: list.splits)

lemma off_index_key:
  "walks es it \<Longrightarrow> [] \<notin> fst ` set es \<Longrightarrow> off_index (it_Key it) \<noteq> None"
  using walks_key [of es it "[]"] by (force simp: off_index_def split: option.splits list.splits)

lemma off_index_False: "off_index p = Some False \<Longrightarrow> \<exists>k. p = Some (getIndexKey k)"
  by (auto simp: off_index_def getIndexKey_def split: option.splits list.splits)

text \<open>
  The loop returns, and what holds of the items collected so far at every position it
  visits holds of its result.
\<close>

lemma gc_loop_ret:
  assumes seek: "\<And>it items. walks es it \<Longrightarrow> I it items \<Longrightarrow>
      I (it_Seek it start) (touch E (it_Seek it start) items)"
    and collect: "\<And>it items k. walks es it \<Longrightarrow> I it items \<Longrightarrow> it_Key it = Some (getIndexKey k) \<Longrightarrow>
      I (it_Next it) (touch E (it_Next it) (items @ [gc_item E it (getIndexKey k)]))"
    and "walks es it" "[] \<notin> fst ` set es" "pos = it_Key it" "length items \<le> gcArraySize" "I it items"
  shows "\<exists>items' it'. gc_loop E start cnt it pos items = Ret (it_Key it', items')
    \<and> length items \<le> length items' \<and> length items' \<le> gcArraySize \<and> I it' items'"
  using assms(3-7)
proof (induction "gcArraySize - length items" arbitrary: it pos items rule: less_induct)
  case less
  show ?case
  proof (cases "length items < gcArraySize \<and> of_nat (length items) < cnt")
    case False
    then show ?thesis using less.prems by (subst gc_loop.simps) auto
  next
    case True
    obtain off where off: "off_index pos = Some off"
      using off_index_key [OF less.prems(1,2)] less.prems(3) by auto
    define it1 where "it1 = (if off then it_Seek it start else it)"
    define pos1 where "pos1 = (if off then it_Key it1 else pos)"
    define items1 where "items1 = (if off then touch E it1 items else items)"
    have w1: "walks es it1" using less.prems(1) walks_move by (simp add: it1_def)
    have p1: "pos1 = it_Key it1" using less.prems(3) by (simp add: pos1_def it1_def)
    have i1: "length items1 = length items" "I it1 items1"
      using less.prems(5) seek [OF less.prems(1)] by (auto simp: items1_def it1_def)
    obtain off1 where off1: "off_index pos1 = Some off1"
      using off_index_key [OF w1 less.prems(2)] p1 by auto
    show ?thesis
    proof (cases off1)
      case o: True
      have "gc_loop E start cnt it pos items = Ret (pos1, items1)"
        using True off off1 o
        by (subst gc_loop.simps) (simp flip: it1_def pos1_def items1_def add: Let_def)
      then show ?thesis using i1 less.prems(4) p1 by auto
    next
      case o: False
      define it2 where "it2 = it_Next it1"
      define items2 where "items2 = touch E it2 (items1 @ [gc_item E it1 (the pos1)])"
      obtain k where k: "pos1 = Some (getIndexKey k)" using off1 o off_index_False [of pos1] by auto
      have i2: "I it2 items2" unfolding items2_def it2_def using collect [OF w1 i1(2)] k p1 by simp
      have step: "gc_loop E start cnt it pos items = gc_loop E start cnt it2 (it_Key it2) items2"
        using True off off1 o
        by (subst gc_loop.simps)
          (simp flip: it1_def pos1_def items1_def it2_def items2_def add: Let_def)
      have l2: "length items2 = Suc (length items)" by (simp add: items2_def i1)
      then have "gcArraySize - length items2 < gcArraySize - length items" using True by linarith
      from less.hyps [OF this, of it2 "it_Key it2"] show ?thesis
        using step i2 l2 True walks_move(1) [OF w1] less.prems(2) unfolding it2_def by fastforce
    qed
  qed
qed

text \<open>Positioned on an index entry, the loop collects at least one item.\<close>

lemma seek_start_index:
  assumes "sorted_wrt (<) (map fst es)" "(getIndexKey k, v) \<in> set es" "walks es it"
  shows "off_index (it_Key (it_Seek it [0])) = Some False"
proof -
  let ?r = "dropWhile (\<lambda>e. fst e < [0]) es"
  have k: "\<not> getIndexKey k < [0]" by (simp add: getIndexKey_def)
  have "(getIndexKey k, v) \<in> set (takeWhile (\<lambda>e. fst e < [0]) es @ ?r)"
    using assms(2) by (simp only: takeWhile_dropWhile_id)
  then have mem: "(getIndexKey k, v) \<in> set ?r"
    using k unfolding set_append by (force dest: set_takeWhileD)
  then obtain e r where r: "?r = e # r" by (cases ?r) auto
  have "\<not> fst e < [0]" using r hd_dropWhile [of "\<lambda>e. fst e < [0]" es] by force
  moreover have "sorted_wrt (<) (map fst (e # r))"
    using sorted_wrt_dropWhile [of "\<lambda>x y. fst x < fst y" es "\<lambda>e. fst e < [0]"] assms(1) r
    by (simp add: sorted_wrt_map)
  then have "fst e \<le> getIndexKey k" using mem r by (auto simp: less_imp_le)
  ultimately obtain bs where "fst e = 0 # bs"
    by (cases "fst e") (auto simp: getIndexKey_def word_less_nat_alt)
  then show ?thesis using assms(3) r by (simp add: it_defs walks_def off_index_def)
qed

lemma gc_loop_nonempty:
  assumes "walks es it" "[] \<notin> fst ` set es" "pos = it_Key it" "0 < cnt"
    "sorted_wrt (<) (map fst es)" "(getIndexKey k, v) \<in> set es"
    "gc_loop E [0] cnt it pos [] = Ret (pos', items')"
  shows "items' \<noteq> []"
proof -
  obtain off where off: "off_index pos = Some off"
    using off_index_key [OF assms(1,2)] assms(3) by auto
  define it1 where "it1 = (if off then it_Seek it [0] else it)"
  define it2 where "it2 = it_Next it1"
  have w: "walks es it2" using assms(1) walks_move by (simp add: it1_def it2_def)
  have p1: "off_index (it_Key it1) = Some False"
    using off seek_start_index [OF assms(5,6,1)] assms(3) by (cases off) (simp_all add: it1_def)
  have "0 < gcArraySize \<and> of_nat (length ([] :: gcItem list)) < cnt" using assms(4) by (simp add: gcArraySize_def)
  moreover have "(if off then touch E it1 [] else []) = []"
    by (simp add: touch_def split: option.splits)
  moreover have "(if off then it_Key it1 else pos) = it_Key it1"
    using assms(3) by (simp add: it1_def)
  ultimately have "gc_loop E [0] cnt it pos [] =
      gc_loop E [0] cnt it2 (it_Key it2) (touch E it2 [gc_item E it1 (the (it_Key it1))])"
    using off p1 by (subst gc_loop.simps) (simp flip: it1_def it2_def add: Let_def)
  moreover have "\<exists>items' it'. gc_loop E [0] cnt it2 (it_Key it2)
        (touch E it2 [gc_item E it1 (the (it_Key it1))]) = Ret (it_Key it', items')
      \<and> length (touch E it2 [gc_item E it1 (the (it_Key it1))]) \<le> length items'
      \<and> length items' \<le> gcArraySize \<and> True"
    by (rule gc_loop_ret [where I = "\<lambda>_ _. True", OF _ _ w assms(2)]) (simp_all add: gcArraySize_def)
  ultimately show ?thesis using assms(7) by auto
qed

text \<open>The items that the collecting loop of a garbage collection puts into its array.\<close>

definition gc_collects :: "'d db_env \<Rightarrow> 'd DbStore \<Rightarrow> gcItem list \<Rightarrow> bool" where
  "gc_collects E s items \<longleftrightarrow>
     (let it = it_Seek (LDBDatabase_NewIterator (env_L E) (ds_db s)) (case ds_gcPos s of None \<Rightarrow> [] | Some p \<Rightarrow> p)
      in \<exists>pos. gc_loop E (ds_gcStartPos s) (ds_entryCnt s) it (it_Key it) [] = Ret (pos, items))"

context dbstore_env
begin

lemma snapshot_walks:
  "walks (ldb_snapshot (env_L E) (ldb_db (ds_db s))) (it_Seek (LDBDatabase_NewIterator (env_L E) (ds_db s)) p)"
  by (rule walks_move) (simp add: walks_def LDBDatabase_NewIterator_def)

lemma dbGet_snapshot:
  "plain s \<Longrightarrow> dbGet E s k = Some v \<longleftrightarrow> (k, v) \<in> set (ldb_snapshot (env_L E) (ldb_db (ds_db s)))"
  by (simp add: snapshot_mem dbGet_def LDBDatabase_Get_def plain_def split: option.splits)

lemma no_empty_key:
  "dbstore_inv E s \<Longrightarrow> [] \<notin> fst ` set (ldb_snapshot (env_L E) (ldb_db (ds_db s)))"
  using dbGet_snapshot [of s "[]"] by (force simp: dbstore_inv_def)

text \<open>A collection on a store with an index entry evicts a tenth of what it has looked at.\<close>

lemma collectGarbage_ok:
  assumes inv: "dbstore_inv E s" and "index_of E s k \<noteq> None" "0 < ds_entryCnt s"
  shows "\<exists>s' items cv. collectGarbage E gcArrayFreeRatio s = Some (Ret s') \<and> dbstore_inv E s' \<and> shrinks E s s'
    \<and> gc_collects E s items \<and> cv \<in> gi_value ` set items
    \<and> length (filter (\<lambda>g. gi_value g < cv) items) \<le> f32_cut (length items) gcArrayFreeRatio
    \<and> f32_cut (length items) gcArrayFreeRatio < length (filter (\<lambda>g. gi_value g \<le> cv) items)
    \<and> ds_entryCnt s' = ds_entryCnt s - of_nat (length (filter (\<lambda>g. gi_value g \<le> cv) items))
    \<and> (\<forall>g\<in>set items. from_entry E (ldb_snapshot (env_L E) (ldb_db (ds_db s))) g)
    \<and> (\<forall>x. x \<noteq> keyEntryCnt \<longrightarrow> x \<noteq> keyGCPos \<longrightarrow> dbGet E s' x = (if x \<in> doomed cv (set items) then None else dbGet E s x))"
proof -
  let ?es = "ldb_snapshot (env_L E) (ldb_db (ds_db s))"
  let ?it = "it_Seek (LDBDatabase_NewIterator (env_L E) (ds_db s)) (case ds_gcPos s of None \<Rightarrow> [] | Some p \<Rightarrow> p)"
  have p: "plain s" "ds_gcStartPos s = [0]" "length (ds_gcArray s) = gcArraySize"
    using inv by (simp_all add: dbstore_inv_def)
  obtain v where v: "(getIndexKey k, v) \<in> set ?es"
    using assms(2) dbGet_snapshot [OF p(1)] by (auto simp: index_of_def)
  have "\<exists>items it'. gc_loop E [0] (ds_entryCnt s) ?it (it_Key ?it) [] = Ret (it_Key it', items)
    \<and> length ([] :: gcItem list) \<le> length items \<and> length items \<le> gcArraySize \<and> (\<forall>g\<in>set items. from_entry E ?es g)"
  proof (rule gc_loop_ret [OF _ _ snapshot_walks no_empty_key [OF inv]])
    fix it items k
    assume w: "walks ?es it" "\<forall>g\<in>set items. from_entry E ?es g" "it_Key it = Some (getIndexKey k)"
    then have "from_entry E ?es (gc_item E it (getIndexKey k))"
      using walks_key [OF w(1,3)]
      by (auto simp: from_entry_def gc_item_def Let_def decodeIndex_def getIndexGCValue_def)
    then show "\<forall>g\<in>set (touch E (it_Next it) (items @ [gc_item E it (getIndexKey k)])). from_entry E ?es g"
      using w(2) by (intro from_entry_touch) auto
  qed (simp_all add: from_entry_touch)
  then obtain items pos where l: "gc_loop E [0] (ds_entryCnt s) ?it (it_Key ?it) [] = Ret (pos, items)"
    "length items \<le> gcArraySize" "\<forall>g\<in>set items. from_entry E ?es g"
    by blast
  have "items \<noteq> []"
    using gc_loop_nonempty [OF snapshot_walks no_empty_key [OF inv] refl assms(3) snapshot_sorted v l(1)] .
  then have "\<exists>s' cv. gc_run E gcArrayFreeRatio s pos items = Some (Ret s') \<and> shrinks E s s' \<and> cv \<in> gi_value ` set items
    \<and> length (filter (\<lambda>g. gi_value g < cv) items) \<le> f32_cut (length items) gcArrayFreeRatio
    \<and> f32_cut (length items) gcArrayFreeRatio < length (filter (\<lambda>g. gi_value g \<le> cv) items)
    \<and> ds_entryCnt s' = ds_entryCnt s - of_nat (length (filter (\<lambda>g. gi_value g \<le> cv) items))
    \<and> (\<forall>x. x \<noteq> keyEntryCnt \<longrightarrow> x \<noteq> keyGCPos \<longrightarrow> dbGet E s' x = (if x \<in> doomed cv (set items) then None else dbGet E s x))"
    using l(2) p(3) f32_cut_lt [of "length items"] by (intro gc_run_ok [OF p(1)]) simp_all
  then obtain s' cv where r: "gc_run E gcArrayFreeRatio s pos items = Some (Ret s')" "shrinks E s s'"
    "cv \<in> gi_value ` set items \<and> length (filter (\<lambda>g. gi_value g < cv) items) \<le> f32_cut (length items) gcArrayFreeRatio
      \<and> f32_cut (length items) gcArrayFreeRatio < length (filter (\<lambda>g. gi_value g \<le> cv) items)
      \<and> ds_entryCnt s' = ds_entryCnt s - of_nat (length (filter (\<lambda>g. gi_value g \<le> cv) items))
      \<and> (\<forall>x. x \<noteq> keyEntryCnt \<longrightarrow> x \<noteq> keyGCPos \<longrightarrow> dbGet E s' x = (if x \<in> doomed cv (set items) then None else dbGet E s x))"
    by (elim exE conjE) (rule that, assumption+, intro conjI)
  have "gc_collects E s items" using l(1) p(2) by (simp add: gc_collects_def)
  moreover have "collectGarbage E gcArrayFreeRatio s = Some (Ret s')"
    using l(1) r(1) p(2) by (simp add: collectGarbage_def Let_def)
  ultimately show ?thesis using shrinks_inv [OF inv r(2)] r(2,3) l(3) by (intro exI [of _ s'] exI [of _ items] exI [of _ cv]) simp
qed

section \<open>\<open>Put\<close> and \<open>Get\<close>\<close>

lemma Put_present:
  assumes "dbstore_inv E s" "index_of E s (ch_Key c) \<noteq> None"
  shows "\<exists>s' ix. DbStore_Put E c s = Some (Ret (s', ch_dbStored c)) \<and> dbstore_inv E s' \<and> content E s' = content E s
    \<and> entry_of E s (ch_Key c) = Some ix \<and> entry_of E s' = (entry_of E s)(ch_Key c \<mapsto> ix\<lparr>ix_Access := ds_accessCnt s + 1\<rparr>)
    \<and> ds_accessCnt s' = ds_accessCnt s + 1 \<and> ds_entryCnt s' = ds_entryCnt s \<and> ds_dataIdx s' = ds_dataIdx s"
proof -
  have p: "plain s" using assms(1) by (simp add: dbstore_inv_def)
  obtain ix where ix: "entry_of E s (ch_Key c) = Some ix" using assms(2) by (auto simp: index_of_entry)
  obtain s' where t: "tryAccessIdx E (getIndexKey (ch_Key c)) zero_index s = (Some (ix\<lparr>ix_Access := ds_accessCnt s + 1\<rparr>), s')"
      "entry_of E s' = (entry_of E s)(ch_Key c \<mapsto> ix\<lparr>ix_Access := ds_accessCnt s + 1\<rparr>)"
      "ds_accessCnt s' = ds_accessCnt s + 1" "ds_entryCnt s' = ds_entryCnt s" "ds_dataIdx s' = ds_dataIdx s"
    using tryAccessIdx_entry [OF p ix] by blast
  then show ?thesis using tryAccessIdx_frame [OF assms(1) t(1)] ix by (simp add: DbStore_Put_def Let_def)
qed

lemma Put_absent:
  assumes "dbstore_inv E s" "index_of E s (ch_Key c) = None" "ds_entryCnt s < ds_capacity s"
  shows "DbStore_Put E c s = Some (Ret (put_new E (getIndexKey (ch_Key c)) (encodeData c) s, ch_dbStored c))"
proof -
  have "\<not> ds_capacity s \<le> ds_entryCnt s" using assms(3) by simp
  then show ?thesis using tryAccessIdx_miss [OF assms(2)] by (simp add: DbStore_Put_def Let_def)
qed

lemma Put_full:
  assumes "dbstore_inv E s" "index_of E s (ch_Key c) = None" "ds_capacity s \<le> ds_entryCnt s"
    "index_of E s k \<noteq> None" "0 < ds_entryCnt s"
  shows "\<exists>s1. collectGarbage E gcArrayFreeRatio s = Some (Ret s1) \<and> dbstore_inv E s1 \<and> shrinks E s s1
    \<and> DbStore_Put E c s = Some (Ret (put_new E (getIndexKey (ch_Key c)) (encodeData c) s1, ch_dbStored c))"
proof -
  obtain s1 where s1: "collectGarbage E gcArrayFreeRatio s = Some (Ret s1)" "dbstore_inv E s1" "shrinks E s s1"
    using collectGarbage_ok [OF assms(1,4,5)] by blast
  then show ?thesis using tryAccessIdx_miss [OF assms(2)] assms(3) by (simp add: DbStore_Put_def Let_def)
qed

lemma Get_absent: "index_of E s k = None \<Longrightarrow> DbStore_Get E k s = (Err NotFound, s)"
  by (simp add: DbStore_Get_def tryAccessIdx_miss)

lemma Get_present:
  assumes "dbstore_inv E s" "index_of E s k = Some i"
  shows "\<exists>s'. dbstore_inv E s' \<and> content E s' = content E s \<and> index_of E s' = index_of E s
    \<and> DbStore_Get E k s =
       (case content E s k of
          None \<Rightarrow> (Err LevelDbError, s')
        | Some d \<Rightarrow>
            if h_Sum (ds_hashfunc s) d \<noteq> k then (Err InvalidChunk, dbDelete E s' (getDataKey i))
            else (case decodeData d (NewChunk k None) of None \<Rightarrow> (Panic, s') | Some c \<Rightarrow> (Ret c, s')))"
proof -
  have p: "plain s" using assms(1) by (simp add: dbstore_inv_def)
  obtain ix s' where t: "tryAccessIdx E (getIndexKey k) zero_index s = (Some ix, s')"
    using tryAccessIdx_None_iff [of k zero_index s] assms(2)
    by (cases "tryAccessIdx E (getIndexKey k) zero_index s") auto
  note h = tryAccessIdx_hit [OF p t] and f = tryAccessIdx_frame [OF assms(1) t]
  have "i = ix_Idx ix" "content E s k = dbGet E s' (getDataKey i)"
    using h(1) assms(2) h(3) [of i] by (simp_all add: content_def)
  then show ?thesis using t h(2,7) f
    by (intro exI [of _ s']) (simp add: DbStore_Get_def split: option.splits)
qed

lemma Delete_content:
  assumes "dbstore_inv E s" "index_of E s k = Some i"
  shows "dbstore_inv E (dbDelete E s (getDataKey i))"
    "content E (dbDelete E s (getDataKey i)) = (content E s)(k := None)"
proof -
  have p: "plain s" using assms(1) by (simp add: dbstore_inv_def)
  have ix: "index_of E (dbDelete E s (getDataKey i)) = index_of E s"
    by (simp add: index_of_def dbGet_dbDelete [OF p] fun_eq_iff)
  then show "dbstore_inv E (dbDelete E s (getDataKey i))"
    using assms(1) p by (simp add: dbstore_inv_def dbGet_dbDelete)
  have uniq: "k' = k" if "index_of E s k' = Some i" for k'
    using assms that unfolding dbstore_inv_def by blast
  show "content E (dbDelete E s (getDataKey i)) = (content E s)(k := None)"
  proof
    fix k'
    show "content E (dbDelete E s (getDataKey i)) k' = ((content E s)(k := None)) k'"
      using assms(2) uniq [of k'] by (cases "index_of E s k'") (auto simp: content_def ix dbGet_dbDelete [OF p])
  qed
qed

section \<open>Iterators that reuse their key buffer\<close>

lemma key_reuse_same: "length k = length b \<Longrightarrow> key_reuse b k = k"
  by (simp add: key_reuse_def)

lemma length_key_reuse [simp]: "length (key_reuse b k) = length b"
  by (simp add: key_reuse_def)

text \<open>All collected items read the same key, the one under the iterator if it is an index key.\<close>

definition one_key :: "nat \<Rightarrow> ldb_iter \<Rightarrow> gcItem list \<Rightarrow> bool" where
  "one_key n it items \<longleftrightarrow> (\<exists>b. length b = n \<and> (\<forall>g\<in>set items. gi_idxKey g = b)
     \<and> (\<forall>k. it_Key it = Some (getIndexKey k) \<longrightarrow> items \<noteq> [] \<longrightarrow> b = getIndexKey k))"

lemma one_key_touch:
  assumes "env_held E = key_reuse" "walks es it" "\<forall>k v. (getIndexKey k, v) \<in> set es \<longrightarrow> length (getIndexKey k) = n"
    "length b = n" "\<forall>g\<in>set items. gi_idxKey g = b"
  shows "one_key n it (touch E it items)"
proof (cases "it_Key it")
  case None
  then show ?thesis using assms(4,5) by (auto simp: one_key_def touch_def)
next
  case (Some k)
  have "key_reuse b k = k" if "k = getIndexKey k'" for k'
    using walks_key [OF assms(2) Some] assms(3,4) that by (intro key_reuse_same) metis
  then show ?thesis using Some assms(1,4,5)
    by (auto simp: one_key_def touch_def intro!: exI [of _ "key_reuse b k"])
qed

lemma collect_one_key:
  assumes "env_held E = key_reuse" "[] \<notin> fst ` set es"
    "\<forall>k v. (getIndexKey k, v) \<in> set es \<longrightarrow> length (getIndexKey k) = n" "walks es it"
    "gc_loop E start cnt it (it_Key it) [] = Ret (pos, items)"
  shows "\<exists>b. \<forall>g\<in>set items. gi_idxKey g = b"
proof -
  have "\<exists>items' it'. gc_loop E start cnt it (it_Key it) [] = Ret (it_Key it', items')
    \<and> length ([] :: gcItem list) \<le> length items' \<and> length items' \<le> gcArraySize \<and> one_key n it' items'"
  proof (rule gc_loop_ret [OF _ _ assms(4,2)])
    fix it items
    assume w: "walks es it" "one_key n it items"
    then obtain b where "length b = n" "\<forall>g\<in>set items. gi_idxKey g = b" by (auto simp: one_key_def)
    then show "one_key n (it_Seek it start) (touch E (it_Seek it start) items)"
      by (rule one_key_touch [OF assms(1) walks_move(2) [OF w(1)] assms(3)])
  next
    fix it items k
    assume w: "walks es it" "one_key n it items" "it_Key it = Some (getIndexKey k)"
    have n: "length (getIndexKey k) = n" using walks_key [OF w(1,3)] assms(3) by blast
    have "\<forall>g\<in>set (items @ [gc_item E it (getIndexKey k)]). gi_idxKey g = getIndexKey k"
      using w(2,3) by (auto simp: one_key_def gc_item_def Let_def)
    then show "one_key n (it_Next it) (touch E (it_Next it) (items @ [gc_item E it (getIndexKey k)]))"
      using one_key_touch [OF assms(1) walks_move(1) [OF w(1)] assms(3) n] by blast
  next
    show "one_key n it []" by (auto simp: one_key_def intro: exI [of _ "replicate n 0"])
  qed (simp_all add: gcArraySize_def)
  then show ?thesis using assms(5) by (auto simp: one_key_def)
qed

lemma gc_delete_one_key:
  assumes "plain s" "\<forall>g. Some g \<in> set gs \<longrightarrow> gi_idxKey g = b" "getIndexKey k \<noteq> b"
    "gc_delete E cv gs s = Ret s'"
  shows "index_of E s' k = index_of E s k \<and> plain s'"
  using assms
proof (induction gs arbitrary: s)
  case (Cons x gs)
  then obtain g where x: "x = Some g" by (cases x) auto
  let ?s1 = "if gi_value g \<le> cv then gc_evict E g s else s"
  have "plain (gc_evict E g s)"
    using gc_evict_shrinks [OF Cons.prems(1), of g] unfolding shrinks_def by blast
  moreover have "gi_idxKey g = b" using Cons.prems(2) x by (metis list.set_intros(1))
  then have "getIndexKey k \<noteq> gi_idxKey g" using Cons.prems(3) by metis
  then have "index_of E (gc_evict E g s) k = index_of E s k"
    by (simp add: index_of_def gc_evict_get [OF Cons.prems(1)])
  ultimately have "plain ?s1" "index_of E ?s1 k = index_of E s k" using Cons.prems(1) by simp_all
  moreover have "gc_delete E cv gs ?s1 = Ret s'" using Cons.prems(4) x by simp
  moreover have "\<forall>g. Some g \<in> set gs \<longrightarrow> gi_idxKey g = b" using Cons.prems(2) by (metis list.set_intros(2))
  ultimately show ?case using Cons.IH [of ?s1] Cons.prems(3) by metis
qed simp

lemma collectGarbage_one_key:
  assumes inv: "dbstore_inv E s" and "env_held E = key_reuse"
    "\<forall>k i. index_of E s k = Some i \<longrightarrow> length k = n" "collectGarbage E gcArrayFreeRatio s = Some (Ret s')"
  shows "\<exists>k0. \<forall>k. k \<noteq> k0 \<longrightarrow> index_of E s' k = index_of E s k"
proof -
  let ?es = "ldb_snapshot (env_L E) (ldb_db (ds_db s))"
  let ?it = "it_Seek (LDBDatabase_NewIterator (env_L E) (ds_db s)) (case ds_gcPos s of None \<Rightarrow> [] | Some p \<Rightarrow> p)"
  have p: "plain s" using inv by (simp add: dbstore_inv_def)
  obtain pos items where l: "gc_loop E (ds_gcStartPos s) (ds_entryCnt s) ?it (it_Key ?it) [] = Ret (pos, items)"
    "gc_run E gcArrayFreeRatio s pos items = Some (Ret s')"
    using assms(4) by (auto simp: collectGarbage_def Let_def split: go.splits)
  have "\<exists>items it'. gc_loop E (ds_gcStartPos s) (ds_entryCnt s) ?it (it_Key ?it) [] = Ret (it_Key it', items)
    \<and> length ([] :: gcItem list) \<le> length items \<and> length items \<le> gcArraySize \<and> True"
    by (rule gc_loop_ret [where I = "\<lambda>_ _. True", OF _ _ snapshot_walks no_empty_key [OF inv]])
      simp_all
  then have l3: "length items \<le> length (ds_gcArray s)" using l(1) inv by (auto simp: dbstore_inv_def)
  have len: "\<forall>k v. (getIndexKey k, v) \<in> set ?es \<longrightarrow> length (getIndexKey k) = Suc n"
    using assms(3) dbGet_snapshot [OF p] by (fastforce simp: index_of_def getIndexKey_def)
  obtain b where b: "\<forall>g\<in>set items. gi_idxKey g = b"
    using collect_one_key [OF assms(2) no_empty_key [OF inv] len snapshot_walks l(1)] by blast
  have sel: "\<forall>g. Some g \<in> set (take (length items) arr) \<longrightarrow> gi_idxKey g = b"
    if "gcListSelect (map Some items @ drop (length items) (ds_gcArray s)) 0 (int (length items) - 1)
        (int (f32_cut (length items) gcArrayFreeRatio)) = Some (Ret (arr, cutidx))" for arr cutidx
  proof (cases "items = []")
    case False
    then have "set (take (length items) arr) = Some ` set items"
      using gc_select_items [OF False l3 f32_cut_lt] that False by auto
    then show ?thesis using b by auto
  qed simp
  have keep: "index_of E s' k = index_of E s k" if k: "getIndexKey k \<noteq> b" for k
  proof -
    obtain arr cutidx g s1 where r:
      "gcListSelect (map Some items @ drop (length items) (ds_gcArray s)) 0
         (int (length items) - 1) (int (f32_cut (length items) gcArrayFreeRatio)) = Some (Ret (arr, cutidx))"
      "gc_delete E (gi_value (g :: gcItem)) (take (length items) arr)
         (s\<lparr>ds_gcPos := pos, ds_gcArray := arr\<rparr>) = Ret s1"
      "s' = dbPut E s1 keyGCPos (case pos of None \<Rightarrow> [] | Some p \<Rightarrow> p)"
      using l(2) unfolding gc_run_def Let_def
      by (fastforce split: option.splits go.splits prod.splits)
    have "index_of E s1 k = index_of E (s\<lparr>ds_gcPos := pos, ds_gcArray := arr\<rparr>) k \<and> plain s1"
      by (rule gc_delete_one_key [OF _ sel [OF r(1)] k r(2)]) (simp add: p)
    then show ?thesis by (simp add: r(3) index_of_def dbGet_dbPut)
  qed
  show ?thesis
  proof (cases "\<exists>k0. b = getIndexKey k0")
    case True
    then obtain k0 where "b = getIndexKey k0" ..
    then show ?thesis using keep by (intro exI [of _ k0]) simp
  next
    case False
    then show ?thesis using keep by (metis (no_types))
  qed
qed

section \<open>Restart\<close>

text \<open>
  \<open>Put\<close> writes the counters before it increments them, so a reopened store starts at the
  counter of the last chunk.
\<close>

lemma NewDbStore_ret:
  "\<exists>s. NewDbStore E d H cap = Some (Ret s) \<and> ds_db s = NewLDBDatabase d \<and> ds_capacity s = cap
     \<and> ds_hashfunc s = H
     \<and> ds_dataIdx s = BytesToU64 (case dbGet E s keyDataIdx of None \<Rightarrow> [] | Some v \<Rightarrow> v)
     \<and> ds_entryCnt s = BytesToU64 (case dbGet E s keyEntryCnt of None \<Rightarrow> [] | Some v \<Rightarrow> v)"
  by (simp add: NewDbStore_def DbStore_setCapacity_def read_counters_def Let_def dbGet_def)

lemma reopen_after_put:
  assumes "plain s"
  shows "\<exists>s2. NewDbStore E (ldb_db (ds_db (put_new E (getIndexKey k) data s))) H cap = Some (Ret s2)
    \<and> plain s2 \<and> dbGet E s2 = dbGet E (put_new E (getIndexKey k) data s)
    \<and> ds_dataIdx s2 = ds_dataIdx s \<and> ds_entryCnt s2 = ds_entryCnt s \<and> ds_capacity s2 = cap
    \<and> ds_hashfunc s2 = H"
proof -
  let ?s1 = "put_new E (getIndexKey k) data s"
  obtain s2 where s2: "NewDbStore E (ldb_db (ds_db ?s1)) H cap = Some (Ret s2)"
    "ds_db s2 = NewLDBDatabase (ldb_db (ds_db ?s1))" "ds_capacity s2 = cap" "ds_hashfunc s2 = H"
    "ds_dataIdx s2 = BytesToU64 (case dbGet E s2 keyDataIdx of None \<Rightarrow> [] | Some v \<Rightarrow> v)"
    "ds_entryCnt s2 = BytesToU64 (case dbGet E s2 keyEntryCnt of None \<Rightarrow> [] | Some v \<Rightarrow> v)"
    using NewDbStore_ret by blast
  have "plain ?s1" using assms by (simp add: put_new_def Let_def)
  then have g: "dbGet E s2 = dbGet E ?s1" "plain s2"
    by (auto simp: dbGet_def s2(2) NewLDBDatabase_def plain_def LDBDatabase_Get_def fun_eq_iff
        split: option.splits)
  have "dbGet E ?s1 keyDataIdx = Some (U64ToBytes (ds_dataIdx s))"
    "dbGet E ?s1 keyEntryCnt = Some (U64ToBytes (ds_entryCnt s))"
    using assms by (simp_all add: put_new_def Let_def dbGet_dbWrite)
  then show ?thesis using s2 g by simp
qed

lemma Get_mismatch:
  assumes "plain s" "index_of E s k = Some i" "dbGet E s (getDataKey i) = Some d"
    "h_Sum (ds_hashfunc s) d \<noteq> k"
  shows "fst (DbStore_Get E k s) = Err InvalidChunk"
proof -
  obtain ix s' where t: "tryAccessIdx E (getIndexKey k) zero_index s = (Some ix, s')"
    using tryAccessIdx_None_iff [of k zero_index s] assms(2)
    by (cases "tryAccessIdx E (getIndexKey k) zero_index s") auto
  show ?thesis using t tryAccessIdx_hit [OF assms(1) t] assms(2-4) by (simp add: DbStore_Get_def)
qed

lemma restart_mismatch:
  assumes "dbstore_inv E s" "index_of E s (ch_Key c) = None" "index_of E s (ch_Key c') = None"
    "ch_Key c' \<noteq> ch_Key c" "ds_entryCnt s < ds_capacity s" "ds_entryCnt s < cap"
    "h_Sum H (encodeData c') \<noteq> ch_Key c"
  shows "\<exists>s1 s2 s3. DbStore_Put E c s = Some (Ret (s1, ch_dbStored c))
    \<and> NewDbStore E (ldb_db (ds_db s1)) H cap = Some (Ret s2)
    \<and> DbStore_Put E c' s2 = Some (Ret (s3, ch_dbStored c'))
    \<and> fst (DbStore_Get E (ch_Key c) s3) = Err InvalidChunk"
proof -
  have p: "plain s" using assms(1) by (simp add: dbstore_inv_def)
  let ?s1 = "put_new E (getIndexKey (ch_Key c)) (encodeData c) s"
  obtain s2 where s2: "NewDbStore E (ldb_db (ds_db ?s1)) H cap = Some (Ret s2)" "plain s2"
    "dbGet E s2 = dbGet E ?s1" "ds_dataIdx s2 = ds_dataIdx s" "ds_entryCnt s2 = ds_entryCnt s"
    "ds_capacity s2 = cap" "ds_hashfunc s2 = H"
    using reopen_after_put [OF p] by blast
  have ix2: "index_of E s2 = (index_of E s)(ch_Key c \<mapsto> ds_dataIdx s)"
    using put_new_index [OF p] s2(3) by (simp add: index_of_def fun_eq_iff)
  let ?s3 = "put_new E (getIndexKey (ch_Key c')) (encodeData c') s2"
  have "\<not> ds_capacity s2 \<le> ds_entryCnt s2" using assms(6) s2(5,6) by simp
  then have put: "DbStore_Put E c' s2 = Some (Ret (?s3, ch_dbStored c'))"
    using tryAccessIdx_miss [of s2 "ch_Key c'" zero_index] assms(3,4)
    by (simp add: DbStore_Put_def Let_def ix2)
  have "fst (DbStore_Get E (ch_Key c) ?s3) = Err InvalidChunk"
  proof (rule Get_mismatch)
    show "plain ?s3" using s2(2) by (simp add: put_new_def Let_def)
    show "index_of E ?s3 (ch_Key c) = Some (ds_dataIdx s)"
      using assms(4) by (simp add: put_new_index [OF s2(2)] ix2)
    show "dbGet E ?s3 (getDataKey (ds_dataIdx s)) = Some (encodeData c')"
      by (simp add: put_new_data [OF s2(2)] s2(4))
    show "h_Sum (ds_hashfunc ?s3) (encodeData c') \<noteq> ch_Key c"
      using assms(7) s2(7) by (simp add: put_new_def Let_def)
  qed
  then show ?thesis using Put_absent [OF assms(1,2,5)] s2(1) put by blast
qed

end

section \<open>A concrete store\<close>

definition toy_enc :: "dpaDBIndex \<Rightarrow> bytes" where
  "toy_enc i = LittleEndian_PutUint64 (ix_Idx i) @ LittleEndian_PutUint64 (ix_Access i)"

definition toy_dec :: "bytes \<Rightarrow> dpaDBIndex \<Rightarrow> dpaDBIndex" where
  "toy_dec b j = \<lparr>ix_Idx = LittleEndian_Uint64 (take 8 b), ix_Access = LittleEndian_Uint64 (drop 8 b)\<rparr>"

definition toy_env :: "memdb_t db_env" where
  "toy_env = \<lparr>env_L = memdb_ops, env_rle = (\<lambda>x. x, Some), env_enc = toy_enc, env_dec = toy_dec,
     env_held = key_reuse\<rparr>"

interpretation toy: dbstore_env toy_env
proof -
  have "env_L toy_env = memdb_ops" by (simp add: toy_env_def)
  then show "dbstore_env toy_env"
    unfolding dbstore_env_def dbstore_env_axioms_def
    using mem.leveldb_axioms by (auto simp: toy_env_def toy_enc_def toy_dec_def)
qed

definition toy_hash :: Hasher where
  "toy_hash = \<lparr>h_Size = 1, h_Sum = (\<lambda>x. [foldl (\<lambda>a b. 5 * a + b) 7 x])\<rparr>"

definition toy_store :: "u64 \<Rightarrow> memdb_t DbStore" where
  "toy_store cap = \<lparr>ds_db = NewLDBDatabase mem_empty, ds_entryCnt = 0, ds_accessCnt = 0, ds_dataIdx = 0,
     ds_capacity = cap, ds_gcPos = Some [0], ds_gcStartPos = [0],
     ds_gcArray = replicate gcArraySize None, ds_hashfunc = toy_hash\<rparr>"

definition toy_chunk :: "byte \<Rightarrow> Chunk" where
  "toy_chunk b = (let d = LittleEndian_PutUint64 1 @ [b]
     in (NewChunk (h_Sum toy_hash d) None)\<lparr>ch_SData := Some d, ch_Size := 1\<rparr>)"

lemma toy_get: "dbGet toy_env (toy_store cap) k = None"
  by (simp add: dbGet_def LDBDatabase_Get_def toy_env_def memdb_ops_def mem_get_def toy_store_def
      NewLDBDatabase_def)

lemma toy_index: "index_of toy_env (toy_store cap) k = None"
  by (simp add: index_of_def toy_get)

lemma toy_inv: "dbstore_inv toy_env (toy_store cap)"
proof -
  have "plain (toy_store cap)" "length (ds_gcArray (toy_store cap)) = gcArraySize"
    "ds_gcStartPos (toy_store cap) = [0]"
    by (simp_all add: plain_def toy_store_def NewLDBDatabase_def)
  then show ?thesis by (simp add: dbstore_inv_def toy_index toy_get)
qed

lemma toy_fields [simp]:
  "ds_entryCnt (toy_store cap) = 0" "ds_capacity (toy_store cap) = cap" "ds_dataIdx (toy_store cap) = 0"
  "ds_hashfunc (toy_store cap) = toy_hash"
  by (simp_all add: toy_store_def)

lemma toy_keys: "ch_Key (toy_chunk 1) = [165]" "ch_Key (toy_chunk 2) = [166]"
  by code_simp+

section \<open>Properties\<close>

text \<open>
  C2: below capacity \<open>DbStore.Put\<close> refines the update of a map. A chunk under a new key is
  added to what the store holds and nothing else changes: its index entry names the current storage counter and access counter, and the
  three counters go up by one. A chunk under a known key changes no content, no other index entry and neither the number of entries nor
  the storage counter; only the access value of its entry becomes the new access counter. The invariant is kept either way.
\<close>

theorem dbstore_put_refines:
  assumes "dbstore_env E" "dbstore_inv E s" "ds_entryCnt s < ds_capacity s" "ds_dataIdx s \<noteq> -1"
  shows "\<exists>s'. DbStore_Put E c s = Some (Ret (s', ch_dbStored c)) \<and> dbstore_inv E s'
    \<and> ds_accessCnt s' = ds_accessCnt s + 1
    \<and> (case entry_of E s (ch_Key c) of
         None \<Rightarrow> content E s' = (content E s)(ch_Key c \<mapsto> encodeData c)
           \<and> entry_of E s' = (entry_of E s)(ch_Key c \<mapsto> \<lparr>ix_Idx = ds_dataIdx s, ix_Access = ds_accessCnt s\<rparr>)
           \<and> ds_entryCnt s' = ds_entryCnt s + 1 \<and> ds_dataIdx s' = ds_dataIdx s + 1
       | Some ix \<Rightarrow> content E s' = content E s
           \<and> entry_of E s' = (entry_of E s)(ch_Key c \<mapsto> ix\<lparr>ix_Access := ds_accessCnt s + 1\<rparr>)
           \<and> ds_entryCnt s' = ds_entryCnt s \<and> ds_dataIdx s' = ds_dataIdx s)"
proof (cases "entry_of E s (ch_Key c)")
  case None
  then have new: "index_of E s (ch_Key c) = None" by (simp add: index_of_entry)
  have p: "plain s" using assms(2) by (simp add: dbstore_inv_def)
  show ?thesis
    using dbstore_env.Put_absent [OF assms(1,2) new assms(3)] dbstore_env.put_new_inv [OF assms(1,2,4)]
      dbstore_env.put_new_content [OF assms(1,2)] dbstore_env.put_new_entry [OF assms(1) p]
      dbstore_env.put_new_counters [OF assms(1)] None by simp
next
  case (Some ix)
  then have "index_of E s (ch_Key c) \<noteq> None" by (simp add: index_of_entry)
  then show ?thesis using dbstore_env.Put_present [OF assms(1,2)] Some by force
qed

theorem dbstore_put_refines_witness:
  "\<exists>s'. DbStore_Put toy_env (toy_chunk 1) (toy_store 10) = Some (Ret (s', ch_dbStored (toy_chunk 1)))
    \<and> dbstore_inv toy_env s'
    \<and> content toy_env s' = (content toy_env (toy_store 10))(ch_Key (toy_chunk 1) \<mapsto> encodeData (toy_chunk 1))
    \<and> ds_entryCnt s' = 1 \<and> ds_dataIdx s' = 1"
proof -
  have "entry_of toy_env (toy_store 10) (ch_Key (toy_chunk 1)) = None" by (simp add: entry_of_def toy_get)
  then show ?thesis using dbstore_put_refines [OF toy.dbstore_env_axioms toy_inv, of 10 "toy_chunk 1"] by auto
qed

text \<open>
  C22: every outcome of \<open>DbStore.Get\<close>. An unknown key is not found; an index entry whose data
  is gone gives the database's error; data that does not hash to the key is deleted and
  reported; otherwise the chunk carries the stored bytes and the length they start with. In
  all cases the invariant is kept and no other key is affected.
\<close>

theorem dbstore_get_outcomes:
  assumes "dbstore_env E" "dbstore_inv E s"
  shows "\<exists>r s'. DbStore_Get E k s = (r, s') \<and> dbstore_inv E s' \<and>
    (case content E s k of
       None \<Rightarrow> r = Err (if index_of E s k = None then NotFound else LevelDbError) \<and> content E s' = content E s
     | Some d \<Rightarrow>
         if h_Sum (ds_hashfunc s) d \<noteq> k then r = Err InvalidChunk \<and> content E s' = (content E s)(k := None)
         else content E s' = content E s \<and>
           r = (case data_size d of None \<Rightarrow> Panic
                | Some n \<Rightarrow> Ret ((NewChunk k None)\<lparr>ch_SData := Some d, ch_Size := n\<rparr>)))"
proof (cases "index_of E s k")
  case None
  then show ?thesis using dbstore_env.Get_absent [OF assms(1) None] assms(2) by (simp add: content_def)
next
  case (Some i)
  then obtain s' where "dbstore_inv E s'" "content E s' = content E s" "index_of E s' = index_of E s"
    "DbStore_Get E k s =
       (case content E s k of
          None \<Rightarrow> (Err LevelDbError, s')
        | Some d \<Rightarrow>
            if h_Sum (ds_hashfunc s) d \<noteq> k then (Err InvalidChunk, dbDelete E s' (getDataKey i))
            else (case decodeData d (NewChunk k None) of None \<Rightarrow> (Panic, s') | Some c \<Rightarrow> (Ret c, s')))"
    using dbstore_env.Get_present [OF assms Some] by blast
  then show ?thesis using Some dbstore_env.Delete_content [OF assms(1), of s' k i]
    by (auto simp: decodeData_def split: option.splits)
qed

theorem dbstore_get_outcomes_witness:
  "\<exists>s'. DbStore_Get toy_env [9] (toy_store 10) = (Err NotFound, s') \<and> dbstore_inv toy_env s'"
  using dbstore_get_outcomes [OF toy.dbstore_env_axioms toy_inv, of "[9]" 10]
  by (auto simp: content_def toy_index)

text \<open>
  A full store makes room. With at least one index entry, \<open>Put\<close> of a new key returns,
  keeps the invariant and stores the chunk; every other key keeps its data or loses it.
\<close>

theorem dbstore_put_full:
  assumes "dbstore_env E" "dbstore_inv E s" "index_of E s (ch_Key c) = None"
    "ds_capacity s \<le> ds_entryCnt s" "0 < ds_entryCnt s" "index_of E s k \<noteq> None" "ds_dataIdx s \<noteq> -1"
  shows "\<exists>s'. DbStore_Put E c s = Some (Ret (s', ch_dbStored c)) \<and> dbstore_inv E s'
    \<and> content E s' (ch_Key c) = Some (encodeData c)
    \<and> (\<forall>k'. k' \<noteq> ch_Key c \<longrightarrow> content E s' k' = None \<or> content E s' k' = content E s k')"
proof -
  obtain s1 where s1: "dbstore_inv E s1" "shrinks E s s1"
    "DbStore_Put E c s = Some (Ret (put_new E (getIndexKey (ch_Key c)) (encodeData c) s1, ch_dbStored c))"
    using dbstore_env.Put_full [OF assms(1-4,6,5)] by blast
  have "ds_dataIdx s1 \<noteq> -1" using s1(2) assms(7) by (simp add: shrinks_def)
  moreover have "content E s1 k' = None \<or> content E s1 k' = content E s k'" for k'
    using shrinks_content [OF s1(2)] unfolding map_le_def by (metis domIff)
  ultimately show ?thesis
    using s1 dbstore_env.put_new_inv [OF assms(1) s1(1)] dbstore_env.put_new_content [OF assms(1) s1(1)]
    by (intro exI [of _ "put_new E (getIndexKey (ch_Key c)) (encodeData c) s1"]) simp
qed

definition toy_full :: "memdb_t DbStore" where
  "toy_full = put_new toy_env (getIndexKey (ch_Key (toy_chunk 1))) (encodeData (toy_chunk 1)) (toy_store 1)"

lemma toy_full_state:
  "dbstore_inv toy_env toy_full" "index_of toy_env toy_full = [ch_Key (toy_chunk 1) \<mapsto> 0]"
  "ds_entryCnt toy_full = 1" "ds_capacity toy_full = 1" "ds_dataIdx toy_full = 1"
proof -
  show "dbstore_inv toy_env toy_full"
    unfolding toy_full_def by (rule toy.put_new_inv [OF toy_inv]) simp
  show "index_of toy_env toy_full = [ch_Key (toy_chunk 1) \<mapsto> 0]"
    using toy_inv [of 1] unfolding toy_full_def
    by (subst toy.put_new_index) (auto simp: dbstore_inv_def toy_index)
qed (simp_all add: toy_full_def put_new_def Let_def)

theorem dbstore_put_full_witness:
  "\<exists>s'. DbStore_Put toy_env (toy_chunk 2) toy_full = Some (Ret (s', ch_dbStored (toy_chunk 2)))
    \<and> dbstore_inv toy_env s' \<and> content toy_env s' (ch_Key (toy_chunk 2)) = Some (encodeData (toy_chunk 2))
    \<and> (\<forall>k'. k' \<noteq> ch_Key (toy_chunk 2) \<longrightarrow>
         content toy_env s' k' = None \<or> content toy_env s' k' = content toy_env toy_full k')"
  by (rule dbstore_put_full [OF toy.dbstore_env_axioms toy_full_state(1), of _ "ch_Key (toy_chunk 1)"])
    (simp_all add: toy_full_state toy_keys)

text \<open>
  C29: a garbage collection on a store with an index entry returns. The items it looks at are those of the collecting loop, each from an
  index entry of the store. The cut is the access value of one of them, chosen so that at most as many as it aims at lie below it and more than that
  lie at or below it; exactly the items at or below the cut are evicted. For each of these the key it holds and its data are gone, they are counted
  off \<open>entryCnt\<close>, and every other key of the database except the two counters of the collector keeps its value. Where the iterator does not
  overwrite the keys that are held, the keys that go are those of the index entries themselves.
\<close>

theorem dbstore_gc_evicts:
  assumes "dbstore_env E" "dbstore_inv E s" "index_of E s k \<noteq> None" "0 < ds_entryCnt s"
  shows "\<exists>s' items cutval. collectGarbage E gcArrayFreeRatio s = Some (Ret s') \<and> dbstore_inv E s'
    \<and> gc_collects E s items \<and> (\<forall>g\<in>set items. from_entry E (ldb_snapshot (env_L E) (ldb_db (ds_db s))) g)
    \<and> cutval \<in> gi_value ` set items
    \<and> length (filter (\<lambda>g. gi_value g < cutval) items) \<le> f32_cut (length items) gcArrayFreeRatio
    \<and> f32_cut (length items) gcArrayFreeRatio < length (filter (\<lambda>g. gi_value g \<le> cutval) items)
    \<and> ds_entryCnt s' = ds_entryCnt s - of_nat (length (filter (\<lambda>g. gi_value g \<le> cutval) items))
    \<and> (\<forall>x. x \<noteq> keyEntryCnt \<longrightarrow> x \<noteq> keyGCPos \<longrightarrow>
         dbGet E s' x = (if \<exists>g\<in>set items. gi_value g \<le> cutval \<and> (x = gi_idxKey g \<or> x = getDataKey (gi_idx g)) then None else dbGet E s x))"
proof -
  have "x \<in> doomed cv (set items) \<longleftrightarrow> (\<exists>g\<in>set items. gi_value g \<le> cv \<and> (x = gi_idxKey g \<or> x = getDataKey (gi_idx g)))" for x cv items
    by (auto simp: doomed_def)
  then show ?thesis using dbstore_env.collectGarbage_ok [OF assms] by (elim exE conjE) (intro exI conjI, assumption+, simp)
qed

theorem dbstore_gc_evicts_witness:
  "\<exists>s'. collectGarbage toy_env gcArrayFreeRatio toy_full = Some (Ret s') \<and> dbstore_inv toy_env s'"
  using dbstore_gc_evicts [OF toy.dbstore_env_axioms toy_full_state(1), of "ch_Key (toy_chunk 1)"]
    toy_full_state(2,3) by auto

text \<open>
  With an iterator that writes every key into one buffer, as goleveldb's does, a garbage
  collection removes at most one index entry, however many chunks it counts off and whose
  data it deletes: the collected items hold slices of the iterator's buffer and all read the
  same key in the end.
\<close>

theorem dbstore_gc_key_reuse:
  assumes "dbstore_env E" "dbstore_inv E s" "env_held E = key_reuse"
    "\<forall>k i. index_of E s k = Some i \<longrightarrow> length k = n" "collectGarbage E gcArrayFreeRatio s = Some (Ret s')"
  shows "\<exists>k0. \<forall>k. k \<noteq> k0 \<longrightarrow> index_of E s' k = index_of E s k"
  using dbstore_env.collectGarbage_one_key [OF assms] .

theorem dbstore_gc_key_reuse_witness:
  "\<exists>s' k0. collectGarbage toy_env gcArrayFreeRatio toy_full = Some (Ret s')
     \<and> (\<forall>k. k \<noteq> k0 \<longrightarrow> index_of toy_env s' k = index_of toy_env toy_full k)"
proof -
  obtain s' where s': "collectGarbage toy_env gcArrayFreeRatio toy_full = Some (Ret s')"
    using toy.collectGarbage_ok [OF toy_full_state(1), of "ch_Key (toy_chunk 1)"] toy_full_state(2,3) by auto
  have "env_held toy_env = key_reuse" by (simp add: toy_env_def)
  moreover have "\<forall>k i. index_of toy_env toy_full k = Some i \<longrightarrow> length k = 1"
    by (simp add: toy_full_state(2) toy_keys)
  ultimately show ?thesis
    using dbstore_gc_key_reuse [OF toy.dbstore_env_axioms toy_full_state(1) _ _ s'] s' by blast
qed

text \<open>
  C40: the counters are written before they are incremented. A chunk \<open>c\<close> stored last before a
  restart loses its data to the first new chunk \<open>c'\<close> stored after it, and reading \<open>c\<close> then
  reports an invalid chunk.
\<close>

theorem dbstore_restart_overwrites:
  assumes "dbstore_env E" "dbstore_inv E s" "index_of E s (ch_Key c) = None"
    "index_of E s (ch_Key c') = None" "ch_Key c' \<noteq> ch_Key c" "ds_entryCnt s < ds_capacity s"
    "ds_entryCnt s < cap" "h_Sum H (encodeData c') \<noteq> ch_Key c"
  shows "\<exists>s1 s2 s3. DbStore_Put E c s = Some (Ret (s1, ch_dbStored c))
    \<and> NewDbStore E (ldb_db (ds_db s1)) H cap = Some (Ret s2)
    \<and> DbStore_Put E c' s2 = Some (Ret (s3, ch_dbStored c'))
    \<and> fst (DbStore_Get E (ch_Key c) s3) = Err InvalidChunk"
  using dbstore_env.restart_mismatch [OF assms] .

theorem dbstore_restart_overwrites_witness:
  "\<exists>s1 s2 s3. DbStore_Put toy_env (toy_chunk 1) (toy_store 10) = Some (Ret (s1, ch_dbStored (toy_chunk 1)))
    \<and> NewDbStore toy_env (ldb_db (ds_db s1)) toy_hash 10 = Some (Ret s2)
    \<and> DbStore_Put toy_env (toy_chunk 2) s2 = Some (Ret (s3, ch_dbStored (toy_chunk 2)))
    \<and> fst (DbStore_Get toy_env (ch_Key (toy_chunk 1)) s3) = Err InvalidChunk"
proof (rule dbstore_restart_overwrites [OF toy.dbstore_env_axioms toy_inv])
  show "h_Sum toy_hash (encodeData (toy_chunk 2)) \<noteq> ch_Key (toy_chunk 1)" by code_simp
qed (simp_all add: toy_index toy_keys)

end
