(* ===== verification/Document_Store.thy ===== *)
theory Document_Store
  imports Chunk_Join Db_Store_Props
begin

text \<open>
  The \<open>ChunkStore\<close> interface of \<open>storage/types.go\<close> as a contract, what the document layer
  (\<open>storage/dpa.go\<close>) gains from it, and that the persistent store meets it: a document split
  into a chunk store can be read back from it.
\<close>

section \<open>Chunks of a split\<close>

lemma merkle_chunks:
  assumes "c \<in> set (snd (merkle T swg d t data))"
  shows "\<exists>n body. n \<le> length data \<and> c = snd (level_chunk T swg n body)"
  using assms
proof (induction d arbitrary: t data rule: less_induct)
  case (less d)
  obtain d' t' where sh: "shrink (branches T) d t (int (length data)) = (d', t')"
    by (cases "shrink (branches T) d t (int (length data))")
  show ?case
  proof (cases "d' = 0")
    case True
    then show ?thesis using merkle_leaf [of T d t data t' swg] sh less.prems by auto
  next
    case False
    define subs where "subs = map (merkle T swg (d' - 1) (t' div branches T)) (blocks t' data)"
    note m = merkle_inner [OF sh _ subs_def]
    consider "c = snd (level_chunk T swg (length data) (concat (map fst subs)))"
      | x where "x \<in> set (blocks t' data)" "c \<in> set (snd (merkle T swg (d' - 1) (t' div branches T) x))"
      using less.prems m False by (auto simp: subs_def)
    then show ?thesis
    proof cases
      case (2 x)
      have "d' - 1 < d" using shrink_depth [OF sh] False by simp
      moreover have "length x \<le> length data"
      proof (cases "t' = 0")
        case True
        then show ?thesis using 2(1) by (simp add: blocks.simps)
      next
        case t: False
        then have "length x \<le> length (concat (blocks t' data))"
          using 2(1) by (induction "blocks t' data") (auto simp: length_concat member_le_sum_list)
        then show ?thesis using concat_blocks [of t' data] t by simp
      qed
      ultimately show ?thesis using less.IH [OF _ 2(2)] by (meson order_trans)
    qed blast
  qed
qed

lemma data_size_level:
  assumes "n < 2 ^ 63"
  shows "data_size (LittleEndian_PutUint64 (of_nat n) @ body) = Some (int n)"
proof -
  have "sint (of_nat n :: u64) = int n"
    using assms by (simp add: signed_of_nat signed_take_bit_int_eq_self)
  then show ?thesis by (simp add: data_size_def)
qed

section \<open>The contract of a chunk store\<close>

primrec put_all :: "(Chunk \<Rightarrow> 's \<Rightarrow> 's option) \<Rightarrow> Chunk list \<Rightarrow> 's \<Rightarrow> 's option" where
  "put_all put [] s = Some s"
| "put_all put (c # cs) s = (case put c s of None \<Rightarrow> None | Some s' \<Rightarrow> put_all put cs s')"

definition fetch_from :: "(Key \<Rightarrow> 's \<Rightarrow> Chunk option \<times> 's) \<Rightarrow> 's \<Rightarrow> fetch" where
  "fetch_from get s k = (case fst (get k s) of Some c \<Rightarrow> (ch_SData c, ch_Size c) | None \<Rightarrow> (None, 0))"

text \<open>
  \<open>put\<close> is \<open>None\<close> where the store fails, \<open>get\<close> has no chunk where it reports an error;
  \<open>holds\<close> is what the store holds and \<open>room\<close> how many more chunks it surely takes.
\<close>

locale chunk_store =
  fixes put :: "Chunk \<Rightarrow> 's \<Rightarrow> 's option"
    and get :: "Key \<Rightarrow> 's \<Rightarrow> Chunk option \<times> 's"
    and inv :: "'s \<Rightarrow> bool"
    and holds :: "'s \<Rightarrow> Key \<Rightarrow> bytes option"
    and room :: "'s \<Rightarrow> nat"
    and valid :: "Key \<Rightarrow> bytes \<Rightarrow> bool"
  assumes put_law: "inv s \<Longrightarrow> 0 < room s \<Longrightarrow> ch_SData c = Some d \<Longrightarrow> valid (ch_Key c) d \<Longrightarrow>
      \<exists>s'. put c s = Some s' \<and> inv s' \<and> room s \<le> Suc (room s')
        \<and> holds s' = (if holds s (ch_Key c) = None then (holds s)(ch_Key c \<mapsto> d) else holds s)"
    and get_law: "inv s \<Longrightarrow> holds s k = Some d \<Longrightarrow>
      \<exists>c s'. get k s = (Some c, s') \<and> ch_SData c = Some d \<and> data_size d = Some (ch_Size c)
        \<and> inv s' \<and> holds s' = holds s"
begin

text \<open>Storing chunks that agree on their keys, and with the store, makes the store hold all of them.\<close>

lemma put_all_holds:
  assumes "inv s" "length cs \<le> room s"
    "\<forall>c\<in>set cs. \<exists>d. ch_SData c = Some d \<and> valid (ch_Key c) d"
    "\<forall>c\<in>set cs. holds s (ch_Key c) \<in> {None, ch_SData c}"
    "\<forall>c\<in>set cs. \<forall>c'\<in>set cs. ch_Key c = ch_Key c' \<longrightarrow> ch_SData c = ch_SData c'"
  shows "\<exists>s'. put_all put cs s = Some s' \<and> inv s' \<and> (\<forall>c\<in>set cs. holds s' (ch_Key c) = ch_SData c)
    \<and> (\<forall>k d. holds s k = Some d \<longrightarrow> holds s' k = Some d)"
  using assms
proof (induction cs arbitrary: s)
  case (Cons c cs)
  obtain d where d: "ch_SData c = Some d" "valid (ch_Key c) d" using Cons.prems(3) by auto
  obtain s1 where s1: "put c s = Some s1" "inv s1" "room s \<le> Suc (room s1)"
    "holds s1 = (if holds s (ch_Key c) = None then (holds s)(ch_Key c \<mapsto> d) else holds s)"
    using put_law [OF Cons.prems(1) _ d] Cons.prems(2) by auto
  have h1: "holds s1 (ch_Key c) = Some d" using Cons.prems(4) d(1) s1(4) by auto
  have other: "holds s1 k = holds s k" if "k \<noteq> ch_Key c" for k using that s1(4) by auto
  have "holds s1 (ch_Key c') \<in> {None, ch_SData c'}" if c': "c' \<in> set cs" for c'
  proof (cases "ch_Key c = ch_Key c'")
    case True
    then have "ch_SData c = ch_SData c'" using Cons.prems(5) c' by (metis list.set_intros(1,2))
    then show ?thesis using h1 d(1) True by simp
  next
    case False
    then show ?thesis using other [of "ch_Key c'"] Cons.prems(4) c' by (metis list.set_intros(2))
  qed
  then have "\<forall>c\<in>set cs. holds s1 (ch_Key c) \<in> {None, ch_SData c}" by blast
  moreover have "length cs \<le> room s1" using Cons.prems(2) s1(3) by simp
  moreover have "\<forall>c\<in>set cs. \<exists>d. ch_SData c = Some d \<and> valid (ch_Key c) d"
    "\<forall>c\<in>set cs. \<forall>c'\<in>set cs. ch_Key c = ch_Key c' \<longrightarrow> ch_SData c = ch_SData c'"
    using Cons.prems(3,5) by (metis list.set_intros(2))+
  ultimately obtain s' where s': "put_all put cs s1 = Some s'" "inv s'"
    "\<forall>c\<in>set cs. holds s' (ch_Key c) = ch_SData c" "\<forall>k d. holds s1 k = Some d \<longrightarrow> holds s' k = Some d"
    using Cons.IH [OF s1(2)] by blast
  have "holds s' (ch_Key c) = ch_SData c" using s'(4) h1 d(1) by simp
  moreover have "holds s1 k = Some x" if "holds s k = Some x" for k x using s1(4) that by auto
  ultimately show ?case using s1(1) s' by auto
next
  case Nil
  show ?case using Nil.prems(1) by simp
qed

lemma stored_chunks_served:
  assumes "inv s" "\<forall>c\<in>set cs. holds s (ch_Key c) = ch_SData c"
    "\<forall>c\<in>set cs. \<exists>d. ch_SData c = Some d \<and> data_size d = Some (ch_Size c)"
  shows "serves (fetch_from get s) cs"
  unfolding serves_def
proof
  fix c
  assume c: "c \<in> set cs"
  then obtain d where d: "ch_SData c = Some d" "data_size d = Some (ch_Size c)" using assms(3) by blast
  then obtain c' s' where "get (ch_Key c) s = (Some c', s')" "ch_SData c' = Some d" "data_size d = Some (ch_Size c')"
    using get_law [OF assms(1), of "ch_Key c" d] assms(2) c by auto
  then show "fetch_from get s (ch_Key c) = (ch_SData c, ch_Size c)" using d by (simp add: fetch_from_def)
qed

text \<open>The document layer: what was split and stored can be read.\<close>

lemma stored_document_reads:
  assumes ok: "chunker_ok T" "1 < branches T" "reader_clean r" "sz = length (reader_content r)"
    "sz \<le> chunkSize T * branches T ^ m" "chunkSize T * branches T ^ m < 2 ^ 63"
    and sp: "TreeChunker_Split T swg r sz = Ret (key, cs)"
    and valid: "\<And>d. 8 \<le> length d \<Longrightarrow> valid (h_Sum (hashFunc T) d) d"
    and st: "inv s" "length cs \<le> room s" "\<forall>c\<in>set cs. holds s (ch_Key c) \<in> {None, ch_SData c}"
    "\<forall>c\<in>set cs. \<forall>c'\<in>set cs. ch_Key c = ch_Key c' \<longrightarrow> ch_SData c = ch_SData c'"
    and b: "b \<noteq> []" "off + length b \<le> sz"
  shows "\<exists>s'. put_all put cs s = Some s' \<and>
    fst (LazyChunkReader_ReadAt (fetch_from get s') (TreeChunker_Join T key) b off) =
      Ret (length b, take (length b) (drop off (reader_content r)),
           if off + length b = sz then Some EOF else None)"
proof -
  obtain d where d: "merkle T swg d (chunkSize T * branches T ^ d div branches T) (reader_content r) = (key, cs)"
    using Split_merkle [OF ok, of swg] sp by auto
  have chunks: "\<exists>x. ch_SData c = Some x \<and> valid (ch_Key c) x \<and> data_size x = Some (ch_Size c)"
    if c_in: "c \<in> set cs" for c
  proof -
    obtain n body where n: "n \<le> sz" "c = snd (level_chunk T swg n body)"
      using merkle_chunks [of c T swg d "chunkSize T * branches T ^ d div branches T" "reader_content r"]
        d c_in ok(4) by auto
    then have "n < 2 ^ 63" using ok(5,6) by linarith
    then show ?thesis
      using n(2) data_size_level [of n body] valid [of "LittleEndian_PutUint64 (of_nat n) @ body"]
      by (simp add: level_chunk_def hashChunk_def Let_def NewChunk_def)
  qed
  obtain s' where s': "put_all put cs s = Some s'" "inv s'" "\<forall>c\<in>set cs. holds s' (ch_Key c) = ch_SData c"
    using put_all_holds [OF st(1,2) _ st(3,4)] chunks by blast
  have "serves (fetch_from get s') cs"
    using stored_chunks_served [OF s'(2,3)] chunks by blast
  then show ?thesis using ReadAt_slice [OF ok sp _ b] s'(1) by blast
qed

end

section \<open>The persistent store as a chunk store\<close>

definition db_put :: "'d db_env \<Rightarrow> Chunk \<Rightarrow> 'd DbStore \<Rightarrow> 'd DbStore option" where
  "db_put E c s = (case DbStore_Put E c s of Some (Ret (s', _)) \<Rightarrow> Some s' | _ \<Rightarrow> None)"

definition db_get :: "'d db_env \<Rightarrow> Key \<Rightarrow> 'd DbStore \<Rightarrow> Chunk option \<times> 'd DbStore" where
  "db_get E k s = (case DbStore_Get E k s of (Ret c, s') \<Rightarrow> (Some c, s') | (_, s') \<Rightarrow> (None, s'))"

definition db_valid :: "Hasher \<Rightarrow> Key \<Rightarrow> bytes \<Rightarrow> bool" where
  "db_valid H k d \<longleftrightarrow> h_Sum H d = k \<and> 8 \<le> length d"

text \<open>A store that has lost no data: every index entry leads to data that hashes to its key.\<close>

definition db_intact :: "'d db_env \<Rightarrow> Hasher \<Rightarrow> 'd DbStore \<Rightarrow> bool" where
  "db_intact E H s \<longleftrightarrow> dbstore_inv E s \<and> ds_hashfunc s = H
     \<and> (\<forall>k. index_of E s k \<noteq> None \<longrightarrow> (\<exists>d. content E s k = Some d \<and> db_valid H k d))"

definition db_room :: "'d DbStore \<Rightarrow> nat" where
  "db_room s = min (unat (ds_capacity s) - unat (ds_entryCnt s)) (2 ^ 64 - 1 - unat (ds_dataIdx s))"

context dbstore_env
begin

lemma db_put_law:
  assumes s: "db_intact E H s" and "0 < db_room s" "ch_SData c = Some d" "db_valid H (ch_Key c) d"
  shows "\<exists>s'. db_put E c s = Some s' \<and> db_intact E H s' \<and> db_room s \<le> Suc (db_room s')
    \<and> content E s' = (if content E s (ch_Key c) = None then (content E s)(ch_Key c \<mapsto> d) else content E s)"
proof (cases "index_of E s (ch_Key c)")
  case None
  have inv: "dbstore_inv E s" and p: "plain s" using s by (simp_all add: db_intact_def dbstore_inv_def)
  have room: "ds_entryCnt s < ds_capacity s" "ds_dataIdx s \<noteq> -1"
    using assms(2) by (auto simp: db_room_def word_less_nat_alt unsigned_minus_1_eq_mask mask_eq_exp_minus_1)
  let ?s' = "put_new E (getIndexKey (ch_Key c)) (encodeData c) s"
  have put: "db_put E c s = Some ?s'" using Put_absent [OF inv None room(1)] by (simp add: db_put_def)
  have cs: "content E ?s' = (content E s)(ch_Key c \<mapsto> d)"
    using put_new_content [OF inv] assms(3) by (simp add: encodeData_def)
  have "index_of E ?s' = (index_of E s)(ch_Key c \<mapsto> ds_dataIdx s)" using put_new_index [OF p] .
  then have "db_intact E H ?s'"
    using s put_new_inv [OF inv room(2)] assms(4) cs by (auto simp: db_intact_def put_new_def Let_def)
  moreover have "db_room s \<le> Suc (db_room ?s')"
  proof -
    have "ds_entryCnt s \<noteq> -1" using room(1) by (metis not_less word_n1_ge)
    then have "unat (ds_entryCnt ?s') = Suc (unat (ds_entryCnt s))" "unat (ds_dataIdx ?s') = Suc (unat (ds_dataIdx s))"
      using u64_less_Suc(2) room(2) by (simp_all add: put_new_def Let_def)
    moreover have "ds_capacity ?s' = ds_capacity s" by (simp add: put_new_def Let_def)
    ultimately show ?thesis by (simp add: db_room_def)
  qed
  moreover have "content E s (ch_Key c) = None" using None by (simp add: content_def)
  ultimately show ?thesis using put cs by auto
next
  case (Some i)
  have inv: "dbstore_inv E s" and p: "plain s" using s by (simp_all add: db_intact_def dbstore_inv_def)
  obtain ix s' where t: "tryAccessIdx E (getIndexKey (ch_Key c)) zero_index s = (Some ix, s')"
    using tryAccessIdx_None_iff [of "ch_Key c" zero_index s] Some
    by (cases "tryAccessIdx E (getIndexKey (ch_Key c)) zero_index s") auto
  note h = tryAccessIdx_hit [OF p t] and f = tryAccessIdx_frame [OF inv t]
  have "db_put E c s = Some s'" using t by (simp add: db_put_def DbStore_Put_def Let_def)
  moreover have "db_intact E H s'" using s f h(2,7) by (simp add: db_intact_def)
  moreover have "ds_capacity s' = ds_capacity s" using t by (auto simp: tryAccessIdx_def Let_def split: option.splits)
  then have "db_room s' = db_room s" using h(5,8) by (simp add: db_room_def)
  moreover have "content E s (ch_Key c) \<noteq> None" using s Some unfolding db_intact_def by fastforce
  ultimately show ?thesis using f(2) by auto
qed

lemma db_get_law:
  assumes s: "db_intact E H s" and d: "content E s k = Some d"
  shows "\<exists>c s'. db_get E k s = (Some c, s') \<and> ch_SData c = Some d \<and> data_size d = Some (ch_Size c)
    \<and> db_intact E H s' \<and> content E s' = content E s"
proof -
  obtain i where i: "index_of E s k = Some i" using d by (auto simp: content_def split: option.splits)
  have v: "db_valid H k d" using s d i unfolding db_intact_def by fastforce
  have inv: "dbstore_inv E s" and hf: "ds_hashfunc s = H" using s by (simp_all add: db_intact_def)
  obtain n where n: "data_size d = Some n" using v by (simp add: data_size_def db_valid_def)
  obtain s' where s': "dbstore_inv E s'" "content E s' = content E s" "index_of E s' = index_of E s"
    "DbStore_Get E k s = (Ret ((NewChunk k None)\<lparr>ch_SData := Some d, ch_Size := n\<rparr>), s')"
    using Get_present [OF inv i] d v hf n by (auto simp: decodeData_def db_valid_def)
  have "ds_hashfunc s' = H"
  proof -
    have p: "plain s" using inv by (simp add: dbstore_inv_def)
    obtain ix s1 where t: "tryAccessIdx E (getIndexKey k) zero_index s = (Some ix, s1)"
      using tryAccessIdx_None_iff [of k zero_index s] i by (cases "tryAccessIdx E (getIndexKey k) zero_index s") auto
    have "s' = s1" using s'(4) t by (auto simp: DbStore_Get_def split: option.splits if_splits)
    then show ?thesis using tryAccessIdx_hit(7) [OF p t] hf by simp
  qed
  then have "db_intact E H s'" using s s'(1-3) by (simp add: db_intact_def)
  then show ?thesis using s' n by (simp add: db_get_def)
qed

end

sublocale dbstore_env \<subseteq> dbcs: chunk_store "db_put E" "db_get E" "db_intact E H" "content E" db_room "db_valid H" for H
  by unfold_locales (use db_put_law db_get_law in blast)+

context dbstore_env
begin

lemmas document_reads = dbcs.stored_document_reads

end

section \<open>Property\<close>

text \<open>
  C6: a document survives the persistent store. Split a document, put its chunks one after the
  other into a store that has room for them and has lost no data, where no two different
  chunk contents share a key; then reading from the root key, each chunk fetched with
  \<open>DbStore.Get\<close>, fills any buffer inside the document with the document's bytes.
\<close>

theorem dbstore_document_roundtrip:
  assumes "dbstore_env E" "chunker_ok T" "1 < branches T" "reader_clean r" "sz = length (reader_content r)"
    "sz \<le> chunkSize T * branches T ^ m" "chunkSize T * branches T ^ m < 2 ^ 63"
    "TreeChunker_Split T swg r sz = Ret (key, cs)"
    "db_intact E (hashFunc T) s" "length cs \<le> db_room s"
    "\<forall>c\<in>set cs. content E s (ch_Key c) \<in> {None, ch_SData c}"
    "\<forall>c\<in>set cs. \<forall>c'\<in>set cs. ch_Key c = ch_Key c' \<longrightarrow> ch_SData c = ch_SData c'"
    "b \<noteq> []" "off + length b \<le> sz"
  shows "\<exists>s'. put_all (db_put E) cs s = Some s' \<and>
    fst (LazyChunkReader_ReadAt (fetch_from (db_get E) s') (TreeChunker_Join T key) b off) =
      Ret (length b, take (length b) (drop off (reader_content r)),
           if off + length b = sz then Some EOF else None)"
  by (rule dbstore_env.document_reads [OF assms(1-8) _ assms(9-14)]) (simp add: db_valid_def)

lemma toy_intact: "db_intact toy_env toy_hasher (toy_store 10)"
proof -
  have "ds_hashfunc (toy_store 10) = toy_hasher" by (simp add: toy_hash_def toy_hasher_def)
  then show ?thesis by (simp add: db_intact_def toy_inv toy_index)
qed

lemma toy_no_collision:
  "\<forall>c\<in>set toy_chunks. \<forall>c'\<in>set toy_chunks. ch_Key c = ch_Key c' \<longrightarrow> ch_SData c = ch_SData c'"
  by code_simp

theorem dbstore_document_roundtrip_witness:
  "\<exists>s'. put_all (db_put toy_env) toy_chunks (toy_store 10) = Some s' \<and>
    fst (LazyChunkReader_ReadAt (fetch_from (db_get toy_env) s') (TreeChunker_Join toy_chunker toy_key)
           [0, 0, 0, 0] 6) = Ret (4, [7, 8, 9, 10], Some EOF)"
proof -
  have "\<exists>s'. put_all (db_put toy_env) toy_chunks (toy_store 10) = Some s' \<and>
    fst (LazyChunkReader_ReadAt (fetch_from (db_get toy_env) s') (TreeChunker_Join toy_chunker toy_key)
           [0, 0, 0, 0] 6) =
      Ret (length [0, 0, 0, 0 :: byte], take (length [0, 0, 0, 0 :: byte]) (drop 6 (reader_content toy_reader)),
           if 6 + length [0, 0, 0, 0 :: byte] = 10 then Some EOF else None)"
  proof (rule dbstore_document_roundtrip [OF toy.dbstore_env_axioms toy_chunker_ok toy_branches toy_reader_clean
        _ _ _ toy_split _ _ _ toy_no_collision, where m = 2])
    show "db_intact toy_env (hashFunc toy_chunker) (toy_store 10)" using toy_intact by (simp add: toy_chunker_def)
    show "\<forall>c\<in>set toy_chunks. content toy_env (toy_store 10) (ch_Key c) \<in> {None, ch_SData c}"
      by (simp add: content_def toy_index)
  qed (simp_all add: toy_reader_def toy_chunker_def toy_length db_room_def)
  then show ?thesis by (simp add: toy_reader_def numeral_eq_Suc)
qed

end
