(* ===== verification/Mem_Store.thy ===== *)
theory Mem_Store
  imports Storage_Keys
begin

text \<open>
  \<open>storage/memstore.go\<close>: the memory cache, a trie over the bits of the keys. Every node
  keeps a binary tree of access counts, so that the oldest entry can be found from the root.

  Nodes are addressed by the child indices on the way from the root: the node at \<open>p @ [i]\<close>
  is \<open>subtree[i]\<close> of the node at \<open>p\<close>, its parent pointer is \<open>p\<close> and its \<open>parentIdx\<close> is
  \<open>i\<close>, as \<open>newMemTree\<close> sets them. Entries are pointers into a heap of chunks: \<open>Put\<close> stores
  the pointer and completes the chunk it points to.
\<close>

section \<open>State\<close>

type_synonym path = "nat list"
type_synonym cheap = "addr \<Rightarrow> Chunk"

record memTree =
  mt_bits :: nat
  mt_width :: nat
  mt_entry :: "addr option"
  mt_lastDBaccess :: u64
  mt_access :: "u64 list"

type_synonym mtree = "path \<rightharpoonup> memTree"

record MemStore =
  ms_memtree :: mtree
  ms_entryCnt :: nat
  ms_capacity :: nat
  ms_accessCnt :: u64
  ms_dbAccessCnt :: u64
  ms_dbStore :: bool

datatype mem_error = MemNotFound | MemBlocked

definition memTreeLW :: nat where "memTreeLW = 2"
definition memTreeFLW :: nat where "memTreeFLW = 14"
definition dbForceUpdateAccessCnt :: u64 where "dbForceUpdateAccessCnt = 1000"

definition newMemTree :: "nat \<Rightarrow> memTree" where
  "newMemTree b = \<lparr>mt_bits = b, mt_width = 2 ^ b, mt_entry = None, mt_lastDBaccess = 0,
     mt_access = replicate (2 ^ b - 1) 0\<rparr>"

section \<open>Access counts\<close>

text \<open>\<open>i ^ 1\<close>, the other one of a pair of siblings.\<close>

definition sibling :: "nat \<Rightarrow> nat" where
  "sibling i = (if even i then i + 1 else i - 1)"

definition access_of :: "mtree \<Rightarrow> path \<Rightarrow> nat \<Rightarrow> u64" where
  "access_of t p i = (case t p of None \<Rightarrow> 0 | Some n \<Rightarrow> mt_access n ! i)"

definition width_of :: "mtree \<Rightarrow> path \<Rightarrow> nat" where
  "width_of t p = (case t p of None \<Rightarrow> 0 | Some n \<Rightarrow> mt_width n)"

definition set_access :: "mtree \<Rightarrow> path \<Rightarrow> nat \<Rightarrow> u64 \<Rightarrow> mtree" where
  "set_access t p i a = (case t p of None \<Rightarrow> t | Some n \<Rightarrow> t(p \<mapsto> n\<lparr>mt_access := (mt_access n)[i := a]\<rparr>))"

text \<open>The loop of \<open>updateAccess\<close>, from index \<open>aidx\<close> of the node at \<open>p\<close> up to the root.\<close>

function updateAccess_loop :: "u64 \<Rightarrow> mtree \<Rightarrow> path \<Rightarrow> nat \<Rightarrow> u64 \<Rightarrow> mtree" where
  "updateAccess_loop oa t p aidx a =
     (if access_of t p aidx \<noteq> oa then t
      else
        (let t = set_access t p aidx a in
         if 0 < aidx then
           (let aa = access_of t p (sibling (aidx - 1) + 1);
                a = (if aa \<noteq> 0 \<and> aa < a then aa else a)
            in updateAccess_loop oa t p ((aidx - 1) div 2) a)
         else if p = [] then t
         else
           (let pidx = last p; p = butlast p;
                aa = access_of t (p @ [sibling pidx]) 0;
                a = (if aa \<noteq> 0 \<and> aa < a then aa else a)
            in updateAccess_loop oa t p ((width_of t p + pidx - 2) div 2) a)))"
  by pat_completeness auto
termination
  by (relation "measures [\<lambda>(oa, t, p, aidx, a). length p, \<lambda>(oa, t, p, aidx, a). aidx]")
    (auto simp: div_less_iff_less_mult)

declare updateAccess_loop.simps [simp del]

definition updateAccess :: "mtree \<Rightarrow> path \<Rightarrow> u64 \<Rightarrow> mtree" where
  "updateAccess t p a = updateAccess_loop (access_of t p 0) t p 0 a"

section \<open>Removing the oldest entry\<close>

definition entry_of :: "mtree \<Rightarrow> path \<Rightarrow> addr option" where
  "entry_of t p = (case t p of None \<Rightarrow> None | Some n \<Rightarrow> mt_entry n)"

definition set_entry :: "mtree \<Rightarrow> path \<Rightarrow> addr option \<Rightarrow> mtree" where
  "set_entry t p e = (case t p of None \<Rightarrow> t | Some n \<Rightarrow> t(p \<mapsto> n\<lparr>mt_entry := e\<rparr>))"

definition set_lastDBaccess :: "mtree \<Rightarrow> path \<Rightarrow> u64 \<Rightarrow> mtree" where
  "set_lastDBaccess t p c = (case t p of None \<Rightarrow> t | Some n \<Rightarrow> t(p \<mapsto> n\<lparr>mt_lastDBaccess := c\<rparr>))"

text \<open>
  The descent inside one node: follow the oldest count \<open>av\<close> down the node's binary tree and
  put the count of the other branch in its place. \<open>None\<close> is \<open>panic(nil)\<close>.
\<close>

function oldest_in_node :: "u64 \<Rightarrow> nat \<Rightarrow> path \<Rightarrow> mtree \<Rightarrow> nat \<Rightarrow> (mtree \<times> nat) option" where
  "oldest_in_node av width p t aidx =
     (if aidx < width div 2 - 1 then
        (if av = access_of t p (aidx * 2 + 1) then
           oldest_in_node av width p (set_access t p aidx (access_of t p (aidx * 2 + 2))) (aidx * 2 + 1)
         else if av = access_of t p (aidx * 2 + 2) then
           oldest_in_node av width p (set_access t p aidx (access_of t p (aidx * 2 + 1))) (aidx * 2 + 2)
         else None)
      else Some (t, aidx))"
  by pat_completeness auto
termination
  by (relation "measure (\<lambda>(av, width, p, t, aidx). width - aidx)") auto

declare oldest_in_node.simps [simp del]

definition oldest_step :: "mtree \<Rightarrow> path \<Rightarrow> (mtree \<times> nat) option" where
  "oldest_step t p =
     (let av = access_of t p 0; width = width_of t p in
      case oldest_in_node av width p t 0 of
        None \<Rightarrow> None
      | Some (t, aidx) \<Rightarrow>
          (let pidx = aidx * 2 + 2 - width in
           if t (p @ [pidx]) \<noteq> None \<and> av = access_of t (p @ [pidx]) 0 then
             Some (set_access t p aidx (access_of t (p @ [pidx + 1]) 0), pidx)
           else if t (p @ [pidx + 1]) \<noteq> None \<and> av = access_of t (p @ [pidx + 1]) 0 then
             Some (set_access t p aidx (access_of t (p @ [pidx]) 0), pidx + 1)
           else None))"

text \<open>The descent from the root to the oldest entry; \<open>None\<close> where it does not end.\<close>

partial_function (option) oldest_path :: "mtree \<Rightarrow> path \<Rightarrow> (mem_error, mtree \<times> path) go option" where
  "oldest_path t p =
     (if entry_of t p \<noteq> None then Some (Ret (t, p))
      else case oldest_step t p of
        None \<Rightarrow> Some Panic
      | Some (t, pidx) \<Rightarrow> oldest_path t (p @ [pidx]))"

declare oldest_path.simps [code]

text \<open>The way back up after the removal.\<close>

function propagate :: "mtree \<Rightarrow> path \<Rightarrow> nat \<Rightarrow> mtree" where
  "propagate t p aidx =
     (let aa = access_of t p aidx in
      if 0 < aidx then
        (let aidx = (aidx - 1) div 2 in
         propagate (if aa \<noteq> 0 \<and> (aa < access_of t p aidx \<or> access_of t p aidx = 0)
                    then set_access t p aidx aa else t) p aidx)
      else if p = [] then t
      else
        (let pidx = last p; p = butlast p; aidx = (width_of t p + pidx - 2) div 2 in
         propagate (if aa \<noteq> 0 \<and> (aa < access_of t p aidx \<or> access_of t p aidx = 0)
                    then set_access t p aidx aa else t) p aidx))"
  by pat_completeness auto
termination
  by (relation "measures [\<lambda>(t, p, aidx). length p, \<lambda>(t, p, aidx). aidx]")
    (auto simp: div_less_iff_less_mult)

declare propagate.simps [simp del]

text \<open>
  \<open>closed c\<close>: the channel \<open>c\<close> has been closed. Waiting for a \<open>dbStored\<close> channel that has
  not been closed yet is \<open>MemBlocked\<close>.
\<close>

definition removeOldest ::
    "(chan_id \<Rightarrow> bool) \<Rightarrow> cheap \<Rightarrow> MemStore \<Rightarrow> (mem_error, MemStore) go option" where
  "removeOldest closed h s =
     (case oldest_path (ms_memtree s) [] of
        None \<Rightarrow> None
      | Some (Ret (t, p)) \<Rightarrow>
          (case entry_of t p of
             None \<Rightarrow> Some Panic
           | Some a \<Rightarrow>
               if (case ch_dbStored (h a) of None \<Rightarrow> False | Some c \<Rightarrow> \<not> closed c) then Some (Err MemBlocked)
               else
                 (let drop_it = ch_SData (h a) \<noteq> None;
                      t = (if drop_it then set_entry t p None else t);
                      cnt = (if drop_it then ms_entryCnt s - 1 else ms_entryCnt s);
                      t = set_access t p 0 0
                  in Some (Ret (s\<lparr>ms_memtree := propagate t p 0, ms_entryCnt := cnt\<rparr>))))
      | Some (Err e) \<Rightarrow> Some (Err e)
      | Some Panic \<Rightarrow> Some Panic)"

partial_function (option) mem_setCapacity_loop ::
    "(chan_id \<Rightarrow> bool) \<Rightarrow> cheap \<Rightarrow> nat \<Rightarrow> MemStore \<Rightarrow> (mem_error, MemStore) go option" where
  "mem_setCapacity_loop closed h c s =
     (if c < ms_entryCnt s then
        (case removeOldest closed h s of
           None \<Rightarrow> None
         | Some (Ret s') \<Rightarrow> mem_setCapacity_loop closed h c s'
         | Some (Err e) \<Rightarrow> Some (Err e)
         | Some Panic \<Rightarrow> Some Panic)
      else Some (Ret (s\<lparr>ms_capacity := c\<rparr>)))"

declare mem_setCapacity_loop.simps [code]

definition MemStore_setCapacity ::
    "(chan_id \<Rightarrow> bool) \<Rightarrow> cheap \<Rightarrow> nat \<Rightarrow> MemStore \<Rightarrow> (mem_error, MemStore) go option" where
  "MemStore_setCapacity closed h c s = mem_setCapacity_loop closed h c s"

definition MemStore_getEntryCnt :: "MemStore \<Rightarrow> nat" where
  "MemStore_getEntryCnt s = ms_entryCnt s"

definition NewMemStore ::
    "(chan_id \<Rightarrow> bool) \<Rightarrow> cheap \<Rightarrow> bool \<Rightarrow> nat \<Rightarrow> (mem_error, MemStore) go option" where
  "NewMemStore closed h d capacity =
     MemStore_setCapacity closed h capacity
       \<lparr>ms_memtree = [[] \<mapsto> newMemTree memTreeFLW], ms_entryCnt = 0, ms_capacity = 0, ms_accessCnt = 0,
        ms_dbAccessCnt = 0, ms_dbStore = d\<rparr>"

section \<open>Storing\<close>

text \<open>
  The first loop of \<open>Put\<close>: down to a node with an entry, or to a new node where the trie
  ends. \<open>key\<close>'s bits may panic. The result is the trie, the node and the bit position.
\<close>

definition add_child :: "mtree \<Rightarrow> path \<Rightarrow> nat \<Rightarrow> mtree" where
  "add_child t p l = (if t (p @ [l]) = None then t(p @ [l] \<mapsto> newMemTree memTreeLW) else t)"

definition bits_of :: "mtree \<Rightarrow> path \<Rightarrow> nat" where
  "bits_of t p = (case t p of None \<Rightarrow> 0 | Some n \<Rightarrow> mt_bits n)"

partial_function (option) put_descend ::
    "Key \<Rightarrow> mtree \<Rightarrow> path \<Rightarrow> nat \<Rightarrow> (mem_error, mtree \<times> path \<times> nat) go option" where
  "put_descend key t p bitpos =
     (if entry_of t p \<noteq> None then Some (Ret (t, p, bitpos))
      else case Key_bits key bitpos (bits_of t p) of
        None \<Rightarrow> Some Panic
      | Some l \<Rightarrow>
          if t (p @ [l]) = None then Some (Ret (add_child t p l, p @ [l], bitpos + bits_of t p))
          else put_descend key t (p @ [l]) (bitpos + bits_of t p))"

declare put_descend.simps [code]

text \<open>The second loop: push the entry that is in the way down, until the keys part.\<close>

partial_function (option) push_down ::
    "Key \<Rightarrow> cheap \<Rightarrow> mtree \<Rightarrow> path \<Rightarrow> nat \<Rightarrow> (mem_error, mtree \<times> path) go option" where
  "push_down key h t p bitpos =
     (case entry_of t p of
        None \<Rightarrow> Some (Ret (t, p))
      | Some e \<Rightarrow>
          (case Key_bits (ch_Key (h e)) bitpos (bits_of t p) of
             None \<Rightarrow> Some Panic
           | Some l \<Rightarrow>
               (let t = add_child t p l;
                    t = set_entry t (p @ [l]) (Some e);
                    t = set_entry t p None;
                    t = updateAccess t (p @ [l]) (access_of t p 0)
                in case Key_bits key bitpos (bits_of t p) of
                     None \<Rightarrow> Some Panic
                   | Some l \<Rightarrow> push_down key h (add_child t p l) (p @ [l]) (bitpos + bits_of t p))))"

declare push_down.simps [code]

definition place :: "MemStore \<Rightarrow> addr \<Rightarrow> mtree \<Rightarrow> path \<Rightarrow> MemStore" where
  "place s a t p =
     (let t = set_entry t p (Some a);
          t = set_lastDBaccess t p (ms_dbAccessCnt s);
          t = updateAccess t p (ms_accessCnt s)
      in s\<lparr>ms_memtree := t, ms_entryCnt := ms_entryCnt s + 1\<rparr>)"

text \<open>A known key: the new chunk takes over what the old one knows, and its channel.\<close>

definition merge_chunk :: "Chunk \<Rightarrow> Chunk \<Rightarrow> Chunk" where
  "merge_chunk old entry =
     (let entry = (if ch_SData entry = None
                   then entry\<lparr>ch_Size := ch_Size old, ch_SData := ch_SData old\<rparr> else entry);
          entry = (if ch_Req entry = None then entry\<lparr>ch_Req := ch_Req old\<rparr> else entry)
      in entry\<lparr>ch_C := ch_C old\<rparr>)"

definition mem_insert :: "cheap \<Rightarrow> addr \<Rightarrow> MemStore \<Rightarrow> (mem_error, MemStore \<times> cheap) go option" where
  "mem_insert h a s0 =
     (let s = s0\<lparr>ms_accessCnt := ms_accessCnt s0 + 1\<rparr>; key = ch_Key (h a)
      in case put_descend key (ms_memtree s) [] 0 of
           None \<Rightarrow> None
         | Some (Ret (t, p, bitpos)) \<Rightarrow>
             (case entry_of t p of
                None \<Rightarrow> Some (Ret (place s a t p, h))
              | Some e \<Rightarrow>
                  if Key_isEqual (ch_Key (h e)) key then
                    (let t = updateAccess t p (ms_accessCnt s);
                         t = set_entry t p (Some a)
                     in Some (Ret (s\<lparr>ms_memtree := t\<rparr>, h(a := merge_chunk (h e) (h a)))))
                  else
                    (case push_down key h t p bitpos of
                       None \<Rightarrow> None
                     | Some (Ret (t, p)) \<Rightarrow> Some (Ret (place s a t p, h))
                     | Some (Err e) \<Rightarrow> Some (Err e)
                     | Some Panic \<Rightarrow> Some Panic))
         | Some (Err e) \<Rightarrow> Some (Err e)
         | Some Panic \<Rightarrow> Some Panic)"

definition MemStore_Put ::
    "(chan_id \<Rightarrow> bool) \<Rightarrow> cheap \<Rightarrow> addr \<Rightarrow> MemStore \<Rightarrow> (mem_error, MemStore \<times> cheap) go option" where
  "MemStore_Put closed h a s =
     (if ms_capacity s = 0 then Some (Ret (s, h))
      else case (if ms_entryCnt s \<ge> ms_capacity s then removeOldest closed h s else Some (Ret s)) of
        None \<Rightarrow> None
      | Some (Ret s) \<Rightarrow> mem_insert h a s
      | Some (Err e) \<Rightarrow> Some (Err e)
      | Some Panic \<Rightarrow> Some Panic)"

section \<open>Looking up\<close>

partial_function (option) get_descend ::
    "Key \<Rightarrow> mtree \<Rightarrow> path \<Rightarrow> nat \<Rightarrow> (mem_error, path) go option" where
  "get_descend key t p bitpos =
     (if entry_of t p \<noteq> None then Some (Ret p)
      else case Key_bits key bitpos (bits_of t p) of
        None \<Rightarrow> Some Panic
      | Some l \<Rightarrow>
          if t (p @ [l]) = None then Some (Err MemNotFound)
          else get_descend key t (p @ [l]) (bitpos + bits_of t p))"

declare get_descend.simps [code]

text \<open>
  \<open>Get\<close> returns the entry's pointer. Its last component is the key for which it calls
  \<open>dbStore.updateAccessCnt\<close>, where it does.
\<close>

definition MemStore_Get ::
    "cheap \<Rightarrow> Key \<Rightarrow> MemStore \<Rightarrow> ((mem_error, addr) go \<times> MemStore \<times> Key option) option" where
  "MemStore_Get h hash s =
     (case get_descend hash (ms_memtree s) [] 0 of
        None \<Rightarrow> None
      | Some (Ret p) \<Rightarrow>
          (case ms_memtree s p of
             Some n \<Rightarrow>
               (case mt_entry n of
                  Some e \<Rightarrow>
                    if Key_isEqual (ch_Key (h e)) hash then
                      (let s = s\<lparr>ms_accessCnt := ms_accessCnt s + 1\<rparr>;
                           t = updateAccess (ms_memtree s) p (ms_accessCnt s)
                       in if ms_dbAccessCnt s - mt_lastDBaccess n > dbForceUpdateAccessCnt then
                            (let cnt = ms_dbAccessCnt s + 1;
                                 t = set_lastDBaccess t p cnt
                             in Some (Ret e, s\<lparr>ms_memtree := t, ms_dbAccessCnt := cnt\<rparr>,
                                      if ms_dbStore s then Some hash else None))
                          else Some (Ret e, s\<lparr>ms_memtree := t\<rparr>, None))
                    else Some (Err MemNotFound, s, None)
                | None \<Rightarrow> Some (Panic, s, None))
           | None \<Rightarrow> Some (Panic, s, None))
      | Some (Err e) \<Rightarrow> Some (Err e, s, None)
      | Some Panic \<Rightarrow> Some (Panic, s, None))"

end
