(* ===== verification/Mem_Store_Laws.thy ===== *)
theory Mem_Store_Laws
  imports Mem_Store
begin

text \<open>
  Laws of the memory cache of theory \<open>Mem_Store\<close>. The trie of a store whose keys have one
  length holds every key at the path its bits spell, at some depth; \<open>Get\<close> and \<open>Put\<close> are
  lookup and update of a map from keys to chunk pointers.
\<close>

section \<open>Paths\<close>

definition pos_of :: "nat \<Rightarrow> nat" where
  "pos_of d = (if d = 0 then 0 else 14 + 2 * (d - 1))"

definition lvl_bits :: "nat \<Rightarrow> nat" where
  "lvl_bits d = (if d = 0 then 14 else 2)"

definition kp :: "Key \<Rightarrow> nat \<Rightarrow> nat" where
  "kp key d = (case Key_bits key (pos_of d) (lvl_bits d) of None \<Rightarrow> 0 | Some l \<Rightarrow> l)"

definition key_path :: "Key \<Rightarrow> nat \<Rightarrow> path" where
  "key_path key d = map (kp key) [0..<d]"

lemma pos_of_Suc: "pos_of (Suc d) = pos_of d + lvl_bits d"
  by (cases d) (simp_all add: pos_of_def lvl_bits_def)

lemma key_path_Suc: "key_path key (Suc d) = key_path key d @ [kp key d]"
  by (simp add: key_path_def)

lemma length_key_path [simp]: "length (key_path key d) = d"
  by (simp add: key_path_def)

lemma key_path_0 [simp]: "key_path key 0 = []"
  by (simp add: key_path_def)

lemma take_key_path: "d' \<le> d \<Longrightarrow> take d' (key_path key d) = key_path key d'"
  by (simp add: key_path_def take_map)

lemma key_path_inject [simp]: "key_path k d = key_path k d' \<longleftrightarrow> d = d'"
  by (metis length_key_path)

text \<open>The windows of the levels tile a key of at least two bytes: no read crosses its end.\<close>

lemma Key_bits_level:
  assumes "2 \<le> length key"
  shows "Key_bits key (pos_of d) (lvl_bits d) = Some (kp key d)"
proof -
  have "Key_bits key (pos_of d) (lvl_bits d) \<noteq> None"
  proof (cases "pos_of d + lvl_bits d \<le> 8 * length key")
    case True
    then show ?thesis by (simp add: Key_bits_spec)
  next
    case False
    then have "\<not> pos_of d div 8 < length key"
      using assms by (auto simp: pos_of_def lvl_bits_def split: if_splits) presburger
    then show ?thesis by (simp add: Key_bits_def Key_Size_def Let_def)
  qed
  then show ?thesis by (auto simp: kp_def)
qed

lemma kp_value:
  "pos_of (Suc d) \<le> 8 * length key \<Longrightarrow> kp key d = le_dec key div 2 ^ pos_of d mod 2 ^ lvl_bits d"
  by (simp add: kp_def Key_bits_spec pos_of_Suc)

lemma le_dec_mod_levels:
  assumes "\<forall>j<d. kp k j = kp k' j" "length k = length k'" "pos_of d \<le> 8 * length k"
  shows "le_dec k mod 2 ^ pos_of d = le_dec k' mod 2 ^ pos_of d"
  using assms
proof (induction d)
  case (Suc d)
  have p: "pos_of d \<le> 8 * length k" using Suc.prems(3) by (simp add: pos_of_Suc)
  have "le_dec k div 2 ^ pos_of d mod 2 ^ lvl_bits d = le_dec k' div 2 ^ pos_of d mod 2 ^ lvl_bits d"
    using Suc.prems kp_value [of d k] kp_value [of d k'] by simp
  moreover have "le_dec k mod 2 ^ pos_of d = le_dec k' mod 2 ^ pos_of d"
    using Suc p by simp
  ultimately show ?case by (simp add: pos_of_Suc power_add mod_mult2_eq)
qed (simp add: pos_of_def)

text \<open>Different keys of one length part at some level.\<close>

lemma keys_part:
  assumes "length k = length k'" "2 \<le> length k" "k \<noteq> k'"
  shows "\<exists>d. kp k d \<noteq> kp k' d"
proof (rule ccontr)
  assume eq: "\<nexists>d. kp k d \<noteq> kp k' d"
  define d where "d = (8 * length k - 14) div 2 + 1"
  have d: "pos_of d = 8 * length k" using assms(2) by (simp add: d_def pos_of_def)
  have "le_dec k mod 2 ^ pos_of d = le_dec k' mod 2 ^ pos_of d"
    using eq assms(1) d by (intro le_dec_mod_levels) auto
  moreover have "(2::nat) ^ (8 * length k) = 256 ^ length k" by (simp add: power_mult)
  ultimately have "le_dec k = le_dec k'"
    using le_dec_bound [of k] le_dec_bound [of k'] assms(1) by (simp add: d)
  then show False using le_enc_le_dec [of k] le_enc_le_dec [of k'] assms(1,3) by simp
qed

section \<open>The shape of a trie\<close>

definition shape :: "mtree \<Rightarrow> path \<Rightarrow> (nat \<times> nat \<times> addr option \<times> nat) option" where
  "shape t p = map_option (\<lambda>n. (mt_bits n, mt_width n, mt_entry n, length (mt_access n))) (t p)"

lemma shape_eq:
  assumes "shape t' = shape t"
  shows "t' p = None \<longleftrightarrow> t p = None" "entry_of t' p = entry_of t p" "bits_of t' p = bits_of t p"
    "dom t' = dom t"
proof -
  have s: "shape t' p = shape t p" for p using assms by simp
  have n: "t' p = None \<longleftrightarrow> t p = None" for p using s [of p] by (auto simp: shape_def)
  then show "t' p = None \<longleftrightarrow> t p = None" "dom t' = dom t" by (auto simp: dom_def)
  show "entry_of t' p = entry_of t p" "bits_of t' p = bits_of t p"
    using s [of p] by (auto simp: shape_def entry_of_def bits_of_def split: option.splits)
qed

lemma shape_set_access [simp]: "shape (set_access t p i a) = shape t"
  by (auto simp: shape_def set_access_def fun_eq_iff split: option.splits)

lemma shape_updateAccess_loop [simp]: "shape (updateAccess_loop oa t p i a) = shape t"
proof (induction oa t p i a rule: updateAccess_loop.induct)
  case (1 oa t p aidx a)
  then show ?case by (subst updateAccess_loop.simps) (simp add: Let_def)
qed

lemma shape_updateAccess [simp]: "shape (updateAccess t p a) = shape t"
  by (simp add: updateAccess_def)

lemma shape_lastDB [simp]: "shape (set_lastDBaccess t p c) = shape t"
  by (auto simp: shape_def set_lastDBaccess_def fun_eq_iff split: option.splits)

definition trie_ok :: "nat \<Rightarrow> cheap \<Rightarrow> mtree \<Rightarrow> bool" where
  "trie_ok L h t \<longleftrightarrow> 2 \<le> L \<and> finite (dom t) \<and> t [] \<noteq> None \<and> entry_of t [] = None
     \<and> (\<forall>p. t p \<noteq> None \<longrightarrow> bits_of t p = lvl_bits (length p))
     \<and> (\<forall>p i. t (p @ [i]) \<noteq> None \<longrightarrow> t p \<noteq> None \<and> entry_of t p = None)
     \<and> (\<forall>p a. entry_of t p = Some a \<longrightarrow> length (ch_Key (h a)) = L \<and> p = key_path (ch_Key (h a)) (length p))"

definition ents :: "mtree \<Rightarrow> addr set" where
  "ents t = {a. \<exists>p. entry_of t p = Some a}"

lemma trie_ok_shape:
  assumes "shape t' = shape t"
  shows "trie_ok L h t' = trie_ok L h t" "ents t' = ents t"
  unfolding trie_ok_def ents_def by (simp_all add: shape_eq [OF assms])

lemma entry_some_node: "entry_of t p = Some a \<Longrightarrow> t p \<noteq> None"
  by (auto simp: entry_of_def split: option.splits)

lemma trie_ok_parent:
  "trie_ok L h t \<Longrightarrow> t (p @ [i]) \<noteq> None \<Longrightarrow> t p \<noteq> None \<and> entry_of t p = None"
  unfolding trie_ok_def by blast

lemma trie_ok_entry:
  "trie_ok L h t \<Longrightarrow> entry_of t p = Some a \<Longrightarrow> length (ch_Key (h a)) = L \<and> p = key_path (ch_Key (h a)) (length p)"
  unfolding trie_ok_def by blast

lemma trie_ok_leaf: "trie_ok L h t \<Longrightarrow> entry_of t p = Some a \<Longrightarrow> t (p @ [i]) = None"
  using trie_ok_parent by (metis option.distinct(1))

lemma trie_ok_bits: "trie_ok L h t \<Longrightarrow> t p \<noteq> None \<Longrightarrow> bits_of t p = lvl_bits (length p)"
  unfolding trie_ok_def by blast

text \<open>Above a node of the trie there are only nodes without an entry.\<close>

lemma trie_ok_prefix:
  assumes "trie_ok L h t" "t (key_path k d) \<noteq> None" "d' < d"
  shows "t (key_path k d') \<noteq> None \<and> entry_of t (key_path k d') = None"
  using assms(2,3)
proof (induction d)
  case (Suc d)
  have p: "t (key_path k d) \<noteq> None \<and> entry_of t (key_path k d) = None"
    using trie_ok_parent [OF assms(1)] Suc.prems(1) by (simp add: key_path_Suc)
  then show ?case using Suc.IH Suc.prems(2) by (cases "d' = d") auto
qed simp

lemma entry_unique:
  assumes "trie_ok L h t" "entry_of t p = Some a" "entry_of t p' = Some a'" "ch_Key (h a) = ch_Key (h a')"
  shows "p = p' \<and> a = a'"
proof -
  let ?k = "ch_Key (h a)"
  have p: "p = key_path ?k (length p)" "p' = key_path ?k (length p')"
    using trie_ok_entry [OF assms(1,2)] trie_ok_entry [OF assms(1,3)] assms(4) by auto
  have "\<not> length p < length p'" "\<not> length p' < length p"
    using trie_ok_prefix [OF assms(1), of ?k] entry_some_node assms(2,3) p
    by (metis option.distinct(1))+
  then have "length p = length p'" by simp
  then show ?thesis using p assms(2,3) by (metis option.inject)
qed

definition mem_content :: "cheap \<Rightarrow> mtree \<Rightarrow> Key \<Rightarrow> addr \<Rightarrow> bool" where
  "mem_content h t k a \<longleftrightarrow> a \<in> ents t \<and> ch_Key (h a) = k"

section \<open>Descending\<close>

definition stops :: "mtree \<Rightarrow> Key \<Rightarrow> nat \<Rightarrow> bool" where
  "stops t k d \<longleftrightarrow> t (key_path k d) = None \<or> entry_of t (key_path k d) \<noteq> None"

lemma stops_somewhere:
  assumes "trie_ok L h t"
  shows "\<exists>d>0. stops t k d \<and> (\<forall>j<d. \<not> stops t k j)"
proof -
  have "\<exists>d. stops t k d"
  proof (rule ccontr)
    assume "\<nexists>d. stops t k d"
    then have "range (key_path k) \<subseteq> dom t" by (auto simp: stops_def dom_def)
    then have "finite (range (key_path k))" using assms finite_subset unfolding trie_ok_def by blast
    then show False using finite_imageD [of "key_path k" UNIV] by (simp add: inj_on_def)
  qed
  then obtain d where d: "stops t k d" "\<forall>j<d. \<not> stops t k j"
    using exists_least_iff [of "stops t k"] by blast
  moreover have "d \<noteq> 0" using d(1) assms by (auto simp: stops_def trie_ok_def intro: ccontr)
  ultimately show ?thesis by auto
qed

lemma get_descend_spec:
  assumes "trie_ok L h t" "length k = L" "\<forall>j. d \<le> j \<longrightarrow> j < d0 \<longrightarrow> \<not> stops t k j" "stops t k d0" "d \<le> d0"
    "t (key_path k d) \<noteq> None"
  shows "get_descend k t (key_path k d) (pos_of d) =
    Some (if t (key_path k d0) = None then Err MemNotFound else Ret (key_path k d0))"
  using assms(3-6)
proof (induction "d0 - d" arbitrary: d)
  case 0
  then show ?case by (subst get_descend.simps) (auto simp: stops_def)
next
  case (Suc n)
  have L: "2 \<le> length k" using assms(1,2) by (simp add: trie_ok_def)
  have dd: "d < d0" using Suc.hyps(2) by simp
  then have e: "entry_of t (key_path k d) = None" using Suc.prems(1) by (auto simp: stops_def)
  have b: "bits_of t (key_path k d) = lvl_bits d" using trie_ok_bits [OF assms(1) Suc.prems(4)] by simp
  show ?case
  proof (cases "t (key_path k (Suc d)) = None")
    case True
    then have "d0 = Suc d" using Suc.prems(1) dd by (metis Suc_leI antisym le_SucI le_neq_implies_less le_refl stops_def)
    then show ?thesis using True e b Key_bits_level [OF L, of d]
      by (subst get_descend.simps) (simp add: key_path_Suc)
  next
    case False
    have "get_descend k t (key_path k (Suc d)) (pos_of (Suc d)) =
      Some (if t (key_path k d0) = None then Err MemNotFound else Ret (key_path k d0))"
      using Suc.hyps(2) dd by (intro Suc.hyps(1)) (use Suc.prems False in auto)
    moreover obtain y where "t (key_path k d @ [kp k d]) = Some y" using False by (auto simp: key_path_Suc)
    ultimately show ?thesis using e b Key_bits_level [OF L, of d]
      by (subst get_descend.simps) (simp add: key_path_Suc pos_of_Suc)
  qed
qed

lemma put_descend_spec:
  assumes "trie_ok L h t" "length k = L" "\<forall>j. d \<le> j \<longrightarrow> j < d0 \<longrightarrow> \<not> stops t k j" "stops t k d0" "d \<le> d0"
    "t (key_path k d) \<noteq> None"
  shows "put_descend k t (key_path k d) (pos_of d) =
    Some (Ret (if t (key_path k d0) = None then add_child t (key_path k (d0 - 1)) (kp k (d0 - 1)) else t,
               key_path k d0, pos_of d0))"
  using assms(3-6)
proof (induction "d0 - d" arbitrary: d)
  case 0
  then show ?case by (subst put_descend.simps) (auto simp: stops_def)
next
  case (Suc n)
  have L: "2 \<le> length k" using assms(1,2) by (simp add: trie_ok_def)
  have dd: "d < d0" using Suc.hyps(2) by simp
  then have e: "entry_of t (key_path k d) = None" using Suc.prems(1) by (auto simp: stops_def)
  have b: "bits_of t (key_path k d) = lvl_bits d" using trie_ok_bits [OF assms(1) Suc.prems(4)] by simp
  show ?case
  proof (cases "t (key_path k (Suc d)) = None")
    case True
    then have "d0 = Suc d" using Suc.prems(1) dd by (metis Suc_leI antisym le_SucI le_neq_implies_less le_refl stops_def)
    then show ?thesis using True e b Key_bits_level [OF L, of d]
      by (subst put_descend.simps) (simp add: key_path_Suc pos_of_Suc)
  next
    case False
    have "put_descend k t (key_path k (Suc d)) (pos_of (Suc d)) =
      Some (Ret (if t (key_path k d0) = None then add_child t (key_path k (d0 - 1)) (kp k (d0 - 1)) else t,
               key_path k d0, pos_of d0))"
      using Suc.hyps(2) dd by (intro Suc.hyps(1)) (use Suc.prems False in auto)
    moreover obtain y where "t (key_path k d @ [kp k d]) = Some y" using False by (auto simp: key_path_Suc)
    ultimately show ?thesis using e b Key_bits_level [OF L, of d]
      by (subst put_descend.simps) (simp add: key_path_Suc pos_of_Suc)
  qed
qed

section \<open>Updates\<close>

lemma add_child_simps:
  "add_child t p l q = (if q = p @ [l] \<and> t q = None then Some (newMemTree memTreeLW) else t q)"
  by (auto simp: add_child_def)

lemma entry_add_child [simp]: "entry_of (add_child t p l) q = entry_of t q"
  by (auto simp: entry_of_def add_child_simps newMemTree_def split: option.splits)

lemma ents_add_child [simp]: "ents (add_child t p l) = ents t"
  by (simp add: ents_def)

lemma add_child_node: "add_child t p l q \<noteq> None \<longleftrightarrow> q = p @ [l] \<or> t q \<noteq> None"
  by (auto simp: add_child_simps)

lemma bits_add_child:
  "bits_of (add_child t p l) q = (if q = p @ [l] \<and> t q = None then memTreeLW else bits_of t q)"
  by (auto simp: bits_of_def add_child_simps newMemTree_def split: option.splits)

lemma trie_ok_add_child:
  assumes "trie_ok L h t" "t p \<noteq> None" "entry_of t p = None"
  shows "trie_ok L h (add_child t p l)"
proof -
  have "dom (add_child t p l) \<subseteq> insert (p @ [l]) (dom t)" by (auto simp: dom_def add_child_simps)
  then have "finite (dom (add_child t p l))"
    using assms(1) finite_subset unfolding trie_ok_def by (metis finite_insert)
  moreover have "bits_of (add_child t p l) q = lvl_bits (length q)" if "add_child t p l q \<noteq> None" for q
    using that trie_ok_bits [OF assms(1), of q]
    by (cases "t q") (auto simp: bits_add_child add_child_simps lvl_bits_def memTreeLW_def split: if_splits)
  moreover have "add_child t p l q \<noteq> None \<and> entry_of (add_child t p l) q = None"
    if "add_child t p l (q @ [i]) \<noteq> None" for q i
    using that trie_ok_parent [OF assms(1), of q i] assms(2,3)
    unfolding add_child_node entry_add_child by blast
  ultimately show ?thesis using assms(1) add_child_node [of t p l "[]"] unfolding trie_ok_def by auto
qed

lemma set_entry_apply:
  "set_entry t p e q = (if q = p then map_option (\<lambda>n. n\<lparr>mt_entry := e\<rparr>) (t p) else t q)"
  by (auto simp: set_entry_def split: option.splits)

lemma set_entry_node [simp]: "set_entry t p e q = None \<longleftrightarrow> t q = None"
  by (simp add: set_entry_apply)

lemma bits_set_entry [simp]: "bits_of (set_entry t p e) q = bits_of t q"
  by (auto simp: bits_of_def set_entry_apply split: option.splits)

lemma entry_set_entry: "t p \<noteq> None \<Longrightarrow> entry_of (set_entry t p e) q = (if q = p then e else entry_of t q)"
  by (auto simp: entry_of_def set_entry_apply split: option.splits)

lemma dom_set_entry [simp]: "dom (set_entry t p e) = dom t"
  by (auto simp: dom_def)

lemma trie_ok_set_None:
  assumes "trie_ok L h t" "t p \<noteq> None"
  shows "trie_ok L h (set_entry t p None)"
  using assms unfolding trie_ok_def by (auto simp: entry_set_entry)

lemma trie_ok_set_Some:
  assumes "trie_ok L h t" "t p \<noteq> None" "p \<noteq> []" "\<And>i. t (p @ [i]) = None"
    "length (ch_Key (h a)) = L" "p = key_path (ch_Key (h a)) (length p)"
  shows "trie_ok L h (set_entry t p (Some a))"
  using assms unfolding trie_ok_def by (auto simp: entry_set_entry)

lemma ents_set_entry:
  assumes "t p \<noteq> None"
  shows "ents (set_entry t p e) = {a. \<exists>q. q \<noteq> p \<and> entry_of t q = Some a} \<union> set_option e"
  using assms by (auto simp: ents_def entry_set_entry)

text \<open>Moving an entry one level down.\<close>

lemma push_step:
  assumes ok: "trie_ok L h t" and e: "entry_of t p = Some e" and l: "l = kp (ch_Key (h e)) (length p)"
  defines "t1 \<equiv> set_entry (set_entry (add_child t p l) (p @ [l]) (Some e)) p None"
  shows "trie_ok L h t1" "ents t1 = ents t" "entry_of t1 p = None" "t1 p \<noteq> None"
    "entry_of t1 (p @ [l]) = Some e" "\<And>i. i \<noteq> l \<Longrightarrow> t1 (p @ [i]) = None" "\<And>i. t1 (p @ [l, i]) = None"
proof -
  have node: "t p \<noteq> None" using entry_some_node [OF e] .
  have leaf: "t (p @ [i]) = None" for i using trie_ok_leaf [OF ok e] .
  let ?t0 = "add_child (set_entry t p None) p l"
  have t1: "t1 = set_entry ?t0 (p @ [l]) (Some e)"
    unfolding t1_def by (auto simp: fun_eq_iff set_entry_apply add_child_simps)
  have ok0: "trie_ok L h ?t0"
    using trie_ok_set_None [OF ok node] node by (intro trie_ok_add_child) (auto simp: entry_set_entry)
  have c0: "?t0 (p @ [l]) \<noteq> None" using add_child_node by blast
  have deep: "t (p @ [i, j]) = None" for i j
    using trie_ok_parent [OF ok, of "p @ [i]" j] leaf [of i] by (metis append_Cons append_Nil append_assoc)
  have kids: "?t0 ((p @ [l]) @ [i]) = None" for i
    using deep [of l i] by (simp add: add_child_simps)
  have path: "p @ [l] = key_path (ch_Key (h e)) (length (p @ [l]))"
    using trie_ok_entry [OF ok e] l by (simp add: key_path_Suc)
  show "trie_ok L h t1"
    unfolding t1 using trie_ok_entry [OF ok e] path kids by (intro trie_ok_set_Some [OF ok0 c0]) auto
  have en: "entry_of t1 q = (if q = p @ [l] then Some e else if q = p then None else entry_of t q)" for q
    unfolding t1 using c0 node by (simp add: entry_set_entry)
  have lc: "entry_of t (p @ [l]) = None" using leaf [of l] by (simp add: entry_of_def)
  have "a \<in> ents t1 \<longleftrightarrow> a \<in> ents t" for a
    unfolding ents_def mem_Collect_eq en using e lc by (metis append_self_conv not_Cons_self2 option.distinct(1))
  then show "ents t1 = ents t" by blast
  show "entry_of t1 p = None" "entry_of t1 (p @ [l]) = Some e" using lc by (simp_all add: en)
  show "t1 p \<noteq> None" using node add_child_node unfolding t1 by (metis set_entry_node)
  show "i \<noteq> l \<Longrightarrow> t1 (p @ [i]) = None" for i using leaf [of i] by (simp add: t1 add_child_simps)
  show "t1 (p @ [l, i]) = None" for i using kids [of i] by (simp add: t1)
qed

text \<open>A place for the new entry: an empty node without children on the path of its key.\<close>

definition vacant :: "cheap \<Rightarrow> nat \<Rightarrow> Key \<Rightarrow> mtree \<Rightarrow> path \<Rightarrow> bool" where
  "vacant h L key t p \<longleftrightarrow> trie_ok L h t \<and> t p \<noteq> None \<and> p \<noteq> [] \<and> entry_of t p = None
     \<and> (\<forall>i. t (p @ [i]) = None) \<and> p = key_path key (length p)"

lemma push_down_spec:
  assumes "trie_ok L h t" "entry_of t (key_path key d) = Some e" "length key = L"
    "ch_Key (h e) \<noteq> key" "\<forall>j<d1. kp (ch_Key (h e)) j = kp key j" "kp (ch_Key (h e)) d1 \<noteq> kp key d1" "d \<le> d1"
  shows "\<exists>t' p'. push_down key h t (key_path key d) (pos_of d) = Some (Ret (t', p'))
    \<and> vacant h L key t' p' \<and> ents t' = ents t"
  using assms
proof (induction "d1 - d" arbitrary: d t)
  case (Suc n d t)
  note ok = Suc.prems(1) and e = Suc.prems(2)
  let ?p = "key_path key d" and ?k = "ch_Key (h e)"
  define l where "l = kp ?k d"
  define t1 where "t1 = set_entry (set_entry (add_child t ?p l) (?p @ [l]) (Some e)) ?p None"
  define t2 where "t2 = updateAccess t1 (?p @ [l]) (access_of t1 ?p 0)"
  have len: "length ?k = L" "2 \<le> L" using trie_ok_entry [OF ok e] ok by (auto simp: trie_ok_def)
  note st = push_step [OF ok e, of l, unfolded length_key_path, OF l_def, folded t1_def]
  have sh: "shape t2 = shape t1" by (simp add: t2_def)
  have b: "bits_of t ?p = lvl_bits d" using trie_ok_bits [OF ok entry_some_node [OF e]] by simp
  have b2: "bits_of t2 ?p = lvl_bits d"
    using trie_ok_bits [OF st(1,4)] shape_eq(3) [OF sh] by simp
  have kb: "Key_bits ?k (pos_of d) (bits_of t ?p) = Some l" "Key_bits key (pos_of d) (bits_of t2 ?p) = Some (kp key d)"
    using Key_bits_level [of ?k d] Key_bits_level [of key d] len Suc.prems(3) b b2 by (simp_all add: l_def)
  have eq: "kp ?k d = kp key d" using Suc.prems(5) Suc.hyps(2) by simp
  have step: "push_down key h t ?p (pos_of d) =
      push_down key h (add_child t2 ?p (kp key d)) (key_path key (Suc d)) (pos_of (Suc d))"
    using e kb b2 by (subst push_down.simps)
      (simp add: Let_def key_path_Suc pos_of_Suc flip: t1_def t2_def)
  have "add_child t2 ?p (kp key d) = t2"
    using st(5) shape_eq(1) [OF sh] entry_some_node unfolding add_child_def l_def eq by metis
  moreover have "trie_ok L h t2" "ents t2 = ents t" "entry_of t2 (key_path key (Suc d)) = Some e"
    using st(1,2,5) trie_ok_shape [OF sh] shape_eq(2) [OF sh] by (simp_all add: key_path_Suc l_def eq)
  moreover have "n = d1 - Suc d" "Suc d \<le> d1" using Suc.hyps(2) by simp_all
  ultimately show ?case using Suc.hyps(1) [of "Suc d" t2] Suc.prems(3-6) step by simp
next
  case (0 d t)
  note ok = "0.prems"(1) and e = "0.prems"(2)
  have d: "d1 = d" using 0 by simp
  let ?p = "key_path key d" and ?k = "ch_Key (h e)"
  define l where "l = kp ?k d"
  define t1 where "t1 = set_entry (set_entry (add_child t ?p l) (?p @ [l]) (Some e)) ?p None"
  define t2 where "t2 = updateAccess t1 (?p @ [l]) (access_of t1 ?p 0)"
  have len: "length ?k = L" "2 \<le> L" using trie_ok_entry [OF ok e] ok by (auto simp: trie_ok_def)
  note st = push_step [OF ok e, of l, unfolded length_key_path, OF l_def, folded t1_def]
  have sh: "shape t2 = shape t1" by (simp add: t2_def)
  have b: "bits_of t ?p = lvl_bits d" using trie_ok_bits [OF ok entry_some_node [OF e]] by simp
  have b2: "bits_of t2 ?p = lvl_bits d"
    using trie_ok_bits [OF st(1,4)] shape_eq(3) [OF sh] by simp
  have kb: "Key_bits ?k (pos_of d) (bits_of t ?p) = Some l" "Key_bits key (pos_of d) (bits_of t2 ?p) = Some (kp key d)"
    using Key_bits_level [of ?k d] Key_bits_level [of key d] len "0.prems"(3) b b2 by (simp_all add: l_def)
  have ne: "kp key d \<noteq> l" using "0.prems"(6) d by (simp add: l_def)
  let ?t3 = "add_child t2 ?p (kp key d)" and ?p' = "key_path key (Suc d)"
  have t2: "trie_ok L h t2" "ents t2 = ents t" "t2 ?p \<noteq> None" "entry_of t2 ?p = None"
    using st(1-4) trie_ok_shape [OF sh] shape_eq(1,2) [OF sh] by simp_all
  have new: "t2 ?p' = None" using st(6) [OF ne] shape_eq(1) [OF sh] by (simp add: key_path_Suc)
  have kids: "t2 (?p' @ [i]) = None" for i using trie_ok_parent [OF t2(1), of ?p' i] new by metis
  have "vacant h L key ?t3 ?p'"
    unfolding vacant_def using trie_ok_add_child [OF t2(1,3,4)] new kids
    by (auto simp: add_child_simps key_path_Suc entry_of_def newMemTree_def simp flip: append_assoc)
  moreover have "entry_of t2 ?p' = None" using new by (simp add: entry_of_def)
  then have "entry_of ?t3 ?p' = None" by simp
  moreover have "push_down key h t ?p (pos_of d) = push_down key h ?t3 ?p' (pos_of (Suc d))"
    using e kb b2 by (subst push_down.simps)
      (simp add: Let_def key_path_Suc pos_of_Suc flip: t1_def t2_def)
  ultimately show ?case using t2(2) push_down.simps [of key h ?t3 ?p'] by auto
qed

section \<open>\<open>Get\<close> and \<open>Put\<close>\<close>

lemma trie_ok_heap:
  assumes "\<And>x. ch_Key (h' x) = ch_Key (h x)"
  shows "trie_ok L h' t = trie_ok L h t" "mem_content h' t = mem_content h t"
  by (simp_all add: trie_ok_def mem_content_def fun_eq_iff assms)

lemma mem_content_unique:
  "trie_ok L h t \<Longrightarrow> mem_content h t k a \<Longrightarrow> mem_content h t k b \<Longrightarrow> a = b"
  unfolding mem_content_def ents_def using entry_unique by blast

lemma stop_content:
  assumes ok: "trie_ok L h t" and d: "stops t k d" "\<forall>j<d. \<not> stops t k j"
  shows "mem_content h t k a \<longleftrightarrow> entry_of t (key_path k d) = Some a \<and> ch_Key (h a) = k"
proof
  assume "mem_content h t k a"
  then obtain p where p: "entry_of t p = Some a" "ch_Key (h a) = k" by (auto simp: mem_content_def ents_def)
  have path: "p = key_path k (length p)" using trie_ok_entry [OF ok p(1)] p(2) by simp
  have "stops t k (length p)" using p(1) path by (auto simp: stops_def)
  then have "d \<le> length p" using d(2) not_less by blast
  moreover have "\<not> d < length p"
    using trie_ok_prefix [OF ok, of k "length p" d] entry_some_node [OF p(1)] path d(1)
    unfolding stops_def by metis
  ultimately show "entry_of t (key_path k d) = Some a \<and> ch_Key (h a) = k" using p path by simp
qed (auto simp: mem_content_def ents_def)

lemma Get_law:
  assumes "trie_ok L h (ms_memtree s)" "length k = L"
  shows "\<exists>r s' u. MemStore_Get h k s = Some (r, s', u) \<and> shape (ms_memtree s') = shape (ms_memtree s)
    \<and> ms_entryCnt s' = ms_entryCnt s \<and> ms_capacity s' = ms_capacity s
    \<and> (\<forall>a. mem_content h (ms_memtree s) k a \<longrightarrow> r = Ret a)
    \<and> ((\<nexists>a. mem_content h (ms_memtree s) k a) \<longrightarrow> r = Err MemNotFound)"
proof -
  let ?t = "ms_memtree s"
  obtain d where d: "stops ?t k d" "\<forall>j<d. \<not> stops ?t k j" using stops_somewhere [OF assms(1)] by blast
  note sc = stop_content [OF assms(1) d]
  have "?t (key_path k 0) \<noteq> None" using assms(1) by (simp add: trie_ok_def)
  then have g: "get_descend k ?t [] 0 =
      Some (if ?t (key_path k d) = None then Err MemNotFound else Ret (key_path k d))"
    using get_descend_spec [OF assms, of 0 d] d by (simp add: pos_of_def)
  show ?thesis
  proof (cases "?t (key_path k d)")
    case None
    then show ?thesis using g sc by (simp add: MemStore_Get_def entry_of_def)
  next
    case (Some n)
    then obtain e where e: "mt_entry n = Some e" "entry_of ?t (key_path k d) = Some e"
      using d(1) by (auto simp: stops_def entry_of_def)
    show ?thesis
    proof (cases "ch_Key (h e) = k")
      case False
      then show ?thesis using g Some e sc by (simp add: MemStore_Get_def Key_isEqual_def)
    next
      case True
      then show ?thesis using g Some e sc
        by (auto simp: MemStore_Get_def Key_isEqual_def Let_def)
    qed
  qed
qed

lemma place_law:
  assumes "vacant h L (ch_Key (h a)) t p" "length (ch_Key (h a)) = L"
  shows "trie_ok L h (ms_memtree (place s a t p))"
    "ents (ms_memtree (place s a t p)) = insert a (ents t)"
    "ms_entryCnt (place s a t p) = Suc (ms_entryCnt s)"
proof -
  let ?t = "set_entry t p (Some a)"
  have v: "trie_ok L h t" "t p \<noteq> None" "p \<noteq> []" "entry_of t p = None" "\<forall>i. t (p @ [i]) = None"
    "p = key_path (ch_Key (h a)) (length p)"
    using assms(1) unfolding vacant_def by blast+
  have sh: "shape (ms_memtree (place s a t p)) = shape ?t"
    by (simp add: place_def Let_def)
  have "trie_ok L h ?t" using v(5) assms(2) by (intro trie_ok_set_Some [OF v(1-3) _ _ v(6)]) auto
  then show "trie_ok L h (ms_memtree (place s a t p))" using trie_ok_shape(1) [OF sh] by simp
  have "entry_of t q = Some x \<Longrightarrow> q \<noteq> p" for q x using v(4) by auto
  then have "ents ?t = insert a (ents t)" unfolding ents_set_entry [of t p, OF v(2)] by (auto simp: ents_def)
  then show "ents (ms_memtree (place s a t p)) = insert a (ents t)" using trie_ok_shape(2) [OF sh] by simp
  show "ms_entryCnt (place s a t p) = Suc (ms_entryCnt s)" by (simp add: place_def Let_def)
qed

lemma merge_chunk_key [simp]: "ch_Key (merge_chunk old c) = ch_Key c"
  by (simp add: merge_chunk_def Let_def)

text \<open>Storing under a key that is not in the trie.\<close>

lemma insert_new:
  assumes ok: "trie_ok L h (ms_memtree s)" and len: "length (ch_Key (h a)) = L"
    and new: "\<nexists>b. mem_content h (ms_memtree s) (ch_Key (h a)) b"
  shows "\<exists>s'. mem_insert h a s = Some (Ret (s', h)) \<and> trie_ok L h (ms_memtree s')
    \<and> ents (ms_memtree s') = insert a (ents (ms_memtree s)) \<and> ms_entryCnt s' = Suc (ms_entryCnt s)
    \<and> ms_capacity s' = ms_capacity s"
proof -
  let ?t = "ms_memtree s" and ?k = "ch_Key (h a)" and ?s = "s\<lparr>ms_accessCnt := ms_accessCnt s + 1\<rparr>"
  obtain d where d: "stops ?t ?k d" "\<forall>j<d. \<not> stops ?t ?k j" "0 < d" using stops_somewhere [OF ok] by blast
  have root: "?t (key_path ?k 0) \<noteq> None" using ok by (simp add: trie_ok_def)
  define t1 where "t1 = (if ?t (key_path ?k d) = None
      then add_child ?t (key_path ?k (d - 1)) (kp ?k (d - 1)) else ?t)"
  have pd: "put_descend ?k ?t [] 0 = Some (Ret (t1, key_path ?k d, pos_of d))"
    using put_descend_spec [OF ok len, of 0 d] d root by (simp add: pos_of_def t1_def)
  have cap: "ms_capacity (place ?s a t p) = ms_capacity s" for t p by (simp add: place_def Let_def)
  have fin: ?thesis if "vacant h L ?k t p" "ents t = ents ?t"
      "mem_insert h a s = Some (Ret (place ?s a t p, h))" for t p
    using place_law [OF that(1) len, of ?s] that(2,3) cap by auto
  show ?thesis
  proof (cases "?t (key_path ?k d) = None")
    case True
    have Sd: "key_path ?k d = key_path ?k (d - 1) @ [kp ?k (d - 1)]"
      using d(3) key_path_Suc [of ?k "d - 1"] by simp
    have par: "?t (key_path ?k (d - 1)) \<noteq> None" "entry_of ?t (key_path ?k (d - 1)) = None"
      using d(2,3) by (auto simp: stops_def)
    have kids: "?t (key_path ?k d @ [i]) = None" for i using trie_ok_parent [OF ok] True by metis
    have v: "vacant h L ?k t1 (key_path ?k d)"
      using trie_ok_add_child [OF ok par] True kids d(3) unfolding vacant_def t1_def
      by (auto simp: add_child_simps Sd entry_of_def newMemTree_def simp flip: append_assoc)
    moreover have "entry_of t1 (key_path ?k d) = None" using v unfolding vacant_def by blast
    ultimately show ?thesis using pd
      by (intro fin [of t1 "key_path ?k d"]) (simp_all add: mem_insert_def Let_def t1_def)
  next
    case False
    then have t1: "t1 = ?t" unfolding t1_def by (rule if_not_P)
    obtain e where e: "entry_of ?t (key_path ?k d) = Some e" using d(1) False by (auto simp: stops_def)
    have ne: "ch_Key (h e) \<noteq> ?k" using stop_content [OF ok d(1,2)] e new by blast
    have path: "key_path ?k d = key_path (ch_Key (h e)) d" "length (ch_Key (h e)) = L"
      using trie_ok_entry [OF ok e] by simp_all
    have "2 \<le> L" using ok by (simp add: trie_ok_def)
    then obtain d1 where d1: "kp (ch_Key (h e)) d1 \<noteq> kp ?k d1" "\<forall>j<d1. kp (ch_Key (h e)) j = kp ?k j"
      using keys_part [of "ch_Key (h e)" ?k] ne path(2) len
        exists_least_iff [of "\<lambda>j. kp (ch_Key (h e)) j \<noteq> kp ?k j"] by auto
    have "d \<le> d1"
    proof (rule ccontr)
      assume "\<not> d \<le> d1"
      then have "key_path ?k d ! d1 = kp ?k d1" "key_path (ch_Key (h e)) d ! d1 = kp (ch_Key (h e)) d1"
        by (simp_all add: key_path_def)
      then show False using path(1) d1(1) by simp
    qed
    then obtain t2 p2 where p2: "push_down ?k h ?t (key_path ?k d) (pos_of d) = Some (Ret (t2, p2))"
      "vacant h L ?k t2 p2" "ents t2 = ents ?t"
      using push_down_spec [OF ok e len ne d1(2,1)] by blast
    then show ?thesis using pd e ne
      by (intro fin [of t2 p2]) (simp_all add: mem_insert_def Let_def t1 Key_isEqual_def)
  qed
qed

text \<open>Storing under a known key replaces the pointer and completes the new chunk.\<close>

lemma insert_known:
  assumes ok: "trie_ok L h (ms_memtree s)" and len: "length (ch_Key (h a)) = L"
    and known: "mem_content h (ms_memtree s) (ch_Key (h a)) e"
  shows "\<exists>s'. mem_insert h a s = Some (Ret (s', h(a := merge_chunk (h e) (h a))))
    \<and> trie_ok L h (ms_memtree s') \<and> ents (ms_memtree s') = insert a (ents (ms_memtree s) - {e})
    \<and> ms_entryCnt s' = ms_entryCnt s \<and> ms_capacity s' = ms_capacity s"
proof -
  let ?t = "ms_memtree s" and ?k = "ch_Key (h a)"
  obtain d where d: "stops ?t ?k d" "\<forall>j<d. \<not> stops ?t ?k j" "0 < d" using stops_somewhere [OF ok] by blast
  have root: "?t (key_path ?k 0) \<noteq> None" using ok by (simp add: trie_ok_def)
  let ?p = "key_path ?k d"
  have e: "entry_of ?t ?p = Some e" "ch_Key (h e) = ?k" using known stop_content [OF ok d(1,2)] by auto
  have node: "?t ?p \<noteq> None" using entry_some_node [OF e(1)] .
  have pd: "put_descend ?k ?t [] 0 = Some (Ret (?t, ?p, pos_of d))"
    using put_descend_spec [OF ok len, of 0 d] d root unfolding if_not_P [OF node] by (simp add: pos_of_def)
  define t1 where "t1 = updateAccess ?t ?p (ms_accessCnt s + 1)"
  have sh: "shape t1 = shape ?t" by (simp add: t1_def)
  have ok1: "trie_ok L h t1" and en1: "entry_of t1 q = entry_of ?t q" for q
    using ok trie_ok_shape(1) [OF sh] shape_eq(2) [OF sh] by simp_all
  have n1: "t1 ?p \<noteq> None" using node shape_eq(1) [OF sh] by simp
  have "?p \<noteq> []" using d(3) by (metis length_key_path less_numeral_extra(3) list.size(3))
  moreover have "entry_of t1 ?p = Some e" using en1 e(1) by metis
  then have "t1 (?p @ [i]) = None" for i by (rule trie_ok_leaf [OF ok1])
  ultimately have "trie_ok L h (set_entry t1 ?p (Some a))"
    by (rule trie_ok_set_Some [OF ok1 n1 _ _ len]) (simp only: length_key_path)
  moreover have "ents (set_entry t1 ?p (Some a)) = insert a (ents ?t - {e})"
  proof -
    have "q = ?p" if "entry_of ?t q = Some e" for q using entry_unique [OF ok that e(1)] by simp
    then have "(\<exists>q. q \<noteq> ?p \<and> entry_of ?t q = Some x) \<longleftrightarrow> (\<exists>q. entry_of ?t q = Some x) \<and> x \<noteq> e" for x
      using e(1) by (metis option.inject)
    then have "{x. \<exists>q. q \<noteq> ?p \<and> entry_of t1 q = Some x} = ents ?t - {e}"
      unfolding en1 ents_def by blast
    then show ?thesis unfolding ents_set_entry [of t1 ?p, OF n1] by simp
  qed
  ultimately show ?thesis
    using pd e by (simp add: mem_insert_def Let_def Key_isEqual_def t1_def)
qed

lemma memstore_put_total:
  assumes "trie_ok L h (ms_memtree s)" "length (ch_Key (h a)) = L" "ms_entryCnt s < ms_capacity s"
  shows "\<exists>s' h'. MemStore_Put closed h a s = Some (Ret (s', h')) \<and> trie_ok L h' (ms_memtree s')
    \<and> (\<forall>k b. mem_content h' (ms_memtree s') k b \<longleftrightarrow>
          (if k = ch_Key (h a) then b = a else mem_content h (ms_memtree s) k b))
    \<and> (\<forall>e. mem_content h (ms_memtree s) (ch_Key (h a)) e \<longrightarrow>
          h' = h(a := merge_chunk (h e) (h a)) \<and> ms_entryCnt s' = ms_entryCnt s)
    \<and> ((\<nexists>e. mem_content h (ms_memtree s) (ch_Key (h a)) e) \<longrightarrow>
          h' = h \<and> ms_entryCnt s' = Suc (ms_entryCnt s))"
proof -
  have put: "MemStore_Put closed h a s = mem_insert h a s" using assms(3) by (simp add: MemStore_Put_def)
  show ?thesis
  proof (cases "\<exists>e. mem_content h (ms_memtree s) (ch_Key (h a)) e")
    case False
    then show ?thesis using insert_new [OF assms(1,2) False] put by (auto simp: mem_content_def)
  next
    case True
    then obtain e where e: "mem_content h (ms_memtree s) (ch_Key (h a)) e" ..
    let ?h = "h(a := merge_chunk (h e) (h a))"
    obtain s' where s': "mem_insert h a s = Some (Ret (s', ?h))" "trie_ok L h (ms_memtree s')"
      "ents (ms_memtree s') = insert a (ents (ms_memtree s) - {e})" "ms_entryCnt s' = ms_entryCnt s"
      using insert_known [OF assms(1,2) e] by blast
    have keys: "ch_Key (?h x) = ch_Key (h x)" for x by simp
    note hp = trie_ok_heap [of ?h h, OF keys]
    have uniq: "b = e" if "mem_content h (ms_memtree s) (ch_Key (h a)) b" for b
      using mem_content_unique [OF assms(1)] that e by blast
    have "mem_content h (ms_memtree s') k b \<longleftrightarrow>
        (if k = ch_Key (h a) then b = a else mem_content h (ms_memtree s) k b)" for k b
      using uniq [of b] e by (auto simp: mem_content_def s'(3))
    then have "\<forall>k b. mem_content ?h (ms_memtree s') k b \<longleftrightarrow>
        (if k = ch_Key (h a) then b = a else mem_content h (ms_memtree s) k b)" using hp(2) by metis
    moreover have "?h = h(a := merge_chunk (h e') (h a)) \<and> ms_entryCnt s' = ms_entryCnt s"
      if "mem_content h (ms_memtree s) (ch_Key (h a)) e'" for e'
      using uniq [OF that] s'(4) by blast
    moreover have "MemStore_Put closed h a s = Some (Ret (s', ?h))" "trie_ok L ?h (ms_memtree s')"
      using put s'(1,2) hp(1) by (simp_all only:)
    ultimately show ?thesis using e by blast
  qed
qed

section \<open>Properties\<close>

definition toy_heap :: cheap where
  "toy_heap a = (NewChunk [of_nat a, 7] None)\<lparr>ch_SData := Some [1], ch_Size := int a\<rparr>"

definition toy_memstore :: "nat \<Rightarrow> MemStore" where
  "toy_memstore cap = \<lparr>ms_memtree = [[] \<mapsto> newMemTree memTreeFLW], ms_entryCnt = 0, ms_capacity = cap,
     ms_accessCnt = 0, ms_dbAccessCnt = 0, ms_dbStore = False\<rparr>"

lemma toy_trie: "trie_ok 2 toy_heap (ms_memtree (toy_memstore cap))" "ents (ms_memtree (toy_memstore cap)) = {}"
  by (auto simp: trie_ok_def toy_memstore_def entry_of_def bits_of_def newMemTree_def lvl_bits_def
      memTreeFLW_def ents_def split: if_splits)

text \<open>
  C23: below capacity \<open>MemStore.Put\<close> returns (both descents end) and refines the update of a map
  from keys to chunk pointers: the key now leads to the stored pointer and every other key
  to what it led to before. A new key counts one entry more; under a known key the chunk is
  completed from the one it replaces. The trie invariant is kept.
\<close>

theorem memstore_put_refines:
  assumes "trie_ok L h (ms_memtree s)" "length (ch_Key (h a)) = L" "ms_entryCnt s < ms_capacity s"
  shows "\<exists>s' h'. MemStore_Put closed h a s = Some (Ret (s', h')) \<and> trie_ok L h' (ms_memtree s')
    \<and> (\<forall>k b. mem_content h' (ms_memtree s') k b \<longleftrightarrow>
          (if k = ch_Key (h a) then b = a else mem_content h (ms_memtree s) k b))
    \<and> (\<forall>e. mem_content h (ms_memtree s) (ch_Key (h a)) e \<longrightarrow>
          h' = h(a := merge_chunk (h e) (h a)) \<and> ms_entryCnt s' = ms_entryCnt s)
    \<and> ((\<nexists>e. mem_content h (ms_memtree s) (ch_Key (h a)) e) \<longrightarrow>
          h' = h \<and> ms_entryCnt s' = Suc (ms_entryCnt s))"
  using memstore_put_total [OF assms] .

theorem memstore_put_refines_witness:
  "\<exists>s' h'. MemStore_Put (\<lambda>_. True) toy_heap 5 (toy_memstore 3) = Some (Ret (s', h'))
    \<and> trie_ok 2 h' (ms_memtree s') \<and> mem_content h' (ms_memtree s') [5, 7] 5 \<and> ms_entryCnt s' = 1"
proof -
  have k: "ch_Key (toy_heap 5) = [5, 7]" by (simp add: toy_heap_def NewChunk_def)
  have "\<nexists>e. mem_content toy_heap (ms_memtree (toy_memstore 3)) [5, 7] e" by (simp add: mem_content_def toy_trie(2))
  moreover have "ms_entryCnt (toy_memstore 3) = 0" "ms_capacity (toy_memstore 3) = 3" by (simp_all add: toy_memstore_def)
  ultimately show ?thesis
    using memstore_put_refines [OF toy_trie(1), of 5 3 "\<lambda>_. True"] by (auto simp: k)
qed

text \<open>
  \<open>MemStore.Get\<close> returns for every key of the store's key length: the pointer stored under
  the key, or not found where there is none. It changes access counts only.
\<close>

theorem memstore_get_lookup:
  assumes "trie_ok L h (ms_memtree s)" "length k = L"
  shows "\<exists>r s' u. MemStore_Get h k s = Some (r, s', u) \<and> shape (ms_memtree s') = shape (ms_memtree s)
    \<and> ms_entryCnt s' = ms_entryCnt s \<and> ms_capacity s' = ms_capacity s
    \<and> (\<forall>a. mem_content h (ms_memtree s) k a \<longrightarrow> r = Ret a)
    \<and> ((\<nexists>a. mem_content h (ms_memtree s) k a) \<longrightarrow> r = Err MemNotFound)"
  using Get_law [OF assms] .

theorem memstore_get_lookup_witness:
  "\<exists>s' u. MemStore_Get toy_heap [5, 7] (toy_memstore 3) = Some (Err MemNotFound, s', u)"
  using memstore_get_lookup [OF toy_trie(1), of "[5, 7]" 3] toy_trie(2) by (auto simp: mem_content_def)

end
