(* ===== verification/Chunk_Stores.thy ===== *)
theory Chunk_Stores
  imports Db_Store_Props Mem_Store_Laws
begin

text \<open>
  \<open>storage/localstore.go\<close>, \<open>storage/netstore.go\<close> and the chunk store of \<open>storage/dpa.go\<close>: the
  layers over the memory cache and the database.

  The layers share one world: the cache, the database, the heap of chunk objects, the heap
  of request records, the channels that have been closed and the wait groups. What the code
  starts in a goroutine is recorded: \<open>w_pending\<close> holds the chunks whose database write has
  been started and not run yet, \<open>w_cloud\<close> the calls to the cloud store that were started.
\<close>

section \<open>The world\<close>

datatype cloud_call = CDeliver addr | CStore addr | CRetrieve addr

record ('d, 'r) world =
  w_mem :: MemStore
  w_db :: "'d DbStore"
  w_heap :: cheap
  w_next :: addr
  w_reqs :: "addr \<Rightarrow> 'r RequestStatus"
  w_nextReq :: addr
  w_closed :: "chan_id \<Rightarrow> bool"
  w_nextChan :: chan_id
  w_wg :: "nat \<Rightarrow> int"
  w_pending :: "addr list"
  w_cloud :: "cloud_call list"

datatype store_error = SNotFound | SDb db_error | SBlocked | STimeout

type_synonym ('d, 'r, 'a) store_op = "('d, 'r) world \<Rightarrow> ((store_error, 'a) go \<times> ('d, 'r) world) option"

text \<open>
  A step that calls the cache: \<open>None\<close> does not return, a wait for a \<open>dbStored\<close> channel that
  is still open is \<open>SBlocked\<close>.
\<close>

definition memPut :: "addr \<Rightarrow> ('d, 'r, unit) store_op" where
  "memPut a w =
     (case MemStore_Put (w_closed w) (w_heap w) a (w_mem w) of
        None \<Rightarrow> None
      | Some (Ret (m, h)) \<Rightarrow> Some (Ret (), w\<lparr>w_mem := m, w_heap := h\<rparr>)
      | Some (Err e) \<Rightarrow> Some (Err SBlocked, w)
      | Some Panic \<Rightarrow> Some (Panic, w))"

definition memGet :: "'d db_env \<Rightarrow> Key \<Rightarrow> ('d, 'r, addr) store_op" where
  "memGet E key w =
     (case MemStore_Get (w_heap w) key (w_mem w) of
        None \<Rightarrow> None
      | Some (r, m, touched) \<Rightarrow>
          (let w = w\<lparr>w_mem := m\<rparr>;
               w = (case touched of None \<Rightarrow> w
                    | Some k \<Rightarrow> w\<lparr>w_db := DbStore_updateAccessCnt E k (w_db w)\<rparr>)
           in case r of
                Ret a \<Rightarrow> Some (Ret a, w)
              | Err e \<Rightarrow> Some (Err SNotFound, w)
              | Panic \<Rightarrow> Some (Panic, w)))"

text \<open>Closing a channel twice panics.\<close>

definition close_chan :: "chan_id \<Rightarrow> ('d, 'r) world \<Rightarrow> ('d, 'r) world option" where
  "close_chan c w = (if w_closed w c then None else Some (w\<lparr>w_closed := (w_closed w)(c := True)\<rparr>))"

definition wg_add :: "nat option \<Rightarrow> int \<Rightarrow> ('d, 'r) world \<Rightarrow> ('d, 'r) world" where
  "wg_add g n w = (case g of None \<Rightarrow> w | Some i \<Rightarrow> w\<lparr>w_wg := (w_wg w)(i := w_wg w i + n)\<rparr>)"

definition alloc_chunk :: "Chunk \<Rightarrow> ('d, 'r) world \<Rightarrow> addr \<times> ('d, 'r) world" where
  "alloc_chunk c w = (w_next w, w\<lparr>w_heap := (w_heap w)(w_next w := c), w_next := w_next w + 1\<rparr>)"

section \<open>The local store\<close>

definition LocalStore_Put :: "addr \<Rightarrow> ('d, 'r, unit) store_op" where
  "LocalStore_Put a w =
     (let c = w_nextChan w;
          w = w\<lparr>w_nextChan := c + 1, w_heap := (w_heap w)(a := (w_heap w a)\<lparr>ch_dbStored := Some c\<rparr>)\<rparr>
      in case memPut a w of
           Some (Ret _, w) \<Rightarrow>
             (let w = wg_add (ch_wg (w_heap w a)) 1 w
              in Some (Ret (), w\<lparr>w_pending := w_pending w @ [a]\<rparr>))
         | r \<Rightarrow> r)"

text \<open>The goroutine \<open>LocalStore.Put\<close> starts, run to completion.\<close>

definition LocalStore_dbPut :: "'d db_env \<Rightarrow> addr \<Rightarrow> ('d, 'r, unit) store_op" where
  "LocalStore_dbPut E a w =
     (case DbStore_Put E (w_heap w a) (w_db w) of
        None \<Rightarrow> None
      | Some (Ret (db, done)) \<Rightarrow>
          (let w = w\<lparr>w_db := db, w_pending := remove1 a (w_pending w)\<rparr>
           in case done of
                None \<Rightarrow> Some (Ret (), wg_add (ch_wg (w_heap w a)) (-1) w)
              | Some c \<Rightarrow>
                  (case close_chan c w of
                     None \<Rightarrow> Some (Panic, w)
                   | Some w \<Rightarrow> Some (Ret (), wg_add (ch_wg (w_heap w a)) (-1) w)))
      | Some (Err e) \<Rightarrow> Some (Err (SDb e), w)
      | Some Panic \<Rightarrow> Some (Panic, w))"

text \<open>
  A call of \<open>Get\<close> whose cache write waits for a database write is one that does not return
  from this world, \<open>None\<close>; every error it returns is one of the database.
\<close>

definition LocalStore_Get :: "'d db_env \<Rightarrow> Key \<Rightarrow> ('d, 'r, addr) store_op" where
  "LocalStore_Get E key w =
     (case memGet E key w of
        Some (Err _, w) \<Rightarrow>
          (case DbStore_Get E key (w_db w) of
             (Err e, db) \<Rightarrow> Some (Err (if e = NotFound then SNotFound else SDb e), w\<lparr>w_db := db\<rparr>)
           | (Panic, db) \<Rightarrow> Some (Panic, w\<lparr>w_db := db\<rparr>)
           | (Ret c, db) \<Rightarrow>
               (case data_size (case ch_SData c of None \<Rightarrow> [] | Some d \<Rightarrow> d) of
                  None \<Rightarrow> Some (Panic, w\<lparr>w_db := db\<rparr>)
                | Some n \<Rightarrow>
                    (case alloc_chunk (c\<lparr>ch_Size := n\<rparr>) (w\<lparr>w_db := db\<rparr>) of
                       (a, w) \<Rightarrow>
                         (case memPut a w of
                            Some (Ret _, w) \<Rightarrow> Some (Ret a, w)
                          | Some (Panic, w) \<Rightarrow> Some (Panic, w)
                          | _ \<Rightarrow> None))))
      | r \<Rightarrow> r)"

section \<open>The network store\<close>

definition NetStore_Put :: "addr \<Rightarrow> ('d, 'r, unit) store_op" where
  "NetStore_Put a w =
     (case LocalStore_Put a w of
        Some (Ret _, w) \<Rightarrow>
          (case ch_Req (w_heap w a) of
             Some r \<Rightarrow>
               (case close_chan (rs_C (w_reqs w r)) w of
                  None \<Rightarrow> Some (Panic, w)
                | Some w \<Rightarrow> Some (Ret (), w\<lparr>w_cloud := w_cloud w @ [CDeliver a]\<rparr>))
           | None \<Rightarrow> Some (Ret (), w\<lparr>w_cloud := w_cloud w @ [CStore a]\<rparr>))
      | r \<Rightarrow> r)"

definition new_request :: "Key \<Rightarrow> ('d, 'r) world \<Rightarrow> addr \<times> ('d, 'r) world" where
  "new_request key w =
     (let r = w_nextReq w; c = w_nextChan w
      in alloc_chunk (NewChunk key (Some r))
           (w\<lparr>w_reqs := (w_reqs w)(r := newRequestStatus key c), w_nextReq := r + 1, w_nextChan := c + 1\<rparr>))"

definition NetStore_Get :: "'d db_env \<Rightarrow> Key \<Rightarrow> ('d, 'r, addr) store_op" where
  "NetStore_Get E key w =
     (case LocalStore_Get E key w of
        Some (Err _, w) \<Rightarrow>
          (case new_request key w of
             (a, w) \<Rightarrow>
               (case memPut a w of
                  Some (Ret _, w) \<Rightarrow> Some (Ret a, w\<lparr>w_cloud := w_cloud w @ [CRetrieve a]\<rparr>)
                | Some (Err e, w) \<Rightarrow> Some (Err e, w)
                | Some (Panic, w) \<Rightarrow> Some (Panic, w)
                | None \<Rightarrow> None))
      | r \<Rightarrow> r)"

section \<open>The chunk store of the DPA\<close>

text \<open>
  \<open>Get\<close> waits for the request's channel or for the search timeout; \<open>arrives w\<close> decides which
  comes first, and is the world at that time: \<open>Some w'\<close> where the channel was closed, in
  \<open>w'\<close>, before the timer fired, \<open>None\<close> on a timeout. The returned chunk comes with an error
  on a timeout.
\<close>

definition dpaChunkStore_Get ::
    "'d db_env \<Rightarrow> (('d, 'r) world \<Rightarrow> ('d, 'r) world option) \<Rightarrow> Key \<Rightarrow> ('d, 'r, addr) store_op" where
  "dpaChunkStore_Get E arrives key w =
     (case NetStore_Get E key w of
        Some (Ret a, w) \<Rightarrow>
          if ch_SData (w_heap w a) \<noteq> None then Some (Ret a, w)
          else (case ch_Req (w_heap w a) of
             None \<Rightarrow> Some (Panic, w)
           | Some r \<Rightarrow> (case arrives w of None \<Rightarrow> Some (Err STimeout, w) | Some w' \<Rightarrow> Some (Ret a, w')))
      | r \<Rightarrow> r)"

definition dpaChunkStore_Put :: "'d db_env \<Rightarrow> addr \<Rightarrow> ('d, 'r, unit) store_op" where
  "dpaChunkStore_Put E entry w =
     (case LocalStore_Get E (ch_Key (w_heap w entry)) w of
        Some (Err _, w) \<Rightarrow> NetStore_Put entry w
      | Some (Ret a, w) \<Rightarrow>
          if ch_SData (w_heap w a) = None then
            NetStore_Put a (w\<lparr>w_heap := (w_heap w)(a := (w_heap w a)\<lparr>ch_SData := ch_SData (w_heap w entry),
                                            ch_Size := ch_Size (w_heap w entry)\<rparr>)\<rparr>)
          else Some (Ret (), w)
      | Some (Panic, w) \<Rightarrow> Some (Panic, w)
      | None \<Rightarrow> None)"

text \<open>
  One request of a retrieve worker: the request chunk takes over the data of the stored one
  where there is one, and its channel is closed in any case.
\<close>

definition DPA_retrieveWorker_step ::
    "(Key \<Rightarrow> ('d, 'r, addr) store_op) \<Rightarrow> addr \<Rightarrow> ('d, 'r, unit) store_op" where
  "DPA_retrieveWorker_step get chunk w =
     (case get (ch_Key (w_heap w chunk)) w of
        None \<Rightarrow> None
      | Some (Panic, w) \<Rightarrow> Some (Panic, w)
      | Some (r, w) \<Rightarrow>
          (let w = (case r of
                 Ret stored \<Rightarrow>
                   w\<lparr>w_heap := (w_heap w)(chunk := (w_heap w chunk)\<lparr>ch_SData := ch_SData (w_heap w stored),
                                                  ch_Size := ch_Size (w_heap w stored)\<rparr>)\<rparr>
               | _ \<Rightarrow> w)
           in case ch_C (w_heap w chunk) of
                None \<Rightarrow> Some (Panic, w)
              | Some c \<Rightarrow> (case close_chan c w of None \<Rightarrow> Some (Panic, w) | Some w \<Rightarrow> Some (Ret (), w))))"

text \<open>One chunk of a store worker.\<close>

definition DPA_storeWorker_step :: "(addr \<Rightarrow> ('d, 'r, unit) store_op) \<Rightarrow> addr \<Rightarrow> ('d, 'r, unit) store_op" where
  "DPA_storeWorker_step put chunk w =
     (case put chunk w of
        Some (Ret _, w) \<Rightarrow> Some (Ret (), wg_add (ch_wg (w_heap w chunk)) (-1) w)
      | r \<Rightarrow> r)"

section \<open>Laws of the layers\<close>

text \<open>
  A world whose cache is a trie over keys of \<open>L\<close> bytes with room for another entry, whose
  database meets its invariant, and whose allocation counters are ahead of what is in use.
\<close>

definition world_ok :: "'d db_env \<Rightarrow> nat \<Rightarrow> ('d, 'r) world \<Rightarrow> bool" where
  "world_ok E L w \<longleftrightarrow> dbstore_env E \<and> dbstore_inv E (w_db w)
     \<and> trie_ok L (w_heap w) (ms_memtree (w_mem w)) \<and> (\<forall>a\<in>ents (ms_memtree (w_mem w)). a < w_next w)"

definition cached :: "('d, 'r) world \<Rightarrow> Key \<Rightarrow> addr \<Rightarrow> bool" where
  "cached w k a \<longleftrightarrow> mem_content (w_heap w) (ms_memtree (w_mem w)) k a"

definition has_room :: "('d, 'r) world \<Rightarrow> bool" where
  "has_room w \<longleftrightarrow> ms_entryCnt (w_mem w) < ms_capacity (w_mem w)"

lemma mem_insert_capacity:
  assumes "trie_ok L h (ms_memtree s)" "length (ch_Key (h a)) = L" "ms_entryCnt s < ms_capacity s"
    "MemStore_Put cl h a s = Some (Ret (s', h'))"
  shows "ms_capacity s' = ms_capacity s" "ents (ms_memtree s') \<subseteq> insert a (ents (ms_memtree s))"
proof -
  have p: "mem_insert h a s = Some (Ret (s', h'))" using assms(3,4) by (simp add: MemStore_Put_def)
  have "ms_capacity s' = ms_capacity s \<and> ents (ms_memtree s') \<subseteq> insert a (ents (ms_memtree s))"
  proof (cases "\<exists>e. mem_content h (ms_memtree s) (ch_Key (h a)) e")
    case True
    then obtain e where "mem_content h (ms_memtree s) (ch_Key (h a)) e" ..
    from insert_known [OF assms(1,2) this] show ?thesis using p by auto
  next
    case False
    from insert_new [OF assms(1,2) False] show ?thesis using p by auto
  qed
  then show "ms_capacity s' = ms_capacity s" "ents (ms_memtree s') \<subseteq> insert a (ents (ms_memtree s))" by auto
qed

lemma memPut_ok:
  assumes "world_ok E L w" "has_room w" "length (ch_Key (w_heap w a)) = L" "a < w_next w"
  shows "\<exists>m h. memPut a w = Some (Ret (), w\<lparr>w_mem := m, w_heap := h\<rparr>)
    \<and> world_ok E L (w\<lparr>w_mem := m, w_heap := h\<rparr>) \<and> ms_capacity m = ms_capacity (w_mem w)
    \<and> (\<forall>k b. mem_content h (ms_memtree m) k b \<longleftrightarrow>
          (if k = ch_Key (w_heap w a) then b = a else cached w k b))
    \<and> (\<forall>e. cached w (ch_Key (w_heap w a)) e \<longrightarrow>
          h = (w_heap w)(a := merge_chunk (w_heap w e) (w_heap w a)) \<and> ms_entryCnt m = ms_entryCnt (w_mem w))
    \<and> ((\<nexists>e. cached w (ch_Key (w_heap w a)) e) \<longrightarrow>
          h = w_heap w \<and> ms_entryCnt m = Suc (ms_entryCnt (w_mem w)))"
proof -
  have t: "trie_ok L (w_heap w) (ms_memtree (w_mem w))" using assms(1) by (simp add: world_ok_def)
  have r: "ms_entryCnt (w_mem w) < ms_capacity (w_mem w)" using assms(2) by (simp add: has_room_def)
  obtain m h where mh: "MemStore_Put (w_closed w) (w_heap w) a (w_mem w) = Some (Ret (m, h))"
    "trie_ok L h (ms_memtree m)"
    "\<forall>k b. mem_content h (ms_memtree m) k b \<longleftrightarrow> (if k = ch_Key (w_heap w a) then b = a else cached w k b)"
    "\<forall>e. cached w (ch_Key (w_heap w a)) e \<longrightarrow>
          h = (w_heap w)(a := merge_chunk (w_heap w e) (w_heap w a)) \<and> ms_entryCnt m = ms_entryCnt (w_mem w)"
    "(\<nexists>e. cached w (ch_Key (w_heap w a)) e) \<longrightarrow>
          h = w_heap w \<and> ms_entryCnt m = Suc (ms_entryCnt (w_mem w))"
    using memstore_put_total [OF t assms(3) r, of "w_closed w"] unfolding cached_def by blast
  note c = mem_insert_capacity [OF t assms(3) r mh(1)]
  have "world_ok E L (w\<lparr>w_mem := m, w_heap := h\<rparr>)"
    using assms(1,4) mh(2) c(2) by (auto simp: world_ok_def)
  then show ?thesis using mh c(1) by (intro exI [of _ m] exI [of _ h]) (simp add: memPut_def)
qed

lemma memGet_ok:
  assumes "world_ok E L w" "length k = L"
  shows "\<exists>r m db. memGet E k w = Some (r, w\<lparr>w_mem := m, w_db := db\<rparr>)
    \<and> shape (ms_memtree m) = shape (ms_memtree (w_mem w)) \<and> ms_entryCnt m = ms_entryCnt (w_mem w)
    \<and> ms_capacity m = ms_capacity (w_mem w) \<and> dbstore_inv E db \<and> content E db = content E (w_db w)
    \<and> index_of E db = index_of E (w_db w)
    \<and> (\<forall>a. cached w k a \<longrightarrow> r = Ret a) \<and> ((\<nexists>a. cached w k a) \<longrightarrow> r = Err SNotFound)"
proof -
  have e: "dbstore_env E" and inv: "dbstore_inv E (w_db w)" using assms(1) by (simp_all add: world_ok_def)
  obtain r m u where g: "MemStore_Get (w_heap w) k (w_mem w) = Some (r, m, u)"
    "shape (ms_memtree m) = shape (ms_memtree (w_mem w))" "ms_entryCnt m = ms_entryCnt (w_mem w)"
    "ms_capacity m = ms_capacity (w_mem w)" "\<forall>a. cached w k a \<longrightarrow> r = Ret a"
    "(\<nexists>a. cached w k a) \<longrightarrow> r = Err MemNotFound"
    using Get_law [of L "w_heap w" "w_mem w" k] assms unfolding cached_def world_ok_def by blast
  define db where "db = (case u of None \<Rightarrow> w_db w | Some x \<Rightarrow> DbStore_updateAccessCnt E x (w_db w))"
  have "dbstore_inv E (DbStore_updateAccessCnt E x (w_db w)) \<and> content E (DbStore_updateAccessCnt E x (w_db w)) = content E (w_db w)
      \<and> index_of E (DbStore_updateAccessCnt E x (w_db w)) = index_of E (w_db w)" for x
    using dbstore_env.access_frame [OF e inv] by (simp add: DbStore_updateAccessCnt_def)
  then have db: "dbstore_inv E db \<and> content E db = content E (w_db w) \<and> index_of E db = index_of E (w_db w)"
    using inv by (simp add: db_def split: option.splits)
  define r' where "r' = (case r of Ret a \<Rightarrow> Ret a | Err e \<Rightarrow> Err SNotFound | Panic \<Rightarrow> Panic)"
  have "memGet E k w = Some (r', w\<lparr>w_mem := m, w_db := db\<rparr>)"
    using g(1) by (simp add: memGet_def db_def r'_def Let_def split: option.splits go.splits)
  moreover have "\<forall>a. cached w k a \<longrightarrow> r' = Ret a" using g(5) by (simp add: r'_def)
  moreover have "(\<nexists>a. cached w k a) \<longrightarrow> r' = Err SNotFound" using g(6) by (simp add: r'_def)
  ultimately show ?thesis using g(2-4) db by blast
qed

lemma world_ok_shape:
  assumes "world_ok E L w" "shape (ms_memtree m) = shape (ms_memtree (w_mem w))" "dbstore_inv E db"
  shows "world_ok E L (w\<lparr>w_mem := m, w_db := db\<rparr>)" "cached (w\<lparr>w_mem := m, w_db := db\<rparr>) = cached w"
  using assms trie_ok_shape [OF assms(2)]
  by (auto simp: world_ok_def cached_def mem_content_def fun_eq_iff)

text \<open>A hit in the cache never reaches the database or the network.\<close>

lemma LocalStore_Get_hit:
  assumes "world_ok E L w" "length k = L" "cached w k a"
  shows "\<exists>m db. LocalStore_Get E k w = Some (Ret a, w\<lparr>w_mem := m, w_db := db\<rparr>)
    \<and> world_ok E L (w\<lparr>w_mem := m, w_db := db\<rparr>) \<and> cached (w\<lparr>w_mem := m, w_db := db\<rparr>) = cached w
    \<and> ms_entryCnt m = ms_entryCnt (w_mem w) \<and> ms_capacity m = ms_capacity (w_mem w)"
proof -
  obtain r m db where g: "memGet E k w = Some (r, w\<lparr>w_mem := m, w_db := db\<rparr>)"
    "shape (ms_memtree m) = shape (ms_memtree (w_mem w))" "ms_entryCnt m = ms_entryCnt (w_mem w)"
    "ms_capacity m = ms_capacity (w_mem w)" "dbstore_inv E db" "\<forall>a. cached w k a \<longrightarrow> r = Ret a"
    using memGet_ok [OF assms(1,2)] by blast
  then have "LocalStore_Get E k w = Some (Ret a, w\<lparr>w_mem := m, w_db := db\<rparr>)"
    using assms(3) by (simp add: LocalStore_Get_def)
  then show ?thesis using world_ok_shape [OF assms(1) g(2,5)] g(3,4) by blast
qed

lemma LocalStore_Get_miss:
  assumes "world_ok E L w" "length k = L" "\<nexists>a. cached w k a" "index_of E (w_db w) k = None"
  shows "\<exists>m db. LocalStore_Get E k w = Some (Err SNotFound, w\<lparr>w_mem := m, w_db := db\<rparr>)
    \<and> world_ok E L (w\<lparr>w_mem := m, w_db := db\<rparr>) \<and> cached (w\<lparr>w_mem := m, w_db := db\<rparr>) = cached w
    \<and> ms_entryCnt m = ms_entryCnt (w_mem w) \<and> ms_capacity m = ms_capacity (w_mem w)"
proof -
  have e: "dbstore_env E" using assms(1) by (simp add: world_ok_def)
  obtain r m db where g: "memGet E k w = Some (r, w\<lparr>w_mem := m, w_db := db\<rparr>)"
    "shape (ms_memtree m) = shape (ms_memtree (w_mem w))" "ms_entryCnt m = ms_entryCnt (w_mem w)"
    "ms_capacity m = ms_capacity (w_mem w)" "dbstore_inv E db" "index_of E db = index_of E (w_db w)"
    "(\<nexists>a. cached w k a) \<longrightarrow> r = Err SNotFound"
    using memGet_ok [OF assms(1,2)] by blast
  have "DbStore_Get E k db = (Err NotFound, db)"
    using dbstore_env.Get_absent [OF e] g(6) assms(4) by simp
  then have "LocalStore_Get E k w = Some (Err SNotFound, w\<lparr>w_mem := m, w_db := db\<rparr>)"
    using g(1,7) assms(3) by (simp add: LocalStore_Get_def)
  then show ?thesis using world_ok_shape [OF assms(1) g(2,5)] g(3,4) by blast
qed

lemma NetStore_Get_hit:
  assumes "world_ok E L w" "length k = L" "cached w k a"
  shows "\<exists>m db. NetStore_Get E k w = Some (Ret a, w\<lparr>w_mem := m, w_db := db\<rparr>)"
proof -
  obtain m db where "LocalStore_Get E k w = Some (Ret a, w\<lparr>w_mem := m, w_db := db\<rparr>)"
    using LocalStore_Get_hit [OF assms] by blast
  then have "NetStore_Get E k w = Some (Ret a, w\<lparr>w_mem := m, w_db := db\<rparr>)" by (simp add: NetStore_Get_def)
  then show ?thesis by blast
qed

lemma NetStore_Get_open:
  assumes "world_ok E L w" "has_room w" "length k = L" "\<nexists>a. cached w k a" "index_of E (w_db w) k = None"
  shows "\<exists>w'. NetStore_Get E k w = Some (Ret (w_next w), w') \<and> world_ok E L w' \<and> cached w' k (w_next w)
    \<and> w_heap w' (w_next w) = NewChunk k (Some (w_nextReq w))
    \<and> w_reqs w' (w_nextReq w) = newRequestStatus k (w_nextChan w)
    \<and> w_cloud w' = w_cloud w @ [CRetrieve (w_next w)] \<and> w_closed w' = w_closed w
    \<and> w_heap w' = (w_heap w)(w_next w := NewChunk k (Some (w_nextReq w))) \<and> w_next w' = w_next w + 1
    \<and> ms_capacity (w_mem w') = ms_capacity (w_mem w) \<and> ms_entryCnt (w_mem w') = Suc (ms_entryCnt (w_mem w))"
proof -
  obtain m db where g: "LocalStore_Get E k w = Some (Err SNotFound, w\<lparr>w_mem := m, w_db := db\<rparr>)"
    "world_ok E L (w\<lparr>w_mem := m, w_db := db\<rparr>)" "cached (w\<lparr>w_mem := m, w_db := db\<rparr>) = cached w"
    "ms_entryCnt m = ms_entryCnt (w_mem w)" "ms_capacity m = ms_capacity (w_mem w)"
    using LocalStore_Get_miss [OF assms(1,3-5)] by blast
  let ?a = "w_next w"
  define w1 where "w1 = snd (new_request k (w\<lparr>w_mem := m, w_db := db\<rparr>))"
  have nr: "new_request k (w\<lparr>w_mem := m, w_db := db\<rparr>) = (?a, w1)"
    by (simp add: w1_def new_request_def alloc_chunk_def Let_def)
  have w1: "w_heap w1 = (w_heap w)(?a := NewChunk k (Some (w_nextReq w)))" "w_mem w1 = m" "w_db w1 = db"
    "w_next w1 = ?a + 1" "w_reqs w1 (w_nextReq w) = newRequestStatus k (w_nextChan w)" "w_cloud w1 = w_cloud w"
    "w_closed w1 = w_closed w"
    by (simp_all add: w1_def new_request_def alloc_chunk_def Let_def)
  have fresh: "?a \<notin> ents (ms_memtree m)" using g(2) by (auto simp: world_ok_def)
  have heap: "\<forall>x\<in>ents (ms_memtree m). w_heap w1 x = w_heap w x" using fresh by (auto simp: w1(1))
  have t1: "trie_ok L (w_heap w1) (ms_memtree m)"
  proof -
    have "trie_ok L (w_heap w) (ms_memtree m)" using g(2) by (simp add: world_ok_def)
    then show ?thesis using heap unfolding trie_ok_def ents_def by auto
  qed
  have ok1: "world_ok E L w1" using g(2) t1 w1 by (auto simp: world_ok_def)
  have c1: "cached w1 k' b \<longleftrightarrow> cached w k' b" for k' b
    using heap fun_cong [OF fun_cong [OF g(3)], of k' b] by (auto simp: cached_def mem_content_def w1(2))
  have room: "has_room w1" using assms(2) g(4,5) w1(2) by (simp add: has_room_def)
  have key: "ch_Key (w_heap w1 ?a) = k" by (simp add: w1(1) NewChunk_def)
  obtain m2 h2 where p: "memPut ?a w1 = Some (Ret (), w1\<lparr>w_mem := m2, w_heap := h2\<rparr>)"
    "world_ok E L (w1\<lparr>w_mem := m2, w_heap := h2\<rparr>)"
    "\<forall>k b. mem_content h2 (ms_memtree m2) k b \<longleftrightarrow> (if k = ch_Key (w_heap w1 ?a) then b = ?a else cached w1 k b)"
    "(\<nexists>e. cached w1 (ch_Key (w_heap w1 ?a)) e) \<longrightarrow> h2 = w_heap w1 \<and> ms_entryCnt m2 = Suc (ms_entryCnt (w_mem w1))"
    "ms_capacity m2 = ms_capacity (w_mem w1)"
    using memPut_ok [OF ok1 room, of ?a] assms(3) w1(4) key by auto
  have h2: "h2 = w_heap w1" "ms_entryCnt m2 = Suc (ms_entryCnt m)" using p(4) assms(4) c1 key w1(2) by auto
  let ?w' = "w1\<lparr>w_mem := m2, w_heap := h2, w_cloud := w_cloud w1 @ [CRetrieve ?a]\<rparr>"
  have "NetStore_Get E k w = Some (Ret ?a, ?w')"
    using g(1) nr p(1) by (simp add: NetStore_Get_def)
  moreover have "world_ok E L ?w'" using p(2) by (simp add: world_ok_def)
  moreover have "cached ?w' k ?a" using p(3) key by (simp add: cached_def)
  ultimately show ?thesis using w1 h2 p(5) g(4,5) by (intro exI [of _ ?w']) simp
qed

lemma NetStore_Put_cached:
  assumes "world_ok E L w" "has_room w" "length (ch_Key (w_heap w a)) = L" "a < w_next w"
    "cached w (ch_Key (w_heap w a)) e"
    "ch_Req (w_heap w a) = Some r \<or> ch_Req (w_heap w a) = None \<and> ch_Req (w_heap w e) = Some r"
    "ch_SData (w_heap w a) = Some d" "\<not> w_closed w (rs_C (w_reqs w r))"
  shows "\<exists>w'. NetStore_Put a w = Some (Ret (), w') \<and> world_ok E L w'
    \<and> w_closed w' = (w_closed w)(rs_C (w_reqs w r) := True) \<and> w_cloud w' = w_cloud w @ [CDeliver a]
    \<and> cached w' (ch_Key (w_heap w a)) a \<and> ch_SData (w_heap w' a) = Some d
    \<and> w_pending w' = w_pending w @ [a]"
proof -
  let ?k = "ch_Key (w_heap w a)" and ?c = "w_nextChan w"
  define w1 where "w1 = w\<lparr>w_nextChan := ?c + 1, w_heap := (w_heap w)(a := (w_heap w a)\<lparr>ch_dbStored := Some ?c\<rparr>)\<rparr>"
  have keys: "ch_Key (w_heap w1 x) = ch_Key (w_heap w x)" for x by (simp add: w1_def)
  note hp = trie_ok_heap [of "w_heap w1" "w_heap w", OF keys]
  have mem1: "w_mem w1 = w_mem w" "w_db w1 = w_db w" "w_next w1 = w_next w" by (simp_all add: w1_def)
  have ok1: "world_ok E L w1" using assms(1) hp(1) by (simp add: world_ok_def mem1)
  have c1: "cached w1 = cached w" by (simp add: cached_def fun_eq_iff hp(2) mem1)
  have room1: "has_room w1" using assms(2) by (simp add: has_room_def mem1)
  have len1: "length (ch_Key (w_heap w1 a)) = L" "a < w_next w1" "cached w1 (ch_Key (w_heap w1 a)) e"
    using assms(3-5) c1 by (simp_all add: keys mem1)
  obtain m h where p: "memPut a w1 = Some (Ret (), w1\<lparr>w_mem := m, w_heap := h\<rparr>)"
    "world_ok E L (w1\<lparr>w_mem := m, w_heap := h\<rparr>)"
    "\<forall>k b. mem_content h (ms_memtree m) k b \<longleftrightarrow> (if k = ch_Key (w_heap w1 a) then b = a else cached w1 k b)"
    "h = (w_heap w1)(a := merge_chunk (w_heap w1 e) (w_heap w1 a))"
    using memPut_ok [OF ok1 room1 _ _] len1 by blast
  have ha: "ch_Req (h a) = Some r" "ch_SData (h a) = Some d"
    using assms(6,7) by (auto simp: p(4) merge_chunk_def Let_def w1_def)
  let ?w2 = "wg_add (ch_wg (h a)) 1 (w1\<lparr>w_mem := m, w_heap := h\<rparr>)"
  have f2: "w_heap ?w2 = h" "w_mem ?w2 = m" "w_reqs ?w2 = w_reqs w" "w_closed ?w2 = w_closed w" "w_cloud ?w2 = w_cloud w"
    "w_pending ?w2 = w_pending w" "w_db ?w2 = w_db w" "w_next ?w2 = w_next w"
    by (simp_all add: wg_add_def w1_def split: option.splits)
  have lp: "LocalStore_Put a w = Some (Ret (), ?w2\<lparr>w_pending := w_pending w @ [a]\<rparr>)"
    using p(1) f2(6) unfolding LocalStore_Put_def Let_def w1_def [symmetric] by simp
  let ?w' = "?w2\<lparr>w_pending := w_pending w @ [a], w_closed := (w_closed w)(rs_C (w_reqs w r) := True),
      w_cloud := w_cloud w @ [CDeliver a]\<rparr>"
  have "NetStore_Put a w = Some (Ret (), ?w')"
    using lp ha(1) assms(8) f2 by (simp add: NetStore_Put_def close_chan_def)
  moreover have "world_ok E L ?w'" using p(2) f2 mem1 by (simp add: world_ok_def)
  moreover have "cached ?w' ?k a" using p(3) keys f2 by (simp add: cached_def)
  ultimately show ?thesis using ha(2) f2 by (intro exI [of _ ?w']) simp
qed

section \<open>Properties\<close>

text \<open>
  Requests for one key are joined. \<open>NetStore.Get\<close> of a key that is neither cached nor in the
  database opens one request, starts one retrieval in the cloud and returns the request
  chunk; a second \<open>Get\<close> of the key returns the same chunk and starts no other retrieval.
\<close>

theorem netstore_get_joins_requests:
  assumes "world_ok E L w" "has_room w" "length k = L" "\<nexists>a. cached w k a" "index_of E (w_db w) k = None"
  shows "\<exists>a w' w''. NetStore_Get E k w = Some (Ret a, w') \<and> NetStore_Get E k w' = Some (Ret a, w'')
    \<and> w_heap w' a = NewChunk k (Some (w_nextReq w))
    \<and> w_cloud w' = w_cloud w @ [CRetrieve a] \<and> w_cloud w'' = w_cloud w'"
proof -
  obtain w' where w': "NetStore_Get E k w = Some (Ret (w_next w), w')" "world_ok E L w'" "cached w' k (w_next w)"
    "w_heap w' (w_next w) = NewChunk k (Some (w_nextReq w))" "w_cloud w' = w_cloud w @ [CRetrieve (w_next w)]"
    using NetStore_Get_open [OF assms] by blast
  obtain m db where n: "NetStore_Get E k w' = Some (Ret (w_next w), w'\<lparr>w_mem := m, w_db := db\<rparr>)"
    using NetStore_Get_hit [OF w'(2) assms(3) w'(3)] by blast
  have "w_cloud (w'\<lparr>w_mem := m, w_db := db\<rparr>) = w_cloud w'" by simp
  then show ?thesis using w'(1,4,5) n by blast
qed

definition toy_world :: "(memdb_t, 'r) world" where
  "toy_world = \<lparr>w_mem = toy_memstore 3, w_db = toy_store 10, w_heap = toy_heap, w_next = 100,
     w_reqs = (\<lambda>_. newRequestStatus [] 0), w_nextReq = 0, w_closed = (\<lambda>_. False), w_nextChan = 1,
     w_wg = (\<lambda>_. 0), w_pending = [], w_cloud = []\<rparr>"

lemma toy_world_ok: "world_ok toy_env 2 toy_world" "has_room toy_world" "\<not> cached toy_world k a"
  using toy_trie toy_inv toy.dbstore_env_axioms
  by (simp_all add: world_ok_def has_room_def cached_def mem_content_def toy_world_def toy_memstore_def)

text \<open>The world after a lookup of a key that nobody has: the request chunk is at address 100.\<close>

lemma toy_pending:
  "\<exists>w. NetStore_Get toy_env [1, 7] toy_world = Some (Ret 100, w) \<and> world_ok toy_env 2 w
    \<and> cached w [1, 7] 100 \<and> w_cloud w = [CRetrieve 100] \<and> w_closed w = (\<lambda>_. False)
    \<and> w_heap w = toy_heap(100 := NewChunk [1, 7] (Some 0)) \<and> w_next w = 101
    \<and> ms_capacity (w_mem w) = 3 \<and> ms_entryCnt (w_mem w) = 1"
proof -
  have "\<nexists>a. cached toy_world [1, 7] a" by (simp add: toy_world_ok(3))
  then show ?thesis using NetStore_Get_open [OF toy_world_ok(1,2), of "[1, 7]"]
    by (auto simp: toy_index toy_world_def toy_memstore_def)
qed

theorem netstore_get_joins_requests_witness:
  "\<exists>a w' w''. NetStore_Get toy_env [1, 2] (toy_world :: (memdb_t, unit) world) = Some (Ret a, w')
    \<and> NetStore_Get toy_env [1, 2] w' = Some (Ret a, w'')
    \<and> w_heap w' a = NewChunk [1, 2] (Some 0)
    \<and> w_cloud w' = [CRetrieve a] \<and> w_cloud w'' = w_cloud w'"
proof -
  let ?w = "toy_world :: (memdb_t, unit) world"
  have w: "w_nextReq ?w = 0" "w_cloud ?w = []" "index_of toy_env (w_db ?w) [1, 2] = None" by (simp_all add: toy_world_def toy_index)
  show ?thesis using netstore_get_joins_requests [OF toy_world_ok(1,2) _ _ w(3)] w(1,2) by (simp add: toy_world_ok(3))
qed

text \<open>
  A chunk that arrives for a pending request is delivered. Where the cache holds a request
  chunk for the key whose channel is still open, \<open>NetStore.Put\<close> of a chunk with the data
  closes the request's channel exactly then, hands the chunk to the cloud for delivery
  instead of storing it there, makes it the cached chunk and starts its database write.
\<close>

theorem netstore_put_delivers:
  assumes "world_ok E L w" "has_room w" "length (ch_Key (w_heap w a)) = L" "a < w_next w"
    "cached w (ch_Key (w_heap w a)) e" "e \<noteq> a" "ch_Req (w_heap w e) = Some r" "ch_Req (w_heap w a) = None"
    "ch_SData (w_heap w a) = Some d" "\<not> w_closed w (rs_C (w_reqs w r))"
  shows "\<exists>w'. NetStore_Put a w = Some (Ret (), w') \<and> world_ok E L w'
    \<and> w_closed w' = (w_closed w)(rs_C (w_reqs w r) := True) \<and> w_cloud w' = w_cloud w @ [CDeliver a]
    \<and> cached w' (ch_Key (w_heap w a)) a \<and> ch_SData (w_heap w' a) = Some d
    \<and> w_pending w' = w_pending w @ [a]"
  using NetStore_Put_cached [OF assms(1-5) disjI2 [OF conjI [OF assms(8,7)]] assms(9,10)] .

theorem netstore_put_delivers_witness:
  "\<exists>w1 w2. NetStore_Get toy_env [1, 7] (toy_world :: (memdb_t, unit) world) = Some (Ret 100, w1) \<and> NetStore_Put 1 w1 = Some (Ret (), w2)
    \<and> w_cloud w2 = [CRetrieve 100, CDeliver 1] \<and> w_closed w2 (rs_C (w_reqs w1 0))"
proof -
  obtain w1 where w1: "NetStore_Get toy_env [1, 7] (toy_world :: (memdb_t, unit) world) = Some (Ret 100, w1)" "world_ok toy_env 2 w1"
    "cached w1 [1, 7] 100" "w_cloud w1 = [CRetrieve 100]" "w_closed w1 = (\<lambda>_. False)"
    "w_heap w1 = toy_heap(100 := NewChunk [1, 7] (Some 0))" "w_next w1 = 101"
    "ms_capacity (w_mem w1) = 3" "ms_entryCnt (w_mem w1) = 1"
    using toy_pending by blast
  have room: "has_room w1" using w1(8,9) by (simp add: has_room_def)
  have h: "ch_Key (w_heap w1 1) = [1, 7]" "ch_Req (w_heap w1 1) = None" "ch_SData (w_heap w1 1) = Some [1]"
    "ch_Req (w_heap w1 100) = Some 0"
    by (simp_all add: w1(6) toy_heap_def NewChunk_def)
  obtain w2 where "NetStore_Put 1 w1 = Some (Ret (), w2)"
    "w_closed w2 = (w_closed w1)(rs_C (w_reqs w1 0) := True)" "w_cloud w2 = w_cloud w1 @ [CDeliver 1]"
    using netstore_put_delivers [OF w1(2) room, of 1 100 0 "[1]"] w1(3,5,7) h by auto
  then show ?thesis using w1(1,4) by (intro exI [of _ w1] exI [of _ w2]) simp
qed

end
