(* ===== verification/Db_Sync_Iterator.thy ===== *)
theory Db_Sync_Iterator
  imports Db_Store_Props
begin

text \<open>
  \<open>storage/dbstore.go\<close>, \<open>NewSyncIterator\<close> and \<open>dbSyncIterator.Next\<close>: the walk over the index
  entries between two keys that were stored in a given interval of the storage counter. The
  syncer uses it to replay history to a peer.
\<close>

record DbSyncState =
  ss_Start :: Key
  ss_Stop :: Key
  ss_First :: u64
  ss_Last :: u64

record dbSyncIterator =
  si_it :: ldb_iter
  si_state :: DbSyncState

text \<open>\<open>None\<close> is the error \<open>no entries found\<close>.\<close>

definition NewSyncIterator :: "'d db_env \<Rightarrow> 'd DbStore \<Rightarrow> DbSyncState \<Rightarrow> dbSyncIterator option" where
  "NewSyncIterator E s state =
     (if ss_First state > ss_Last state then None
      else Some \<lparr>si_it = it_Seek (LDBDatabase_NewIterator (env_L E) (ds_db s)) (getIndexKey (ss_Start state)),
                 si_state = state\<rparr>)"

text \<open>
  The loop of \<open>Next\<close> over the entries from the iterator's position: the key found, if any,
  and the entries that are left. Leaving the loop releases the iterator, after which it is
  not valid any more. \<open>dbkey[0]\<close> panics on an empty database key.
\<close>

fun sync_next :: "'d db_env \<Rightarrow> DbSyncState \<Rightarrow> (bytes \<times> bytes) list
    \<Rightarrow> (db_error, Key option \<times> (bytes \<times> bytes) list) go" where
  "sync_next E st [] = Ret (None, [])"
| "sync_next E st (([], v) # es) = Panic"
| "sync_next E st ((b # key, v) # es) =
     (if b \<noteq> 0 then Ret (None, [])
      else if key \<le> ss_Start st then sync_next E st es
      else if key > ss_Stop st then Ret (None, [])
      else let index = decodeIndex E v zero_index in
        if ix_Idx index \<ge> ss_First st \<and> ix_Idx index < ss_Last st then Ret (Some key, es)
        else sync_next E st es)"

definition dbSyncIterator_Next ::
    "'d db_env \<Rightarrow> dbSyncIterator \<Rightarrow> (db_error, Key option \<times> dbSyncIterator) go" where
  "dbSyncIterator_Next E si =
     (case sync_next E (si_state si) (it_rest (si_it si)) of
        Ret (key, es) \<Rightarrow> Ret (key, si\<lparr>si_it := (si_it si)\<lparr>it_rest := es\<rparr>\<rparr>)
      | Err e \<Rightarrow> Err e
      | Panic \<Rightarrow> Panic)"

section \<open>Draining an iterator\<close>

lemma sync_next_length: "sync_next E st es = Ret (Some k, es') \<Longrightarrow> length es' < length es"
  by (induction E st es rule: sync_next.induct) (auto simp: Let_def split: if_splits)

text \<open>The keys that calling \<open>Next\<close> until it returns nil yields.\<close>

function sync_drain :: "'d db_env \<Rightarrow> dbSyncIterator \<Rightarrow> (db_error, Key list) go" where
  "sync_drain E si =
     (case dbSyncIterator_Next E si of
        Ret (None, _) \<Rightarrow> Ret []
      | Ret (Some k, si') \<Rightarrow> go_bind (sync_drain E si') (\<lambda>ks. Ret (k # ks))
      | Err e \<Rightarrow> Err e
      | Panic \<Rightarrow> Panic)"
  by pat_completeness auto
termination
  by (relation "measure (\<lambda>(E, si). length (it_rest (si_it si)))")
    (auto simp: dbSyncIterator_Next_def dest: sync_next_length split: go.splits)

declare sync_drain.simps [simp del]

definition sync_range :: "'d db_env \<Rightarrow> DbSyncState \<Rightarrow> bytes \<times> bytes \<Rightarrow> bool" where
  "sync_range E st e \<longleftrightarrow> hd (fst e) = 0 \<and> ss_Start st < tl (fst e) \<and> tl (fst e) \<le> ss_Stop st
     \<and> ss_First st \<le> ix_Idx (env_dec E (snd e) zero_index) \<and> ix_Idx (env_dec E (snd e) zero_index) < ss_Last st"

lemma sync_next_spec:
  assumes "[] \<notin> fst ` set es" "sorted_wrt (<) (map fst es)" "\<forall>e\<in>set es. [0] \<le> fst e"
  shows "\<exists>es'. sync_next E st es = Ret (case filter (sync_range E st) es of
            [] \<Rightarrow> (None, []) | e # _ \<Rightarrow> (Some (tl (fst e)), es'))
     \<and> (filter (sync_range E st) es \<noteq> [] \<longrightarrow>
          filter (sync_range E st) es' = tl (filter (sync_range E st) es)
          \<and> (\<exists>xs. es = xs @ es'))"
  using assms
proof (induction E st es rule: sync_next.induct)
  case (3 E st b key v es)
  let ?e = "(b # key, v)"
  have later: "b # key < k" if "(k, w) \<in> set es" for k w
    using "3.prems"(2) that by force
  have none: "filter (sync_range E st) (?e # es) = []" if "b \<noteq> 0 \<or> key > ss_Stop st"
  proof -
    have "\<not> sync_range E st (k, w)" if kw: "(k, w) \<in> set es" for k w
    proof -
      have "k \<noteq> []" using "3.prems"(1) kw by force
      then obtain c k' where k: "k = c # k'" by (cases k) auto
      then have "b < c \<or> b = c \<and> key < k'" using later [OF kw] by simp
      moreover have "0 \<le> b" "b \<noteq> 0 \<Longrightarrow> b < c \<or> b = c \<Longrightarrow> c \<noteq> 0"
        by (auto simp: word_less_nat_alt)
      ultimately show ?thesis using \<open>b \<noteq> 0 \<or> key > ss_Stop st\<close>
        by (auto simp: sync_range_def k word_less_nat_alt)
    qed
    then show ?thesis using that by (auto simp: sync_range_def filter_empty_conv)
  qed
  consider "b \<noteq> 0 \<or> b = 0 \<and> \<not> key \<le> ss_Start st \<and> key > ss_Stop st"
    | "b = 0" "key \<le> ss_Start st" | "b = 0" "\<not> key \<le> ss_Start st" "\<not> key > ss_Stop st" by blast
  then show ?case
  proof cases
    case 1
    then have "filter (sync_range E st) (?e # es) = []" using none by blast
    then show ?thesis using 1 by auto
  next
    case 2
    have "\<not> sync_range E st ?e" using 2 by (auto simp: sync_range_def)
    then show ?thesis using "3.IH"(1) 2 "3.prems" by (auto simp: Cons_eq_append_conv)
  next
    case 3
    show ?thesis
    proof (cases "sync_range E st ?e")
      case True
      then show ?thesis using 3 by (auto simp: sync_range_def decodeIndex_def Let_def intro: exI [of _ "[?e]"])
    next
      case False
      then have nr: "\<not> (ix_Idx (decodeIndex E v zero_index) \<ge> ss_First st
          \<and> ix_Idx (decodeIndex E v zero_index) < ss_Last st)"
        using 3 by (auto simp: sync_range_def decodeIndex_def not_le not_less)
      have "\<exists>es'. sync_next E st es = Ret (case filter (sync_range E st) es of
            [] \<Rightarrow> (None, []) | e # _ \<Rightarrow> (Some (tl (fst e)), es'))
        \<and> (filter (sync_range E st) es \<noteq> [] \<longrightarrow>
          filter (sync_range E st) es' = tl (filter (sync_range E st) es)
          \<and> (\<exists>xs. es = xs @ es'))"
        using "3.IH"(2) [OF _ _ _ refl nr] 3 "3.prems" by auto
      then show ?thesis using 3 False nr by (auto simp: Let_def Cons_eq_append_conv)
    qed
  qed
qed auto

lemma sync_drain_spec:
  assumes "[] \<notin> fst ` set (it_rest (si_it si))" "sorted_wrt (<) (map fst (it_rest (si_it si)))"
    "\<forall>e\<in>set (it_rest (si_it si)). [0] \<le> fst e"
  shows "sync_drain E si =
    Ret (map (\<lambda>e. tl (fst e)) (filter (sync_range E (si_state si)) (it_rest (si_it si))))"
  using assms
proof (induction E si rule: sync_drain.induct)
  case (1 E si)
  let ?es = "it_rest (si_it si)" and ?f = "filter (sync_range E (si_state si))"
  obtain es' where n: "sync_next E (si_state si) ?es =
      Ret (case ?f ?es of [] \<Rightarrow> (None, []) | e # _ \<Rightarrow> (Some (tl (fst e)), es'))"
    "?f ?es \<noteq> [] \<longrightarrow> ?f es' = tl (?f ?es) \<and> (\<exists>xs. ?es = xs @ es')"
    using sync_next_spec [OF "1.prems"] by blast
  show ?case
  proof (cases "?f ?es")
    case Nil
    then show ?thesis using n(1) by (subst sync_drain.simps) (simp add: dbSyncIterator_Next_def)
  next
    case (Cons e fs)
    define si' where "si' = si\<lparr>si_it := (si_it si)\<lparr>it_rest := es'\<rparr>\<rparr>"
    have nx: "dbSyncIterator_Next E si = Ret (Some (tl (fst e)), si')"
      using n(1) Cons by (simp add: dbSyncIterator_Next_def si'_def)
    obtain xs where xs: "?es = xs @ es'" using n(2) Cons by auto
    have "sync_drain E si' = Ret (map (\<lambda>e. tl (fst e)) (filter (sync_range E (si_state si')) (it_rest (si_it si'))))"
      using "1.prems" xs by (intro "1.IH" [OF nx refl]) (auto simp: si'_def sorted_wrt_append)
    then have "sync_drain E si' = Ret (map (\<lambda>e. tl (fst e)) fs)"
      using n(2) Cons by (simp add: si'_def)
    then show ?thesis using nx Cons by (subst sync_drain.simps) simp
  qed
qed

context dbstore_env
begin

lemma NewSyncIterator_drain:
  assumes inv: "dbstore_inv E s" and si: "NewSyncIterator E s st = Some si"
  shows "\<exists>ks. sync_drain E si = Ret ks \<and> sorted_wrt (<) ks
    \<and> set ks = {k. \<exists>i. index_of E s k = Some i \<and> ss_Start st < k \<and> k \<le> ss_Stop st
                      \<and> ss_First st \<le> i \<and> i < ss_Last st}"
proof -
  let ?es = "ldb_snapshot (env_L E) (ldb_db (ds_db s))" and ?k0 = "getIndexKey (ss_Start st)"
  let ?r = "dropWhile (\<lambda>e. fst e < ?k0) ?es"
  have p: "plain s" using inv by (simp add: dbstore_inv_def)
  have r: "it_rest (si_it si) = ?r" and st: "si_state si = st"
    using si by (auto simp: NewSyncIterator_def it_defs split: if_splits)
  have sr: "set ?r = {e \<in> set ?es. ?k0 \<le> fst e}" using dropWhile_ge [OF snapshot_sorted] .
  have srt: "sorted_wrt (<) (map fst ?r)"
    using sorted_wrt_dropWhile [of "\<lambda>x y. fst x < fst y" ?es] snapshot_sorted
    by (simp add: sorted_wrt_map)
  have z: "[0] \<le> ?k0" by (simp add: getIndexKey_def)
  let ?ks = "map (\<lambda>e. tl (fst e)) (filter (sync_range E st) ?r)"
  have "sync_drain E si = Ret ?ks"
    using sync_drain_spec [of si E] no_empty_key [OF inv] srt sr z by (force simp: r st)
  moreover have "sorted_wrt (<) ?ks"
  proof -
    have "sorted_wrt (\<lambda>x y. fst x < fst y) (filter (sync_range E st) ?r)"
      using srt by (intro sorted_wrt_filter) (simp add: sorted_wrt_map)
    then have "sorted_wrt (\<lambda>x y. tl (fst x) < tl (fst y)) (filter (sync_range E st) ?r)"
    proof (rule sorted_wrt_mono_rel [rotated])
      fix x y
      assume "x \<in> set (filter (sync_range E st) ?r)" "y \<in> set (filter (sync_range E st) ?r)" "fst x < fst y"
      then show "tl (fst x) < tl (fst y)"
        using no_empty_key [OF inv] sr by (cases "fst x"; cases "fst y") (force simp: sync_range_def)+
    qed
    then show ?thesis by (simp add: sorted_wrt_map)
  qed
  moreover have "set ?ks = {k. \<exists>i. index_of E s k = Some i \<and> ss_Start st < k \<and> k \<le> ss_Stop st
      \<and> ss_First st \<le> i \<and> i < ss_Last st}" (is "_ = ?R")
  proof (intro set_eqI iffI)
    fix k
    assume "k \<in> set ?ks"
    then obtain e where e: "e \<in> set ?es" "sync_range E st e" "k = tl (fst e)" using sr by auto
    obtain b k' where b: "fst e = b # k'" using no_empty_key [OF inv] e(1) by (cases "fst e") force+
    have "dbGet E s (getIndexKey k) = Some (snd e)"
    proof -
      have "(getIndexKey k, snd e) = e" using e(2,3) b
        by (simp add: getIndexKey_def sync_range_def prod_eq_iff)
      then show ?thesis using e(1) dbGet_snapshot [OF p] by metis
    qed
    then show "k \<in> ?R" using e by (simp add: index_of_def sync_range_def)
  next
    fix k
    assume "k \<in> ?R"
    then obtain v where v: "(getIndexKey k, v) \<in> set ?es" "ss_Start st < k" "k \<le> ss_Stop st"
      "ss_First st \<le> ix_Idx (env_dec E v zero_index)" "ix_Idx (env_dec E v zero_index) < ss_Last st"
      using dbGet_snapshot [OF p] by (auto simp: index_of_def)
    then have "(getIndexKey k, v) \<in> set (filter (sync_range E st) ?r)"
      using sr by (simp add: sync_range_def getIndexKey_def less_imp_le)
    then show "k \<in> set ?ks" by (force simp: getIndexKey_def)
  qed
  ultimately show ?thesis by blast
qed

end

section \<open>Property\<close>

text \<open>
  C24: calling \<open>Next\<close> until it returns nil yields, in increasing order, exactly the keys the
  store has an index entry for that lie after \<open>Start\<close> and not after \<open>Stop\<close> and whose storage
  counter lies in the half-open interval from \<open>First\<close> to \<open>Last\<close>.
\<close>

theorem sync_iterator_exact:
  assumes "dbstore_env E" "dbstore_inv E s" "NewSyncIterator E s st = Some si"
  shows "\<exists>ks. sync_drain E si = Ret ks \<and> sorted_wrt (<) ks
    \<and> set ks = {k. \<exists>i. index_of E s k = Some i \<and> ss_Start st < k \<and> k \<le> ss_Stop st
                      \<and> ss_First st \<le> i \<and> i < ss_Last st}"
  using dbstore_env.NewSyncIterator_drain [OF assms] .

theorem sync_iterator_exact_witness:
  "\<exists>si ks. NewSyncIterator toy_env toy_full \<lparr>ss_Start = [0], ss_Stop = [255], ss_First = 0, ss_Last = 5\<rparr> = Some si
    \<and> sync_drain toy_env si = Ret ks \<and> set ks = {ch_Key (toy_chunk 1)}"
proof -
  let ?st = "\<lparr>ss_Start = [0], ss_Stop = [255], ss_First = 0, ss_Last = 5\<rparr>"
  obtain si where si: "NewSyncIterator toy_env toy_full ?st = Some si" by (simp add: NewSyncIterator_def)
  show ?thesis
    using sync_iterator_exact [OF toy.dbstore_env_axioms toy_full_state(1) si] si
    by (auto simp: toy_full_state(2) toy_keys)
qed

end
