(* ===== verification/Net_Messages.thy ===== *)
theory Net_Messages
  imports Storage_Keys
begin

text \<open>
  The messages of the bzz wire protocol (\<open>network/messages.go\<close>): message codes, the data each
  message carries and the timeout fields of lookups. A pointer to a peer is the peer's
  identity (\<open>peer_id\<close>), \<open>nil\<close> is \<open>None\<close>; \<open>*time.Time\<close> is a number of nanoseconds. The swap
  profile and the cheque come from go-ethereum and are type parameters.
\<close>

type_synonym Hash = bytes
type_synonym go_time = int
type_synonym VideoFormat = "32 word"

section \<open>Message codes\<close>

definition statusMsg :: u64 where "statusMsg = 0"
definition storeRequestMsg :: u64 where "storeRequestMsg = 1"
definition retrieveRequestMsg :: u64 where "retrieveRequestMsg = 2"
definition peersMsg :: u64 where "peersMsg = 3"
definition syncRequestMsg :: u64 where "syncRequestMsg = 4"
definition deliveryRequestMsg :: u64 where "deliveryRequestMsg = 5"
definition unsyncedKeysMsg :: u64 where "unsyncedKeysMsg = 6"
definition paymentMsg :: u64 where "paymentMsg = 7"
definition streamRequestMsg :: u64 where "streamRequestMsg = 8"
definition stopStreamRequestMsg :: u64 where "stopStreamRequestMsg = 9"
definition transcodeRequestMsg :: u64 where "transcodeRequestMsg = 10"
definition transcodeAckMsg :: u64 where "transcodeAckMsg = 11"

lemmas msg_codes = statusMsg_def storeRequestMsg_def retrieveRequestMsg_def peersMsg_def
  syncRequestMsg_def deliveryRequestMsg_def unsyncedKeysMsg_def paymentMsg_def
  streamRequestMsg_def stopStreamRequestMsg_def transcodeRequestMsg_def transcodeAckMsg_def

section \<open>Message data\<close>

record peerAddr =
  pa_IP :: bytes
  pa_Port :: "16 word"
  pa_ID :: bytes
  pa_Addr :: Hash

record 'sw statusMsgData =
  st_Version :: u64
  st_ID :: string
  st_Addr :: peerAddr
  st_Swap :: 'sw
  st_NetworkId :: u64

record streamRequestMsgData =
  sr_OriginNode :: Hash
  sr_StreamID :: string
  sr_Format :: VideoFormat
  sr_SData :: bytes
  sr_Id :: u64

record stopStreamRequestMsgData =
  sp_OriginNode :: Hash
  sp_Format :: VideoFormat
  sp_StreamID :: string
  sp_SData :: bytes
  sp_Id :: u64

record transcodeRequestMsgData =
  tr_OriginNode :: Hash
  tr_OriginStreamID :: string
  tr_TranscodeID :: Hash
  tr_Id :: u64
  tr_Formats :: "string list"
  tr_Bitrates :: "string list"
  tr_CodecIn :: string
  tr_CodecOut :: "string list"

record transcodedStreamData =
  td_StreamID :: string
  td_Format :: string
  td_Bitrate :: string
  td_CodecIn :: string
  td_CodecOut :: string

record transcodeAckMsgData =
  ta_OriginNode :: Hash
  ta_OriginStreamID :: string
  ta_TranscodeID :: Hash
  ta_NewStreamIDs :: "transcodedStreamData list"

record storeRequestMsgData =
  sm_Key :: Key
  sm_SData :: "bytes option"
  sm_Id :: u64
  sm_requestTimeout :: "go_time option"
  sm_storageTimeout :: "go_time option"
  sm_from :: "peer_id option"

record retrieveRequestMsgData =
  rm_Key :: Key
  rm_Id :: u64
  rm_MaxSize :: u64
  rm_MaxPeers :: u64
  rm_Timeout :: u64
  rm_timeout :: "go_time option"
  rm_from :: "peer_id option"

record peersMsgData =
  pm_Peers :: "peerAddr list"
  pm_Timeout :: u64
  pm_timeout :: "go_time option"
  pm_Key :: Key
  pm_Id :: u64
  pm_from :: "peer_id option"

record syncRequest =
  sq_Key :: Key
  sq_Priority :: nat

record deliveryRequestMsgData =
  dr_Deliver :: "syncRequest list"

record 'q paymentMsgData =
  pay_Units :: nat
  pay_Promise :: 'q

text \<open>The zero values from which composite literals start.\<close>

definition storeRequest0 :: storeRequestMsgData where
  "storeRequest0 = \<lparr>sm_Key = [], sm_SData = None, sm_Id = 0, sm_requestTimeout = None,
     sm_storageTimeout = None, sm_from = None\<rparr>"

definition retrieveRequest0 :: retrieveRequestMsgData where
  "retrieveRequest0 = \<lparr>rm_Key = [], rm_Id = 0, rm_MaxSize = 0, rm_MaxPeers = 0, rm_Timeout = 0,
     rm_timeout = None, rm_from = None\<rparr>"

section \<open>Lookups and timeouts\<close>

definition isLookup :: "retrieveRequestMsgData \<Rightarrow> bool" where
  "isLookup m \<longleftrightarrow> rm_Id m = 0"

text \<open>
  \<open>setTimeout\<close> has a value receiver: it assigns to a copy. The definitions return what the
  caller's message is after the call.
\<close>

definition retrieve_setTimeout :: "retrieveRequestMsgData \<Rightarrow> go_time option \<Rightarrow> retrieveRequestMsgData" where
  "retrieve_setTimeout caller t =
     (let self = caller;
          self = self\<lparr>rm_timeout := t\<rparr>;
          self = (case t of Some n \<Rightarrow> self\<lparr>rm_Timeout := word_of_int n\<rparr> | None \<Rightarrow> self\<lparr>rm_Timeout := 0\<rparr>)
      in caller)"

definition peers_setTimeout :: "peersMsgData \<Rightarrow> go_time option \<Rightarrow> peersMsgData" where
  "peers_setTimeout caller t =
     (let self = caller;
          self = self\<lparr>pm_timeout := t\<rparr>;
          self = (case t of Some n \<Rightarrow> self\<lparr>pm_Timeout := word_of_int n\<rparr> | None \<Rightarrow> self\<lparr>pm_Timeout := 0\<rparr>)
      in caller)"

text \<open>\<open>time.Unix(int64(Timeout), 0)\<close> reads the field as seconds.\<close>

definition time_Unix :: "u64 \<Rightarrow> go_time" where
  "time_Unix s = sint s * 1000000000"

definition retrieve_getTimeout :: "retrieveRequestMsgData \<Rightarrow> go_time option" where
  "retrieve_getTimeout m =
     (if rm_Timeout m > 0 \<and> rm_timeout m = None then Some (time_Unix (rm_Timeout m)) else None)"

definition peers_getTimeout :: "peersMsgData \<Rightarrow> go_time option" where
  "peers_getTimeout m =
     (if pm_Timeout m > 0 \<and> pm_timeout m = None then Some (time_Unix (pm_Timeout m)) else None)"

lemma setTimeout_no_effect [simp]: "retrieve_setTimeout m t = m" "peers_setTimeout p t = p"
  by (simp_all add: retrieve_setTimeout_def peers_setTimeout_def)

end
