(* ===== verification/Sync_Db.thy ===== *)
theory Sync_Db
  imports Level_Db Net_Messages
begin

text \<open>
  The queue of outgoing deliveries of one peer and priority (\<open>network/syncdb.go\<close>). The
  goroutine \<open>bufferRead\<close> and the goroutines \<open>dbRead\<close> it starts share the request database and
  meet on the channel \<open>batch\<close>. A state of the queue is the record \<open>syncDb\<close>: the fields of the
  Go struct, the local variables of \<open>bufferRead\<close> and one \<open>reader\<close> per \<open>dbRead\<close> goroutine.
  Every receive, send or return of a delivery is one event; \<open>syncDb_step\<close> gives its effect,
  \<open>None\<close> where the goroutine blocks and \<open>Panic\<close> where it panics. What the outside decides (the
  outcome of \<open>deliver\<close>, the outcome of a database write, the random request id, which
  goroutine moves) is part of the event. \<open>sd_sent\<close> records the requests \<open>deliver\<close> accepted.
\<close>

section \<open>Requests and entries\<close>

datatype sync_req =
    RKey Key
  | RChunk Chunk
  | RStore storeRequestMsgData
  | REntry bytes bytes
  | ROther

definition priorities :: nat where "priorities = 3"
definition counterKeyPrefix :: byte where "counterKeyPrefix = 1"

datatype read_mode = Idle | BufferMode | DbMode

text \<open>
  The control state of a \<open>dbRead\<close>: about to ask for a batch, about to open an iterator, in the
  inner loop (iterator, \<open>n\<close>, \<open>cnt\<close>, \<open>del\<close>), or returned.
\<close>

datatype read_pc = RAsk | RSeek nat | RLoop ldb_iter nat nat "batch_op list" | RReturned

record reader =
  rd_key :: bytes
  rd_useBatches :: bool
  rd_pc :: read_pc

record 'd syncDb =
  sd_start :: bytes
  sd_key :: Key
  sd_counterKey :: bytes
  sd_priority :: nat
  sd_cap :: nat
  sd_buffer :: "sync_req list"
  sd_bufClosed :: bool
  sd_db :: "'d LDBDatabase"
  sd_done :: bool
  sd_quit :: bool
  sd_total :: nat
  sd_dbTotal :: nat
  sd_dbBatchSize :: nat
  sd_mode :: read_mode
  sd_listening :: bool
  sd_inflight :: "sync_req option"
  sd_batch :: "batch_op list"
  sd_inBatch :: nat
  sd_inDb :: nat
  sd_counter :: u64
  sd_readers :: "reader list"
  sd_sent :: "sync_req list"

definition start_key :: "Key \<Rightarrow> nat \<Rightarrow> bytes" where
  "start_key key priority =
     slice_put ((replicate 42 0)[1 := word_of_int (int priorities - int priority)]) 2 (take 32 key)"

definition counter_key :: "bytes \<Rightarrow> bytes" where
  "counter_key start = slice_put ((replicate 34 0)[0 := counterKeyPrefix]) 1 (take 33 (drop 1 start))"

text \<open>
  \<open>newSyncDb\<close> together with the initialisation of \<open>bufferRead\<close>, which reads the persisted
  counter. \<open>binary.BigEndian.Uint64\<close> panics on a short value.
\<close>

definition newSyncDb ::
    "'d leveldb_ops \<Rightarrow> rle \<Rightarrow> 'd LDBDatabase \<Rightarrow> Key \<Rightarrow> nat \<Rightarrow> nat \<Rightarrow> nat \<Rightarrow> 'd syncDb option" where
  "newSyncDb L rle db key priority bufferSize dbBatchSize =
     (let start = start_key key priority;
          counterKey = counter_key start;
          new = (\<lambda>counter. \<lparr>sd_start = start, sd_key = key, sd_counterKey = counterKey, sd_priority = priority,
            sd_cap = bufferSize, sd_buffer = [], sd_bufClosed = False, sd_db = db, sd_done = False,
            sd_quit = False, sd_total = 0, sd_dbTotal = 0, sd_dbBatchSize = dbBatchSize, sd_mode = Idle,
            sd_listening = True, sd_inflight = None, sd_batch = [], sd_inBatch = 0, sd_inDb = 0,
            sd_counter = counter, sd_readers = [], sd_sent = []\<rparr>)
      in case LDBDatabase_Get L rle db counterKey of
           None \<Rightarrow> Some (new 0)
         | Some dat \<Rightarrow> if length dat < 8 then None else Some (new (BigEndian_Uint64 (take 8 dat))))"

definition entry_key :: "bytes \<Rightarrow> u64 \<Rightarrow> bytes" where
  "entry_key start counter = take 34 start @ BigEndian_PutUint64 counter"

definition entry_val :: "Key \<Rightarrow> u64 \<Rightarrow> bytes" where
  "entry_val key rid = slice_put (go_copy (replicate 40 0) key) 32 (BigEndian_PutUint64 rid)"

text \<open>\<open>newSyncDbEntry\<close>; \<open>gid\<close> is what \<open>generateId()\<close> returns.\<close>

fun newSyncDbEntry :: "bytes \<Rightarrow> sync_req \<Rightarrow> u64 \<Rightarrow> u64 \<Rightarrow> (bytes \<times> bytes) option" where
  "newSyncDbEntry start (RKey key) counter gid = Some (entry_key start counter, entry_val key gid)"
| "newSyncDbEntry start (RChunk chunk) counter gid = Some (entry_key start counter, entry_val (ch_Key chunk) gid)"
| "newSyncDbEntry start (RStore sreq) counter gid = Some (entry_key start counter, entry_val (sm_Key sreq) (sm_Id sreq))"
| "newSyncDbEntry start (REntry k v) counter gid = Some (k, v)"
| "newSyncDbEntry start ROther counter gid = None"

section \<open>The writing goroutine\<close>

definition writeSyncBatch :: "'d leveldb_ops \<Rightarrow> bool \<Rightarrow> 'd syncDb \<Rightarrow> 'd syncDb" where
  "writeSyncBatch L ok s =
     (if ok then s\<lparr>sd_db := LDBDatabase_Write L (sd_db s) (sd_batch s), sd_batch := []\<rparr> else s)"

definition put_counter :: "'d syncDb \<Rightarrow> 'd syncDb" where
  "put_counter s = s\<lparr>sd_batch := sd_batch s @ [BPut (sd_counterKey s) (BigEndian_PutUint64 (sd_counter s))]\<rparr>"

definition new_reader :: "bytes \<Rightarrow> bool \<Rightarrow> u64 \<Rightarrow> reader" where
  "new_reader start useBatches counter =
     \<lparr>rd_key = slice_put (go_copy (replicate 42 0) start) 34 (BigEndian_PutUint64 counter),
      rd_useBatches = useBatches, rd_pc = (if useBatches then RAsk else RSeek 0)\<rparr>"

text \<open>The end of the loop body, reached by every request that goes to the database.\<close>

definition save_request :: "'d leveldb_ops \<Rightarrow> u64 \<Rightarrow> bool \<Rightarrow> sync_req \<Rightarrow> 'd syncDb \<Rightarrow> (unit, 'd syncDb) go" where
  "save_request L gid wok req s =
     (case newSyncDbEntry (sd_start s) req (sd_counter s) gid of
        None \<Rightarrow> Ret s
      | Some (k, v) \<Rightarrow>
          (let s = s\<lparr>sd_batch := sd_batch s @ [BPut k v]\<rparr>;
               s = (if sd_inDb s = 0 \<and> sd_listening s
                    then s\<lparr>sd_readers := sd_readers s @ [new_reader (sd_start s) True (sd_counter s)]\<rparr> else s);
               s = s\<lparr>sd_inDb := sd_inDb s + 1, sd_inBatch := sd_inBatch s + 1, sd_counter := sd_counter s + 1\<rparr>
           in if sd_dbBatchSize s = 0 then Panic
              else Ret (if sd_inBatch s mod sd_dbBatchSize s = 0 then writeSyncBatch L wok s else s)))"

definition close_buffer :: "'d syncDb \<Rightarrow> (unit, 'd syncDb) go" where
  "close_buffer s = (if sd_bufClosed s then Panic else Ret (s\<lparr>sd_bufClosed := True\<rparr>))"

definition at_select :: "'d syncDb \<Rightarrow> bool" where
  "at_select s \<longleftrightarrow> \<not> sd_done s \<and> sd_inflight s = None"

text \<open>\<open>case req = <-buffer\<close>, up to the call of \<open>deliver\<close>.\<close>

definition bufferRead_take :: "'d syncDb \<Rightarrow> (unit, 'd syncDb) go option" where
  "bufferRead_take s =
     (if at_select s \<and> sd_mode s = BufferMode then
        (case sd_buffer s of
           [] \<Rightarrow> None
         | req # rest \<Rightarrow> Some (Ret (s\<lparr>sd_buffer := rest, sd_inflight := Some req\<rparr>)))
      else None)"

text \<open>\<open>deliver\<close> returns \<open>more\<close> (here \<open>ok\<close>).\<close>

definition bufferRead_delivered ::
    "'d leveldb_ops \<Rightarrow> bool \<Rightarrow> u64 \<Rightarrow> bool \<Rightarrow> 'd syncDb \<Rightarrow> (unit, 'd syncDb) go option" where
  "bufferRead_delivered L ok gid wok s =
     (case sd_inflight s of
        None \<Rightarrow> None
      | Some req \<Rightarrow>
          (let s = s\<lparr>sd_inflight := None\<rparr>
           in Some (if \<not> ok then
                      go_bind (close_buffer (s\<lparr>sd_mode := DbMode\<rparr>))
                        (\<lambda>s. save_request L gid wok req (s\<lparr>sd_listening := False\<rparr>))
                    else
                      (let s = s\<lparr>sd_total := sd_total s + 1, sd_sent := sd_sent s @ [req]\<rparr>
                       in Ret (if length (sd_buffer s) = sd_cap s then s\<lparr>sd_mode := DbMode\<rparr> else s)))))"

text \<open>\<open>case req, more = <-db\<close>.\<close>

definition bufferRead_db ::
    "'d leveldb_ops \<Rightarrow> u64 \<Rightarrow> bool \<Rightarrow> 'd syncDb \<Rightarrow> (unit, 'd syncDb) go option" where
  "bufferRead_db L gid wok s =
     (if at_select s \<and> sd_mode s = DbMode then
        (case sd_buffer s of
           [] \<Rightarrow> if sd_bufClosed s
                  then Some (Ret ((writeSyncBatch L wok (put_counter s))\<lparr>sd_done := True\<rparr>)) else None
         | req # rest \<Rightarrow>
             Some (save_request L gid wok req
               (s\<lparr>sd_buffer := rest, sd_dbTotal := sd_dbTotal s + 1, sd_total := sd_total s + 1\<rparr>)))
      else None)"

text \<open>\<open>case dbSize = <-self.batch\<close>: the new state and the number sent back on \<open>dbSize\<close>.\<close>

definition bufferRead_batch :: "'d leveldb_ops \<Rightarrow> bool \<Rightarrow> 'd syncDb \<Rightarrow> ('d syncDb \<times> nat) option" where
  "bufferRead_batch L wok s =
     (if \<not> at_select s then None
      else if sd_inBatch s = 0 \<and> sd_listening s then Some (s\<lparr>sd_mode := BufferMode, sd_inDb := 0\<rparr>, 0)
      else (let s = writeSyncBatch L wok (put_counter s) in Some (s\<lparr>sd_inBatch := 0\<rparr>, sd_inBatch s)))"

text \<open>\<open>case <-quit\<close>.\<close>

definition bufferRead_quit :: "'d syncDb \<Rightarrow> (unit, 'd syncDb) go option" where
  "bufferRead_quit s =
     (if at_select s \<and> sd_listening s \<and> sd_quit s
      then Some (close_buffer (s\<lparr>sd_mode := DbMode, sd_listening := False\<rparr>)) else None)"

section \<open>The reading goroutines\<close>

text \<open>The reader asked for a batch and got \<open>cnt\<close>.\<close>

definition dbRead_count :: "nat \<Rightarrow> reader \<Rightarrow> reader" where
  "dbRead_count cnt rd = rd\<lparr>rd_pc := (if cnt = 0 then RReturned else RSeek cnt)\<rparr>"

definition dbRead_again :: "nat \<Rightarrow> reader \<Rightarrow> reader" where
  "dbRead_again cnt rd = rd\<lparr>rd_pc := (if rd_useBatches rd then RAsk else RSeek cnt)\<rparr>"

definition dbRead_reset :: "bytes \<Rightarrow> reader \<Rightarrow> reader" where
  "dbRead_reset start rd = rd\<lparr>rd_key := go_copy (rd_key rd) start, rd_useBatches := True\<rparr>"

definition del_write :: "'d leveldb_ops \<Rightarrow> bool \<Rightarrow> 'd LDBDatabase \<Rightarrow> batch_op list \<Rightarrow> 'd LDBDatabase" where
  "del_write L wok db del = (if wok then LDBDatabase_Write L db del else db)"

text \<open>
  One move of a reader outside the batch exchange: open an iterator, or one round of the
  inner loop, in which \<open>fun\<close> is called on the entry and returns \<open>more\<close> (here \<open>ok\<close>). The result is the
  reader, the database and the entry \<open>fun\<close> accepted.
\<close>

definition dbRead_step ::
    "'d leveldb_ops \<Rightarrow> bytes \<Rightarrow> bool \<Rightarrow> bool \<Rightarrow> reader \<Rightarrow> 'd LDBDatabase
      \<Rightarrow> (reader \<times> 'd LDBDatabase \<times> sync_req list) option" where
  "dbRead_step L start ok wok rd db =
     (case rd_pc rd of
        RSeek cnt \<Rightarrow>
          (let it = it_Seek (LDBDatabase_NewIterator L db) (rd_key rd)
           in if it_Valid it then Some (rd\<lparr>rd_pc := RLoop it 0 cnt []\<rparr>, db, [])
              else Some (dbRead_again cnt (dbRead_reset start rd), db, []))
      | RLoop it n cnt del \<Rightarrow>
          (if rd_useBatches rd \<and> cnt \<le> n then Some (dbRead_again cnt rd, del_write L wok db del, [])
           else
             (let key = go_copy (rd_key rd) (case it_Key it of None \<Rightarrow> [] | Some k \<Rightarrow> k);
                  rd = rd\<lparr>rd_key := key\<rparr>
              in if key = [] \<or> hd key \<noteq> 0
                 then Some (dbRead_again cnt (dbRead_reset start rd), del_write L wok db del, [])
                 else if \<not> ok then Some (dbRead_again cnt rd, del_write L wok db del, [])
                 else Some (rd\<lparr>rd_pc := RLoop (it_Next it) (n + 1) cnt (del @ [BDelete key])\<rparr>, db,
                            [REntry key (go_copy (replicate 40 0) (it_Value it))])))
      | _ \<Rightarrow> None)"

section \<open>The queue as a transition system\<close>

text \<open>
  Events: a request is pushed on the buffer, \<open>bufferRead\<close> takes one, \<open>deliver\<close> returns, a
  request is taken in database mode, reader \<open>i\<close> gets a batch, \<open>stop\<close> closes \<open>quit\<close>,
  \<open>bufferRead\<close> sees it, \<open>dbRead(false, 0, \<dots>)\<close> is called, reader \<open>i\<close> sees \<open>quit\<close>, reader \<open>i\<close> moves.
\<close>

datatype sync_event =
    Push sync_req
  | Take
  | Delivered bool u64 bool
  | TakeDb u64 bool
  | Batch nat bool
  | Stop
  | SeeQuit
  | Replay
  | ReadQuit nat
  | ReadMove nat bool bool

definition set_reader :: "nat \<Rightarrow> reader \<Rightarrow> 'd syncDb \<Rightarrow> 'd syncDb" where
  "set_reader i rd s = s\<lparr>sd_readers := (sd_readers s)[i := rd]\<rparr>"

definition asking :: "nat \<Rightarrow> 'd syncDb \<Rightarrow> bool" where
  "asking i s \<longleftrightarrow> i < length (sd_readers s) \<and> rd_pc (sd_readers s ! i) = RAsk"

definition syncDb_stop :: "'d syncDb \<Rightarrow> (unit, 'd syncDb) go" where
  "syncDb_stop s = (if sd_quit s then Panic else Ret (s\<lparr>sd_quit := True\<rparr>))"

definition syncDb_push :: "sync_req \<Rightarrow> 'd syncDb \<Rightarrow> (unit, 'd syncDb) go option" where
  "syncDb_push req s =
     (if sd_bufClosed s then Some Panic
      else if length (sd_buffer s) < sd_cap s then Some (Ret (s\<lparr>sd_buffer := sd_buffer s @ [req]\<rparr>)) else None)"

definition readers_step ::
    "'d leveldb_ops \<Rightarrow> nat \<Rightarrow> bool \<Rightarrow> bool \<Rightarrow> 'd syncDb \<Rightarrow> (unit, 'd syncDb) go option" where
  "readers_step L i ok wok s =
     (if i < length (sd_readers s) then
        (case dbRead_step L (sd_start s) ok wok (sd_readers s ! i) (sd_db s) of
           None \<Rightarrow> None
         | Some (rd, db, out) \<Rightarrow> Some (Ret ((set_reader i rd s)\<lparr>sd_db := db, sd_sent := sd_sent s @ out\<rparr>)))
      else None)"

definition batch_exchange ::
    "'d leveldb_ops \<Rightarrow> nat \<Rightarrow> bool \<Rightarrow> 'd syncDb \<Rightarrow> (unit, 'd syncDb) go option" where
  "batch_exchange L i wok s =
     (if asking i s then
        (case bufferRead_batch L wok s of
           None \<Rightarrow> None
         | Some (s', cnt) \<Rightarrow> Some (Ret (set_reader i (dbRead_count cnt (sd_readers s ! i)) s')))
      else None)"

fun syncDb_step :: "'d leveldb_ops \<Rightarrow> sync_event \<Rightarrow> 'd syncDb \<Rightarrow> (unit, 'd syncDb) go option" where
  "syncDb_step L (Push req) s = syncDb_push req s"
| "syncDb_step L Take s = bufferRead_take s"
| "syncDb_step L (Delivered ok gid wok) s = bufferRead_delivered L ok gid wok s"
| "syncDb_step L (TakeDb gid wok) s = bufferRead_db L gid wok s"
| "syncDb_step L (Batch i wok) s = batch_exchange L i wok s"
| "syncDb_step L Stop s = Some (syncDb_stop s)"
| "syncDb_step L SeeQuit s = bufferRead_quit s"
| "syncDb_step L Replay s = Some (Ret (s\<lparr>sd_readers := sd_readers s @ [new_reader (sd_start s) False 0]\<rparr>))"
| "syncDb_step L (ReadQuit i) s =
     (if asking i s \<and> sd_quit s
      then Some (Ret (set_reader i ((sd_readers s ! i)\<lparr>rd_pc := RReturned\<rparr>) s)) else None)"
| "syncDb_step L (ReadMove i ok wok) s = readers_step L i ok wok s"

fun syncDb_run :: "'d leveldb_ops \<Rightarrow> sync_event list \<Rightarrow> 'd syncDb \<Rightarrow> (unit, 'd syncDb) go option" where
  "syncDb_run L [] s = Some (Ret s)"
| "syncDb_run L (e # es) s =
     (case syncDb_step L e s of
        Some (Ret s') \<Rightarrow> syncDb_run L es s'
      | r \<Rightarrow> r)"

end
