(* ===== verification/Event_Systems.thy ===== *)
theory Event_Systems
  imports LP_Prelude
begin

text \<open>
  Runs of a state machine given by a step function: an event either has an effect or is not
  enabled. \<open>reach\<close> are the states that events satisfying \<open>ok\<close> lead to, and the locale
  \<open>event_invariant\<close> carries an invariant of single steps over to them.
\<close>

inductive reach :: "('e \<Rightarrow> 's \<Rightarrow> 's option) \<Rightarrow> ('e \<Rightarrow> bool) \<Rightarrow> 's \<Rightarrow> 's \<Rightarrow> bool"
  for step :: "'e \<Rightarrow> 's \<Rightarrow> 's option" and ok :: "'e \<Rightarrow> bool" and s0 :: 's where
  start: "reach step ok s0 s0"
| move: "reach step ok s0 s \<Longrightarrow> ok e \<Longrightarrow> step e s = Some s' \<Longrightarrow> reach step ok s0 s'"

fun run_events :: "('e \<Rightarrow> 's \<Rightarrow> 's option) \<Rightarrow> 'e list \<Rightarrow> 's \<Rightarrow> 's option" where
  "run_events step [] s = Some s"
| "run_events step (e # es) s = (case step e s of None \<Rightarrow> None | Some s' \<Rightarrow> run_events step es s')"

lemma reach_trans:
  assumes "reach step ok s0 s1" "reach step ok s1 s2"
  shows "reach step ok s0 s2"
  using assms(2,1) by (induction rule: reach.induct) (auto intro: reach.move)

lemma run_reach:
  "list_all ok es \<Longrightarrow> run_events step es s0 = Some s \<Longrightarrow> reach step ok s0 s"
proof (induction es arbitrary: s0)
  case (Cons e es)
  then obtain s1 where s1: "step e s0 = Some s1" "run_events step es s1 = Some s"
    by (auto split: option.splits)
  have "reach step ok s0 s1" using s1(1) Cons.prems(1) by (auto intro: reach.move reach.start)
  then show ?case using Cons.IH [OF _ s1(2)] Cons.prems(1) reach_trans by auto
qed (auto intro: reach.start)

lemma run_events_append:
  "run_events step (es @ fs) s = (case run_events step es s of None \<Rightarrow> None | Some s' \<Rightarrow> run_events step fs s')"
  by (induction es arbitrary: s) (auto split: option.splits)

text \<open>A machine whose runs are bounded has a run that cannot be continued.\<close>

lemma bounded_run_ends:
  assumes "\<And>es s. run_events step es s0 = Some s \<Longrightarrow> length es \<le> B"
  shows "\<exists>es s. run_events step es s0 = Some s \<and> (\<forall>e. step e s = None)"
proof (rule ccontr)
  assume no: "\<not> ?thesis"
  have "\<exists>es s. run_events step es s0 = Some s \<and> length es = k" for k
  proof (induction k)
    case (Suc k)
    then obtain es s where es: "run_events step es s0 = Some s" "length es = k" by blast
    moreover from es(1) obtain e s' where "step e s = Some s'" using no by (metis not_None_eq)
    ultimately have "run_events step (es @ [e]) s0 = Some s' \<and> length (es @ [e]) = Suc k" by (simp add: run_events_append)
    then show ?case by blast
  qed (intro exI [of _ "[]"], simp)
  from this [of "Suc B"] show False using assms by fastforce
qed

locale event_invariant =
  fixes step :: "'e \<Rightarrow> 's \<Rightarrow> 's option" and ok :: "'e \<Rightarrow> bool" and I :: "'s \<Rightarrow> bool"
  assumes preserved: "I s \<Longrightarrow> ok e \<Longrightarrow> step e s = Some s' \<Longrightarrow> I s'"
begin

lemma reach_inv: "reach step ok s0 s \<Longrightarrow> I s0 \<Longrightarrow> I s"
  by (induction rule: reach.induct) (use preserved in blast)+

lemma run_inv: "I s0 \<Longrightarrow> list_all ok es \<Longrightarrow> run_events step es s0 = Some s \<Longrightarrow> I s"
  by (rule reach_inv [OF run_reach])

end

end
