(* ===== verification/Sync_Db_Laws.thy ===== *)
theory Sync_Db_Laws
  imports Sync_Db Event_Systems "HOL-Library.Multiset" "HOL-Library.Sublist"
begin

text \<open>
  The queue of \<open>Sync_Db\<close> loses nothing and, as long as deliveries from the database succeed,
  keeps its order. The invariant \<open>qinv\<close> relates the request database, the open batch and the
  reader to a map \<open>M\<close> from counters to the values still to be delivered.
\<close>

section \<open>Database keys\<close>

definition ek :: "bytes \<Rightarrow> nat \<Rightarrow> bytes" where
  "ek start c = entry_key start (of_nat c)"

lemma length_ek [simp]: "length start = 42 \<Longrightarrow> length (ek start c) = 42"
  by (simp add: ek_def entry_key_def)

lemma of_nat_u64_less: "c < 2 ^ 64 \<Longrightarrow> d < 2 ^ 64 \<Longrightarrow> (of_nat c :: u64) < of_nat d \<longleftrightarrow> c < d"
  by (simp add: word_less_nat_alt unat_of_nat)

lemma of_nat_u64_eq: "c < 2 ^ 64 \<Longrightarrow> d < 2 ^ 64 \<Longrightarrow> (of_nat c :: u64) = of_nat d \<longleftrightarrow> c = d"
  using of_nat_u64_less [of c d] of_nat_u64_less [of d c] by (metis less_irrefl nat_neq_iff)

lemma ek_less: "c < 2 ^ 64 \<Longrightarrow> d < 2 ^ 64 \<Longrightarrow> ek start c < ek start d \<longleftrightarrow> c < d"
  by (simp add: ek_def entry_key_def of_nat_u64_less)

lemma ek_inject: "c < 2 ^ 64 \<Longrightarrow> d < 2 ^ 64 \<Longrightarrow> ek start c = ek start d \<longleftrightarrow> c = d"
  by (simp add: ek_def entry_key_def of_nat_u64_eq)

lemma hd_ek: "length start = 42 \<Longrightarrow> hd (ek start c) = hd start"
  by (cases start) (auto simp: ek_def entry_key_def)

lemma ek_nonempty [simp]: "ek start c \<noteq> []"
  by (simp add: ek_def entry_key_def)

lemma BigEndian_surj:
  assumes "length k = 8"
  shows "\<exists>c < 2 ^ 64. k = BigEndian_PutUint64 (of_nat c)"
proof -
  have "le_dec (rev k) < 2 ^ 64" using le_dec_bound [of "rev k"] assms by simp
  moreover have "le_enc 8 (le_dec (rev k)) = rev k" using le_enc_le_dec [of "rev k"] assms by simp
  ultimately show ?thesis
    by (intro exI [of _ "le_dec (rev k)"]) (simp add: BigEndian_PutUint64_def unat_of_nat)
qed

lemma hd_zero_below:
  fixes k k' :: bytes
  assumes "k < k'" "k \<noteq> []" "hd k' = h" "h = 0"
  shows "hd k = 0"
  using assms by (cases k; cases k') auto

text \<open>The keys of a queue are contiguous among the keys of their length.\<close>

lemma ek_between:
  assumes "length start = 42" "length k = 42" "ek start c \<le> k" "k \<le> ek start d"
  shows "\<exists>e < 2 ^ 64. k = ek start e"
proof -
  let ?p = "take 34 start"
  have len: "length ?p = length (take 34 k)" using assms(1,2) by simp
  have k: "k = take 34 k @ drop 34 k" by simp
  have "\<not> take 34 k < ?p" "\<not> ?p < take 34 k"
    using assms(3,4) lex_append_len [OF len] lex_append_len [OF len [symmetric]] k
    unfolding ek_def entry_key_def by (metis linorder_not_le)+
  then have "take 34 k = ?p" by simp
  moreover obtain e where "e < 2 ^ 64" "drop 34 k = BigEndian_PutUint64 (of_nat e)"
    using BigEndian_surj [of "drop 34 k"] assms(2) by auto
  ultimately show ?thesis using k by (metis ek_def entry_key_def)
qed

lemma sorted_fst_eq:
  fixes xs ys :: "(bytes \<times> bytes) list"
  assumes "sorted_wrt (<) (map fst xs)" "sorted_wrt (<) (map fst ys)" "set xs = set ys"
  shows "xs = ys"
proof -
  have f: "map fst xs = map fst ys" using assms by (intro strict_sorted_equal) auto
  have d: "distinct (map fst xs)" "distinct (map fst ys)" using assms(1,2) by (simp_all add: strict_sorted_iff)
  show ?thesis
  proof (rule nth_equalityI)
    show len: "length xs = length ys" using f by (metis length_map)
    fix i assume i: "i < length xs"
    have "xs ! i \<in> set ys" using i assms(3) nth_mem by blast
    moreover have "ys ! i \<in> set ys" using i len by simp
    moreover have "fst (xs ! i) = fst (ys ! i)" using f i len by (metis nth_map)
    ultimately show "xs ! i = ys ! i" using d(2) by (metis eq_key_imp_eq_value prod.collapse)
  qed
qed

text \<open>
  An iterator placed at or before the first entry of a queue sees the entries of the queue
  first.
\<close>

context leveldb
begin

lemma seek_own:
  assumes st: "length start = 42" "hd start = 0"
    and len: "\<And>k v. ldb_Get L d k = Some v \<Longrightarrow> k \<noteq> [] \<Longrightarrow> hd k = 0 \<Longrightarrow> length k = 42"
    and own: "\<And>c. k0 \<le> c \<Longrightarrow> c < 2 ^ 64 \<Longrightarrow>
      ldb_Get L d (ek start c) = (if q \<le> c \<and> c < hi then Some (V c) else None)"
    and ord: "k0 \<le> q" "q \<le> hi" "hi < 2 ^ 64"
  shows "\<exists>rest. dropWhile (\<lambda>e. fst e < ek start k0) (ldb_snapshot L d)
    = map (\<lambda>c. (ek start c, V c)) [q..<hi] @ rest"
proof -
  let ?S = "ldb_snapshot L d" let ?D = "dropWhile (\<lambda>e. fst e < ek start k0) ?S"
  let ?T = "takeWhile (\<lambda>e. fst e < ek start hi) ?D"
  have ltk: "k0 < 2 ^ 64" using ord by simp
  have sD: "sorted_wrt (<) (map fst ?D)"
    using sorted_wrt_dropWhile [of "\<lambda>x y. fst x < fst y" ?S] snapshot_sorted by (simp add: sorted_wrt_map)
  have D: "set ?D = {e \<in> set ?S. ek start k0 \<le> fst e}" by (rule dropWhile_ge [OF snapshot_sorted])
  have T: "set ?T = {e \<in> set ?D. fst e < ek start hi}" by (rule takeWhile_less [OF sD])
  have sT: "sorted_wrt (<) (map fst ?T)"
    using sorted_wrt_takeWhile [of "\<lambda>x y. fst x < fst y" ?D] sD by (simp add: sorted_wrt_map)
  have "set ?T = (\<lambda>c. (ek start c, V c)) ` {q..<hi}"
  proof (intro equalityI subsetI)
    fix e assume "e \<in> set ?T"
    then have e: "ek start k0 \<le> fst e" "fst e < ek start hi" "ldb_Get L d (fst e) = Some (snd e)"
      using D T snapshot_mem [of "fst e" "snd e"] by auto
    have ne: "fst e \<noteq> []" using e(1) ek_nonempty [of start k0] by (cases "ek start k0") auto
    have h: "hd (fst e) = 0" using e(2) ne hd_ek [OF st(1), of hi] st(2) by (rule hd_zero_below)
    have l: "length (fst e) = 42" using len [OF e(3) ne h] .
    obtain c where c: "c < 2 ^ 64" "fst e = ek start c" using ek_between [OF st(1) l e(1)] e(2) less_imp_le by blast
    have "k0 \<le> c" using e(1) c ek_less [OF c(1) ltk, of start] by (metis linorder_not_less)
    then have "q \<le> c \<and> c < hi \<and> snd e = V c" using own [OF _ c(1)] e(3) c(2) by (auto split: if_splits)
    then show "e \<in> (\<lambda>c. (ek start c, V c)) ` {q..<hi}" using c(2) by (auto simp: prod_eq_iff image_iff)
  next
    fix e assume "e \<in> (\<lambda>c. (ek start c, V c)) ` {q..<hi}"
    then obtain c where c: "q \<le> c" "c < hi" "e = (ek start c, V c)" by auto
    have c64: "c < 2 ^ 64" using c(2) ord(3) by simp
    have "ldb_Get L d (ek start c) = Some (V c)" using own [of c] c ord c64 by simp
    moreover have "ek start k0 \<le> ek start c" using ek_less [OF c64 ltk, of start] c(1) ord(1) by (simp add: not_less [symmetric])
    ultimately show "e \<in> set ?T" using D T c snapshot_mem ek_less [OF c64 ord(3), of start] by simp
  qed
  then have "set ?T = set (map (\<lambda>c. (ek start c, V c)) [q..<hi])" by simp
  moreover have "sorted_wrt (<) (map fst (map (\<lambda>c. (ek start c, V c)) [q..<hi]))"
    using ord(3) by (auto simp: sorted_wrt_map sorted_wrt_iff_nth_less ek_less)
  ultimately have "?T = map (\<lambda>c. (ek start c, V c)) [q..<hi]" using sorted_fst_eq [OF sT] by blast
  then have "?D = map (\<lambda>c. (ek start c, V c)) [q..<hi] @ dropWhile (\<lambda>e. fst e < ek start hi) ?D"
    using takeWhile_dropWhile_id [of "\<lambda>e. fst e < ek start hi" ?D] by simp
  then show ?thesis by blast
qed

end

end
