(* ===== verification/Sync_Db_Queue.thy ===== *)
theory Sync_Db_Queue
  imports Sync_Db_Laws
begin

text \<open>
  The invariant of a delivery queue under every interleaving of its goroutines. Counters are
  natural numbers below \<open>2 ^ 64\<close>, \<open>C\<close> is the next one, \<open>M\<close> the values still to be delivered,
  \<open>b\<close> the number of entries in the open batch and \<open>D\<close> the counters a reader has delivered
  and not yet deleted. With the flag \<open>f\<close> deliveries from the database always succeed.
\<close>

section \<open>Parts of the invariant\<close>

fun req_key :: "sync_req \<Rightarrow> Key" where
  "req_key (RKey k) = k"
| "req_key (RChunk c) = ch_Key c"
| "req_key (RStore m) = sm_Key m"
| "req_key (REntry k v) = take 32 v"
| "req_key ROther = []"

fun plain_req :: "sync_req \<Rightarrow> bool" where
  "plain_req (RKey k) = (length k = 32)"
| "plain_req (RChunk c) = (length (ch_Key c) = 32)"
| "plain_req (RStore m) = (length (sm_Key m) = 32)"
| "plain_req _ = False"

definition vals_ok :: "(nat \<rightharpoonup> bytes) \<Rightarrow> nat \<Rightarrow> bool" where
  "vals_ok M C \<longleftrightarrow> dom M \<subseteq> {..<C} \<and> (\<forall>v \<in> ran M. length v = 40)"

definition db_ok :: "bytes \<Rightarrow> (bytes \<rightharpoonup> bytes) \<Rightarrow> nat \<Rightarrow> nat \<Rightarrow> nat set \<Rightarrow> (nat \<rightharpoonup> bytes) \<Rightarrow> bool" where
  "db_ok start get C b D M \<longleftrightarrow>
     (\<forall>c < 2 ^ 64. c \<notin> D \<longrightarrow> get (ek start c) = (if c + b < C then M c else None)) \<and>
     D \<inter> dom M = {} \<and> (\<forall>c \<in> D. c + b < C) \<and>
     (\<forall>k v. get k = Some v \<longrightarrow> k \<noteq> [] \<longrightarrow> hd k = 0 \<longrightarrow> length k = 42)"

definition batch_ok :: "bytes \<Rightarrow> batch_op list \<Rightarrow> nat \<Rightarrow> nat \<Rightarrow> nat \<Rightarrow> (nat \<rightharpoonup> bytes) \<Rightarrow> bool" where
  "batch_ok start batch inBatch C b M \<longleftrightarrow>
     b \<le> inBatch \<and> b \<le> C \<and> batch = map (\<lambda>c. BPut (ek start c) (the (M c))) [C - b..<C] \<and> {C - b..<C} \<subseteq> dom M"

definition at_key :: "bytes \<Rightarrow> reader \<Rightarrow> (nat \<rightharpoonup> bytes) \<Rightarrow> nat \<Rightarrow> bool" where
  "at_key start rd M q \<longleftrightarrow> (\<exists>k0 \<le> q. rd_key rd = ek start k0 \<and> (\<forall>c. k0 \<le> c \<and> c < q \<longrightarrow> M c = None))"

definition ahead :: "bool \<Rightarrow> nat \<Rightarrow> nat \<Rightarrow> bool" where
  "ahead f x y \<longleftrightarrow> x \<le> y \<and> (f \<longrightarrow> x = y)"

definition loop_ok ::
    "bytes \<Rightarrow> nat \<Rightarrow> nat \<Rightarrow> nat set \<Rightarrow> (nat \<rightharpoonup> bytes) \<Rightarrow> reader \<Rightarrow> nat \<Rightarrow> ldb_iter \<Rightarrow> nat \<Rightarrow> nat \<Rightarrow> batch_op list \<Rightarrow> bool" where
  "loop_ok start C b D M rd q it n cnt del \<longleftrightarrow>
     n \<le> cnt \<and> 0 < cnt \<and>
     (\<exists>hi rest. q \<le> hi \<and> hi + b \<le> C \<and> cnt - n \<le> hi - q
        \<and> it_rest it = map (\<lambda>c. (ek start c, the (M c))) [q..<hi] @ rest) \<and>
     (\<exists>q0 \<le> q. del = map (\<lambda>c. BDelete (ek start c)) [q0..<q] \<and> D = {q0..<q}
        \<and> (0 < n \<longrightarrow> q0 < q \<and> rd_key rd = ek start (q - 1)))"

lemma loop_okI:
  assumes "n \<le> cnt" "0 < cnt" "q \<le> hi" "hi + b \<le> C" "cnt - n \<le> hi - q"
    "it_rest it = map (\<lambda>c. (ek start c, the (M c))) [q..<hi] @ rest"
    "q0 \<le> q" "del = map (\<lambda>c. BDelete (ek start c)) [q0..<q]" "D = {q0..<q}"
    "0 < n \<Longrightarrow> q0 < q \<and> rd_key rd = ek start (q - 1)"
  shows "loop_ok start C b D M rd q it n cnt del"
  unfolding loop_ok_def using assms by blast

fun pc_ok :: "bool \<Rightarrow> bytes \<Rightarrow> nat \<Rightarrow> nat \<Rightarrow> nat \<Rightarrow> nat set \<Rightarrow> (nat \<rightharpoonup> bytes) \<Rightarrow> reader \<Rightarrow> nat \<Rightarrow> read_pc \<Rightarrow> bool" where
  "pc_ok f start C inBatch b D M rd q RAsk \<longleftrightarrow> at_key start rd M q \<and> ahead f inBatch (C - q) \<and> D = {}"
| "pc_ok f start C inBatch b D M rd q (RSeek cnt) \<longleftrightarrow>
     at_key start rd M q \<and> 0 < cnt \<and> ahead f (cnt + inBatch) (C - q) \<and> D = {}"
| "pc_ok f start C inBatch b D M rd q (RLoop it n cnt del) \<longleftrightarrow>
     ahead f (cnt - n + inBatch) (C - q) \<and> loop_ok start C b D M rd q it n cnt del"
| "pc_ok f start C inBatch b D M rd q RReturned \<longleftrightarrow> True"

definition reader_ok ::
    "bool \<Rightarrow> bytes \<Rightarrow> nat \<Rightarrow> nat \<Rightarrow> nat \<Rightarrow> nat set \<Rightarrow> (nat \<rightharpoonup> bytes) \<Rightarrow> reader \<Rightarrow> bool" where
  "reader_ok f start C inBatch b D M rd \<longleftrightarrow>
     rd_useBatches rd \<and> length (rd_key rd) = 42 \<and>
     (\<exists>q \<le> C. {q..<C} \<subseteq> dom M \<and> (f \<longrightarrow> dom M = {q..<C}) \<and> pc_ok f start C inBatch b D M rd q (rd_pc rd))"

definition live :: "reader \<Rightarrow> bool" where
  "live rd \<longleftrightarrow> rd_pc rd \<noteq> RReturned"

definition readers_ok ::
    "bool \<Rightarrow> bytes \<Rightarrow> nat \<Rightarrow> nat \<Rightarrow> nat \<Rightarrow> nat set \<Rightarrow> (nat \<rightharpoonup> bytes) \<Rightarrow> reader list \<Rightarrow> bool" where
  "readers_ok f start C inBatch b D M rds \<longleftrightarrow>
     (\<forall>i < length rds. \<forall>j < length rds. live (rds ! i) \<longrightarrow> live (rds ! j) \<longrightarrow> i = j) \<and>
     (\<forall>i < length rds. live (rds ! i) \<longrightarrow> reader_ok f start C inBatch b D M (rds ! i)) \<and>
     ((\<forall>i < length rds. \<not> live (rds ! i)) \<longrightarrow> D = {})"

definition hist_ok ::
    "bool \<Rightarrow> sync_req list \<Rightarrow> sync_req list \<Rightarrow> (nat \<rightharpoonup> bytes) \<Rightarrow> nat \<Rightarrow> sync_req list \<Rightarrow> bool" where
  "hist_ok f acc sent M C wait \<longleftrightarrow>
     mset (map req_key acc) =
       mset (map req_key sent) + image_mset (\<lambda>c. take 32 (the (M c))) (mset_set (dom M)) + mset (map req_key wait) \<and>
     (f \<longrightarrow> (\<exists>lo \<le> C. dom M = {lo..<C} \<and>
        map req_key acc = map req_key sent @ map (\<lambda>c. take 32 (the (M c))) [lo..<C] @ map req_key wait))"

section \<open>The database part\<close>

lemma fold_puts_own:
  "n \<le> 2 ^ 64 \<Longrightarrow> a \<le> c \<Longrightarrow> c < n \<Longrightarrow>
    fold batch_step (map (\<lambda>c. BPut (ek start c) (w c)) [a..<n]) get (ek start c) = Some (w c)"
proof (induction n)
  case (Suc n)
  then show ?case
  proof (cases "c = n")
    case False
    then have "c < n" "ek start c \<noteq> ek start n" using Suc.prems ek_inject [of c n start] by auto
    then show ?thesis using Suc by simp
  qed simp
qed simp

lemma fold_puts_other:
  "(\<And>c. a \<le> c \<Longrightarrow> c < n \<Longrightarrow> k \<noteq> ek start c) \<Longrightarrow>
    fold batch_step (map (\<lambda>c. BPut (ek start c) (w c)) [a..<n]) get k = get k"
  by (induction n) auto

lemma fold_dels:
  "fold batch_step (map (\<lambda>c. BDelete (ek start c)) [a..<n]) get k =
    (if \<exists>c. a \<le> c \<and> c < n \<and> k = ek start c then None else get k)"
  by (induction n) (auto simp: less_Suc_eq)

lemma db_ok_write:
  assumes "db_ok start get C b D M" "batch_ok start batch inBatch C b M" "C < 2 ^ 64" "length start = 42"
  shows "db_ok start (fold batch_step batch get) C 0 D M"
proof -
  let ?g = "fold batch_step batch get"
  have batch: "batch = map (\<lambda>c. BPut (ek start c) (the (M c))) [C - b..<C]" "b \<le> C" "{C - b..<C} \<subseteq> dom M"
    using assms(2) by (auto simp: batch_ok_def)
  have D: "D \<inter> dom M = {}" "\<And>c. c \<in> D \<Longrightarrow> c + b < C" using assms(1) by (auto simp: db_ok_def)
  have own: "?g (ek start c) = (if c < C then M c else None)" if c: "c < 2 ^ 64" "c \<notin> D" for c
  proof (cases "C - b \<le> c \<and> c < C")
    case True
    then have "?g (ek start c) = Some (the (M c))" using fold_puts_own [of C "C - b" c] assms(3) batch(1) by simp
    then show ?thesis using True batch(3) by (auto simp: dom_def)
  next
    case False
    then have "ek start c \<noteq> ek start d" if "C - b \<le> d" "d < C" for d
      using that c(1) assms(3) ek_inject [of c d start] by auto
    then have "?g (ek start c) = get (ek start c)" unfolding batch(1) by (rule fold_puts_other)
    then show ?thesis using assms(1) c False batch(2) by (auto simp: db_ok_def)
  qed
  have len: "length k = 42" if "?g k = Some v" "k \<noteq> []" "hd k = 0" for k v
  proof (cases "\<exists>c. C - b \<le> c \<and> c < C \<and> k = ek start c")
    case True
    then show ?thesis using assms(4) by auto
  next
    case False
    then have "?g k = get k" unfolding batch(1) by (intro fold_puts_other) blast
    then have "get k = Some v" using that(1) by simp
    then show ?thesis using that(2,3) assms(1) unfolding db_ok_def by blast
  qed
  show ?thesis using own D len by (fastforce simp: db_ok_def)
qed

lemma db_ok_counter:
  assumes "db_ok start get C b D M" "k \<noteq> []" "hd k \<noteq> 0" "length start = 42" "hd start = 0"
  shows "db_ok start (get(k \<mapsto> v)) C b D M"
proof -
  have "ek start c \<noteq> k" for c using assms(3,5) hd_ek [OF assms(4), of c] by auto
  then show ?thesis using assms by (auto simp: db_ok_def)
qed

lemma db_ok_delete:
  assumes "db_ok start get C b {q0..<q} M" "q \<le> 2 ^ 64"
  shows "db_ok start (fold batch_step (map (\<lambda>c. BDelete (ek start c)) [q0..<q]) get) C b {} M"
proof -
  let ?g = "fold batch_step (map (\<lambda>c. BDelete (ek start c)) [q0..<q]) get"
  have "?g (ek start c) = (if c + b < C then M c else None)" if c: "c < 2 ^ 64" for c
  proof (cases "c \<in> {q0..<q}")
    case True
    then have "M c = None" "?g (ek start c) = None"
      using assms(1) by (auto simp: db_ok_def fold_dels)
    then show ?thesis by simp
  next
    case False
    then have "\<not> (\<exists>d. q0 \<le> d \<and> d < q \<and> ek start c = ek start d)" using c assms(2) ek_inject [of c _ start] by auto
    then have "?g (ek start c) = get (ek start c)" by (simp only: fold_dels if_False)
    then show ?thesis using assms(1) c False by (simp add: db_ok_def)
  qed
  moreover have "?g k = Some v \<Longrightarrow> get k = Some v" for k v by (auto simp: fold_dels split: if_splits)
  ultimately show ?thesis using assms(1) by (auto simp: db_ok_def)
qed

lemma db_ok_save: "db_ok start get C b D M \<Longrightarrow> db_ok start get (C + 1) (b + 1) D (M(C \<mapsto> v))"
  unfolding db_ok_def by force

lemma db_ok_deliver:
  assumes "db_ok start get C b {q0..<q} M" "q + b < C" "q0 \<le> q"
  shows "db_ok start get C b {q0..<Suc q} (M(q := None))"
  using assms unfolding db_ok_def by (auto simp: less_Suc_eq)

section \<open>Batch and values\<close>

lemma batch_ok_save:
  assumes "batch_ok start batch inBatch C b M" "vals_ok M C"
  shows "batch_ok start (batch @ [BPut (ek start C) v]) (inBatch + 1) (C + 1) (b + 1) (M(C \<mapsto> v))"
proof -
  have "map (\<lambda>c. BPut (ek start c) (the ((M(C \<mapsto> v)) c))) [C - b..<C] = map (\<lambda>c. BPut (ek start c) (the (M c))) [C - b..<C]"
    by simp
  moreover have "{C - b..<Suc C} \<subseteq> insert C (dom M)" using assms(1) by (auto simp: batch_ok_def less_Suc_eq)
  ultimately show ?thesis using assms unfolding batch_ok_def vals_ok_def by auto
qed

lemma batch_ok_empty: "batch_ok start [] inBatch C 0 M"
  by (simp add: batch_ok_def)

lemma batch_ok_deliver:
  "batch_ok start batch inBatch C b M \<Longrightarrow> q + b < C \<Longrightarrow> batch_ok start batch inBatch C b (M(q := None))"
  by (auto simp: batch_ok_def)

lemma vals_ok_save: "vals_ok M C \<Longrightarrow> length v = 40 \<Longrightarrow> vals_ok (M(C \<mapsto> v)) (C + 1)"
  unfolding vals_ok_def ran_def by (auto simp: less_Suc_eq split: if_splits)

lemma vals_ok_deliver: "vals_ok M C \<Longrightarrow> vals_ok (M(q := None)) C"
  unfolding vals_ok_def ran_def by auto

section \<open>Readers\<close>

lemma at_key_cong: "at_key start rd M q \<Longrightarrow> (\<And>c. c < q \<Longrightarrow> M' c = M c) \<Longrightarrow> at_key start rd M' q"
  unfolding at_key_def by auto

lemma loop_ok_save:
  assumes "loop_ok start C b D M rd q it n cnt del"
  shows "loop_ok start (C + 1) (b + 1) D (M(C \<mapsto> v)) rd q it n cnt del"
proof -
  obtain hi rest where h: "q \<le> hi" "hi + b \<le> C" "cnt - n \<le> hi - q"
      "it_rest it = map (\<lambda>c. (ek start c, the (M c))) [q..<hi] @ rest"
    using assms by (auto simp: loop_ok_def)
  have "map (\<lambda>c. (ek start c, the ((M(C \<mapsto> v)) c))) [q..<hi] = map (\<lambda>c. (ek start c, the (M c))) [q..<hi]"
    using h(2) by auto
  then have "\<exists>hi rest. q \<le> hi \<and> hi + (b + 1) \<le> C + 1 \<and> cnt - n \<le> hi - q
      \<and> it_rest it = map (\<lambda>c. (ek start c, the ((M(C \<mapsto> v)) c))) [q..<hi] @ rest"
    using h by (intro exI [of _ hi] exI [of _ rest]) simp
  then show ?thesis using assms by (simp add: loop_ok_def)
qed

lemma loop_ok_flush: "loop_ok start C b D M rd q it n cnt del \<Longrightarrow> loop_ok start C 0 D M rd q it n cnt del"
  unfolding loop_ok_def by fastforce

lemma reader_ok_save:
  assumes "reader_ok f start C inBatch b D M rd"
  shows "reader_ok f start (C + 1) (inBatch + 1) (b + 1) D (M(C \<mapsto> v)) rd"
proof -
  obtain q where q: "q \<le> C" "{q..<C} \<subseteq> dom M" "f \<longrightarrow> dom M = {q..<C}" "pc_ok f start C inBatch b D M rd q (rd_pc rd)"
    using assms by (auto simp: reader_ok_def)
  have ak: "at_key start rd M q \<Longrightarrow> at_key start rd (M(C \<mapsto> v)) q"
    using q(1) by (auto elim!: at_key_cong)
  have ah: "ahead f x (C - q) \<Longrightarrow> ahead f (Suc x) (Suc C - q)" for x
    using q(1) by (auto simp: ahead_def)
  have "pc_ok f start (C + 1) (inBatch + 1) (b + 1) D (M(C \<mapsto> v)) rd q (rd_pc rd)"
    using q(4) ak ah loop_ok_save by (cases "rd_pc rd") (auto simp: Suc_diff_le)
  moreover have "{q..<C + 1} \<subseteq> dom (M(C \<mapsto> v))" using q(2) by (auto simp: less_Suc_eq)
  moreover have "f \<longrightarrow> dom (M(C \<mapsto> v)) = {q..<C + 1}" using q(1,3) by (auto simp: less_Suc_eq)
  moreover have "q \<le> C + 1" "rd_useBatches rd" "length (rd_key rd) = 42" using assms q(1) by (auto simp: reader_ok_def)
  ultimately show ?thesis unfolding reader_ok_def by blast
qed

lemma reader_ok_flush: "reader_ok f start C inBatch b D M rd \<Longrightarrow> reader_ok f start C inBatch 0 D M rd"
  unfolding reader_ok_def by (cases "rd_pc rd") (auto dest: loop_ok_flush)

lemma new_reader_key: "length start = 42 \<Longrightarrow> c < 2 ^ 64 \<Longrightarrow> rd_key (new_reader start u (of_nat c)) = ek start c"
  by (simp add: new_reader_def ek_def entry_key_def slice_put_def)

lemma reader_ok_new:
  assumes "length start = 42" "C < 2 ^ 64" "f \<longrightarrow> dom M = {}"
  shows "reader_ok f start (C + 1) 1 b {} (M(C \<mapsto> v)) (new_reader start True (of_nat C))"
proof -
  have "at_key start (new_reader start True (of_nat C)) (M(C \<mapsto> v)) C"
    using new_reader_key [OF assms(1,2)] by (auto simp: at_key_def)
  then show ?thesis using assms new_reader_key [OF assms(1,2), of True]
    by (auto simp: reader_ok_def new_reader_def ahead_def less_Suc_eq intro!: exI [of _ C])
qed

lemma readers_ok_map:
  assumes "readers_ok f start C i b D M rds"
    "\<And>rd. reader_ok f start C i b D M rd \<Longrightarrow> reader_ok f start C' i' b' D M' rd"
  shows "readers_ok f start C' i' b' D M' rds"
  using assms unfolding readers_ok_def by blast

lemma readers_ok_append:
  assumes "readers_ok f start C i b D M rds" "\<forall>j < length rds. \<not> live (rds ! j)"
    "reader_ok f start C' i' b' {} M' rd"
  shows "readers_ok f start C' i' b' {} M' (rds @ [rd])"
  using assms unfolding readers_ok_def by (auto simp: nth_append less_Suc_eq)

text \<open>The one live reader moves.\<close>

lemma readers_ok_move:
  assumes "readers_ok f start C i b D M rds" "j < length rds" "live (rds ! j)"
    "live rd \<Longrightarrow> reader_ok f start C' i' b' D' M' rd" "\<not> live rd \<Longrightarrow> D' = {}"
  shows "readers_ok f start C' i' b' D' M' (rds[j := rd])"
proof -
  have only: "k = j" if "k < length rds" "live (rds ! k)" for k
    using that assms(1-3) by (auto simp: readers_ok_def)
  have l: "live (rds[j := rd] ! k) \<Longrightarrow> k = j" if "k < length rds" for k
    using that only by (cases "k = j") auto
  show ?thesis
    unfolding readers_ok_def
  proof (intro conjI allI impI)
    fix k m assume "k < length (rds[j := rd])" "m < length (rds[j := rd])"
      "live (rds[j := rd] ! k)" "live (rds[j := rd] ! m)"
    then show "k = m" using l by (metis length_list_update)
  next
    fix k assume k: "k < length (rds[j := rd])" "live (rds[j := rd] ! k)"
    then have "k = j" using l by simp
    then show "reader_ok f start C' i' b' D' M' (rds[j := rd] ! k)" using k assms(2,4) by simp
  next
    assume n: "\<forall>k < length (rds[j := rd]). \<not> live (rds[j := rd] ! k)"
    then have "\<not> live rd" using assms(2) by (metis length_list_update nth_list_update_eq)
    then show "D' = {}" using assms(5) by simp
  qed
qed

section \<open>The history\<close>

lemma hist_ok_push: "hist_ok f acc sent M C wait \<Longrightarrow> hist_ok f (acc @ [r]) sent M C (wait @ [r])"
  by (auto simp: hist_ok_def)

lemma hist_ok_direct:
  assumes "hist_ok f acc sent M C (r # wait)" "f \<longrightarrow> dom M = {}"
  shows "hist_ok f acc (sent @ [r]) M C wait"
  using assms by (auto simp: hist_ok_def)

lemma hist_ok_save:
  assumes "hist_ok f acc sent M C (r # wait)" "vals_ok M C" "take 32 v = req_key r"
  shows "hist_ok f acc sent (M(C \<mapsto> v)) (C + 1) wait"
proof -
  have fin: "finite (dom M)" "C \<notin> dom M" using assms(2) finite_subset by (auto simp: vals_ok_def)
  have "image_mset (\<lambda>c. take 32 (the ((M(C \<mapsto> v)) c))) (mset_set (dom M))
      = image_mset (\<lambda>c. take 32 (the (M c))) (mset_set (dom M))"
    using fin by (intro image_mset_cong) auto
  then have "mset (map req_key acc) = mset (map req_key sent)
      + image_mset (\<lambda>c. take 32 (the ((M(C \<mapsto> v)) c))) (mset_set (dom (M(C \<mapsto> v)))) + mset (map req_key wait)"
    using assms(1,3) fin by (simp add: hist_ok_def)
  moreover have "\<exists>lo \<le> C + 1. dom (M(C \<mapsto> v)) = {lo..<C + 1} \<and> map req_key acc = map req_key sent
      @ map (\<lambda>c. take 32 (the ((M(C \<mapsto> v)) c))) [lo..<C + 1] @ map req_key wait" if fl: "f"
  proof -
    obtain lo where lo: "lo \<le> C" "dom M = {lo..<C}"
        "map req_key acc = map req_key sent @ map (\<lambda>c. take 32 (the (M c))) [lo..<C] @ map req_key (r # wait)"
      using fl assms(1) unfolding hist_ok_def by blast
    have "dom (M(C \<mapsto> v)) = {lo..<C + 1}" using lo(1,2) by auto
    moreover have "map (\<lambda>c. take 32 (the ((M(C \<mapsto> v)) c))) [lo..<C + 1]
        = map (\<lambda>c. take 32 (the (M c))) [lo..<C] @ [req_key r]"
      using lo(1) assms(3) by simp
    ultimately show ?thesis using lo(1,3) by (intro exI [of _ lo]) simp
  qed
  ultimately show ?thesis unfolding hist_ok_def by blast
qed

lemma hist_ok_deliver:
  assumes "hist_ok f acc sent M C wait" "vals_ok M C" "M q = Some v" "f \<longrightarrow> dom M = {q..<C}"
  shows "hist_ok f acc (sent @ [REntry k v]) (M(q := None)) C wait"
proof -
  have fin: "finite (dom M)" "q \<in> dom M" "q < C" using assms(2,3) finite_subset by (auto simp: vals_ok_def)
  have 1: "image_mset (\<lambda>c. take 32 (the ((M(q := None)) c))) (mset_set (dom M - {q}))
      = image_mset (\<lambda>c. take 32 (the (M c))) (mset_set (dom M - {q}))"
    using fin by (intro image_mset_cong) auto
  have 2: "image_mset (\<lambda>c. take 32 (the (M c))) (mset_set (dom M))
      = {#take 32 v#} + image_mset (\<lambda>c. take 32 (the (M c))) (mset_set (dom M - {q}))"
    using fin assms(3) by (simp add: mset_set.remove)
  have 3: "map (\<lambda>c. take 32 (the (M c))) [q..<C] = take 32 v # map (\<lambda>c. take 32 (the ((M(q := None)) c))) [Suc q..<C]"
    using fin(3) assms(3) by (simp add: upt_conv_Cons)
  have "\<exists>lo \<le> C. dom (M(q := None)) = {lo..<C} \<and> map req_key acc = map req_key (sent @ [REntry k v])
      @ map (\<lambda>c. take 32 (the ((M(q := None)) c))) [lo..<C] @ map req_key wait" if fl: "f"
  proof -
    obtain lo where lo: "lo \<le> C" "dom M = {lo..<C}"
        "map req_key acc = map req_key sent @ map (\<lambda>c. take 32 (the (M c))) [lo..<C] @ map req_key wait"
      using fl assms(1) unfolding hist_ok_def by blast
    have "{lo..<C} = {q..<C}" using lo(2) fl assms(4) by simp
    then have "lo = q" using lo(1) fin(3) by (metis atLeastLessThan_eq_iff atLeastLessThan_empty_iff not_le)
    then have "map req_key acc = map req_key (sent @ [REntry k v])
        @ map (\<lambda>c. take 32 (the ((M(q := None)) c))) [Suc q..<C] @ map req_key wait"
      using lo(3) 3 by simp
    moreover have "dom (M(q := None)) = {Suc q..<C}" using lo(2) \<open>lo = q\<close> by auto
    ultimately show ?thesis using fin(3) by (intro exI [of _ "Suc q"]) simp
  qed
  moreover have "mset (map req_key acc) = mset (map req_key (sent @ [REntry k v]))
      + image_mset (\<lambda>c. take 32 (the ((M(q := None)) c))) (mset_set (dom (M(q := None)))) + mset (map req_key wait)"
    using assms(1) 1 2 by (simp add: hist_ok_def)
  ultimately show ?thesis unfolding hist_ok_def by blast
qed

section \<open>Moves of a reader\<close>

context leveldb
begin

lemma move_seek:
  assumes "reader_ok f start C inBatch b D M rd" "rd_pc rd = RSeek cnt" "db_ok start (ldb_Get L (ldb_db db)) C b D M"
    "batch_ok start batch inBatch C b M" "C < 2 ^ 64" "length start = 42" "hd start = 0"
    "dbRead_step L start ok wok rd db = Some (rd', db', out)"
  shows "reader_ok f start C inBatch b D M rd' \<and> db' = db \<and> out = []"
proof -
  obtain q where q: "q \<le> C" "{q..<C} \<subseteq> dom M" "f \<longrightarrow> dom M = {q..<C}" "at_key start rd M q" "0 < cnt"
      "ahead f (cnt + inBatch) (C - q)" "D = {}" and rd: "rd_useBatches rd" "length (rd_key rd) = 42"
    using assms(1,2) by (auto simp: reader_ok_def)
  obtain k0 where k0: "k0 \<le> q" "rd_key rd = ek start k0" "\<And>c. k0 \<le> c \<Longrightarrow> c < q \<Longrightarrow> M c = None"
    using q(4) by (auto simp: at_key_def)
  have b: "b \<le> inBatch" "b \<le> C" using assms(4) by (auto simp: batch_ok_def)
  define hi where "hi = C - b"
  have hi: "q \<le> hi" "cnt \<le> hi - q" "hi < 2 ^ 64" "hi + b \<le> C"
    using q(1,5,6) b assms(5) unfolding hi_def ahead_def by arith+
  have own: "ldb_Get L (ldb_db db) (ek start c) = (if q \<le> c \<and> c < hi then Some (the (M c)) else None)"
    if c: "k0 \<le> c" "c < 2 ^ 64" for c
  proof -
    have "ldb_Get L (ldb_db db) (ek start c) = (if c < hi then M c else None)"
      using assms(3) c(2) q(7) hi_def b(2) by (auto simp: db_ok_def)
    moreover have "c < q \<Longrightarrow> M c = None" using k0(3) c(1) by blast
    moreover have "q \<le> c \<Longrightarrow> c < hi \<Longrightarrow> M c = Some (the (M c))" using q(2) hi_def by fastforce
    ultimately show ?thesis by (auto simp: not_le)
  qed
  obtain rest where rest: "dropWhile (\<lambda>e. fst e < ek start k0) (ldb_snapshot L (ldb_db db))
      = map (\<lambda>c. (ek start c, the (M c))) [q..<hi] @ rest"
    using seek_own [OF assms(6,7) _ own k0(1) hi(1,3)] assms(3) unfolding db_ok_def by blast
  let ?it = "it_Seek (LDBDatabase_NewIterator L db) (rd_key rd)"
  have it: "it_rest ?it = map (\<lambda>c. (ek start c, the (M c))) [q..<hi] @ rest"
    using rest k0(2) by (simp add: it_defs)
  have "q < hi" using hi(2) q(5) by arith
  then have "it_Valid ?it" using it by (simp add: it_Valid_def)
  then have r: "rd' = rd\<lparr>rd_pc := RLoop ?it 0 cnt []\<rparr>" "db' = db" "out = []"
    using assms(2,8) by (auto simp: dbRead_step_def)
  have "loop_ok start C b D M rd' q ?it 0 cnt []"
    by (rule loop_okI [OF _ q(5) hi(1,4) _ it, of 0 q]) (use q(7) hi(2) in auto)
  then have "reader_ok f start C inBatch b D M rd'"
    using r(1) q rd by (auto simp: reader_ok_def intro!: exI [of _ q])
  then show ?thesis using r by simp
qed

text \<open>One round of the inner loop: the end of the batch, a failed or a successful delivery.\<close>

lemma move_loop:
  assumes "reader_ok f start C inBatch b D M rd" "rd_pc rd = RLoop it n cnt del"
    "db_ok start (ldb_Get L (ldb_db db)) C b D M" "vals_ok M C" "C < 2 ^ 64" "length start = 42" "hd start = 0"
    "dbRead_step L start ok True rd db = Some (rd', db', out)" "f \<longrightarrow> ok"
  shows "(reader_ok f start C inBatch b {} M rd' \<and> db_ok start (ldb_Get L (ldb_db db')) C b {} M
      \<and> (\<forall>k. (k \<noteq> [] \<and> hd k \<noteq> 0) \<longrightarrow> ldb_Get L (ldb_db db') k = ldb_Get L (ldb_db db) k) \<and> out = [])
    \<or> (\<exists>q q0 v. D = {q0..<q} \<and> q0 \<le> q \<and> q + b < C \<and> M q = Some v \<and> (f \<longrightarrow> dom M = {q..<C})
      \<and> reader_ok f start C inBatch b {q0..<Suc q} (M(q := None)) rd' \<and> db' = db \<and> out = [REntry (ek start q) v])"
proof -
  have rd: "rd_useBatches rd" "length (rd_key rd) = 42" using assms(1) by (simp_all add: reader_ok_def)
  obtain q where q: "q \<le> C" "{q..<C} \<subseteq> dom M" "f \<longrightarrow> dom M = {q..<C}" "ahead f (cnt - n + inBatch) (C - q)"
      and lp: "loop_ok start C b D M rd q it n cnt del"
    using assms(1,2) unfolding reader_ok_def by auto
  have n: "n \<le> cnt" "0 < cnt" using lp by (simp_all add: loop_ok_def)
  obtain hi rest where hi: "q \<le> hi" "hi + b \<le> C" "cnt - n \<le> hi - q"
      "it_rest it = map (\<lambda>c. (ek start c, the (M c))) [q..<hi] @ rest"
    using lp unfolding loop_ok_def by blast
  obtain q0 where q0: "q0 \<le> q" "del = map (\<lambda>c. BDelete (ek start c)) [q0..<q]" "D = {q0..<q}"
      "0 < n \<longrightarrow> q0 < q \<and> rd_key rd = ek start (q - 1)"
    using lp unfolding loop_ok_def by blast
  let ?db = "del_write L True db del"
  have get: "ldb_Get L (ldb_db ?db) = fold batch_step (map (\<lambda>c. BDelete (ek start c)) [q0..<q]) (ldb_Get L (ldb_db db))"
    by (simp add: del_write_def LDBDatabase_Write_def Get_Write q0(2))
  have dbok: "db_ok start (ldb_Get L (ldb_db ?db)) C b {} M"
    unfolding get using assms(3) q0(3) q(1) assms(5) by (intro db_ok_delete) auto
  have other: "ldb_Get L (ldb_db ?db) k = ldb_Get L (ldb_db db) k" if "hd k \<noteq> 0" for k
  proof -
    have "k \<noteq> ek start c" for c using that hd_ek [OF assms(6), of c] assms(7) by auto
    then show ?thesis unfolding get by (simp add: fold_dels)
  qed
  show ?thesis
  proof (cases "cnt \<le> n")
    case True
    then have r: "rd' = dbRead_again cnt rd" "db' = ?db" "out = []" using assms(2,8) rd(1) by (auto simp: dbRead_step_def)
    have ql: "q0 < q" "rd_key rd = ek start (q - 1)" using q0(4) True n by auto
    then have "q - 1 \<in> D" using q0(3) by auto
    then have "q - 1 \<notin> dom M" using assms(3) unfolding db_ok_def by blast
    then have "M c = None" if "q - 1 \<le> c" "c < q" for c
    proof -
      have "c = q - 1" using that by simp
      then show ?thesis using \<open>q - 1 \<notin> dom M\<close> by (simp add: domIff)
    qed
    then have "at_key start rd' M q"
      using ql(2) r(1) unfolding at_key_def by (intro exI [of _ "q - 1"]) (simp add: dbRead_again_def)
    then have "reader_ok f start C inBatch b {} M rd'"
      using r(1) rd q True by (auto simp: reader_ok_def dbRead_again_def intro!: exI [of _ q])
    then show ?thesis using dbok other r by simp
  next
    case False
    then have qhi: "q < hi" using hi(3) by simp
    then have hd: "it_Key it = Some (ek start q)" "it_Value it = the (M q)"
      "it_rest (it_Next it) = map (\<lambda>c. (ek start c, the (M c))) [Suc q..<hi] @ rest"
      using hi(4) by (simp_all add: it_defs upt_conv_Cons)
    have key: "go_copy (rd_key rd) (ek start q) = ek start q" using rd(2) assms(6) by simp
    have hk: "hd (ek start q) = 0" using hd_ek assms(6,7) by simp
    obtain v where v: "M q = Some v" using q(2) qhi hi(2) by force
    have len: "length v = 40" using assms(4) v by (auto simp: vals_ok_def ran_def)
    show ?thesis
    proof (cases ok)
      case True
      then have r: "rd' = rd\<lparr>rd_key := ek start q, rd_pc := RLoop (it_Next it) (n + 1) cnt (del @ [BDelete (ek start q)])\<rparr>"
          "db' = db" "out = [REntry (ek start q) v]"
        using assms(2,8) False hd key hk v len by (auto simp: dbRead_step_def Let_def)
      have m: "map (\<lambda>c. (ek start c, the ((M(q := None)) c))) [Suc q..<hi] = map (\<lambda>c. (ek start c, the (M c))) [Suc q..<hi]"
        by simp
      have "loop_ok start C b {q0..<Suc q} (M(q := None)) rd' (Suc q) (it_Next it) (n + 1) cnt (del @ [BDelete (ek start q)])"
        by (rule loop_okI [OF _ n(2) _ hi(2) _ hd(3) [folded m], of "n + 1" q0])
          (use False q0(1,2) hi(3) qhi r(1) in auto)
      moreover have "ahead f (cnt - (n + 1) + inBatch) (C - Suc q)" using q(4) False qhi hi(2) by (auto simp: ahead_def)
      moreover have "{Suc q..<C} \<subseteq> dom (M(q := None))" "f \<longrightarrow> dom (M(q := None)) = {Suc q..<C}"
        using q(2,3) unfolding dom_fun_upd by (auto simp: subset_iff)
      ultimately have "reader_ok f start C inBatch b {q0..<Suc q} (M(q := None)) rd'"
        using r(1) rd assms(6) qhi hi(2) by (auto simp: reader_ok_def intro!: exI [of _ "Suc q"])
      moreover have "q + b < C" using qhi hi(2) by simp
      ultimately show ?thesis using q0(1,3) v q(3) r(2,3) by blast
    next
      case nok: False
      then have r: "rd' = dbRead_again cnt (rd\<lparr>rd_key := ek start q\<rparr>)" "db' = ?db" "out = []"
        using assms(2,8) False hd key hk by (auto simp: dbRead_step_def Let_def)
      have "at_key start rd' M q" using r(1) by (auto simp: at_key_def dbRead_again_def)
      then have "reader_ok f start C inBatch b {} M rd'"
        using r(1) rd q assms(6,9) nok by (auto simp: reader_ok_def dbRead_again_def ahead_def intro!: exI [of _ q])
      then show ?thesis using dbok other r by simp
    qed
  qed
qed

end

end
