(* ===== verification/Sync_Db_Props.thy ===== *)
theory Sync_Db_Props
  imports Sync_Db_Queue
begin

text \<open>
  Every move of a delivery queue keeps the invariant; the properties of the queue follow:
  nothing that was accepted is lost, the order is kept, a queue that is stopped has saved
  its backlog. Then the cases in which the code does not do what it means to.
\<close>

section \<open>The invariant of a queue\<close>

definition qget :: "'d leveldb_ops \<Rightarrow> 'd syncDb \<Rightarrow> bytes \<Rightarrow> bytes option" where
  "qget L s = ldb_Get L (ldb_db (sd_db s))"

definition qC :: "'d syncDb \<Rightarrow> nat" where
  "qC s = unat (sd_counter s)"

definition in_hand :: "'d syncDb \<Rightarrow> sync_req list" where
  "in_hand s = (case sd_inflight s of None \<Rightarrow> [] | Some r \<Rightarrow> [r]) @ sd_buffer s"

definition qstatic :: "'d syncDb \<Rightarrow> bool" where
  "qstatic s \<longleftrightarrow> length (sd_start s) = 42 \<and> hd (sd_start s) = 0 \<and> \<not> ldb_comp (sd_db s)
     \<and> sd_counterKey s \<noteq> [] \<and> hd (sd_counterKey s) \<noteq> 0"

definition qmode :: "bool \<Rightarrow> 'd syncDb \<Rightarrow> (nat \<rightharpoonup> bytes) \<Rightarrow> bool" where
  "qmode f s M \<longleftrightarrow>
     (sd_inDb s = 0 \<longrightarrow> sd_inBatch s = 0) \<and>
     (sd_listening s \<longrightarrow> sd_inDb s = 0 \<longrightarrow>
        (\<forall>i < length (sd_readers s). \<not> live (sd_readers s ! i)) \<and> (f \<longrightarrow> dom M = {})) \<and>
     (sd_inflight s \<noteq> None \<longrightarrow> sd_mode s = BufferMode) \<and> (f \<longrightarrow> sd_mode s = BufferMode \<longrightarrow> dom M = {})"

definition qdone :: "'d leveldb_ops \<Rightarrow> 'd syncDb \<Rightarrow> nat \<Rightarrow> bool" where
  "qdone L s b \<longleftrightarrow> (sd_done s \<longrightarrow> sd_inflight s = None \<and> sd_buffer s = [] \<and> b = 0 \<and> sd_bufClosed s
     \<and> qget L s (sd_counterKey s) = Some (BigEndian_PutUint64 (sd_counter s)))"

text \<open>\<open>pre\<close> is a request the goroutine holds that is not in the state, \<open>c0\<close> the first counter.\<close>

definition qinv ::
    "bool \<Rightarrow> 'd leveldb_ops \<Rightarrow> nat \<Rightarrow> sync_req list \<Rightarrow> sync_req list \<Rightarrow> 'd syncDb \<Rightarrow> (nat \<rightharpoonup> bytes) \<Rightarrow> nat \<Rightarrow> nat set \<Rightarrow> bool" where
  "qinv f L c0 pre acc s M b D \<longleftrightarrow>
     qstatic s \<and> qC s + length (pre @ in_hand s) \<le> c0 + length acc \<and> list_all plain_req (pre @ in_hand s) \<and>
     vals_ok M (qC s) \<and> db_ok (sd_start s) (qget L s) (qC s) b D M \<and>
     batch_ok (sd_start s) (sd_batch s) (sd_inBatch s) (qC s) b M \<and>
     readers_ok f (sd_start s) (qC s) (sd_inBatch s) b D M (sd_readers s) \<and>
     hist_ok f acc (sd_sent s) M (qC s) (pre @ in_hand s) \<and> qmode f s M \<and> qdone L s b"

lemmas qinv_defs = qinv_def qstatic_def qmode_def qdone_def in_hand_def qC_def qget_def

section \<open>The writing goroutine\<close>

lemma entry_val_key: "length k = 32 \<Longrightarrow> take 32 (entry_val k i) = k" "length (entry_val k i) = 40"
  by (simp_all add: entry_val_def slice_put_def go_copy_def)

lemma plain_entry:
  assumes "plain_req r"
  shows "\<exists>v. newSyncDbEntry start r c gid = Some (entry_key start c, v) \<and> take 32 v = req_key r \<and> length v = 40"
  using assms by (cases r) (auto simp: entry_val_key)

lemma unat_Suc_u64: "unat (c :: u64) + 1 < 2 ^ 64 \<Longrightarrow> unat (c + 1) = unat c + 1"
  by (simp add: unat_word_ariths)

context leveldb
begin

lemma Write_get: "ldb_Get L (ldb_db (LDBDatabase_Write L db b)) = fold batch_step b (ldb_Get L (ldb_db db))"
  by (simp add: LDBDatabase_Write_def Get_Write)

lemma qinv_write:
  assumes "qinv f L c0 pre acc s M b D" "qC s < 2 ^ 64" "\<not> sd_done s"
  shows "qinv f L c0 pre acc (writeSyncBatch L True s) M 0 D"
proof -
  have "db_ok (sd_start s) (fold batch_step (sd_batch s) (qget L s)) (qC s) 0 D M"
    using assms by (intro db_ok_write) (auto simp: qinv_def qstatic_def)
  moreover have "readers_ok f (sd_start s) (qC s) (sd_inBatch s) 0 D M (sd_readers s)"
    using assms(1) readers_ok_map reader_ok_flush unfolding qinv_def by blast
  ultimately show ?thesis
    using assms unfolding writeSyncBatch_def qinv_defs
    by (simp add: Write_get batch_ok_empty) (simp add: LDBDatabase_Write_def)
qed

lemma qinv_save:
  assumes inv: "qinv f L c0 [r] acc s M b D" and bound: "c0 + length acc < 2 ^ 64" and "\<not> sd_done s" "sd_inflight s = None"
    and mode: "sd_mode s = DbMode" and save: "save_request L gid True r s = Ret s'"
  shows "\<exists>M' b' D'. qinv f L c0 [] acc s' M' b' D'"
proof -
  let ?C = "qC s"
  have C: "?C + 1 < 2 ^ 64" using inv bound by (simp add: qinv_def)
  have plain: "plain_req r" using inv by (simp add: qinv_def)
  obtain v where v: "newSyncDbEntry (sd_start s) r (sd_counter s) gid = Some (ek (sd_start s) ?C, v)"
      "take 32 v = req_key r" "length v = 40"
    using plain_entry [OF plain] by (force simp: ek_def qC_def)
  define s1 where "s1 = s\<lparr>sd_batch := sd_batch s @ [BPut (ek (sd_start s) ?C) v],
    sd_readers := sd_readers s @ (if sd_inDb s = 0 \<and> sd_listening s
       then [new_reader (sd_start s) True (sd_counter s)] else []),
    sd_inDb := sd_inDb s + 1, sd_inBatch := sd_inBatch s + 1, sd_counter := sd_counter s + 1\<rparr>"
  have C1: "qC s1 = ?C + 1" using C by (simp add: s1_def qC_def unat_Suc_u64)
  let ?M = "M(?C \<mapsto> v)"
  have ok: "qstatic s" "vals_ok M ?C" "db_ok (sd_start s) (qget L s) ?C b D M"
      "batch_ok (sd_start s) (sd_batch s) (sd_inBatch s) ?C b M"
      "readers_ok f (sd_start s) ?C (sd_inBatch s) b D M (sd_readers s)"
      "hist_ok f acc (sd_sent s) M ?C (r # in_hand s)" "qmode f s M"
    using inv by (auto simp: qinv_def)
  have readers: "readers_ok f (sd_start s) (?C + 1) (sd_inBatch s + 1) (b + 1) D ?M (sd_readers s1)"
  proof (cases "sd_inDb s = 0 \<and> sd_listening s")
    case True
    then have no: "\<forall>i < length (sd_readers s). \<not> live (sd_readers s ! i)" "f \<longrightarrow> dom M = {}" "sd_inBatch s = 0"
      using ok(7) by (auto simp: qmode_def)
    have D: "D = {}" using no(1) ok(5) by (auto simp: readers_ok_def)
    have l42: "length (sd_start s) = 42" and C0: "?C < 2 ^ 64" using ok(1) C by (auto simp: qstatic_def)
    have "readers_ok f (sd_start s) (?C + 1) 1 (b + 1) {} ?M (sd_readers s @ [new_reader (sd_start s) True (of_nat ?C)])"
      by (rule readers_ok_append [OF ok(5) no(1) reader_ok_new [OF l42 C0 no(2)]])
    then show ?thesis using True no(3) D by (simp add: s1_def qC_def)
  next
    case False
    then have "sd_readers s1 = sd_readers s" by (auto simp: s1_def)
    then show ?thesis using readers_ok_map [OF ok(5) reader_ok_save] by simp
  qed
  have "qinv f L c0 [] acc s1 ?M (b + 1) D"
    unfolding qinv_def C1
  proof (intro conjI)
    show "qstatic s1" using ok(1) by (simp add: qstatic_def s1_def)
    show "?C + 1 + length ([] @ in_hand s1) \<le> c0 + length acc" "list_all plain_req ([] @ in_hand s1)"
      using inv by (simp_all add: qinv_def in_hand_def s1_def)
    show "vals_ok ?M (?C + 1)" by (rule vals_ok_save [OF ok(2) v(3)])
    show "db_ok (sd_start s1) (qget L s1) (?C + 1) (b + 1) D ?M"
      using db_ok_save [OF ok(3)] by (simp add: s1_def qget_def)
    show "batch_ok (sd_start s1) (sd_batch s1) (sd_inBatch s1) (?C + 1) (b + 1) ?M"
      using batch_ok_save [OF ok(4,2)] by (simp add: s1_def)
    show "readers_ok f (sd_start s1) (?C + 1) (sd_inBatch s1) (b + 1) D ?M (sd_readers s1)"
      using readers by (simp add: s1_def)
    show "hist_ok f acc (sd_sent s1) ?M (?C + 1) ([] @ in_hand s1)"
      using hist_ok_save [OF ok(6,2) v(2)] by (simp add: s1_def in_hand_def)
    show "qmode f s1 ?M" using mode assms(4) by (simp add: qmode_def s1_def)
    show "qdone L s1 (b + 1)" using assms(3) by (simp add: qdone_def s1_def)
  qed
  moreover have "s' = s1 \<or> s' = writeSyncBatch L True s1"
    using save v(1) by (auto simp: save_request_def s1_def Let_def split: if_splits)
  moreover have "qC s1 < 2 ^ 64" "\<not> sd_done s1" using C C1 assms(3) by (simp_all add: s1_def)
  ultimately show ?thesis using qinv_write by blast
qed

lemma qinv_counter:
  assumes "qinv f L c0 pre acc s M b D" "qC s < 2 ^ 64" "\<not> sd_done s"
  shows "qinv f L c0 pre acc (writeSyncBatch L True (put_counter s)) M 0 D"
    "qget L (writeSyncBatch L True (put_counter s)) (sd_counterKey s) = Some (BigEndian_PutUint64 (sd_counter s))"
proof -
  let ?g = "fold batch_step (sd_batch s) (qget L s)" let ?v = "BigEndian_PutUint64 (sd_counter s)"
  have "db_ok (sd_start s) ?g (qC s) 0 D M"
    using assms by (intro db_ok_write) (auto simp: qinv_def qstatic_def)
  then have "db_ok (sd_start s) (?g(sd_counterKey s \<mapsto> ?v)) (qC s) 0 D M"
    using assms(1) by (intro db_ok_counter) (auto simp: qinv_def qstatic_def)
  moreover have "readers_ok f (sd_start s) (qC s) (sd_inBatch s) 0 D M (sd_readers s)"
    using assms(1) readers_ok_map reader_ok_flush unfolding qinv_def by blast
  ultimately show "qinv f L c0 pre acc (writeSyncBatch L True (put_counter s)) M 0 D"
    using assms unfolding writeSyncBatch_def put_counter_def qinv_defs
    by (simp add: Write_get batch_ok_empty) (simp add: LDBDatabase_Write_def)
  show "qget L (writeSyncBatch L True (put_counter s)) (sd_counterKey s) = Some ?v"
    by (simp add: writeSyncBatch_def put_counter_def qget_def Write_get)
qed

lemma step_push:
  assumes "qinv f L c0 [] acc s M b D" "plain_req r" "syncDb_push r s = Some (Ret s')"
  shows "qinv f L c0 [] (acc @ [r]) s' M b D"
proof -
  have s': "s' = s\<lparr>sd_buffer := sd_buffer s @ [r]\<rparr>" "\<not> sd_bufClosed s"
    using assms(3) by (auto simp: syncDb_push_def split: if_splits)
  show ?thesis using assms(1,2) s' hist_ok_push [of f acc "sd_sent s" M "qC s" "in_hand s" r]
    unfolding qinv_defs by simp
qed

lemma step_take:
  assumes "qinv f L c0 [] acc s M b D" "bufferRead_take s = Some (Ret s')"
  shows "qinv f L c0 [] acc s' M b D"
proof -
  obtain r rest where "sd_buffer s = r # rest" "s' = s\<lparr>sd_buffer := rest, sd_inflight := Some r\<rparr>"
      "\<not> sd_done s" "sd_inflight s = None" "sd_mode s = BufferMode"
    using assms(2) by (auto simp: bufferRead_take_def at_select_def split: if_splits list.splits)
  then show ?thesis using assms(1) unfolding qinv_defs by simp
qed

lemma step_delivered:
  assumes inv: "qinv f L c0 [] acc s M b D" "c0 + length acc < 2 ^ 64"
    and step: "bufferRead_delivered L ok gid True s = Some (Ret s')"
  shows "\<exists>M' b' D'. qinv f L c0 [] acc s' M' b' D'"
proof -
  obtain r where r: "sd_inflight s = Some r" using step by (auto simp: bufferRead_delivered_def split: option.splits)
  have nd: "\<not> sd_done s" using inv(1) r by (auto simp: qinv_def qdone_def)
  have mode: "sd_mode s = BufferMode" "f \<longrightarrow> dom M = {}" using inv(1) r by (auto simp: qinv_def qmode_def)
  show ?thesis
  proof (cases ok)
    case True
    then have s': "s' = s\<lparr>sd_inflight := None, sd_total := sd_total s + 1, sd_sent := sd_sent s @ [r],
        sd_mode := (if length (sd_buffer s) = sd_cap s then DbMode else sd_mode s)\<rparr>"
      using step r by (auto simp: bufferRead_delivered_def Let_def)
    have "hist_ok f acc (sd_sent s @ [r]) M (qC s) (sd_buffer s)"
      using inv(1) r mode(2) by (intro hist_ok_direct) (auto simp: qinv_def in_hand_def)
    then have "qinv f L c0 [] acc s' M b D" using inv(1) r nd mode s' unfolding qinv_defs by simp
    then show ?thesis by blast
  next
    case False
    let ?s = "s\<lparr>sd_inflight := None, sd_mode := DbMode, sd_bufClosed := True, sd_listening := False\<rparr>"
    have sv: "save_request L gid True r ?s = Ret s'"
      using step r False by (auto simp: bufferRead_delivered_def close_buffer_def go_bind_Ret_iff split: if_splits)
    have "qinv f L c0 [r] acc ?s M b D" using inv(1) r nd unfolding qinv_defs by simp
    then show ?thesis using qinv_save [OF _ inv(2) _ _ _ sv] nd by simp
  qed
qed

lemma step_db:
  assumes inv: "qinv f L c0 [] acc s M b D" "c0 + length acc < 2 ^ 64"
    and step: "bufferRead_db L gid True s = Some (Ret s')"
  shows "\<exists>M' b' D'. qinv f L c0 [] acc s' M' b' D'"
proof -
  have sel: "\<not> sd_done s" "sd_inflight s = None" "sd_mode s = DbMode"
    using step by (auto simp: bufferRead_db_def at_select_def split: if_splits)
  have C: "qC s < 2 ^ 64" using inv by (simp add: qinv_def)
  show ?thesis
  proof (cases "sd_buffer s")
    case Nil
    then have s': "sd_bufClosed s" "s' = (writeSyncBatch L True (put_counter s))\<lparr>sd_done := True\<rparr>"
      using step sel by (auto simp: bufferRead_db_def at_select_def split: if_splits)
    note w = qinv_counter [OF inv(1) C sel(1)]
    have "sd_inflight (writeSyncBatch L True (put_counter s)) = None" "sd_buffer (writeSyncBatch L True (put_counter s)) = []"
      "sd_bufClosed (writeSyncBatch L True (put_counter s))"
      "sd_counterKey (writeSyncBatch L True (put_counter s)) = sd_counterKey s"
      "sd_counter (writeSyncBatch L True (put_counter s)) = sd_counter s"
      using sel(2) Nil s'(1) by (simp_all add: writeSyncBatch_def put_counter_def)
    then have "qinv f L c0 [] acc s' M 0 D" using w s'(2) unfolding qinv_defs by simp
    then show ?thesis by blast
  next
    case (Cons r rest)
    let ?s = "s\<lparr>sd_buffer := rest, sd_dbTotal := sd_dbTotal s + 1, sd_total := sd_total s + 1\<rparr>"
    have sv: "save_request L gid True r ?s = Ret s'" using step sel Cons by (simp add: bufferRead_db_def at_select_def)
    have "qinv f L c0 [r] acc ?s M b D" using inv(1) sel Cons unfolding qinv_defs by simp
    then show ?thesis using qinv_save [OF _ inv(2) _ _ _ sv] sel by simp
  qed
qed

lemma step_batch:
  assumes inv: "qinv f L c0 [] acc s M b D" "c0 + length acc < 2 ^ 64"
    and step: "batch_exchange L i True s = Some (Ret s')"
  shows "\<exists>M' b' D'. qinv f L c0 [] acc s' M' b' D'"
proof -
  let ?rd = "sd_readers s ! i"
  have ask: "i < length (sd_readers s)" "rd_pc ?rd = RAsk" and sel: "\<not> sd_done s" "sd_inflight s = None"
    using step by (auto simp: batch_exchange_def asking_def bufferRead_batch_def at_select_def split: if_splits option.splits)
  have C: "qC s < 2 ^ 64" using inv by (simp add: qinv_def)
  have lv: "live ?rd" using ask(2) by (simp add: live_def)
  have ok: "readers_ok f (sd_start s) (qC s) (sd_inBatch s) b D M (sd_readers s)" using inv(1) by (simp add: qinv_def)
  have rok: "reader_ok f (sd_start s) (qC s) (sd_inBatch s) b D M ?rd" using ok ask(1) lv by (simp add: readers_ok_def)
  then have D: "D = {}" using ask(2) by (auto simp: reader_ok_def)
  have none: "\<not> live ((sd_readers s)[i := rd] ! k)" if "k < length (sd_readers s)" "\<not> live rd" for k rd
    using ok that lv ask(1) by (cases "k = i") (auto simp: readers_ok_def)
  show ?thesis
  proof (cases "sd_inBatch s = 0 \<and> sd_listening s")
    case True
    let ?rd' = "?rd\<lparr>rd_pc := RReturned\<rparr>"
    have s': "s' = s\<lparr>sd_mode := BufferMode, sd_inDb := 0, sd_readers := (sd_readers s)[i := ?rd']\<rparr>"
      using step ask sel True by (simp add: batch_exchange_def asking_def bufferRead_batch_def at_select_def
          set_reader_def dbRead_count_def)
    have e: "f \<longrightarrow> dom M = {}" using rok ask(2) True by (auto simp: reader_ok_def ahead_def)
    have nl: "\<not> live ?rd'" by (simp add: live_def)
    have "readers_ok f (sd_start s) (qC s) (sd_inBatch s) b D M ((sd_readers s)[i := ?rd'])"
      using readers_ok_move [OF ok ask(1) lv, of ?rd'] nl D by blast
    then have "qinv f L c0 [] acc s' M b D"
      using inv(1) sel s' e True none [OF _ nl] unfolding qinv_defs by simp
    then show ?thesis by blast
  next
    case False
    let ?w = "writeSyncBatch L True (put_counter s)" let ?rd' = "dbRead_count (sd_inBatch s) ?rd"
    have fw: "sd_readers ?w = sd_readers s" "sd_inBatch ?w = sd_inBatch s" "sd_start ?w = sd_start s" "qC ?w = qC s"
      by (simp_all add: writeSyncBatch_def put_counter_def qC_def)
    have s': "s' = ?w\<lparr>sd_inBatch := 0, sd_readers := (sd_readers s)[i := ?rd']\<rparr>"
      using step ask sel False by (auto simp: batch_exchange_def asking_def bufferRead_batch_def at_select_def Let_def
          set_reader_def writeSyncBatch_def put_counter_def)
    have w: "qinv f L c0 [] acc ?w M 0 D" by (rule qinv_counter(1) [OF inv(1) C sel(1)])
    have r: "reader_ok f (sd_start s) (qC s) 0 0 {} M ?rd'" if "live ?rd'"
      using rok ask(2) that by (auto simp: reader_ok_def dbRead_count_def live_def at_key_def split: if_splits)
    have m: "readers_ok f (sd_start s) (qC s) 0 0 {} M ((sd_readers s)[i := ?rd'])"
      by (rule readers_ok_move [OF ok ask(1) lv r]) auto
    have db0: "sd_inDb ?w = sd_inDb s" "sd_listening ?w = sd_listening s" by (simp_all add: writeSyncBatch_def put_counter_def)
    have nz: "sd_listening s \<longrightarrow> sd_inDb s \<noteq> 0" using inv(1) ask(1) lv by (auto simp: qinv_def qmode_def)
    have fs: "qC s' = qC s" "in_hand s' = in_hand ?w" "qget L s' = qget L ?w" "sd_start s' = sd_start s"
      "sd_sent s' = sd_sent ?w" "sd_inBatch s' = 0" "sd_readers s' = (sd_readers s)[i := ?rd']" "sd_batch s' = []"
      unfolding s' using fw(3,4) by (simp_all add: qC_def in_hand_def qget_def writeSyncBatch_def)
    have "qinv f L c0 [] acc s' M 0 {}"
      unfolding qinv_def fs
    proof (intro conjI)
      show "qmode f s' M" using w nz db0 unfolding qinv_def qmode_def s' by auto
      show "qstatic s'" using w unfolding qinv_def qstatic_def s' by simp
      show "qdone L s' 0" using sel by (simp add: s' qdone_def writeSyncBatch_def put_counter_def)
    qed (use w m D fw batch_ok_empty in \<open>simp_all add: qinv_def\<close>)
    then show ?thesis by blast
  qed
qed

lemma step_quit:
  assumes "qinv f L c0 [] acc s M b D" "bufferRead_quit s = Some (Ret s')"
  shows "qinv f L c0 [] acc s' M b D"
proof -
  have "s' = s\<lparr>sd_mode := DbMode, sd_listening := False, sd_bufClosed := True\<rparr>" "\<not> sd_done s" "sd_inflight s = None"
    using assms(2) by (auto simp: bufferRead_quit_def close_buffer_def at_select_def split: if_splits)
  then show ?thesis using assms(1) unfolding qinv_defs by simp
qed

lemma step_read_quit:
  assumes inv: "qinv f L c0 [] acc s M b D" and ask: "asking i s"
  shows "qinv f L c0 [] acc (set_reader i ((sd_readers s ! i)\<lparr>rd_pc := RReturned\<rparr>) s) M b {}"
proof -
  let ?rd = "sd_readers s ! i" let ?rd' = "?rd\<lparr>rd_pc := RReturned\<rparr>"
  have i: "i < length (sd_readers s)" "rd_pc ?rd = RAsk" "live ?rd" using ask by (auto simp: asking_def live_def)
  have ok: "readers_ok f (sd_start s) (qC s) (sd_inBatch s) b D M (sd_readers s)" using inv by (simp add: qinv_def)
  have "reader_ok f (sd_start s) (qC s) (sd_inBatch s) b D M ?rd" using ok i(1,3) by (simp add: readers_ok_def)
  then have D: "D = {}" using i(2) by (auto simp: reader_ok_def)
  have nl: "\<not> live ?rd'" by (simp add: live_def)
  have m: "readers_ok f (sd_start s) (qC s) (sd_inBatch s) b {} M ((sd_readers s)[i := ?rd'])"
    using readers_ok_move [OF ok i(1,3), of ?rd'] nl by blast
  have none: "\<not> live ((sd_readers s)[i := ?rd'] ! k)" if "k < length (sd_readers s)" for k
    using ok that i nl by (cases "k = i") (auto simp: readers_ok_def)
  show ?thesis using inv m none D unfolding qinv_defs set_reader_def by simp
qed

lemma step_read:
  assumes inv: "qinv f L c0 [] acc s M b D" "c0 + length acc < 2 ^ 64" and ok: "f \<longrightarrow> ok"
    and step: "readers_step L i ok True s = Some (Ret s')"
  shows "\<exists>M' b' D'. qinv f L c0 [] acc s' M' b' D'"
proof -
  let ?rd = "sd_readers s ! i"
  obtain rd db out where i: "i < length (sd_readers s)"
      and d: "dbRead_step L (sd_start s) ok True ?rd (sd_db s) = Some (rd, db, out)"
      and s': "s' = s\<lparr>sd_readers := (sd_readers s)[i := rd], sd_db := db, sd_sent := sd_sent s @ out\<rparr>"
    using step by (auto simp: readers_step_def set_reader_def split: if_splits option.splits)
  have lv: "live ?rd" using d by (auto simp: live_def dbRead_step_def)
  have C: "qC s < 2 ^ 64" using inv by (simp add: qinv_def)
  note parts = inv(1) [unfolded qinv_def]
  have rs: "readers_ok f (sd_start s) (qC s) (sd_inBatch s) b D M (sd_readers s)" using parts by simp
  have rok: "reader_ok f (sd_start s) (qC s) (sd_inBatch s) b D M ?rd" using rs i lv by (simp add: readers_ok_def)
  have st: "length (sd_start s) = 42" "hd (sd_start s) = 0" "\<not> ldb_comp (sd_db s)" "sd_counterKey s \<noteq> []" "hd (sd_counterKey s) \<noteq> 0"
    using parts by (auto simp: qstatic_def)
  have dbk: "db_ok (sd_start s) (ldb_Get L (ldb_db (sd_db s))) (qC s) b D M" using parts by (simp add: qget_def)
  have vok: "vals_ok M (qC s)" and bok: "batch_ok (sd_start s) (sd_batch s) (sd_inBatch s) (qC s) b M" using parts by simp_all
  have nz: "sd_listening s \<longrightarrow> sd_inDb s \<noteq> 0" using parts i lv by (auto simp: qmode_def)
  have comp: "\<not> ldb_comp db" using d st(3)
    by (auto simp: dbRead_step_def del_write_def LDBDatabase_Write_def Let_def split: read_pc.splits if_splits)
  have move: "readers_ok f (sd_start s) (qC s) (sd_inBatch s) b D' M' ((sd_readers s)[i := rd])"
    if "reader_ok f (sd_start s) (qC s) (sd_inBatch s) b D' M' rd" "live rd" for D' M'
    using readers_ok_move [OF rs i lv] that by blast
  have again: "live rd" using d by (auto simp: dbRead_step_def dbRead_again_def dbRead_reset_def live_def Let_def
        split: read_pc.splits if_splits)
  consider (seek) cnt where "rd_pc ?rd = RSeek cnt" | (loop) it n cnt del where "rd_pc ?rd = RLoop it n cnt del"
    using d by (cases "rd_pc ?rd") (auto simp: dbRead_step_def)
  then show ?thesis
  proof cases
    case seek
    have r: "reader_ok f (sd_start s) (qC s) (sd_inBatch s) b D M rd" "db = sd_db s" "out = []"
      using move_seek [OF rok seek dbk bok C st(1,2) d] by auto
    have "qinv f L c0 [] acc s' M b D"
      using inv(1) move [OF r(1) again] r(2,3) nz unfolding s' qinv_defs by auto
    then show ?thesis by blast
  next
    case loop
    from move_loop [OF rok loop dbk vok C st(1,2) d ok] show ?thesis
    proof (elim disjE exE conjE)
      assume r: "reader_ok f (sd_start s) (qC s) (sd_inBatch s) b {} M rd" "db_ok (sd_start s) (ldb_Get L (ldb_db db)) (qC s) b {} M"
        "\<forall>k. (k \<noteq> [] \<and> hd k \<noteq> 0) \<longrightarrow> ldb_Get L (ldb_db db) k = ldb_Get L (ldb_db (sd_db s)) k" "out = []"
      have "qinv f L c0 [] acc s' M b {}"
        using inv(1) move [OF r(1) again] r st(4,5) nz comp unfolding s' qinv_defs by auto
      then show ?thesis by blast
    next
      fix q q0 v
      assume r: "D = {q0..<q}" "q0 \<le> q" "q + b < qC s" "M q = Some v" "f \<longrightarrow> dom M = {q..<qC s}"
        "reader_ok f (sd_start s) (qC s) (sd_inBatch s) b {q0..<Suc q} (M(q := None)) rd" "db = sd_db s"
        "out = [REntry (ek (sd_start s) q) v]"
      let ?M = "M(q := None)"
      have h: "hist_ok f acc (sd_sent s @ out) ?M (qC s) (in_hand s)"
        unfolding r(8) using parts by (intro hist_ok_deliver [OF _ vok r(4,5)]) simp
      have db': "db_ok (sd_start s) (ldb_Get L (ldb_db (sd_db s))) (qC s) b {q0..<Suc q} ?M"
        using db_ok_deliver [OF _ r(3,2)] dbk r(1) by simp
      have "qinv f L c0 [] acc s' ?M b {q0..<Suc q}"
        using inv(1) move [OF r(6) again] h db' r(7) nz comp
          vals_ok_deliver [OF vok, of q] batch_ok_deliver [OF bok r(3)] unfolding s' qinv_defs by auto
      then show ?thesis by blast
    qed
  qed
qed

end

text \<open>What is still to be delivered is in the database or in the open batch.\<close>

lemma qinv_pending:
  assumes q: "qinv f L c0 [] acc s M b D" and bound: "c0 + length acc < 2 ^ 64" and c: "M c = Some v"
  shows "if c + b < qC s then ldb_Get L (ldb_db (sd_db s)) (entry_key (sd_start s) (of_nat c)) = Some v
    else BPut (entry_key (sd_start s) (of_nat c)) v \<in> set (sd_batch s)"
proof -
  have C: "qC s < 2 ^ 64" using q bound by (simp add: qinv_def)
  have k: "vals_ok M (qC s)" "db_ok (sd_start s) (qget L s) (qC s) b D M"
      "batch_ok (sd_start s) (sd_batch s) (sd_inBatch s) (qC s) b M"
    using q by (auto simp: qinv_def)
  have cC: "c < qC s" using k(1) c by (auto simp: vals_ok_def)
  show ?thesis
  proof (cases "c + b < qC s")
    case True
    have "c \<notin> D" using k(2) c by (auto simp: db_ok_def)
    then show ?thesis using k(2) C cC c True by (auto simp: db_ok_def qget_def ek_def)
  next
    case False
    then have "c \<in> set [qC s - b..<qC s]" using cC by auto
    moreover have "sd_batch s = map (\<lambda>c. BPut (ek (sd_start s) c) (the (M c))) [qC s - b..<qC s]" using k(3) by (simp add: batch_ok_def)
    ultimately show ?thesis using c False by (auto simp: ek_def image_iff)
  qed
qed

section \<open>Runs of a queue\<close>

text \<open>
  The events a run may have: well-formed requests are pushed, database writes succeed, nobody
  calls \<open>dbRead(false, \<dots>)\<close>; with the flag \<open>f\<close>, a delivery from the database succeeds.
\<close>

fun queue_ok :: "bool \<Rightarrow> sync_event \<Rightarrow> bool" where
  "queue_ok f (Push r) = plain_req r"
| "queue_ok f (Delivered ok gid wok) = wok"
| "queue_ok f (TakeDb gid wok) = wok"
| "queue_ok f (Batch i wok) = wok"
| "queue_ok f (ReadMove i ok wok) = (wok \<and> (f \<longrightarrow> ok))"
| "queue_ok f Replay = False"
| "queue_ok f _ = True"

fun accepted :: "sync_event list \<Rightarrow> sync_req list" where
  "accepted [] = []"
| "accepted (Push r # es) = r # accepted es"
| "accepted (_ # es) = accepted es"

text \<open>The machine that also keeps the list of the requests pushed so far.\<close>

fun logged_step :: "'d leveldb_ops \<Rightarrow> sync_event \<Rightarrow> 'd syncDb \<times> sync_req list \<Rightarrow> ('d syncDb \<times> sync_req list) option" where
  "logged_step L e (s, acc) =
     (case syncDb_step L e s of Some (Ret s') \<Rightarrow> Some (s', acc @ accepted [e]) | _ \<Rightarrow> None)"

lemma run_logged:
  "syncDb_run L es s0 = Some (Ret s) \<Longrightarrow> run_events (logged_step L) es (s0, acc) = Some (s, acc @ accepted es)"
proof (induction es arbitrary: s0 acc)
  case (Cons e es)
  obtain s1 where s1: "syncDb_step L e s0 = Some (Ret s1)" "syncDb_run L es s1 = Some (Ret s)"
    using Cons.prems by (auto split: option.splits go.splits)
  have "accepted [e] @ accepted es = accepted (e # es)" by (cases e) simp_all
  then show ?case using Cons.IH [OF s1(2), of "acc @ accepted [e]"] s1(1) by simp
qed simp

definition queue_inv :: "bool \<Rightarrow> 'd leveldb_ops \<Rightarrow> nat \<Rightarrow> 'd syncDb \<times> sync_req list \<Rightarrow> bool" where
  "queue_inv f L c0 = (\<lambda>(s, acc). c0 + length acc < 2 ^ 64 \<longrightarrow> (\<exists>M b D. qinv f L c0 [] acc s M b D))"

lemma queue_inv_step:
  assumes "leveldb L" "queue_inv f L c0 x" "queue_ok f e" "logged_step L e x = Some y"
  shows "queue_inv f L c0 y"
proof -
  obtain s acc s' where x: "x = (s, acc)" "y = (s', acc @ accepted [e])" "syncDb_step L e s = Some (Ret s')"
    using assms(4) by (cases x) (auto split: option.splits go.splits)
  note step = x(3)
  show ?thesis unfolding x(2) queue_inv_def
  proof (clarify)
    assume b: "c0 + length (acc @ accepted [e]) < 2 ^ 64"
    then have b': "c0 + length acc < 2 ^ 64" by simp
    then obtain M k D where q: "qinv f L c0 [] acc s M k D" using assms(2) x(1) by (auto simp: queue_inv_def)
    show "\<exists>M b D. qinv f L c0 [] (acc @ accepted [e]) s' M b D"
    proof (cases e)
      case (Push r)
      then show ?thesis using leveldb.step_push [OF assms(1) q] assms(3) step by (simp; blast)
    next
      case Take
      then show ?thesis using leveldb.step_take [OF assms(1) q] step by (simp; blast)
    next
      case (Delivered ok gid wok)
      then show ?thesis using leveldb.step_delivered [OF assms(1) q b'] assms(3) step by (simp; blast)
    next
      case (TakeDb gid wok)
      then show ?thesis using leveldb.step_db [OF assms(1) q b'] assms(3) step by (simp; blast)
    next
      case (Batch i wok)
      then show ?thesis using leveldb.step_batch [OF assms(1) q b'] assms(3) step by (simp; blast)
    next
      case Stop
      then have "s' = s\<lparr>sd_quit := True\<rparr>" using step by (auto simp: syncDb_stop_def split: if_splits)
      then have "qinv f L c0 [] acc s' M k D" using q unfolding qinv_defs by simp
      then show ?thesis using Stop by (simp; blast)
    next
      case SeeQuit
      then show ?thesis using leveldb.step_quit [OF assms(1) q] step by (simp; blast)
    next
      case (ReadQuit i)
      then show ?thesis using leveldb.step_read_quit [OF assms(1) q] step by (simp split: if_splits) blast
    next
      case (ReadMove i ok wok)
      then show ?thesis using leveldb.step_read [OF assms(1) q b'] assms(3) step by (simp; blast)
    qed (use assms(3) in simp)
  qed
qed

sublocale leveldb \<subseteq> queue: event_invariant "logged_step L" "queue_ok f" "queue_inv f L c0" for f c0
  by unfold_locales (rule queue_inv_step [OF leveldb_axioms])

end
