(* ===== verification/Sync_Db_Runs.thy ===== *)
theory Sync_Db_Runs
  imports Sync_Db_Props
begin

text \<open>
  Runs of a delivery queue from its start: it opens when nothing is pending, loses nothing,
  keeps its order and saves its backlog. Then the runs in which the code does not do what it
  means to.
\<close>

section \<open>A queue is opened\<close>

text \<open>
  A fresh request database has no entries of any queue: no key starts with the byte \<open>0\<close>.
\<close>

definition no_entries :: "'d leveldb_ops \<Rightarrow> 'd LDBDatabase \<Rightarrow> bool" where
  "no_entries L db \<longleftrightarrow> \<not> ldb_comp db \<and> (\<forall>k. ldb_Get L (ldb_db db) k \<noteq> None \<longrightarrow> k \<noteq> [] \<and> hd k \<noteq> 0)"

text \<open>What \<open>sync\<close> does first with each queue, when nothing else moves: \<open>dbRead(false, 0, \<dots>)\<close> runs.\<close>

definition open_events :: "nat \<Rightarrow> sync_event list" where
  "open_events n = Replay # replicate n (ReadMove 0 True True) @ [Batch 0 True]"


definition opened :: "'d leveldb_ops \<Rightarrow> 'd LDBDatabase \<Rightarrow> 'd syncDb \<Rightarrow> 'd syncDb" where
  "opened L db s0 = s0\<lparr>sd_mode := BufferMode, sd_db := db,
     sd_readers := [\<lparr>rd_key = sd_start s0, rd_useBatches = True, rd_pc = RReturned\<rparr>]\<rparr>"

definition fresh :: "'d leveldb_ops \<Rightarrow> 'd syncDb \<Rightarrow> bool" where
  "fresh L s \<longleftrightarrow> qstatic s \<and> no_entries L (sd_db s) \<and> sd_mode s = Idle \<and> sd_readers s = [] \<and> sd_listening s \<and> \<not> sd_done s
     \<and> sd_inflight s = None \<and> sd_buffer s = [] \<and> sd_batch s = [] \<and> sd_inBatch s = 0 \<and> sd_inDb s = 0 \<and> sd_sent s = []
     \<and> \<not> sd_bufClosed s \<and> \<not> sd_quit s"

lemma start_key_shape: "length (start_key key p) = 42" "hd (start_key key p) = 0"
  by (simp_all add: start_key_def slice_put_def go_copy_def hd_append numeral_eq_Suc)

lemma counter_key_shape: "counter_key start \<noteq> []" "hd (counter_key start) = 1"
  by (simp_all add: counter_key_def counterKeyPrefix_def slice_put_def go_copy_def hd_append numeral_eq_Suc)

lemma newSyncDb_fresh:
  assumes "no_entries L db" "newSyncDb L rle db key p cap bs = Some s"
  shows "fresh L s" "sd_db s = db" "sd_cap s = cap"
proof -
  have "\<not> ldb_comp db" using assms(1) by (simp add: no_entries_def)
  then show "fresh L s" "sd_db s = db" "sd_cap s = cap"
    using assms by (auto simp: newSyncDb_def fresh_def qstatic_def start_key_shape counter_key_shape Let_def
        split: option.splits if_splits)
qed

lemma go_copy_same: "length a = length b \<Longrightarrow> go_copy a b = b"
  by (simp add: go_copy_def)

lemma hd_go_copy: "a \<noteq> [] \<Longrightarrow> b \<noteq> [] \<Longrightarrow> hd (go_copy a b) = hd b"
  by (cases a; cases b) (simp_all add: go_copy_def)

lemma dropWhile_Cons_mem: "dropWhile P xs = x # ys \<Longrightarrow> x \<in> set xs"
  using set_dropWhileD [of x P xs] by simp

lemma syncDb_run_append:
  "syncDb_run L (xs @ ys) s = (case syncDb_run L xs s of Some (Ret s') \<Rightarrow> syncDb_run L ys s' | r \<Rightarrow> r)"
  by (induction xs arbitrary: s) (simp_all split: option.split go.split)

context leveldb
begin

text \<open>The replay of a queue when nothing is pending: one or two moves, then the reader asks.\<close>

lemma replay_moves:
  assumes "no_entries L db" "length start = 42" "rd = new_reader start False 0"
  defines "it \<equiv> it_Seek (LDBDatabase_NewIterator L db) (rd_key rd)"
  shows "\<not> it_Valid it \<Longrightarrow> dbRead_step L start True True rd db = Some (\<lparr>rd_key = start, rd_useBatches = True, rd_pc = RAsk\<rparr>, db, [])"
    "it_Valid it \<Longrightarrow> dbRead_step L start True True rd db = Some (rd\<lparr>rd_pc := RLoop it 0 0 []\<rparr>, db, [])"
    "it_Valid it \<Longrightarrow> dbRead_step L start True True (rd\<lparr>rd_pc := RLoop it 0 0 []\<rparr>) db =
       Some (\<lparr>rd_key = start, rd_useBatches = True, rd_pc = RAsk\<rparr>, LDBDatabase_Write L db [], [])"
proof -
  have rd: "rd_pc rd = RSeek 0" "rd_useBatches rd = False" "length (rd_key rd) = 42"
    using assms(2,3) by (simp_all add: new_reader_def slice_put_def)
  then have nz: "rd_key rd \<noteq> []" by auto
  have go: "length k = 42 \<Longrightarrow> go_copy k start = start" for k using assms(2) go_copy_same [of k start] by simp
  show "\<not> it_Valid it \<Longrightarrow> dbRead_step L start True True rd db = Some (\<lparr>rd_key = start, rd_useBatches = True, rd_pc = RAsk\<rparr>, db, [])"
    using rd go by (simp add: dbRead_step_def it_def Let_def dbRead_again_def dbRead_reset_def)
  show "it_Valid it \<Longrightarrow> dbRead_step L start True True rd db = Some (rd\<lparr>rd_pc := RLoop it 0 0 []\<rparr>, db, [])"
    using rd by (simp add: dbRead_step_def it_def Let_def)
  assume "it_Valid it"
  then obtain e r where it: "it_rest it = e # r" by (cases "it_rest it") (auto simp: it_defs)
  then have "e \<in> set (ldb_snapshot L (ldb_db db))" using dropWhile_Cons_mem by (auto simp: it_def it_defs)
  then have "ldb_Get L (ldb_db db) (fst e) = Some (snd e)" using snapshot_mem [of "fst e" "snd e"] by simp
  then have e: "fst e \<noteq> []" "hd (fst e) \<noteq> 0" using assms(1) by (auto simp: no_entries_def)
  have "hd (go_copy (rd_key rd) (fst e)) \<noteq> 0" using hd_go_copy [OF nz e(1)] e(2) by simp
  then show "dbRead_step L start True True (rd\<lparr>rd_pc := RLoop it 0 0 []\<rparr>) db =
       Some (\<lparr>rd_key = start, rd_useBatches = True, rd_pc = RAsk\<rparr>, LDBDatabase_Write L db [], [])"
    using rd go it by (simp add: dbRead_step_def Let_def it_Key_def dbRead_again_def dbRead_reset_def del_write_def)
qed

lemma open_run:
  assumes fresh: "fresh L s0"
  defines "w \<equiv> LDBDatabase_Write L (sd_db s0) []"
  defines "v \<equiv> it_Valid (it_Seek (LDBDatabase_NewIterator L (sd_db s0)) (rd_key (new_reader (sd_start s0) False 0)))"
  shows "syncDb_run L (open_events n) s0 =
    (if \<not> v \<and> n = 1 then Some (Ret (opened L (sd_db s0) s0)) else if v \<and> n = 2 then Some (Ret (opened L w s0)) else None)"
proof -
  have s: "no_entries L (sd_db s0)" "length (sd_start s0) = 42" "sd_readers s0 = []" "sd_inflight s0 = None" "\<not> sd_done s0"
      "sd_listening s0" "sd_inBatch s0 = 0" "sd_inDb s0 = 0" "sd_sent s0 = []"
    using fresh by (auto simp: fresh_def qstatic_def)
  note m = replay_moves [OF s(1,2) refl]
  define st where "st = (\<lambda>rd db. s0\<lparr>sd_readers := [rd], sd_db := db\<rparr>)"
  let ?rd0 = "new_reader (sd_start s0) False 0"
  let ?ask = "\<lparr>rd_key = sd_start s0, rd_useBatches = True, rd_pc = RAsk\<rparr>"
  have ask: "syncDb_step L (Batch 0 True) (st ?ask db) = Some (Ret (opened L db s0))" for db
    using s by (simp add: st_def batch_exchange_def asking_def bufferRead_batch_def at_select_def dbRead_count_def
        set_reader_def opened_def)
  have keep: "(st rd db)\<lparr>sd_sent := []\<rparr> = st rd db" for rd db using s(9) by (cases s0) (simp add: st_def)
  have first: "syncDb_run L (open_events n) s0 = syncDb_run L (replicate n (ReadMove 0 True True) @ [Batch 0 True]) (st ?rd0 (sd_db s0))"
    using s(3) by (simp add: open_events_def st_def)
  have read: "syncDb_step L (ReadMove 0 True True) (st rd db) = Some (Ret (st rd' db'))"
    if "dbRead_step L (sd_start s0) True True rd db = Some (rd', db', [])" for rd db rd' db'
    using that s(9) keep [of rd' db'] by (simp add: st_def readers_step_def set_reader_def)
  have stuck: "syncDb_step L (ReadMove 0 True True) (st ?ask db) = None" for db
    by (simp add: st_def readers_step_def dbRead_step_def)
  have noask: "syncDb_step L (Batch 0 True) (st rd db) = None" if "rd_pc rd \<noteq> RAsk" for rd db
    using that by (simp add: st_def asking_def batch_exchange_def)
  have rd0: "rd_pc ?rd0 \<noteq> RAsk" by (simp add: new_reader_def)
  show ?thesis
  proof (cases v)
    case True
    note go = read [OF m(2) [OF True [unfolded v_def]]] read [OF m(3) [OF True [unfolded v_def]]]
    consider "n = 0" | "n = 1" | "n = 2" | k where "n = Suc (Suc (Suc k))" by (cases n; cases "n - 1"; cases "n - 2") auto
    then show ?thesis
      using True go ask [of w] stuck noask [OF rd0] noask unfolding first
      by cases (simp_all del: syncDb_step.simps add: w_def numeral_2_eq_2)
  next
    case False
    note go = read [OF m(1) [OF False [unfolded v_def]]]
    consider "n = 0" | "n = 1" | k where "n = Suc (Suc k)" by (cases n; cases "n - 1") auto
    then show ?thesis
      using False go ask [of "sd_db s0"] stuck noask [OF rd0] unfolding first
      by cases (simp_all del: syncDb_step.simps)
  qed
qed

lemma opened_inv:
  assumes "fresh L s0" "syncDb_run L (open_events n) s0 = Some (Ret s1)"
  shows "queue_inv f L (qC s0) (s1, [])" "sd_mode s1 = BufferMode" "sd_start s1 = sd_start s0"
    "sd_counterKey s1 = sd_counterKey s0"
proof -
  obtain db where s1: "s1 = opened L db s0" and db: "ldb_Get L (ldb_db db) = ldb_Get L (ldb_db (sd_db s0))" "ldb_comp db = ldb_comp (sd_db s0)"
    using assms(2) Write_get [of "sd_db s0" "[]"] unfolding open_run [OF assms(1)]
    by (auto split: if_splits simp: LDBDatabase_Write_def)
  have st: "length (sd_start s0) = 42" "hd (sd_start s0) = 0" "qstatic s0" "no_entries L (sd_db s0)"
    using assms(1) by (auto simp: fresh_def qstatic_def)
  have none: "ldb_Get L (ldb_db db) k = None" if "k = [] \<or> hd k = 0" for k
    using st(4) that unfolding db(1) no_entries_def by blast
  have "db_ok (sd_start s0) (ldb_Get L (ldb_db db)) C 0 {} Map.empty" for C
    unfolding db_ok_def using none hd_ek [OF st(1)] st(2) by auto
  then have "qinv f L (qC s0) [] [] s1 Map.empty 0 {}"
    using assms(1) db(2) st(3) unfolding s1 opened_def qinv_defs fresh_def
    by (auto simp: vals_ok_def batch_ok_def readers_ok_def hist_ok_def live_def)
  then show "queue_inv f L (qC s0) (s1, [])" by (auto simp: queue_inv_def)
  show "sd_mode s1 = BufferMode" "sd_start s1 = sd_start s0" "sd_counterKey s1 = sd_counterKey s0"
    by (simp_all add: s1 opened_def)
qed

lemma queue_run_inv:
  assumes "no_entries L db" "newSyncDb L rle db key p cap bs = Some s0"
    "syncDb_run L (open_events n @ es) s0 = Some (Ret s)" "list_all (queue_ok f) es"
    "unat (sd_counter s0) + length (accepted es) < 2 ^ 64"
  shows "\<exists>M b D. qinv f L (unat (sd_counter s0)) [] (accepted es) s M b D"
proof -
  have fresh: "fresh L s0" by (rule newSyncDb_fresh(1) [OF assms(1,2)])
  obtain s1 where s1: "syncDb_run L (open_events n) s0 = Some (Ret s1)" "syncDb_run L es s1 = Some (Ret s)"
    using assms(3) by (auto simp: syncDb_run_append split: option.splits go.splits)
  then show ?thesis
    using queue.run_inv [OF opened_inv(1) [OF fresh s1(1)] assms(4) run_logged [OF s1(2)]] assms(5)
    by (simp add: queue_inv_def qC_def)
qed

end

text \<open>The keys of the map \<open>M\<close> that the queue still has to deliver.\<close>

definition pending :: "(nat \<rightharpoonup> bytes) \<Rightarrow> Key multiset" where
  "pending M = image_mset (\<lambda>c. take 32 (the (M c))) (mset_set (dom M))"

section \<open>Properties\<close>

text \<open>
  A queue whose request database holds no entries opens: the replay that \<open>sync\<close> starts
  with ends after at most two moves of the reader, its request for a batch is answered, and the
  queue is in buffer mode, where it delivers directly.
\<close>

theorem syncdb_opens:
  assumes "leveldb L" "no_entries L db" "newSyncDb L rle db key p cap bs = Some s0"
  shows "\<exists>n \<le> 2. \<exists>s. syncDb_run L (open_events n) s0 = Some (Ret s) \<and> sd_mode s = BufferMode \<and> sd_readers s \<noteq> []
    \<and> (\<forall>rd \<in> set (sd_readers s). rd_pc rd = RReturned)"
proof -
  note run = leveldb.open_run [OF assms(1) newSyncDb_fresh(1) [OF assms(2,3)]]
  have o: "sd_mode (opened L d s0) = BufferMode" "sd_readers (opened L d s0) \<noteq> []"
      "\<forall>rd \<in> set (sd_readers (opened L d s0)). rd_pc rd = RReturned" for d
    by (simp_all add: opened_def)
  let ?v = "it_Valid (it_Seek (LDBDatabase_NewIterator L (sd_db s0)) (rd_key (new_reader (sd_start s0) False 0)))"
  show ?thesis
  proof (cases ?v)
    case True
    then show ?thesis using run [of 2] o by (intro exI [of _ 2]) simp
  next
    case False
    then show ?thesis using run [of 1] o by (intro exI [of _ 1]) simp
  qed
qed

text \<open>
  C3: nothing a queue has accepted is lost, whatever the order in which its goroutines move and
  whichever deliveries fail: at every moment the accepted requests are, with their multiplicities, those delivered, those
  in memory (the buffer and the one being delivered) and a set \<open>M\<close> of entries, each of
  which is in the request database under this queue's prefix or in the batch about to be written.
\<close>

theorem syncdb_nothing_lost:
  assumes "leveldb L" "no_entries L db" "newSyncDb L rle db key p cap bs = Some s0"
    "syncDb_run L (open_events n @ es) s0 = Some (Ret s)" "list_all (queue_ok False) es"
    "unat (sd_counter s0) + length (accepted es) < 2 ^ 64"
  shows "\<exists>M. mset (map req_key (accepted es)) = mset (map req_key (sd_sent s)) + pending M + mset (map req_key (in_hand s))
    \<and> (\<forall>c v. M c = Some v \<longrightarrow> ldb_Get L (ldb_db (sd_db s)) (entry_key (sd_start s) (of_nat c)) = Some v
         \<or> BPut (entry_key (sd_start s) (of_nat c)) v \<in> set (sd_batch s))"
proof -
  obtain M b D where q: "qinv False L (unat (sd_counter s0)) [] (accepted es) s M b D"
    using leveldb.queue_run_inv [OF assms] by blast
  have "mset (map req_key (accepted es)) = mset (map req_key (sd_sent s)) + pending M + mset (map req_key (in_hand s))"
    using q by (simp add: qinv_def hist_ok_def pending_def)
  moreover have "ldb_Get L (ldb_db (sd_db s)) (entry_key (sd_start s) (of_nat c)) = Some v
         \<or> BPut (entry_key (sd_start s) (of_nat c)) v \<in> set (sd_batch s)" if "M c = Some v" for c v
    using qinv_pending [OF q assms(6) that] by (simp split: if_splits)
  ultimately show ?thesis by blast
qed

text \<open>
  C20: a queue that has finished has saved its backlog: the requests it accepted are those it
  delivered and the entries of the request database at its own keys, and the database holds the
  counter at which the next session goes on.
\<close>

theorem syncdb_backlog_saved:
  assumes "leveldb L" "no_entries L db" "newSyncDb L rle db key p cap bs = Some s0"
    "syncDb_run L (open_events n @ es) s0 = Some (Ret s)" "list_all (queue_ok False) es"
    "unat (sd_counter s0) + length (accepted es) < 2 ^ 64" "sd_done s"
  shows "\<exists>M. mset (map req_key (accepted es)) = mset (map req_key (sd_sent s)) + pending M
    \<and> (\<forall>c v. M c = Some v \<longrightarrow> c < unat (sd_counter s)
         \<and> ldb_Get L (ldb_db (sd_db s)) (entry_key (sd_start s) (of_nat c)) = Some v)
    \<and> ldb_Get L (ldb_db (sd_db s)) (sd_counterKey s) = Some (BigEndian_PutUint64 (sd_counter s))"
proof -
  obtain M b D where q: "qinv False L (unat (sd_counter s0)) [] (accepted es) s M b D"
    using leveldb.queue_run_inv [OF assms(1-6)] by blast
  have d: "b = 0" "in_hand s = []" "ldb_Get L (ldb_db (sd_db s)) (sd_counterKey s) = Some (BigEndian_PutUint64 (sd_counter s))"
    using q assms(7) by (auto simp: qinv_def qdone_def qget_def in_hand_def)
  have "mset (map req_key (accepted es)) = mset (map req_key (sd_sent s)) + pending M"
    using q d(2) by (simp add: qinv_def hist_ok_def pending_def)
  moreover have "c < unat (sd_counter s) \<and> ldb_Get L (ldb_db (sd_db s)) (entry_key (sd_start s) (of_nat c)) = Some v"
    if "M c = Some v" for c v
  proof -
    have "c < unat (sd_counter s)" using q that by (auto simp: qinv_def vals_ok_def qC_def)
    then show ?thesis using qinv_pending [OF q assms(6) that] d(1) by (simp add: qC_def)
  qed
  ultimately show ?thesis using d(3) by blast
qed

text \<open>
  C19: a queue keeps the order: while every delivery from the database succeeds (a delivery
  from the buffer may fail), the requests delivered are at every moment an initial part of the
  requests accepted, in the same order, across the switches between buffer and database mode.
\<close>

theorem syncdb_fifo:
  assumes "leveldb L" "no_entries L db" "newSyncDb L rle db key p cap bs = Some s0"
    "syncDb_run L (open_events n @ es) s0 = Some (Ret s)" "list_all (queue_ok True) es"
    "unat (sd_counter s0) + length (accepted es) < 2 ^ 64"
  shows "prefix (map req_key (sd_sent s)) (map req_key (accepted es))"
proof -
  obtain M b D where "qinv True L (unat (sd_counter s0)) [] (accepted es) s M b D"
    using leveldb.queue_run_inv [OF assms] by blast
  then show ?thesis by (auto simp: qinv_def hist_ok_def)
qed

section \<open>A concrete session\<close>

definition demo_key :: "nat \<Rightarrow> Key" where
  "demo_key n = replicate 32 (of_nat n)"

definition demo_db :: "memdb_t LDBDatabase" where
  "demo_db = NewLDBDatabase mem_empty"

definition demo_new :: "memdb_t syncDb option" where
  "demo_new = newSyncDb memdb_ops (id, Some) demo_db (demo_key 7) 2 3 2"

text \<open>
  Five requests: the first is delivered while the buffer fills up, three go to the database, from where
  two are delivered; the fifth comes as the queue is stopped.
\<close>

definition demo_events :: "sync_event list" where
  "demo_events = [Push (RKey (demo_key 1)), Take, Push (RKey (demo_key 2)), Push (RKey (demo_key 3)), Push (RKey (demo_key 4)),
     Delivered True 0 True, TakeDb 0 True, TakeDb 0 True, TakeDb 0 True, Batch 1 True, ReadMove 1 True True,
     ReadMove 1 True True, ReadMove 1 True True, Push (RKey (demo_key 5)), Stop, SeeQuit, TakeDb 0 True, TakeDb 0 True]"

definition demo_end :: "memdb_t syncDb" where
  "demo_end = (case syncDb_run memdb_ops (open_events 1 @ demo_events) (the demo_new) of Some (Ret s) \<Rightarrow> s | _ \<Rightarrow> the demo_new)"

lemma demo_no_entries: "no_entries memdb_ops demo_db"
  by (simp add: no_entries_def demo_db_def NewLDBDatabase_def memdb_ops_def mem_get_def)

lemma demo_new_Some: "newSyncDb memdb_ops (id, Some) demo_db (demo_key 7) 2 3 2 = Some (the demo_new)"
  by code_simp

lemma demo_bound: "unat (sd_counter (the demo_new)) + length (accepted demo_events) < 2 ^ 64"
proof -
  have "unat (sd_counter (the demo_new)) + length (accepted demo_events) = 5" by code_simp
  then show ?thesis by simp
qed

lemma demo_run: "syncDb_run memdb_ops (open_events 1 @ demo_events) (the demo_new) = Some (Ret demo_end)"
  by code_simp

lemma demo_result: "map req_key (sd_sent demo_end) = [demo_key 1, demo_key 2, demo_key 3]" "sd_done demo_end"
  by code_simp+

lemma demo_accepted: "list_all (queue_ok f) demo_events" "map req_key (accepted demo_events) = map demo_key [1, 2, 3, 4, 5]"
  by (simp_all add: demo_events_def demo_key_def)

lemmas demo = mem.leveldb_axioms demo_no_entries demo_new_Some demo_run

theorem syncdb_opens_witness:
  "\<exists>n \<le> 2. \<exists>s. syncDb_run memdb_ops (open_events n) (the demo_new) = Some (Ret s) \<and> sd_mode s = BufferMode
    \<and> sd_readers s \<noteq> [] \<and> (\<forall>rd \<in> set (sd_readers s). rd_pc rd = RReturned)"
  by (rule syncdb_opens [OF demo(1-3)])

theorem syncdb_nothing_lost_witness:
  "\<exists>M. mset (map demo_key [1, 2, 3, 4, 5]) =
       mset (map demo_key [1, 2, 3]) + pending M + mset (map req_key (in_hand demo_end))"
  using syncdb_nothing_lost [OF demo demo_accepted(1) demo_bound] demo_result(1) demo_accepted(2) by auto

theorem syncdb_backlog_saved_witness:
  "\<exists>M. mset (map demo_key [1, 2, 3, 4, 5]) = mset (map demo_key [1, 2, 3]) + pending M
    \<and> (\<forall>c v. M c = Some v \<longrightarrow> ldb_Get memdb_ops (ldb_db (sd_db demo_end)) (entry_key (sd_start demo_end) (of_nat c)) = Some v)"
  using syncdb_backlog_saved [OF demo demo_accepted(1) demo_bound demo_result(2)] demo_result(1) demo_accepted(2) by auto

theorem syncdb_fifo_witness:
  "prefix (map req_key (sd_sent demo_end)) (map demo_key [1, 2, 3, 4, 5]) \<and> length (sd_sent demo_end) = 3"
proof
  show "prefix (map req_key (sd_sent demo_end)) (map demo_key [1, 2, 3, 4, 5])"
    using syncdb_fifo [OF demo demo_accepted(1) demo_bound] unfolding demo_accepted(2) .
  show "length (sd_sent demo_end) = 3" using arg_cong [OF demo_result(1), of length] by simp
qed

section \<open>Where the queue does not do what it means to\<close>

text \<open>A queue that nobody replays stays in its initial state until it is stopped.\<close>

definition idle_inv :: "nat \<Rightarrow> 'd syncDb \<times> sync_req list \<Rightarrow> bool" where
  "idle_inv cap = (\<lambda>(s, acc). sd_cap s = cap \<and> sd_readers s = [] \<and> sd_sent s = [] \<and> sd_inflight s = None \<and> length acc \<le> cap
     \<and> (if sd_mode s = Idle then sd_listening s \<and> sd_buffer s = acc
        else sd_mode s = DbMode \<and> \<not> sd_listening s \<and> sd_bufClosed s))"

lemma save_request_idle:
  assumes "save_request L gid wok r s = Ret s'" "\<not> sd_listening s"
  shows "sd_readers s' = sd_readers s" "sd_sent s' = sd_sent s" "sd_inflight s' = sd_inflight s" "sd_mode s' = sd_mode s"
    "sd_listening s' = sd_listening s" "sd_bufClosed s' = sd_bufClosed s" "sd_cap s' = sd_cap s"
  using assms by (auto simp: save_request_def writeSyncBatch_def Let_def split: option.splits prod.splits if_splits)

lemma idle_step:
  assumes "idle_inv cap x" "e \<noteq> Replay" "logged_step L e x = Some y"
  shows "idle_inv cap y"
proof -
  obtain s acc s' where x: "x = (s, acc)" "y = (s', acc @ accepted [e])" "syncDb_step L e s = Some (Ret s')"
    using assms(3) by (cases x) (auto split: option.splits go.splits)
  have i: "sd_cap s = cap" "sd_readers s = []" "sd_sent s = []" "sd_inflight s = None" "length acc \<le> cap"
      "if sd_mode s = Idle then sd_listening s \<and> sd_buffer s = acc else sd_mode s = DbMode \<and> \<not> sd_listening s \<and> sd_bufClosed s"
    using assms(1) x(1) by (auto simp: idle_inv_def)
  show ?thesis
  proof (cases e)
    case (TakeDb gid wok)
    then have m: "sd_mode s = DbMode" "\<not> sd_listening s" "sd_bufClosed s"
      using x(3) i(6) by (auto simp: bufferRead_db_def split: if_splits)
    show ?thesis
    proof (cases "sd_buffer s")
      case Nil
      then show ?thesis using x i m TakeDb
        by (auto simp: bufferRead_db_def idle_inv_def writeSyncBatch_def put_counter_def split: if_splits)
    next
      case (Cons r rest)
      then have sv: "save_request L gid wok r (s\<lparr>sd_buffer := rest, sd_dbTotal := sd_dbTotal s + 1, sd_total := sd_total s + 1\<rparr>) = Ret s'"
        using x(3) TakeDb m(1) by (auto simp: bufferRead_db_def split: if_splits)
      then show ?thesis using save_request_idle [OF sv] x(2) i m TakeDb by (simp add: idle_inv_def)
    qed
  qed (use x i assms(2) in \<open>auto simp: idle_inv_def syncDb_push_def bufferRead_take_def bufferRead_delivered_def
      batch_exchange_def asking_def syncDb_stop_def bufferRead_quit_def close_buffer_def readers_step_def split: if_splits\<close>)
qed

interpretation idle: event_invariant "logged_step L" "\<lambda>e. e \<noteq> Replay" "idle_inv cap" for L cap
  by unfold_locales (rule idle_step)

text \<open>
  \<open>sync\<close> returns without replaying when the peer's state has \<open>SessionAt = 0\<close> (and is not
  started when the sync gate is closed). A queue that is not replayed never leaves its first
  select: whatever happens it delivers nothing and accepts at most as many requests as its buffer holds.
\<close>

theorem syncdb_unreplayed_never_delivers:
  assumes "newSyncDb L rle db key p cap bs = Some s0" "list_all (\<lambda>e. e \<noteq> Replay) es" "syncDb_run L es s0 = Some (Ret s)"
  shows "sd_sent s = [] \<and> length (accepted es) \<le> cap"
proof -
  have "idle_inv cap (s0, [])"
    using assms(1) by (auto simp: newSyncDb_def idle_inv_def Let_def split: option.splits if_splits)
  then have "idle_inv cap (s, [] @ accepted es)" using idle.run_inv assms(2) run_logged [OF assms(3)] by blast
  then show ?thesis by (simp add: idle_inv_def)
qed

theorem syncdb_unreplayed_never_delivers_witness:
  "\<exists>s. syncDb_run memdb_ops [Push (RKey (demo_key 1)), Push (RKey (demo_key 2)), Stop, SeeQuit] (the demo_new) = Some (Ret s)
    \<and> sd_sent s = []"
proof -
  let ?es = "[Push (RKey (demo_key 1)), Push (RKey (demo_key 2)), Stop, SeeQuit]"
  have "\<exists>s. syncDb_run memdb_ops ?es s0 = Some (Ret s)" if "newSyncDb memdb_ops (id, Some) demo_db (demo_key 7) 2 3 2 = Some s0" for s0
    using that by (auto simp: newSyncDb_def Let_def syncDb_push_def syncDb_stop_def bufferRead_quit_def close_buffer_def at_select_def
        split: option.splits if_splits)
  then obtain s where s: "syncDb_run memdb_ops ?es (the demo_new) = Some (Ret s)" using demo_new_Some by blast
  then show ?thesis using syncdb_unreplayed_never_delivers [OF demo_new_Some _ s] by auto
qed

text \<open>A replay whose callback refuses the entries: what stays true of the reader.\<close>

definition entries_ok :: "'d leveldb_ops \<Rightarrow> 'd LDBDatabase \<Rightarrow> bool" where
  "entries_ok L db \<longleftrightarrow> (\<forall>e \<in> set (ldb_snapshot L (ldb_db db)). fst e \<noteq> [] \<longrightarrow> hd (fst e) = 0 \<longrightarrow> length (fst e) = 42)"

definition spins :: "'d leveldb_ops \<Rightarrow> bytes \<Rightarrow> nat \<Rightarrow> 'd syncDb \<Rightarrow> bool" where
  "spins L k i s \<longleftrightarrow> i < length (sd_readers s) \<and> \<not> rd_useBatches (sd_readers s ! i) \<and> length (rd_key (sd_readers s ! i)) = 42
     \<and> rd_key (sd_readers s ! i) \<le> k \<and> qget L s k \<noteq> None \<and> entries_ok L (sd_db s)
     \<and> (case rd_pc (sd_readers s ! i) of
          RSeek cnt \<Rightarrow> True
        | RLoop it n cnt del \<Rightarrow> del = [] \<and> (\<exists>e r. it_rest it = e # r \<and> length (fst e) = 42 \<and> hd (fst e) = 0 \<and> fst e \<le> k)
        | _ \<Rightarrow> False)"

context leveldb
begin

lemma seek_first:
  assumes "ldb_Get L (ldb_db db) k \<noteq> None" "hd k = 0" "rk \<le> k" "rk \<noteq> []" "entries_ok L db"
  shows "\<exists>e r. it_rest (it_Seek (LDBDatabase_NewIterator L db) rk) = e # r \<and> length (fst e) = 42 \<and> hd (fst e) = 0 \<and> fst e \<le> k"
proof -
  let ?sn = "ldb_snapshot L (ldb_db db)"
  obtain v where v: "(k, v) \<in> set ?sn" using assms(1) snapshot_mem by blast
  let ?d = "dropWhile (\<lambda>e. fst e < rk) ?sn"
  have "(k, v) \<in> set (takeWhile (\<lambda>e. fst e < rk) ?sn) \<or> (k, v) \<in> set ?d"
    using v set_append [of "takeWhile (\<lambda>e. fst e < rk) ?sn" ?d] by simp
  moreover have "(k, v) \<notin> set (takeWhile (\<lambda>e. fst e < rk) ?sn)" using assms(3) set_takeWhileD by fastforce
  ultimately have kd: "(k, v) \<in> set ?d" by simp
  then obtain e r where er: "?d = e # r" by (cases ?d) auto
  have "sorted_wrt (\<lambda>a b. fst a < fst b) ?sn" using snapshot_sorted by (simp add: sorted_wrt_map)
  then have "sorted_wrt (\<lambda>a b. fst a < fst b) ?d"
    using sorted_wrt_append [of "\<lambda>a b. fst a < fst b" "takeWhile (\<lambda>e. fst e < rk) ?sn" ?d] by simp
  then have le: "fst e \<le> k" using er kd by auto
  have "\<not> fst e < rk" using er hd_dropWhile [of "\<lambda>e. fst e < rk" ?sn] by auto
  then have ne: "fst e \<noteq> []" using assms(4) by (cases rk) auto
  have "hd (fst e) = 0" using hd_zero_below [of "fst e" k 0] le ne assms(2) by (cases "fst e = k") auto
  moreover have "e \<in> set ?sn" using er dropWhile_Cons_mem by fastforce
  ultimately show ?thesis using le ne er assms(5) by (auto simp: it_defs entries_ok_def)
qed

lemma snapshot_write_nil: "ldb_snapshot L (ldb_Write L d []) = ldb_snapshot L d"
proof (rule map_sorted_distinct_set_unique)
  let ?a = "ldb_snapshot L (ldb_Write L d [])" and ?b = "ldb_snapshot L d"
  have mem: "x \<in> set ?a \<longleftrightarrow> x \<in> set ?b" for x
    using snapshot_mem [of "fst x" "snd x" "ldb_Write L d []"] snapshot_mem [of "fst x" "snd x" d] Get_Write [of d "[]"] by simp
  then show "set ?a = set ?b" by blast
  show "inj_on fst (set ?a \<union> set ?b)"
    using mem snapshot_distinct [of d] by (auto simp: distinct_map intro: inj_on_subset)
  show "sorted (map fst ?a)" "distinct (map fst ?a)" "sorted (map fst ?b)" "distinct (map fst ?b)"
    using snapshot_sorted by (simp_all add: strict_sorted_iff)
qed

lemma spins_step:
  assumes "spins L k i s" "hd k = 0"
  shows "\<exists>s'. syncDb_step L (ReadMove i False True) s = Some (Ret s') \<and> spins L k i s'"
proof -
  let ?rd = "sd_readers s ! i"
  have s: "i < length (sd_readers s)" "\<not> rd_useBatches ?rd" "length (rd_key ?rd) = 42" "rd_key ?rd \<le> k"
      "ldb_Get L (ldb_db (sd_db s)) k \<noteq> None" "entries_ok L (sd_db s)"
    using assms(1) by (auto simp: spins_def qget_def)
  have ne: "rd_key ?rd \<noteq> []" using s(3) by auto
  consider (seek) cnt where "rd_pc ?rd = RSeek cnt" | (loop) it n cnt e r where "rd_pc ?rd = RLoop it n cnt []"
      "it_rest it = e # r" "length (fst e) = 42" "hd (fst e) = 0" "fst e \<le> k"
    using assms(1) by (auto simp: spins_def split: read_pc.splits)
  then show ?thesis
  proof cases
    case seek
    then show ?thesis using seek_first [OF s(5) assms(2) s(4) ne s(6)] s
      by (auto simp: readers_step_def dbRead_step_def Let_def it_Valid_def set_reader_def spins_def qget_def)
  next
    case loop
    have "fst e \<noteq> []" using loop(3) by auto
    then show ?thesis using s loop Get_Write [of _ "[]"] snapshot_write_nil
      by (auto simp: readers_step_def dbRead_step_def Let_def it_Key_def set_reader_def spins_def qget_def dbRead_again_def
          go_copy_same del_write_def LDBDatabase_Write_def entries_ok_def)
  qed
qed

lemma spins_forever:
  assumes "spins L k i s" "hd k = 0"
  shows "\<exists>s'. syncDb_run L (replicate n (ReadMove i False True)) s = Some (Ret s') \<and> spins L k i s'"
  using assms(1)
proof (induction n arbitrary: s)
  case (Suc n)
  then show ?case using spins_step [OF Suc.prems assms(2)] by fastforce
qed simp

end

text \<open>
  \<open>dbRead(false, 0, replay)\<close> with an entry in the request database at or after the key of the queue, when
  the callback returns false, which it does once the syncer has quit: the reader opens the
  iterator again and again. After any number of its moves it has neither returned nor come to
  the select that looks at \<open>quit\<close>, so the goroutine of \<open>sync\<close> never ends.
\<close>

theorem syncdb_refused_replay_never_returns:
  assumes "leveldb L" "syncDb_step L Replay s = Some (Ret s1)" "length (sd_start s) = 42"
    "entries_ok L (sd_db s)" "ldb_Get L (ldb_db (sd_db s)) k = Some v" "hd k = 0" "rd_key (new_reader (sd_start s) False 0) \<le> k"
  shows "\<exists>s2. syncDb_run L (replicate n (ReadMove (length (sd_readers s)) False True)) s1 = Some (Ret s2)
    \<and> rd_pc (sd_readers s2 ! length (sd_readers s)) \<notin> {RReturned, RAsk}
    \<and> syncDb_step L (ReadQuit (length (sd_readers s))) s2 = None"
proof -
  have "spins L k (length (sd_readers s)) s1"
    using assms by (auto simp: spins_def qget_def new_reader_def slice_put_def)
  then obtain s2 where "syncDb_run L (replicate n (ReadMove (length (sd_readers s)) False True)) s1 = Some (Ret s2)"
      "spins L k (length (sd_readers s)) s2"
    using leveldb.spins_forever [OF assms(1) _ assms(6)] by blast
  then show ?thesis by (auto simp: spins_def asking_def split: read_pc.splits)
qed

text \<open>The queue of another peer on the database that the session above left behind.\<close>

definition demo_next :: "memdb_t syncDb" where
  "demo_next = the (newSyncDb memdb_ops (id, Some) (sd_db demo_end) (demo_key 5) 2 3 2)"

lemma demo_next_facts:
  "length (sd_start demo_next) = 42" "sd_readers demo_next = []"
  "\<forall>e \<in> set (ldb_snapshot memdb_ops (ldb_db (sd_db demo_next))). fst e \<noteq> [] \<longrightarrow> hd (fst e) = 0 \<longrightarrow> length (fst e) = 42"
  "ldb_Get memdb_ops (ldb_db (sd_db demo_next)) (entry_key (sd_start demo_end) 0) = Some (entry_val (demo_key 2) 0)"
  "hd (entry_key (sd_start demo_end) 0) = 0" "rd_key (new_reader (sd_start demo_next) False 0) \<le> entry_key (sd_start demo_end) 0"
  by code_simp+

theorem syncdb_refused_replay_never_returns_witness:
  "\<exists>s1 s2. syncDb_step memdb_ops Replay demo_next = Some (Ret s1)
    \<and> syncDb_run memdb_ops (replicate 1000000 (ReadMove 0 False True)) s1 = Some (Ret s2)
    \<and> rd_pc (sd_readers s2 ! 0) \<notin> {RReturned, RAsk} \<and> syncDb_step memdb_ops (ReadQuit 0) s2 = None"
proof -
  obtain s1 where s1: "syncDb_step memdb_ops Replay demo_next = Some (Ret s1)" by simp
  then show ?thesis
    using syncdb_refused_replay_never_returns [OF mem.leveldb_axioms s1 demo_next_facts(1) _ demo_next_facts(4,5,6), of 1000000]
      demo_next_facts(2,3) by (auto simp: entries_ok_def)
qed

text \<open>A replay whose callback accepts every entry: the iterator is drained up to the first key that is not an entry.\<close>

lemma filter_takeWhile:
  assumes "sorted_wrt (\<lambda>a b. fst a < fst b) xs" "\<And>a b. a \<in> set xs \<Longrightarrow> b \<in> set xs \<Longrightarrow> fst a < fst b \<Longrightarrow> P b \<Longrightarrow> P a"
  shows "filter P xs = takeWhile P xs"
  using assms
proof (induction xs)
  case (Cons x xs)
  show ?case
  proof (cases "P x")
    case False
    then have "\<not> P y" if "y \<in> set xs" for y using Cons.prems(2) [of x y] Cons.prems(1) that False by auto
    then show ?thesis using False by (simp add: filter_empty_conv)
  qed (use Cons in auto)
qed simp

definition handed :: "bytes \<times> bytes \<Rightarrow> sync_req" where
  "handed e = REntry (fst e) (go_copy (replicate 40 0) (snd e))"

lemma fold_BDelete: "fold batch_step (map (\<lambda>e. BDelete (fst e)) es) m k = (if k \<in> fst ` set es then None else m k)"
  by (induction es arbitrary: m) auto

context leveldb
begin

lemma drain:
  assumes "i < length (sd_readers s)" "sd_readers s ! i = rd" "\<not> rd_useBatches rd" "length (rd_key rd) = 42"
    "rd_pc rd = RLoop it n cnt del" "it_rest it = es @ x # rest" "\<forall>e \<in> set es. length (fst e) = 42 \<and> hd (fst e) = 0"
    "fst x \<noteq> []" "hd (fst x) \<noteq> 0"
  shows "\<exists>s2. syncDb_run L (replicate (Suc (length es)) (ReadMove i True True)) s = Some (Ret s2)
    \<and> sd_sent s2 = sd_sent s @ map handed es \<and> rd_pc (sd_readers s2 ! i) = RAsk
    \<and> sd_db s2 = LDBDatabase_Write L (sd_db s) (del @ map (\<lambda>e. BDelete (fst e)) es)"
  using assms
proof (induction es arbitrary: s rd it n del)
  case Nil
  have ne: "rd_key rd \<noteq> []" using Nil.prems(4) by auto
  have "hd (go_copy (rd_key rd) (fst x)) \<noteq> 0" using hd_go_copy [OF ne Nil.prems(8)] Nil.prems(9) by simp
  then show ?case using Nil.prems
    by (simp add: readers_step_def dbRead_step_def Let_def it_Key_def dbRead_again_def dbRead_reset_def del_write_def set_reader_def)
next
  case (Cons e es)
  have e: "length (fst e) = 42" "hd (fst e) = 0" "fst e \<noteq> []" using Cons.prems(7) by auto
  have key: "go_copy (rd_key rd) (fst e) = fst e" using e(1) Cons.prems(4) by (simp add: go_copy_same)
  let ?rd = "rd\<lparr>rd_key := fst e, rd_pc := RLoop (it_Next it) (n + 1) cnt (del @ [BDelete (fst e)])\<rparr>"
  let ?s = "(set_reader i ?rd s)\<lparr>sd_sent := sd_sent s @ [handed e]\<rparr>"
  have step: "syncDb_step L (ReadMove i True True) s = Some (Ret ?s)"
    using Cons.prems key e
    by (simp add: readers_step_def dbRead_step_def Let_def it_Key_def it_Value_def set_reader_def handed_def)
  have "\<exists>s2. syncDb_run L (replicate (Suc (length es)) (ReadMove i True True)) ?s = Some (Ret s2)
    \<and> sd_sent s2 = sd_sent ?s @ map handed es \<and> rd_pc (sd_readers s2 ! i) = RAsk
    \<and> sd_db s2 = LDBDatabase_Write L (sd_db ?s) ((del @ [BDelete (fst e)]) @ map (\<lambda>e. BDelete (fst e)) es)"
    by (rule Cons.IH [of ?s ?rd "it_Next it" "n + 1"]) (use Cons.prems e in \<open>simp_all add: set_reader_def it_Next_def\<close>)
  then show ?case using step by (simp add: set_reader_def del: syncDb_step.simps)
qed

text \<open>What the iterator of a replay sees: the entries from the key of the queue on, and then a key that is not an entry.\<close>

lemma replay_sees:
  assumes "entries_ok L db" "ldb_Get L (ldb_db db) k0 \<noteq> None" "k0 \<noteq> []" "hd k0 \<noteq> 0" "rk \<noteq> []" "hd rk = 0"
  defines "es \<equiv> filter (\<lambda>e. rk \<le> fst e \<and> hd (fst e) = 0) (ldb_snapshot L (ldb_db db))"
  shows "\<exists>x rest. it_rest (it_Seek (LDBDatabase_NewIterator L db) rk) = es @ x # rest \<and> fst x \<noteq> [] \<and> hd (fst x) \<noteq> 0"
    "\<forall>e \<in> set es. length (fst e) = 42 \<and> hd (fst e) = 0"
proof -
  let ?S = "ldb_snapshot L (ldb_db db)" and ?P = "\<lambda>e. hd (fst e) = (0 :: byte)"
  let ?D = "dropWhile (\<lambda>e. fst e < rk) ?S"
  have so: "sorted_wrt (\<lambda>a b. fst a < fst b) ?S" using snapshot_sorted by (simp add: sorted_wrt_map)
  have D: "set ?D = {e \<in> set ?S. rk \<le> fst e}" by (rule dropWhile_ge [OF snapshot_sorted])
  have ne: "fst e \<noteq> []" if "rk \<le> fst e" for e :: "bytes \<times> bytes" using that assms(5) by (cases rk; cases "fst e") auto
  have "es = filter (\<lambda>e. rk \<le> fst e \<and> ?P e) (takeWhile (\<lambda>e. fst e < rk) ?S @ ?D)" by (simp add: es_def)
  also have "\<dots> = filter ?P ?D"
  proof -
    have "filter (\<lambda>e. rk \<le> fst e \<and> ?P e) (takeWhile (\<lambda>e. fst e < rk) ?S) = []"
      by (auto simp: filter_empty_conv dest!: set_takeWhileD)
    moreover have "filter (\<lambda>e. rk \<le> fst e \<and> ?P e) ?D = filter ?P ?D" using D by (intro filter_cong) auto
    ultimately show ?thesis by (simp only: filter_append append_Nil)
  qed
  also have "\<dots> = takeWhile ?P ?D"
  proof (rule filter_takeWhile)
    show "sorted_wrt (\<lambda>a b. fst a < fst b) ?D" by (rule sorted_wrt_dropWhile [OF so])
    fix a b assume "a \<in> set ?D" "b \<in> set ?D" "fst a < fst b" "?P b"
    then show "?P a" using hd_zero_below [of "fst a" "fst b" 0] ne D by auto
  qed
  finally have es: "es = takeWhile ?P ?D" .
  obtain v0 where v0: "(k0, v0) \<in> set ?S" using assms(2) snapshot_mem by blast
  have "rk < k0" using assms(3-6) by (cases rk; cases k0) (auto simp: word_neq_0_conv)
  then have k0: "(k0, v0) \<in> set ?D" using v0 D by simp
  then have "dropWhile ?P ?D \<noteq> []" using assms(4) by (force simp: dropWhile_eq_Nil_conv)
  then obtain x rest where x: "dropWhile ?P ?D = x # rest" by (cases "dropWhile ?P ?D") auto
  then have "\<not> ?P x" using hd_dropWhile [of ?P ?D] by auto
  moreover have "fst x \<noteq> []"
  proof -
    have "x \<in> set ?D" using x dropWhile_Cons_mem by fastforce
    then show ?thesis using D ne by blast
  qed
  moreover have "?D = es @ x # rest" using takeWhile_dropWhile_id [of ?P ?D] unfolding es x by simp
  ultimately show "\<exists>x rest. it_rest (it_Seek (LDBDatabase_NewIterator L db) rk) = es @ x # rest \<and> fst x \<noteq> [] \<and> hd (fst x) \<noteq> 0"
    by (intro exI [of _ x] exI [of _ rest]) (simp add: it_defs)
  show "\<forall>e \<in> set es. length (fst e) = 42 \<and> hd (fst e) = 0" using assms(1) ne by (auto simp: es_def entries_ok_def)
qed

end

text \<open>
  C39: the comment on \<open>dbRead\<close> says that the domains of the queues in the shared request
  database are disjoint. The replay of one peer's queue does not stop at the end of its domain. When its callback accepts every entry, and a counter
  or another key that is not an entry is in the database, it ends after one move per entry and two more: it has handed
  over, in order, all entries from the key of its queue on, whichever queue saved them, and has deleted them. So every entry of a queue of another peer, or of
  another priority, whose key is the greater one is given to this peer and lost to the other.
\<close>

theorem syncdb_replay_takes_other_peers_entries:
  fixes s :: "'d syncDb" and L :: "'d leveldb_ops"
  defines "es \<equiv> filter (\<lambda>e. entry_key (sd_start s) 0 \<le> fst e \<and> hd (fst e) = 0) (ldb_snapshot L (ldb_db (sd_db s)))"
  assumes "leveldb L" "syncDb_step L Replay s = Some (Ret s1)" "length (sd_start s) = 42" "hd (sd_start s) = 0"
    "entries_ok L (sd_db s)" "qget L s k0 \<noteq> None" "k0 \<noteq> []" "hd k0 \<noteq> 0"
  shows "\<exists>s2. syncDb_run L (replicate (length es + 2) (ReadMove (length (sd_readers s)) True True)) s1 = Some (Ret s2)
    \<and> rd_pc (sd_readers s2 ! length (sd_readers s)) = RAsk
    \<and> sd_sent s2 = sd_sent s @ map handed es
    \<and> (\<forall>k. qget L s2 k = (if k \<in> fst ` set es then None else qget L s k))
    \<and> (\<forall>start' c v. length start' = 42 \<and> hd start' = 0 \<and> take 34 (sd_start s) < take 34 start'
         \<and> qget L s (entry_key start' c) = Some v
         \<longrightarrow> handed (entry_key start' c, v) \<in> set (sd_sent s2) \<and> qget L s2 (entry_key start' c) = None)"
proof -
  let ?i = "length (sd_readers s)" and ?rk = "entry_key (sd_start s) 0" and ?es = es
  let ?it = "it_Seek (LDBDatabase_NewIterator L (sd_db s)) ?rk"
  have rd: "new_reader (sd_start s) False 0 = \<lparr>rd_key = ?rk, rd_useBatches = False, rd_pc = RSeek 0\<rparr>"
    using assms(4) by (simp add: new_reader_def entry_key_def slice_put_def go_copy_def)
  have rk: "?rk \<noteq> []" "hd ?rk = 0" "length ?rk = 42" using assms(4,5) by (auto simp: entry_key_def hd_append)
  have get: "ldb_Get L (ldb_db (sd_db s)) k0 \<noteq> None" using assms(7) by (simp add: qget_def)
  note see = leveldb.replay_sees [OF assms(2,6) get assms(8,9) rk(1,2)]
  obtain x rest where x: "it_rest ?it = ?es @ x # rest" "fst x \<noteq> []" "hd (fst x) \<noteq> 0" using see(1) by (auto simp: es_def)
  have es: "\<forall>e \<in> set ?es. length (fst e) = 42 \<and> hd (fst e) = 0" using see(2) by (simp add: es_def)
  have s1: "s1 = s\<lparr>sd_readers := sd_readers s @ [new_reader (sd_start s) False 0]\<rparr>" using assms(3) by simp
  let ?s = "s\<lparr>sd_readers := sd_readers s @ [\<lparr>rd_key = ?rk, rd_useBatches = False, rd_pc = RLoop ?it 0 0 []\<rparr>]\<rparr>"
  have "it_Valid ?it" using x(1) by (simp add: it_Valid_def)
  then have step: "syncDb_step L (ReadMove ?i True True) s1 = Some (Ret ?s)"
    by (simp add: s1 rd readers_step_def dbRead_step_def Let_def set_reader_def)
  have "\<exists>s2. syncDb_run L (replicate (Suc (length ?es)) (ReadMove ?i True True)) ?s = Some (Ret s2)
    \<and> sd_sent s2 = sd_sent ?s @ map handed ?es \<and> rd_pc (sd_readers s2 ! ?i) = RAsk
    \<and> sd_db s2 = LDBDatabase_Write L (sd_db ?s) ([] @ map (\<lambda>e. BDelete (fst e)) ?es)"
    by (rule leveldb.drain [OF assms(2), of ?i ?s "\<lparr>rd_key = ?rk, rd_useBatches = False, rd_pc = RLoop ?it 0 0 []\<rparr>" ?it 0 0 "[]" ?es x rest])
      (use rk x es in simp_all)
  then obtain s2 where s2: "syncDb_run L (replicate (Suc (length ?es)) (ReadMove ?i True True)) ?s = Some (Ret s2)"
    "sd_sent s2 = sd_sent s @ map handed ?es" "rd_pc (sd_readers s2 ! ?i) = RAsk"
    "sd_db s2 = LDBDatabase_Write L (sd_db s) (map (\<lambda>e. BDelete (fst e)) ?es)"
    by auto
  have "replicate (length ?es + 2) (ReadMove ?i True True) = ReadMove ?i True True # replicate (Suc (length ?es)) (ReadMove ?i True True)" by simp
  then have run: "syncDb_run L (replicate (length ?es + 2) (ReadMove ?i True True)) s1 = Some (Ret s2)"
    using step s2(1) by (simp del: syncDb_step.simps replicate_Suc)
  have gone: "qget L s2 k = (if k \<in> fst ` set ?es then None else qget L s k)" for k
    using leveldb.Get_Write [OF assms(2)] by (simp add: qget_def s2(4) LDBDatabase_Write_def fold_BDelete)
  have "(entry_key start' c, v) \<in> set ?es"
    if "length start' = 42" "hd start' = 0" "take 34 (sd_start s) < take 34 start'" "qget L s (entry_key start' c) = Some v" for start' c v
  proof -
    have "?rk < entry_key start' c"
      using lex_append_len [of "take 34 (sd_start s)" "take 34 start'"] that assms(4) by (simp add: entry_key_def)
    moreover have "hd (entry_key start' c) = 0" using that(1,2) by (cases start') (simp_all add: entry_key_def)
    ultimately show ?thesis using leveldb.snapshot_mem [OF assms(2)] that(4) by (simp add: es_def qget_def)
  qed
  then have "handed (entry_key start' c, v) \<in> set (sd_sent s2) \<and> qget L s2 (entry_key start' c) = None"
    if "length start' = 42 \<and> hd start' = 0 \<and> take 34 (sd_start s) < take 34 start' \<and> qget L s (entry_key start' c) = Some v" for start' c v
    using that gone s2(2) by (force simp: image_iff)
  then show ?thesis using run s2(2,3) gone by blast
qed

text \<open>
  The session above has saved four requests for the peer with address \<open>7 \<dots> 7\<close>; the replay for the peer
  \<open>5 \<dots> 5\<close> takes them.
\<close>

theorem syncdb_replay_takes_other_peers_entries_witness:
  "\<exists>s1 s2. syncDb_step memdb_ops Replay demo_next = Some (Ret s1)
    \<and> syncDb_run memdb_ops (replicate 6 (ReadMove 0 True True)) s1 = Some (Ret s2)
    \<and> map req_key (sd_sent s2) = map demo_key [2, 3, 4, 5] \<and> qget memdb_ops s2 (entry_key (start_key (demo_key 7) 2) 0) = None"
proof -
  obtain s1 where s1: "syncDb_step memdb_ops Replay demo_next = Some (Ret s1)" by simp
  let ?es = "filter (\<lambda>e. entry_key (sd_start demo_next) 0 \<le> fst e \<and> hd (fst e) = 0) (ldb_snapshot memdb_ops (ldb_db (sd_db demo_next)))"
  have ok: "entries_ok memdb_ops (sd_db demo_next)" using demo_next_facts(3) by (simp add: entries_ok_def)
  have f: "hd (sd_start demo_next) = 0" "qget memdb_ops demo_next (sd_counterKey demo_end) \<noteq> None" "sd_counterKey demo_end \<noteq> []"
      "hd (sd_counterKey demo_end) \<noteq> 0" "length ?es = 4" "map (\<lambda>e. req_key (handed e)) ?es = map demo_key [2, 3, 4, 5]" "sd_sent demo_next = []"
      "entry_key (start_key (demo_key 7) 2) 0 \<in> fst ` set ?es"
    by code_simp+
  obtain s2 where "syncDb_run memdb_ops (replicate (length ?es + 2) (ReadMove 0 True True)) s1 = Some (Ret s2)"
      "sd_sent s2 = sd_sent demo_next @ map handed ?es" "\<forall>k. qget memdb_ops s2 k = (if k \<in> fst ` set ?es then None else qget memdb_ops demo_next k)"
    using syncdb_replay_takes_other_peers_entries [OF mem.leveldb_axioms s1 demo_next_facts(1) f(1) ok f(2-4)]
    unfolding demo_next_facts(2) list.size(3) by blast
  moreover from this(3) f(8) have "qget memdb_ops s2 (entry_key (start_key (demo_key 7) 2) 0) = None" by (simp only: if_True)
  ultimately show ?thesis using s1 f(5,6,7)
    by (intro exI [of _ s1] exI [of _ s2]) (simp add: comp_def del: syncDb_step.simps syncDb_run.simps set_filter replicate_Suc)
qed

text \<open>
  A delivery from the buffer that fails closes the buffer even though nobody stopped the queue: the
  request itself goes to the database, and the next request that is pushed panics (a send on a closed channel).
\<close>

theorem syncdb_failed_delivery_closes_buffer:
  assumes "syncDb_step L (Delivered False gid wok) s = Some (Ret s1)"
  shows "sd_quit s1 = sd_quit s \<and> sd_sent s1 = sd_sent s \<and> syncDb_step L (Push r) s1 = Some Panic"
proof -
  obtain q where q: "sd_inflight s = Some q"
      "save_request L gid wok q (s\<lparr>sd_inflight := None, sd_mode := DbMode, sd_bufClosed := True, sd_listening := False\<rparr>) = Ret s1"
    using assms by (auto simp: bufferRead_delivered_def close_buffer_def go_bind_Ret_iff split: option.splits if_splits)
  have "sd_quit s1 = sd_quit s"
    using q(2) by (auto simp: save_request_def writeSyncBatch_def Let_def split: option.splits prod.splits if_splits)
  then show ?thesis using save_request_idle [OF q(2)] by (simp add: syncDb_push_def)
qed

theorem syncdb_failed_delivery_closes_buffer_witness:
  "\<exists>s1. syncDb_step memdb_ops (Delivered False 0 True) (demo_end\<lparr>sd_inflight := Some (RKey (demo_key 1)), sd_bufClosed := False\<rparr>)
      = Some (Ret s1) \<and> syncDb_step memdb_ops (Push (RKey (demo_key 2))) s1 = Some Panic"
proof -
  let ?s = "demo_end\<lparr>sd_inflight := Some (RKey (demo_key 1)), sd_bufClosed := False\<rparr>"
  have "sd_dbBatchSize demo_end = 2" by code_simp
  then obtain s1 where s1: "syncDb_step memdb_ops (Delivered False 0 True) ?s = Some (Ret s1)"
    by (simp add: bufferRead_delivered_def close_buffer_def save_request_def Let_def)
  then show ?thesis using syncdb_failed_delivery_closes_buffer [OF s1] by blast
qed

end
