(* ===== verification/Syncer.thy ===== *)
theory Syncer
  imports Sync_Db Chunk_Stores Db_Sync_Iterator
begin

text \<open>
  The syncer of a peer connection (\<open>network/syncer.go\<close>): the queues of keys to announce and of
  chunks to deliver, the sync state, and the loops that serve them. A buffered channel is
  the list of its contents, a channel of capacity one that only wakes a loop is a flag, a
  send on an unbuffered channel happens together with its receive. Where a \<open>select\<close> has
  several ready cases, an argument says which one is taken; \<open>None\<close> is a call that blocks.
\<close>

section \<open>Constants and parameters\<close>

definition Low :: nat where "Low = 0"
definition Medium :: nat where "Medium = 1"
definition High :: nat where "High = 2"

definition DeliverReq :: nat where "DeliverReq = 0"
definition PushReq :: nat where "PushReq = 1"
definition PropagateReq :: nat where "PropagateReq = 2"
definition HistoryReq :: nat where "HistoryReq = 3"
definition BacklogReq :: nat where "BacklogReq = 4"

lemmas sync_consts = Low_def Medium_def High_def DeliverReq_def PushReq_def PropagateReq_def
  HistoryReq_def BacklogReq_def priorities_def

record SyncParams =
  sp_RequestDbPath :: string
  sp_RequestDbBatchSize :: nat
  sp_KeyBufferSize :: nat
  sp_SyncBatchSize :: nat
  sp_SyncBufferSize :: nat
  sp_SyncCacheSize :: nat
  sp_SyncPriorities :: "nat list"
  sp_SyncModes :: "bool list"

text \<open>\<open>path\<close> is \<open>filepath.Join(bzzdir, "requests")\<close>.\<close>

definition NewSyncParams :: "string \<Rightarrow> SyncParams" where
  "NewSyncParams path = \<lparr>sp_RequestDbPath = path, sp_RequestDbBatchSize = 512, sp_KeyBufferSize = 1024,
     sp_SyncBatchSize = 128, sp_SyncBufferSize = 128, sp_SyncCacheSize = 1024,
     sp_SyncPriorities = [High, Medium, Medium, Low, Low], sp_SyncModes = [True, True, True, True, False]\<rparr>"

section \<open>Sync state and database access\<close>

record syncState = DbSyncState +
  y_SessionAt :: u64
  y_LastSeenAt :: u64
  y_Latest :: Key
  y_Synced :: bool

definition syncState0 :: syncState where
  "syncState0 = \<lparr>ss_Start = [], ss_Stop = [], ss_First = 0, ss_Last = 0, y_SessionAt = 0,
     y_LastSeenAt = 0, y_Latest = [], y_Synced = False\<rparr>"

text \<open>
  \<open>DbAccess\<close> is the interface through which the syncer sees the local store; \<open>'w\<close> is the state
  of the stores and \<open>'it\<close> the type of a key iterator.
\<close>

record ('w, 'it) DbAccess =
  da_get :: "Key \<Rightarrow> 'w \<Rightarrow> ((store_error, Chunk) go \<times> 'w) option"
  da_counter :: "'w \<Rightarrow> u64"
  da_iterator :: "DbSyncState \<Rightarrow> 'w \<Rightarrow> 'it option"
  da_next :: "'it \<Rightarrow> (db_error, Key option \<times> 'it) go"

definition DbAccess_get :: "'d db_env \<Rightarrow> Key \<Rightarrow> ('d, 'r, Chunk) store_op" where
  "DbAccess_get E key w =
     (case LocalStore_Get E key w of
        None \<Rightarrow> None
      | Some (Ret a, w) \<Rightarrow> Some (Ret (w_heap w a), w)
      | Some (Err e, w) \<Rightarrow> Some (Err e, w)
      | Some (Panic, w) \<Rightarrow> Some (Panic, w))"

definition NewDbAccess :: "'d db_env \<Rightarrow> (('d, 'r) world, dbSyncIterator) DbAccess" where
  "NewDbAccess E = \<lparr>da_get = DbAccess_get E, da_counter = (\<lambda>w. DbStore_Counter (w_db w)),
     da_iterator = (\<lambda>st w. NewSyncIterator E (w_db w) st), da_next = dbSyncIterator_Next E\<rparr>"

text \<open>Serialisation of a sync state; \<open>json\<close> is the pair \<open>MarshalIndent\<close>, \<open>Unmarshal\<close>.\<close>

type_synonym json = "(syncState \<Rightarrow> string option) \<times> (string \<Rightarrow> syncState \<Rightarrow> syncState \<times> bool)"

definition encodeSync :: "json \<Rightarrow> syncState \<Rightarrow> string option" where
  "encodeSync js state = fst js state"

definition decodeSync :: "json \<Rightarrow> string option \<Rightarrow> (unit, syncState) go" where
  "decodeSync js meta =
     (case meta of
        None \<Rightarrow> Err ()
      | Some dat \<Rightarrow>
          if dat = [] then Err ()
          else (case snd js dat syncState0 of (state, ok) \<Rightarrow> if ok then Ret state else Err ()))"

section \<open>Requests\<close>

text \<open>
  \<open>parseRequest\<close>: key, id, chunk and store request, or the error for any other type. Slicing a
  value that is too short panics.
\<close>

fun parseRequest :: "u64 \<Rightarrow> sync_req \<Rightarrow> (unit, Key \<times> u64 \<times> Chunk option \<times> storeRequestMsgData option) go" where
  "parseRequest gid (RKey key) = Ret (key, gid, None, None)"
| "parseRequest gid (REntry k v) =
     (if length v < 40 then Panic
      else Ret (take 32 v, BigEndian_Uint64 (take 8 (drop 32 v)), None, None))"
| "parseRequest gid (RChunk chunk) = Ret (ch_Key chunk, gid, Some chunk, None)"
| "parseRequest gid (RStore sreq) = Ret (sm_Key sreq, 0, None, Some sreq)"
| "parseRequest gid ROther = Err ()"

definition newSyncRequest :: "u64 \<Rightarrow> sync_req \<Rightarrow> nat \<Rightarrow> (unit, syncRequest) go" where
  "newSyncRequest gid req p =
     go_bind (parseRequest gid req) (\<lambda>(key, _). Ret \<lparr>sq_Key = key, sq_Priority = p\<rparr>)"

definition newStoreRequestMsgData ::
    "('w, 'it) DbAccess \<Rightarrow> u64 \<Rightarrow> sync_req \<Rightarrow> 'w \<Rightarrow> ((unit, storeRequestMsgData) go \<times> 'w) option" where
  "newStoreRequestMsgData A gid req w =
     (case parseRequest gid req of
        Err e \<Rightarrow> Some (Err e, w)
      | Panic \<Rightarrow> Some (Panic, w)
      | Ret (key, i, chunk, sreq) \<Rightarrow>
          (case sreq of
             Some m \<Rightarrow> Some (Ret m, w)
           | None \<Rightarrow>
               (case (case chunk of Some c \<Rightarrow> Some (Ret c, w) | None \<Rightarrow> da_get A key w) of
                  None \<Rightarrow> None
                | Some (Err e, w) \<Rightarrow> Some (Err (), w)
                | Some (Panic, w) \<Rightarrow> Some (Panic, w)
                | Some (Ret c, w) \<Rightarrow>
                    Some (Ret (storeRequest0\<lparr>sm_Id := i, sm_Key := ch_Key c, sm_SData := ch_SData c\<rparr>), w))))"

section \<open>The syncer and its queues\<close>

record 'd syncer =
  sy_params :: SyncParams
  sy_syncF :: bool
  sy_key :: Key
  sy_state :: syncState
  sy_states :: nat
  sy_statesClosed :: bool
  sy_deliveryRequest :: bool
  sy_newUnsyncedKeys :: bool
  sy_quit :: bool
  sy_db :: "'d LDBDatabase"
  sy_queues :: "'d syncDb list"
  sy_keys :: "sync_req list list"
  sy_deliveries :: "(nat \<times> storeRequestMsgData) list"
  sy_announced :: "(syncRequest list \<times> syncState \<times> bool) list"
  sy_stored :: "storeRequestMsgData list"

text \<open>
  \<open>sy_announced\<close> and \<open>sy_stored\<close> record the calls of the callbacks \<open>unsyncedKeys\<close> and \<open>store\<close>; the
  flag of a call of \<open>unsyncedKeys\<close> says that it returned no error.
\<close>

text \<open>
  \<open>newSyncer\<close>: one queue per priority on the shared request database. \<open>None\<close> is the panic of a
  queue that cannot read its counter.
\<close>

definition newSyncer ::
    "'d leveldb_ops \<Rightarrow> rle \<Rightarrow> 'd LDBDatabase \<Rightarrow> Key \<Rightarrow> SyncParams \<Rightarrow> syncState \<Rightarrow> bool \<Rightarrow> 'd syncer option" where
  "newSyncer L rle db remotekey params state syncF =
     (case those (map (\<lambda>i. newSyncDb L rle db remotekey i (sp_SyncBufferSize params)
                              (sp_RequestDbBatchSize params)) [0..<priorities]) of
        None \<Rightarrow> None
      | Some queues \<Rightarrow>
          Some \<lparr>sy_params = params, sy_syncF = syncF, sy_key = remotekey, sy_state = state, sy_states = 0,
            sy_statesClosed = False, sy_deliveryRequest = False, sy_newUnsyncedKeys = False, sy_quit = False,
            sy_db = db, sy_queues = queues, sy_keys = replicate priorities [], sy_deliveries = [],
            sy_announced = [], sy_stored = []\<rparr>)"

text \<open>A move of the queue of priority \<open>p\<close> on the shared database.\<close>

definition queue_step ::
    "'d leveldb_ops \<Rightarrow> nat \<Rightarrow> sync_event \<Rightarrow> 'd syncer \<Rightarrow> (unit, 'd syncer) go option" where
  "queue_step L p ev s =
     (if p < length (sy_queues s) then
        (case syncDb_step L ev ((sy_queues s ! p)\<lparr>sd_db := sy_db s\<rparr>) of
           None \<Rightarrow> None
         | Some (Ret q) \<Rightarrow> Some (Ret (s\<lparr>sy_queues := (sy_queues s)[p := q], sy_db := sd_db q\<rparr>))
         | Some (Err e) \<Rightarrow> Some (Err e)
         | Some Panic \<Rightarrow> Some Panic)
      else None)"

definition addKey :: "sync_req \<Rightarrow> nat \<Rightarrow> bool \<Rightarrow> 'd syncer \<Rightarrow> (unit, bool \<times> 'd syncer) go option" where
  "addKey req p sel s =
     (if p \<ge> priorities then Some Panic
      else if length (sy_keys s ! p) < sp_KeyBufferSize (sy_params s) \<and> (sel \<or> \<not> sy_quit s) then
        Some (Ret (True, s\<lparr>sy_keys := (sy_keys s)[p := sy_keys s ! p @ [req]], sy_newUnsyncedKeys := True\<rparr>))
      else if sy_quit s then Some (Ret (False, s)) else None)"

definition addDelivery :: "sync_req \<Rightarrow> nat \<Rightarrow> bool \<Rightarrow> 'd syncer \<Rightarrow> (unit, bool \<times> 'd syncer) go option" where
  "addDelivery req p sel s =
     (if p \<ge> priorities then Some Panic
      else case (if sel \<or> \<not> sy_quit s then syncDb_push req (sy_queues s ! p) else None) of
             Some (Ret q) \<Rightarrow> Some (Ret (True, s\<lparr>sy_queues := (sy_queues s)[p := q]\<rparr>))
           | Some (Err e) \<Rightarrow> Some (Err e)
           | Some Panic \<Rightarrow> Some Panic
           | None \<Rightarrow> if sy_quit s then Some (Ret (False, s)) else None)"

text \<open>
  \<open>doDelivery\<close>: with \<open>sel\<close> the delivery loop receives the message. The channel array is indexed
  after the message has been built.
\<close>

definition doDelivery ::
    "('w, 'it) DbAccess \<Rightarrow> u64 \<Rightarrow> sync_req \<Rightarrow> nat \<Rightarrow> bool \<Rightarrow> 'w \<times> 'd syncer
      \<Rightarrow> (unit, bool \<times> 'w \<times> 'd syncer) go option" where
  "doDelivery A gid req p sel ws =
     (case ws of (w, s) \<Rightarrow>
        (case newStoreRequestMsgData A gid req w of
           None \<Rightarrow> None
         | Some (Panic, w) \<Rightarrow> Some Panic
         | Some (Err e, w) \<Rightarrow> Some (Ret (False, w, s))
         | Some (Ret m, w) \<Rightarrow>
             if p \<ge> priorities then Some Panic
             else if sel then Some (Ret (True, w, s\<lparr>sy_deliveries := sy_deliveries s @ [(p, m)]\<rparr>))
             else if sy_quit s then Some (Ret (False, w, s)) else None))"

definition addRequest :: "sync_req \<Rightarrow> nat \<Rightarrow> bool \<Rightarrow> 'd syncer \<Rightarrow> (unit, 'd syncer) go option" where
  "addRequest req ty sel s =
     (let pr = sp_SyncPriorities (sy_params s); md = sp_SyncModes (sy_params s)
      in if length pr \<le> ty then Some Panic
         else if sy_syncF s \<or> ty = DeliverReq then
           (if length md \<le> ty then Some Panic
            else map_option (\<lambda>r. go_bind r (\<lambda>(_, s). Ret s))
                   (if md ! ty then addKey req (pr ! ty) sel s else addDelivery req (pr ! ty) sel s))
         else Some (Ret s))"

definition deliver_fn ::
    "('w, 'it) DbAccess \<Rightarrow> nat \<Rightarrow> u64 \<Rightarrow> sync_req \<Rightarrow> bool \<Rightarrow> 'w \<times> 'd syncer
      \<Rightarrow> (unit, bool \<times> 'w \<times> 'd syncer) go option" where
  "deliver_fn A priority gid req = doDelivery A gid req priority"

text \<open>\<open>replay\<close>; the indices are evaluated when the function is made.\<close>

definition replay_fn ::
    "('w, 'it) DbAccess \<Rightarrow> u64 \<Rightarrow> sync_req \<Rightarrow> bool \<Rightarrow> 'w \<times> 'd syncer
      \<Rightarrow> (unit, bool \<times> 'w \<times> 'd syncer) go option" where
  "replay_fn A gid req sel ws =
     (case ws of (w, s) \<Rightarrow>
        (let pr = sp_SyncPriorities (sy_params s); md = sp_SyncModes (sy_params s)
         in if length md \<le> BacklogReq \<or> length pr \<le> BacklogReq then Some Panic
            else if md ! BacklogReq then
              map_option (\<lambda>r. go_bind r (\<lambda>(b, s). Ret (b, w, s))) (addKey req (pr ! BacklogReq) sel s)
            else doDelivery A gid req (pr ! BacklogReq) sel (w, s)))"

definition sendUnsyncedKeys :: "'d syncer \<Rightarrow> 'd syncer" where
  "sendUnsyncedKeys s = s\<lparr>sy_deliveryRequest := True\<rparr>"

text \<open>
  \<open>stop\<close> closes \<open>quit\<close> and then stops the queues one after the other: the call for queue \<open>i\<close>
  is reached once the queues before it have saved their backlog. Closing a closed channel
  panics.
\<close>

definition syncer_stop :: "'d syncer \<Rightarrow> (unit, 'd syncer) go" where
  "syncer_stop s = (if sy_quit s then Panic else Ret (s\<lparr>sy_quit := True\<rparr>))"

definition syncer_stop_queue :: "'d leveldb_ops \<Rightarrow> nat \<Rightarrow> 'd syncer \<Rightarrow> (unit, 'd syncer) go option" where
  "syncer_stop_queue L i s =
     (if sy_quit s \<and> list_all sd_done (take i (sy_queues s)) then queue_step L i Stop s else None)"

section \<open>The sync script\<close>

text \<open>
  What \<open>sync\<close> does in order: replay the queues, then hand over segments of history. \<open>env i\<close> is
  what happens to the shared sync state while the script waits in its \<open>i\<close>-th call of
  \<open>syncState\<close>.
\<close>

datatype sync_act = AReplay nat | ASegment syncState | ACloseStates

definition sync_unfinished :: "(nat \<Rightarrow> syncState \<Rightarrow> syncState) \<Rightarrow> syncState \<Rightarrow> sync_act list \<times> syncState" where
  "sync_unfinished env state =
     (if \<not> IsZeroKey (y_Latest state) then
        (let st = state\<lparr>ss_Start := y_Latest state\<rparr>;
             st' = env 1 st
         in ([ASegment st], if ss_Last st' < y_SessionAt st' then st'\<lparr>ss_First := ss_Last st' + 1\<rparr> else st'))
      else ([], state))"

definition sync_disconnect :: "(nat \<Rightarrow> syncState \<Rightarrow> syncState) \<Rightarrow> syncState \<Rightarrow> sync_act list \<times> syncState" where
  "sync_disconnect env state =
     (if ss_First state < y_LastSeenAt state then
        (let st = state\<lparr>ss_Last := y_LastSeenAt state\<rparr>;
             st' = env 2 st
         in ([ASegment st], st'\<lparr>ss_First := y_LastSeenAt st'\<rparr>))
      else ([], state))"

definition sync_session :: "(nat \<Rightarrow> syncState \<Rightarrow> syncState) \<Rightarrow> syncState \<Rightarrow> sync_act list \<times> syncState" where
  "sync_session env state =
     (if y_LastSeenAt state < y_SessionAt state then
        (let st = state\<lparr>ss_Last := y_SessionAt state\<rparr> in ([ASegment st], env 3 st))
      else ([], state))"

definition sync_script :: "(nat \<Rightarrow> syncState \<Rightarrow> syncState) \<Rightarrow> syncState \<Rightarrow> sync_act list \<times> syncState" where
  "sync_script env state =
     (if y_SessionAt state = 0 then ([ACloseStates], state)
      else
        (let replays = map AReplay (rev [0..<priorities]);
             (a1, st) =
               (if \<not> y_Synced state then
                  (let start = ss_Start state;
                       (b1, s1) = sync_unfinished env state;
                       (b2, s2) = sync_disconnect env (s1\<lparr>y_Latest := ZeroKey, ss_Start := start\<rparr>)
                   in (b1 @ b2, s2\<lparr>y_Latest := ZeroKey\<rparr>))
                else ([], state\<lparr>ss_First := y_LastSeenAt state\<rparr>));
             (a2, st) = sync_session env st
         in (replays @ a1 @ a2 @ [ACloseStates], st)))"

text \<open>The send on \<open>syncStates\<close> (capacity 20) in \<open>syncState\<close>.\<close>

definition syncState_send :: "'d syncer \<Rightarrow> (unit, 'd syncer) go option" where
  "syncState_send s =
     (if sy_statesClosed s then Some Panic
      else if sy_states s < 20 then Some (Ret (s\<lparr>sy_states := sy_states s + 1\<rparr>)) else None)"

end
