(* ===== verification/Sync_Loops.thy ===== *)
theory Sync_Loops
  imports Syncer
begin

text \<open>
  The two loops of a syncer (\<open>syncUnsyncedKeys\<close> and \<open>syncDeliveries\<close> of \<open>network/syncer.go\<close>),
  with the local variables of each in a record. An iteration of the announcing loop is several moves: every
  reading of a queue's length, the sending of a batch and the \<open>select\<close> are moves of their own,
  so that other goroutines run in between.
\<close>

section \<open>Announcing keys\<close>

text \<open>What the variable \<open>keys\<close> points to.\<close>

datatype key_chan = NoChan | KeysChan nat | HistChan

text \<open>
  Where the loop stands: before the test that decides whether a queue has to be chosen, in the loop over the
  priorities, before the tests that send a batch, or at the \<open>select\<close>.
\<close>

datatype loop_pc = AtTop | AtPick | AtSend | AtSelect

text \<open>
  The local variables of \<open>syncUnsyncedKeys\<close>. \<open>u_hist\<close> is the history channel with the iterator
  behind it: \<open>None\<close> is nil, \<open>Some None\<close> a channel no goroutine writes to (the iterator could
  not be made). \<open>u_listenDel\<close>, \<open>u_listenNew\<close> and \<open>u_listenStates\<close> say that the local channel
  variable is not nil.
\<close>

record 'it unsynced_loop =
  u_pc :: loop_pc
  u_unsynced :: "syncRequest list"
  u_justSynced :: bool
  u_keyCounts :: "nat list"
  u_keyCount :: nat
  u_historyCnt :: nat
  u_hist :: "'it option option"
  u_histPrior :: nat
  u_priority :: int
  u_keys :: key_chan
  u_listenNew :: bool
  u_listenDel :: bool
  u_listenStates :: bool
  u_done :: bool

definition unsynced_init :: "SyncParams \<Rightarrow> (unit, 'it unsynced_loop) go" where
  "unsynced_init params =
     (if length (sp_SyncPriorities params) \<le> HistoryReq then Panic
      else Ret \<lparr>u_pc = AtTop, u_unsynced = [], u_justSynced = False, u_keyCounts = replicate priorities 0,
        u_keyCount = 0, u_historyCnt = 0, u_hist = None, u_histPrior = sp_SyncPriorities params ! HistoryReq,
        u_priority = int High, u_keys = KeysChan High,
        u_listenNew = False, u_listenDel = False, u_listenStates = True, u_done = False\<rparr>)"

text \<open>The history channel has no buffer, and the length of a nil channel is 0.\<close>

definition chan_len :: "'d syncer \<Rightarrow> key_chan \<Rightarrow> nat" where
  "chan_len s c = (case c of KeysChan p \<Rightarrow> length (sy_keys s ! p) | _ \<Rightarrow> 0)"

definition loop_top :: "'d syncer \<Rightarrow> 'it unsynced_loop \<Rightarrow> 'it unsynced_loop" where
  "loop_top s u =
     (if u_priority u \<noteq> int High \<or> chan_len s (u_keys u) = 0
      then u\<lparr>u_keys := NoChan, u_priority := int High, u_pc := AtPick\<rparr> else u\<lparr>u_pc := AtSend\<rparr>)"

text \<open>One pass of the loop over the priorities, which leaves \<open>priority\<close> at -1 where it finds nothing.\<close>

definition loop_pick :: "'d syncer \<Rightarrow> 'it unsynced_loop \<Rightarrow> 'it unsynced_loop" where
  "loop_pick s u =
     (let p = nat (u_priority u)
      in if u_priority u < 0 then u\<lparr>u_pc := AtSend\<rparr>
         else if sy_keys s ! p \<noteq> [] then u\<lparr>u_keys := KeysChan p, u_pc := AtSend\<rparr>
         else if p = u_histPrior u \<and> u_hist u \<noteq> None then u\<lparr>u_keys := HistChan, u_pc := AtSend\<rparr>
         else u\<lparr>u_priority := u_priority u - 1\<rparr>)"

definition may_send :: "'it unsynced_loop \<Rightarrow> 'd syncer \<Rightarrow> bool" where
  "may_send u s \<longleftrightarrow> \<not> u_listenDel u \<and>
     (u_justSynced u \<or> (0 < length (u_unsynced u) \<and> u_keys u = NoChan)
      \<or> length (u_unsynced u) = sp_SyncBatchSize (sy_params s))"

text \<open>
  Between the choice of the queue and the \<open>select\<close>: wait for new keys, send the batch. \<open>ok\<close> says that
  \<open>unsyncedKeys\<close> returns no error; an error is only logged, and the batch is dropped all the same.
\<close>

definition before_select ::
    "('w, 'it) DbAccess \<Rightarrow> 'w \<Rightarrow> bool \<Rightarrow> 'it unsynced_loop \<times> 'd syncer \<Rightarrow> 'it unsynced_loop \<times> 'd syncer" where
  "before_select A w ok us =
     (case us of (u, s) \<Rightarrow>
        (let u = (if u_keys u = NoChan \<and> \<not> u_listenDel u then u\<lparr>u_listenNew := True\<rparr> else u)\<lparr>u_pc := AtSelect\<rparr>
         in if may_send u s then
              (let state = (sy_state s)\<lparr>y_LastSeenAt := da_counter A w, y_Latest := ZeroKey\<rparr>
               in (u\<lparr>u_justSynced := False, u_listenDel := True, u_listenNew := False, u_unsynced := [],
                     u_keys := NoChan\<rparr>,
                   s\<lparr>sy_state := state, sy_announced := sy_announced s @ [(u_unsynced u, state, ok)]\<rparr>))
            else (u, s)))"

text \<open>
  The case of the \<open>select\<close> that is taken. On a closed history channel the loop offers
  \<open>state.synced\<close>; the flag says that the script takes it (otherwise the loop quits).
\<close>

datatype loop_choice = ChQuit | ChKeys bool | ChDelivery | ChNew | ChStates

definition history_key ::
    "('w, 'it) DbAccess \<Rightarrow> 'it \<Rightarrow> bool \<Rightarrow> 'it unsynced_loop \<times> 'd syncer
      \<Rightarrow> (unit, sync_req option \<times> 'it unsynced_loop \<times> 'd syncer) go option" where
  "history_key A it taken us =
     (case us of (u, s) \<Rightarrow>
        (case da_next A it of
           Ret (Some k, it') \<Rightarrow>
             Some (Ret (Some (RKey k), u\<lparr>u_hist := Some (Some it')\<rparr>, s\<lparr>sy_state := (sy_state s)\<lparr>y_Latest := k\<rparr>\<rparr>))
         | Ret (None, it') \<Rightarrow>
             (let s = s\<lparr>sy_state := (sy_state s)\<lparr>y_Synced := True\<rparr>\<rparr>; u = u\<lparr>u_listenStates := True\<rparr>
              in if taken then Some (Ret (None, u\<lparr>u_justSynced := True, u_hist := None\<rparr>, s))
                 else if sy_quit s then Some (Ret (None, u\<lparr>u_done := True\<rparr>, s)) else None)
         | _ \<Rightarrow> Some Panic))"

definition take_state ::
    "('w, 'it) DbAccess \<Rightarrow> 'w \<Rightarrow> 'it unsynced_loop \<times> 'd syncer
      \<Rightarrow> (unit, sync_req option \<times> 'it unsynced_loop \<times> 'd syncer) go option" where
  "take_state A w us =
     (case us of (u, s) \<Rightarrow>
        if \<not> u_listenStates u then None
        else if 0 < sy_states s then
          (let state = (sy_state s)\<lparr>y_Synced := False\<rparr>
           in Some (Ret (None, u\<lparr>u_hist := Some (da_iterator A (DbSyncState.truncate state) w), u_listenStates := False\<rparr>,
                s\<lparr>sy_states := sy_states s - 1, sy_state := state\<rparr>)))
        else if sy_statesClosed s then
          Some (Ret (None, u\<lparr>u_listenStates := False\<rparr>, s\<lparr>sy_state := (sy_state s)\<lparr>y_Synced := True\<rparr>\<rparr>))
        else None)"

definition loop_select ::
    "('w, 'it) DbAccess \<Rightarrow> 'w \<Rightarrow> loop_choice \<Rightarrow> 'it unsynced_loop \<times> 'd syncer
      \<Rightarrow> (unit, sync_req option \<times> 'it unsynced_loop \<times> 'd syncer) go option" where
  "loop_select A w choice us =
     (case us of (u, s) \<Rightarrow>
        (case choice of
           ChQuit \<Rightarrow> if sy_quit s then Some (Ret (None, u\<lparr>u_done := True\<rparr>, s)) else None
         | ChKeys taken \<Rightarrow>
             (case u_keys u of
                NoChan \<Rightarrow> None
              | KeysChan p \<Rightarrow>
                  (case sy_keys s ! p of
                     [] \<Rightarrow> None
                   | req # rest \<Rightarrow> Some (Ret (Some req, u, s\<lparr>sy_keys := (sy_keys s)[p := rest]\<rparr>)))
              | HistChan \<Rightarrow>
                  (case u_hist u of Some (Some it) \<Rightarrow> history_key A it taken (u, s) | _ \<Rightarrow> None))
         | ChDelivery \<Rightarrow>
             if u_listenDel u \<and> sy_deliveryRequest s
             then Some (Ret (None, u\<lparr>u_listenDel := False\<rparr>, s\<lparr>sy_deliveryRequest := False\<rparr>)) else None
         | ChNew \<Rightarrow>
             if u_listenNew u \<and> sy_newUnsyncedKeys s
             then Some (Ret (None, u\<lparr>u_listenNew := False, u_keys := KeysChan High\<rparr>,
                    s\<lparr>sy_newUnsyncedKeys := False\<rparr>)) else None
         | ChStates \<Rightarrow> take_state A w (u, s)))"

text \<open>The end of an iteration: a request that was read is counted and joins the batch.\<close>

definition add_unsynced :: "u64 \<Rightarrow> sync_req \<Rightarrow> 'it unsynced_loop \<Rightarrow> (unit, 'it unsynced_loop) go" where
  "add_unsynced gid req u =
     (if u_priority u < 0 \<or> nat (u_priority u) \<ge> length (u_keyCounts u) then Panic
      else
        (let p = nat (u_priority u);
             u = u\<lparr>u_keyCounts := (u_keyCounts u)[p := u_keyCounts u ! p + 1], u_keyCount := u_keyCount u + 1,
                   u_historyCnt := u_historyCnt u + (if u_keys u = HistChan then 1 else 0)\<rparr>
         in case newSyncRequest gid req p of
              Ret sreq \<Rightarrow> Ret (u\<lparr>u_unsynced := u_unsynced u @ [sreq]\<rparr>)
            | Err e \<Rightarrow> Ret u
            | Panic \<Rightarrow> Panic))"

text \<open>
  The moves of the loop: a test of the choice of the queue, the sending with the outcome of \<open>unsyncedKeys\<close>, and
  the \<open>select\<close> with what follows up to the end of the iteration. A move that does not belong to the place the
  loop stands at is not enabled.
\<close>

datatype 'w loop_move = Scan | Send 'w bool | Take 'w u64 loop_choice

definition syncUnsyncedKeys_step ::
    "('w, 'it) DbAccess \<Rightarrow> 'w loop_move \<Rightarrow> 'it unsynced_loop \<times> 'd syncer
      \<Rightarrow> (unit, 'it unsynced_loop \<times> 'd syncer) go option" where
  "syncUnsyncedKeys_step A mv us =
     (case us of (u, s) \<Rightarrow>
        if u_done u then None
        else (case (u_pc u, mv) of
           (AtTop, Scan) \<Rightarrow> Some (Ret (loop_top s u, s))
         | (AtPick, Scan) \<Rightarrow> Some (Ret (loop_pick s u, s))
         | (AtSend, Send w ok) \<Rightarrow> Some (Ret (before_select A w ok (u, s)))
         | (AtSelect, Take w gid choice) \<Rightarrow>
             (case loop_select A w choice (u\<lparr>u_pc := AtTop\<rparr>, s) of
                None \<Rightarrow> None
              | Some Panic \<Rightarrow> Some Panic
              | Some (Err e) \<Rightarrow> Some (Err e)
              | Some (Ret (None, u, s)) \<Rightarrow> Some (Ret (u, s))
              | Some (Ret (Some req, u, s)) \<Rightarrow> Some (go_bind (add_unsynced gid req u) (\<lambda>u. Ret (u, s))))
         | _ \<Rightarrow> None))"

section \<open>Delivering chunks\<close>

record delivery_loop =
  dv_p :: nat
  dv_block :: bool
  dv_c :: "nat list"
  dv_n :: "nat list"
  dv_total :: nat
  dv_success :: nat

definition delivery_init :: delivery_loop where
  "delivery_init = \<lparr>dv_p = High, dv_block = False, dv_c = replicate priorities 0,
     dv_n = replicate priorities 0, dv_total = 0, dv_success = 0\<rparr>"

text \<open>
  \<open>offered p\<close> says that a sender waits on the channel of priority \<open>p\<close>. A poll receives from the
  channel \<open>p\<close> points to, moves on to the next lower one, or, at the lowest, blocks on all of
  them; then any of them may wake it.
\<close>

datatype poll = Received nat | Lower | Blocks

definition bump :: "nat list \<Rightarrow> nat \<Rightarrow> nat list" where
  "bump xs i = xs[i := xs ! i + 1]"

definition syncDeliveries_poll ::
    "(nat \<Rightarrow> bool) \<Rightarrow> nat \<Rightarrow> delivery_loop \<Rightarrow> (poll \<times> delivery_loop) option" where
  "syncDeliveries_poll offered wake v =
     (let p = dv_p v
      in if dv_block v then
           (if wake < priorities \<and> offered wake
            then Some (Received wake, v\<lparr>dv_n := bump (dv_n v) wake, dv_p := High, dv_block := False\<rparr>) else None)
         else if offered p then Some (Received p, v\<lparr>dv_n := bump (dv_n v) p, dv_c := bump (dv_c v) p\<rparr>)
         else if p = Low then Some (Blocks, v\<lparr>dv_block := True\<rparr>)
         else Some (Lower, v\<lparr>dv_p := p - 1\<rparr>))"

text \<open>What the loop does with a message; \<open>ok\<close> is the outcome of \<open>store\<close>.\<close>

definition syncDeliveries_send ::
    "('w, 'it) DbAccess \<Rightarrow> u64 \<Rightarrow> bool \<Rightarrow> storeRequestMsgData \<Rightarrow> 'w \<times> delivery_loop \<times> 'd syncer
      \<Rightarrow> (unit, 'w \<times> delivery_loop \<times> 'd syncer) go option" where
  "syncDeliveries_send A gid ok req wvs =
     (case wvs of (w, v, s) \<Rightarrow>
        (let v = v\<lparr>dv_total := dv_total v + 1\<rparr>
         in case newStoreRequestMsgData A gid (RStore req) w of
              None \<Rightarrow> None
            | Some (Panic, w) \<Rightarrow> Some Panic
            | Some (r, w) \<Rightarrow>
                (case (case r of
                         Ret m \<Rightarrow> (if ok then v\<lparr>dv_success := dv_success v + 1\<rparr> else v,
                                   s\<lparr>sy_stored := sy_stored s @ [m]\<rparr>)
                       | _ \<Rightarrow> (v, s)) of
                   (v, s) \<Rightarrow> if sp_SyncBatchSize (sy_params s) = 0 then Some Panic else Some (Ret (w, v, s)))))"

end
