(* ===== verification/Sync_Loop_Props.thy ===== *)
theory Sync_Loop_Props
  imports Sync_Loops Sync_Db_Queue
begin

text \<open>
  The announcing loop of a syncer neither loses nor reorders keys of one priority, whatever the interleaving with
  the calls that add keys; and which part of the history the sync script hands to that loop.
\<close>

section \<open>The announcing loop as a machine\<close>

text \<open>
  An event is a call of \<open>addKey\<close>, a move of the loop, or a move of another goroutine that shares a channel with it: the
  peer asks for keys, the sync script hands over the state it has changed or closes its channel, the
  syncer is stopped. The last component of the state records, per priority, the requests that were accepted.
\<close>

datatype 'w announce_event = Enqueue sync_req nat bool | Move "'w loop_move" | PeerReady
  | Script "syncState \<Rightarrow> syncState" | CloseStates | QuitLoop

type_synonym ('it, 'd) announcing = "'it unsynced_loop \<times> 'd syncer \<times> (nat \<Rightarrow> sync_req list)"

fun announce_step :: "('w, 'it) DbAccess \<Rightarrow> 'w announce_event \<Rightarrow> ('it, 'd) announcing \<Rightarrow> ('it, 'd) announcing option" where
  "announce_step A (Enqueue req p sel) (u, s, acc) =
     (case addKey req p sel s of
        Some (Ret (ok, s')) \<Rightarrow> Some (u, s', if ok then acc(p := acc p @ [req]) else acc)
      | _ \<Rightarrow> None)"
| "announce_step A (Move mv) (u, s, acc) =
     (case syncUnsyncedKeys_step A mv (u, s) of
        Some (Ret (u', s')) \<Rightarrow> Some (u', s', acc)
      | _ \<Rightarrow> None)"
| "announce_step A PeerReady (u, s, acc) = Some (u, sendUnsyncedKeys s, acc)"
| "announce_step A (Script f) (u, s, acc) =
     (case syncState_send (s\<lparr>sy_state := f (sy_state s)\<rparr>) of Some (Ret s') \<Rightarrow> Some (u, s', acc) | _ \<Rightarrow> None)"
| "announce_step A CloseStates (u, s, acc) = Some (u, s\<lparr>sy_statesClosed := True\<rparr>, acc)"
| "announce_step A QuitLoop (u, s, acc) = (case syncer_stop s of Ret s' \<Rightarrow> Some (u, s', acc) | _ \<Rightarrow> None)"

fun announce_ok :: "'w announce_event \<Rightarrow> bool" where
  "announce_ok (Enqueue req p sel) = plain_req req"
| "announce_ok _ = True"

text \<open>
  The keys of one priority in a list of requests; those handed to \<open>unsyncedKeys\<close> so far, those of the calls that
  succeeded, those of the calls that failed, and everything the loop has read.
\<close>

definition keys_at :: "nat \<Rightarrow> syncRequest list \<Rightarrow> Key list" where
  "keys_at p rs = map sq_Key (filter (\<lambda>q. sq_Priority q = p) rs)"

definition handed_keys :: "'d syncer \<Rightarrow> nat \<Rightarrow> Key list" where
  "handed_keys s p = keys_at p (concat (map fst (sy_announced s)))"

definition wire_keys :: "'d syncer \<Rightarrow> nat \<Rightarrow> Key list" where
  "wire_keys s p = keys_at p (concat (map fst (filter (\<lambda>c. snd (snd c)) (sy_announced s))))"

definition lost_keys :: "'d syncer \<Rightarrow> nat \<Rightarrow> Key list" where
  "lost_keys s p = keys_at p (concat (map fst (filter (\<lambda>c. \<not> snd (snd c)) (sy_announced s))))"

definition read_keys :: "'it unsynced_loop \<Rightarrow> 'd syncer \<Rightarrow> nat \<Rightarrow> Key list" where
  "read_keys u s p = handed_keys s p @ keys_at p (u_unsynced u)"

definition kept :: "'it unsynced_loop \<Rightarrow> 'd syncer \<Rightarrow> nat \<Rightarrow> Key list" where
  "kept u s p = read_keys u s p @ map req_key (sy_keys s ! p)"

lemma keys_at_simps [simp]: "keys_at p [] = []" "keys_at p (xs @ ys) = keys_at p xs @ keys_at p ys"
  "keys_at p [\<lparr>sq_Key = k, sq_Priority = q\<rparr>] = (if q = p then [k] else [])"
  by (simp_all add: keys_at_def)

lemma handed_split: "mset (handed_keys s p) = mset (wire_keys s p) + mset (lost_keys s p)"
proof -
  have "mset (keys_at p (concat (map fst cs))) =
      mset (keys_at p (concat (map fst (filter (\<lambda>c. snd (snd c)) cs)))) + mset (keys_at p (concat (map fst (filter (\<lambda>c. \<not> snd (snd c)) cs))))"
    for cs :: "(syncRequest list \<times> syncState \<times> bool) list"
  proof (induction cs)
    case (Cons c cs)
    then show ?case by (cases "snd (snd c)") simp_all
  qed simp
  then show ?thesis unfolding handed_keys_def wire_keys_def lost_keys_def .
qed

lemma handed_if_none_lost:
  assumes "lost_keys s p = []"
  shows "handed_keys s p = wire_keys s p"
proof -
  have "keys_at p (concat (map fst (filter (\<lambda>c. \<not> snd (snd c)) cs))) = [] \<Longrightarrow>
      keys_at p (concat (map fst cs)) = keys_at p (concat (map fst (filter (\<lambda>c. snd (snd c)) cs)))"
    for cs :: "(syncRequest list \<times> syncState \<times> bool) list"
  proof (induction cs)
    case (Cons c cs)
    then show ?case by (cases "snd (snd c)") simp_all
  qed simp
  then show ?thesis using assms unfolding handed_keys_def wire_keys_def lost_keys_def by blast
qed

text \<open>
  What the variables \<open>keys\<close> and \<open>priority\<close> have to do with each other, at each place of the loop. Where the loop
  reads from a queue, \<open>priority\<close> is that of the queue.
\<close>

definition chan_ok :: "'it unsynced_loop \<Rightarrow> bool" where
  "chan_ok u \<longleftrightarrow> (\<forall>q. u_keys u = KeysChan q \<longrightarrow> q = High \<or> u_priority u \<noteq> int High)"

definition aimed :: "'it unsynced_loop \<Rightarrow> bool" where
  "aimed u \<longleftrightarrow> (\<forall>q. u_keys u = KeysChan q \<longrightarrow> u_priority u = int q \<and> q < priorities)
     \<and> (u_keys u = HistChan \<longrightarrow> u_priority u = int (u_histPrior u) \<and> u_histPrior u < priorities)"

definition loop_pc_ok :: "'it unsynced_loop \<Rightarrow> bool" where
  "loop_pc_ok u = (case u_pc u of AtTop \<Rightarrow> chan_ok u | AtPick \<Rightarrow> u_keys u = NoChan \<and> u_priority u \<le> int High | _ \<Rightarrow> aimed u)"

definition announce_inv :: "nat \<Rightarrow> ('it, 'd) announcing \<Rightarrow> bool" where
  "announce_inv h = (\<lambda>(u, s, acc).
     length (sy_keys s) = priorities \<and> list_all (list_all plain_req) (sy_keys s) \<and> loop_pc_ok u \<and> u_histPrior u = h \<and>
     (\<forall>p < priorities. subseq (map req_key (acc p)) (kept u s p) \<and> (p \<noteq> h \<longrightarrow> map req_key (acc p) = kept u s p)))"

text \<open>A step that leaves the queues and what was read alone keeps the invariant.\<close>

lemma announce_inv_frame:
  assumes "announce_inv h (u, s, acc)" "sy_keys s' = sy_keys s" "\<And>p. read_keys u' s' p = read_keys u s p"
    "u_histPrior u' = u_histPrior u" "loop_pc_ok u'"
  shows "announce_inv h (u', s', acc)"
  using assms by (auto simp: announce_inv_def kept_def)

section \<open>The moves of the loop\<close>

lemma scan_frame:
  assumes "loop_pc_ok u"
  shows "u_pc u = AtTop \<Longrightarrow> loop_pc_ok (loop_top s u)" "u_pc u = AtPick \<Longrightarrow> loop_pc_ok (loop_pick s u)"
    "u_unsynced (loop_top s u) = u_unsynced u" "u_histPrior (loop_top s u) = u_histPrior u"
    "u_unsynced (loop_pick s u) = u_unsynced u" "u_histPrior (loop_pick s u) = u_histPrior u"
  using assms
  by (auto simp: loop_top_def loop_pick_def loop_pc_ok_def chan_ok_def aimed_def chan_len_def Let_def priorities_def High_def
      split: key_chan.splits)

lemma before_select_frame:
  assumes "before_select A w ok (u, s) = (u', s')" "aimed u"
  shows "sy_keys s' = sy_keys s" "read_keys u' s' p = read_keys u s p" "u_histPrior u' = u_histPrior u" "loop_pc_ok u'"
  using assms by (auto simp: before_select_def Let_def read_keys_def handed_keys_def loop_pc_ok_def aimed_def split: if_splits)

lemma newSyncRequest_key: "newSyncRequest gid r p = Ret q \<Longrightarrow> sq_Key q = req_key r \<and> sq_Priority q = p"
  by (cases r) (auto simp: newSyncRequest_def split: if_splits)

lemma newSyncRequest_plain: "plain_req r \<Longrightarrow> newSyncRequest gid r p = Ret \<lparr>sq_Key = req_key r, sq_Priority = p\<rparr>"
  by (cases r) (auto simp: newSyncRequest_def)

text \<open>The case of the \<open>select\<close>: nothing read, a request from a queue, or one from the history.\<close>

lemma loop_select_cases:
  assumes "loop_select A w choice (u, s) = Some (Ret (r, u', s'))" "aimed u"
  shows "sy_announced s' = sy_announced s" "u_unsynced u' = u_unsynced u" "u_histPrior u' = u_histPrior u" "u_keyCounts u' = u_keyCounts u"
    "(r = None \<and> sy_keys s' = sy_keys s \<and> (chan_ok u \<longrightarrow> chan_ok u'))
     \<or> (\<exists>q x rest. r = Some x \<and> q < priorities \<and> u' = u \<and> u_priority u = int q \<and> sy_keys s ! q = x # rest \<and> sy_keys s' = (sy_keys s)[q := rest])
     \<or> (\<exists>k. r = Some (RKey k) \<and> u_keys u' = u_keys u \<and> u_priority u' = int (u_histPrior u) \<and> u_histPrior u < priorities
          \<and> sy_keys s' = sy_keys s \<and> u_keys u = HistChan)"
    "u_pc u' = u_pc u"
  using assms
  by (auto simp: loop_select_def history_key_def take_state_def aimed_def chan_ok_def Let_def
      split: loop_choice.splits key_chan.splits list.splits option.splits go.splits prod.splits if_splits)

lemma list_all_update: "list_all P xs \<Longrightarrow> P y \<Longrightarrow> list_all P (xs[i := y])"
  using set_update_subset_insert [of xs i y] by (auto simp: list_all_iff)

lemma select_inv:
  assumes inv: "announce_inv h (u, s, acc)" and pc: "u_pc u = AtSelect"
    and step: "syncUnsyncedKeys_step A (Take w gid choice) (u, s) = Some (Ret (u', s'))"
  shows "announce_inv h (u', s', acc)"
proof -
  let ?u = "u\<lparr>u_pc := AtTop\<rparr>"
  have aim: "aimed ?u" and i: "length (sy_keys s) = priorities" "list_all (list_all plain_req) (sy_keys s)" "u_histPrior u = h"
      "\<And>p. p < priorities \<Longrightarrow> subseq (map req_key (acc p)) (kept u s p)"
      "\<And>p. p < priorities \<Longrightarrow> p \<noteq> h \<Longrightarrow> map req_key (acc p) = kept u s p"
    using inv pc by (auto simp: announce_inv_def loop_pc_ok_def aimed_def)
  then have c0: "chan_ok ?u" by (auto simp: aimed_def chan_ok_def)
  obtain r u2 s2 where l: "loop_select A w choice (?u, s) = Some (Ret (r, u2, s2))"
    using step pc by (auto simp: syncUnsyncedKeys_step_def split: if_splits option.splits go.splits)
  note c = loop_select_cases [OF l aim]
  have pc2: "u_pc u2 = AtTop" using c(6) by simp
  have step2: "r = None \<Longrightarrow> (u', s') = (u2, s2)"
      "r = Some x \<Longrightarrow> \<exists>u3. add_unsynced gid x u2 = Ret u3 \<and> (u', s') = (u3, s2)" for x
    using step pc l by (auto simp: syncUnsyncedKeys_step_def go_bind_Ret_iff split: if_splits)
  from c(5) show ?thesis
  proof (elim disjE exE conjE)
    assume n: "r = None" "sy_keys s2 = sy_keys s" "chan_ok ?u \<longrightarrow> chan_ok u2"
    then show ?thesis using step2(1) [OF n(1)] c c0 pc2 announce_inv_frame [OF inv n(2), of u2]
      by (simp add: read_keys_def handed_keys_def loop_pc_ok_def)
  next
    fix q x rest
    assume n: "r = Some x" "q < priorities" "u2 = ?u" "u_priority ?u = int q" "sy_keys s ! q = x # rest" "sy_keys s2 = (sy_keys s)[q := rest]"
    have "list_all plain_req (sy_keys s ! q)" using i(1,2) n(2) by (simp add: list_all_length)
    then have pl: "plain_req x" "list_all (list_all plain_req) (sy_keys s2)" using i(2) n(5,6) list_all_update by auto
    obtain u3 where u3: "add_unsynced gid x u2 = Ret u3" "(u', s') = (u3, s2)" using step2(2) [OF n(1)] by blast
    then have a: "u_unsynced u3 = u_unsynced u @ [\<lparr>sq_Key = req_key x, sq_Priority = q\<rparr>]" "u_histPrior u3 = h" "loop_pc_ok u3"
      using n(3,4) newSyncRequest_plain [OF pl(1)] c0 i(3) by (auto simp: add_unsynced_def Let_def loop_pc_ok_def chan_ok_def split: if_splits)
    have "kept u3 s2 p = kept u s p" if "p < priorities" for p
      using n(2,5,6) i(1) c(1) a(1) that by (auto simp: kept_def read_keys_def handed_keys_def nth_list_update)
    then show ?thesis using u3(2) i a pl(2) n(6) by (auto simp: announce_inv_def)
  next
    fix k
    assume n: "r = Some (RKey k)" "u_keys u2 = u_keys ?u" "u_priority u2 = int (u_histPrior ?u)" "u_histPrior ?u < priorities"
      "sy_keys s2 = sy_keys s" "u_keys ?u = HistChan"
    obtain u3 where u3: "add_unsynced gid (RKey k) u2 = Ret u3" "(u', s') = (u3, s2)" using step2(2) [OF n(1)] by blast
    then have a: "u_unsynced u3 = u_unsynced u @ [\<lparr>sq_Key = k, sq_Priority = h\<rparr>]" "u_histPrior u3 = h" "loop_pc_ok u3"
      using n(2,3,6) c(2,3) i(3) pc2 by (auto simp: add_unsynced_def Let_def newSyncRequest_def loop_pc_ok_def chan_ok_def split: if_splits)
    have read: "read_keys u3 s2 p = read_keys u s p @ (if p = h then [k] else [])" for p
      using a(1) c(1) by (simp add: read_keys_def handed_keys_def)
    have "subseq (read_keys u s p @ zs) (read_keys u s p @ xs @ zs)" for p xs zs
      by (intro list_emb_append_mono list_emb_append2) simp_all
    then have "subseq (kept u s p) (kept u3 s2 p)" for p by (simp add: kept_def read n(5))
    then have "subseq (map req_key (acc p)) (kept u3 s2 p)" if "p < priorities" for p
      using i(4) [OF that] subseq_order.order_trans by blast
    moreover have "map req_key (acc p) = kept u3 s2 p" if "p < priorities" "p \<noteq> h" for p
      using i(5) [OF that] that(2) by (simp add: kept_def read n(5))
    ultimately show ?thesis using u3(2) i(1,2) a n(5) by (auto simp: announce_inv_def)
  qed
qed

lemma step_at:
  assumes "syncUnsyncedKeys_step A mv (u, s) = Some (Ret (u', s'))"
  shows "u_pc u = AtTop \<Longrightarrow> u' = loop_top s u \<and> s' = s" "u_pc u = AtPick \<Longrightarrow> u' = loop_pick s u \<and> s' = s"
    "u_pc u = AtSend \<Longrightarrow> \<exists>w out. mv = Send w out \<and> before_select A w out (u, s) = (u', s')"
    "u_pc u = AtSelect \<Longrightarrow> \<exists>w gid choice. mv = Take w gid choice"
  using assms by (cases mv; simp add: syncUnsyncedKeys_step_def split: if_splits)+

lemma move_inv:
  assumes inv: "announce_inv h (u, s, acc)" and step: "syncUnsyncedKeys_step A mv (u, s) = Some (Ret (u', s'))"
  shows "announce_inv h (u', s', acc)"
proof -
  have ok: "loop_pc_ok u" using inv by (simp add: announce_inv_def)
  note at = step_at [OF step]
  show ?thesis
  proof (cases "u_pc u")
    case AtSend
    then obtain w out where b: "before_select A w out (u, s) = (u', s')" using at(3) by blast
    have "aimed u" using ok AtSend by (simp add: loop_pc_ok_def)
    note f = before_select_frame [OF b this]
    show ?thesis by (rule announce_inv_frame [OF inv f])
  next
    case AtSelect
    then obtain w gid choice where "mv = Take w gid choice" using at(4) by blast
    then show ?thesis using select_inv [OF inv AtSelect] step by simp
  next
    case AtTop
    note f = scan_frame(1,3,4) [OF ok]
    have "u' = loop_top s u" "s' = s" using at(1) AtTop by simp_all
    moreover have "announce_inv h (loop_top s u, s, acc)" by (rule announce_inv_frame [OF inv refl]) (simp_all add: read_keys_def f AtTop)
    ultimately show ?thesis by simp
  next
    case AtPick
    note f = scan_frame(2,5,6) [OF ok]
    have "u' = loop_pick s u" "s' = s" using at(2) AtPick by simp_all
    moreover have "announce_inv h (loop_pick s u, s, acc)" by (rule announce_inv_frame [OF inv refl]) (simp_all add: read_keys_def f AtPick)
    ultimately show ?thesis by simp
  qed
qed

lemma enqueue_inv:
  assumes inv: "announce_inv h (u, s, acc)" and pr: "plain_req req" and step: "announce_step A (Enqueue req p sel) (u, s, acc) = Some y"
  shows "announce_inv h y"
proof -
  have i: "length (sy_keys s) = priorities" "list_all (list_all plain_req) (sy_keys s)" "loop_pc_ok u" "u_histPrior u = h"
      "\<And>p. p < priorities \<Longrightarrow> subseq (map req_key (acc p)) (kept u s p)"
      "\<And>p. p < priorities \<Longrightarrow> p \<noteq> h \<Longrightarrow> map req_key (acc p) = kept u s p"
    using inv by (auto simp: announce_inv_def)
  consider "y = (u, s, acc)" | s' where "p < priorities" "y = (u, s', acc(p := acc p @ [req]))"
      "s' = s\<lparr>sy_keys := (sy_keys s)[p := sy_keys s ! p @ [req]], sy_newUnsyncedKeys := True\<rparr>"
    using step by (auto simp: addKey_def split: if_splits)
  then show ?thesis
  proof cases
    case 2
    have "list_all plain_req (sy_keys s ! p)" using i(1,2) 2(1) by (simp add: list_all_length)
    then have pl: "list_all (list_all plain_req) (sy_keys s')"
      using pr i(2) 2(3) list_all_update [of _ "sy_keys s" "sy_keys s ! p @ [req]"] by simp
    have k: "kept u s' r = kept u s r @ (if r = p then [req_key req] else [])" if "r < priorities" for r
      using that 2(3) i(1) by (simp add: kept_def read_keys_def handed_keys_def nth_list_update)
    show ?thesis using i pl 2 k by (auto simp: announce_inv_def subseq_append)
  qed (use inv in simp)
qed

lemma announce_step_inv:
  assumes "announce_inv h x" "announce_ok e" "announce_step A e x = Some y"
  shows "announce_inv h y"
proof -
  obtain u s acc where x: "x = (u, s, acc)" by (cases x) auto
  have ok: "loop_pc_ok u" using assms(1) x by (simp add: announce_inv_def)
  show ?thesis
  proof (cases e)
    case (Enqueue req p sel)
    then show ?thesis using enqueue_inv [of h u s acc req A p sel y] assms x by (simp del: announce_step.simps)
  next
    case (Move mv)
    then show ?thesis using move_inv [of h u s acc] assms(1,3) x by (auto split: option.splits go.splits)
  qed (use assms(1,3) x ok in \<open>auto simp: announce_inv_def kept_def read_keys_def handed_keys_def sendUnsyncedKeys_def syncState_send_def
      syncer_stop_def split: if_splits\<close>)
qed

interpretation announcing: event_invariant "announce_step A" announce_ok "announce_inv h" for A h
  by unfold_locales (rule announce_step_inv)

section \<open>Properties\<close>

text \<open>
  C25: no key that was queued for announcement is lost or overtaken by a later one of its priority, except with a batch
  whose \<open>unsyncedKeys\<close> call fails, whatever the interleaving of \<open>addKey\<close> and the other goroutines with the moves of the
  loop and whatever its \<open>select\<close> takes. For every priority the keys accepted so far are those handed to \<open>unsyncedKeys\<close>,
  those in the open batch and those waiting, in this order; at the priority of the history, keys from the
  history may stand in between. Elsewhere each accepted key is, with its multiplicity, one the peer was sent, one lost with a failed
  call, one of the open batch or one waiting, and where no call has failed the keys sent to the peer are the first ones accepted, in
  order.
\<close>

theorem announced_keys_in_order:
  assumes "newSyncer L rle db key params state syncF = Some s0" "unsynced_init params = Ret u0"
    "reach (announce_step A) announce_ok (u0, s0, \<lambda>_. []) (u, s, acc)" "p < priorities"
  shows "subseq (map req_key (acc p)) (handed_keys s p @ keys_at p (u_unsynced u) @ map req_key (sy_keys s ! p))
    \<and> (p \<noteq> sp_SyncPriorities params ! HistoryReq \<longrightarrow>
        map req_key (acc p) = handed_keys s p @ keys_at p (u_unsynced u) @ map req_key (sy_keys s ! p)
        \<and> mset (map req_key (acc p)) = mset (wire_keys s p) + mset (lost_keys s p)
            + mset (keys_at p (u_unsynced u)) + mset (map req_key (sy_keys s ! p))
        \<and> (lost_keys s p = [] \<longrightarrow> map req_key (acc p) = wire_keys s p @ keys_at p (u_unsynced u) @ map req_key (sy_keys s ! p)))"
proof -
  have "announce_inv (sp_SyncPriorities params ! HistoryReq) (u0, s0, \<lambda>_. [])"
    using assms(1,2) by (auto simp: announce_inv_def newSyncer_def unsynced_init_def loop_pc_ok_def chan_ok_def kept_def read_keys_def
        handed_keys_def priorities_def nth_Cons' list_all_iff split: option.splits if_splits)
  then have "announce_inv (sp_SyncPriorities params ! HistoryReq) (u, s, acc)" using announcing.reach_inv [OF assms(3)] by blast
  then have "subseq (map req_key (acc p)) (handed_keys s p @ keys_at p (u_unsynced u) @ map req_key (sy_keys s ! p))"
      "p \<noteq> sp_SyncPriorities params ! HistoryReq \<Longrightarrow>
        map req_key (acc p) = handed_keys s p @ keys_at p (u_unsynced u) @ map req_key (sy_keys s ! p)"
    using assms(4) by (auto simp: announce_inv_def kept_def read_keys_def)
  then show ?thesis using handed_split [of s p] handed_if_none_lost [of s p] by (auto simp: mset_map [symmetric] simp del: mset_map)
qed

section \<open>The history handed over by the sync script\<close>

definition covered :: "sync_act list \<Rightarrow> u64 \<Rightarrow> bool" where
  "covered acts i \<longleftrightarrow> (\<exists>st. ASegment st \<in> set acts \<and> ss_First st \<le> i \<and> i < ss_Last st)"

text \<open>What the announcing loop leaves alone in the sync state it shares with the script.\<close>

lemma loop_keeps_segment:
  assumes step: "syncUnsyncedKeys_step A mv (u, s) = Some (Ret (u', s'))"
  shows "ss_First (sy_state s') = ss_First (sy_state s) \<and> ss_Last (sy_state s') = ss_Last (sy_state s)
    \<and> y_SessionAt (sy_state s') = y_SessionAt (sy_state s)
    \<and> (y_LastSeenAt (sy_state s') = y_LastSeenAt (sy_state s) \<or> (\<exists>w ok. mv = Send w ok \<and> y_LastSeenAt (sy_state s') = da_counter A w))"
proof (cases "u_pc u")
  case AtSend
  then obtain w out where "mv = Send w out" "before_select A w out (u, s) = (u', s')" using step_at(3) [OF step] by blast
  then show ?thesis by (auto simp: before_select_def Let_def split: if_splits)
next
  case AtSelect
  then obtain w gid choice where mv: "mv = Take w gid choice" using step_at(4) [OF step] by blast
  then obtain r u2 where l: "loop_select A w choice (u\<lparr>u_pc := AtTop\<rparr>, s) = Some (Ret (r, u2, s'))"
    using step AtSelect by (auto simp: syncUnsyncedKeys_step_def go_bind_Ret_iff split: if_splits option.splits go.splits)
  then show ?thesis by (auto simp: loop_select_def history_key_def take_state_def Let_def
        split: loop_choice.splits key_chan.splits list.splits option.splits go.splits prod.splits if_splits)
qed (use step_at [OF step] in auto)

text \<open>
  C33: the storage counters the script asks the announcing loop to cover, on every branch. \<open>l1\<close> and \<open>l2\<close> are the values of
  \<open>LastSeenAt\<close> in the shared state once the first and the second call of \<open>syncState\<close> are done: the announcing
  loop raises it to the current storage counter with every batch it sends. Nothing is asked for in a first session; a peer that was synced gets
  what was stored from \<open>LastSeenAt\<close> to the start of this session. Otherwise an unfinished segment is repeated from \<open>First\<close> up to, not
  including, \<open>Last\<close>, the next one goes from behind \<open>Last\<close> (from \<open>First\<close> where no segment was unfinished) to the \<open>LastSeenAt\<close> of that moment,
  and the last one up to the session's start, from the \<open>LastSeenAt\<close> the second one left behind. What was stored between the end of the
  second segment and \<open>l2\<close> is not asked for, and if \<open>l2\<close> has passed the session's start there is no last segment at all.
\<close>

theorem sync_script_coverage:
  assumes env: "\<And>j x. ss_First (env j x) = ss_First x" "\<And>j x. ss_Last (env j x) = ss_Last x" "\<And>j x. y_SessionAt (env j x) = y_SessionAt x"
    "\<And>x. y_LastSeenAt (env 1 x) = l1" "\<And>x. y_LastSeenAt (env 2 x) = l2"
  shows "covered (fst (sync_script env st)) i \<longleftrightarrow>
    y_SessionAt st \<noteq> 0 \<and>
    (if y_Synced st then y_LastSeenAt st \<le> i \<and> i < y_SessionAt st
     else let unfinished = \<not> IsZeroKey (y_Latest st);
              from = (if unfinished \<and> ss_Last st < y_SessionAt st then ss_Last st + 1 else ss_First st);
              upto = (if unfinished then l1 else y_LastSeenAt st)
          in (unfinished \<and> ss_First st \<le> i \<and> i < ss_Last st) \<or> (from \<le> i \<and> i < upto)
             \<or> (if from < upto then l2 \<le> i \<and> i < y_SessionAt st
                else upto < y_SessionAt st \<and> from \<le> i \<and> i < y_SessionAt st))"
proof -
  have cov: "covered [] i = False" "covered (ASegment x # acts) i \<longleftrightarrow> (ss_First x \<le> i \<and> i < ss_Last x) \<or> covered acts i"
      "covered (AReplay n # acts) i = covered acts i" "covered (ACloseStates # acts) i = covered acts i"
      "covered (acts @ acts') i \<longleftrightarrow> covered acts i \<or> covered acts' i" "covered (map AReplay ns) i = False" for x n ns acts acts'
    by (auto simp: covered_def)
  have seg: "a \<le> i \<and> i < b \<Longrightarrow> a < b" for a b :: u64 using order.strict_trans1 by blast
  show ?thesis
    using env seg by (auto simp: sync_script_def sync_unfinished_def sync_disconnect_def sync_session_def Let_def cov)
qed

text \<open>
  After an unfinished session the script goes on with \<open>First = Last + 1\<close>, but a segment ends before
  its \<open>Last\<close>: the chunk stored at index \<open>Last\<close> is in no segment, even where the state stays as it is.
\<close>

theorem sync_script_skips_last:
  assumes "y_SessionAt st \<noteq> 0" "\<not> y_Synced st" "\<not> IsZeroKey (y_Latest st)"
    "ss_Last st < y_LastSeenAt st" "y_LastSeenAt st \<le> y_SessionAt st"
  shows "\<not> covered (fst (sync_script (\<lambda>_ x. x) st)) (ss_Last st)"
proof -
  have "unat (y_LastSeenAt st) < 2 ^ 64" using unsigned_less [of "y_LastSeenAt st"] by simp
  then have "unat (ss_Last st) + 1 < 2 ^ 64" using assms(4) by (simp add: word_less_nat_alt)
  then have less: "ss_Last st < ss_Last st + 1" by (simp add: word_less_nat_alt unat_word_ariths)
  have "ss_Last st < y_SessionAt st" using assms(4,5) by simp
  then show ?thesis using assms less
    by (auto simp: covered_def sync_script_def sync_unfinished_def sync_disconnect_def sync_session_def Let_def)
qed

section \<open>A concrete syncer\<close>

definition demo_params :: SyncParams where
  "demo_params = NewSyncParams []"

definition demo_access :: "(unit, Key list) DbAccess" where
  "demo_access = \<lparr>da_get = (\<lambda>_ w. Some (Err SNotFound, w)), da_counter = (\<lambda>_. 9), da_iterator = (\<lambda>_ _. None), da_next = (\<lambda>_. Ret (None, []))\<rparr>"

definition demo_syncer :: "memdb_t syncer" where
  "demo_syncer = the (newSyncer memdb_ops (id, Some) (NewLDBDatabase mem_empty) (replicate 32 7) demo_params syncState0 True)"

definition demo_loop :: "Key list unsynced_loop" where
  "demo_loop = (case unsynced_init demo_params of Ret u \<Rightarrow> u)"

definition demo_rounds :: "unit announce_event list" where
  "demo_rounds = [Enqueue (RKey (replicate 32 1)) 2 True, Move Scan, Move (Send () True), Move (Take () 0 (ChKeys True))]
     @ replicate 5 (Move Scan) @ [Move (Send () False), Enqueue (RKey (replicate 32 2)) 2 True, PeerReady,
     Move (Take () 0 ChDelivery), Move Scan, Move Scan, Move (Send () True), Enqueue (RKey (replicate 32 3)) 2 True,
     Move (Take () 0 (ChKeys True))]"

lemma demo_syncer_new:
  "newSyncer memdb_ops (id, Some) (NewLDBDatabase mem_empty) (replicate 32 7) demo_params syncState0 True = Some demo_syncer"
  "(unsynced_init demo_params :: (unit, Key list unsynced_loop) go) = Ret demo_loop"
  by code_simp+

lemma demo_announced:
  "\<exists>u s acc. run_events (announce_step demo_access) demo_rounds (demo_loop, demo_syncer, \<lambda>_. []) = Some (u, s, acc)
    \<and> lost_keys s 2 = [replicate 32 1] \<and> wire_keys s 2 = []
    \<and> acc 2 = map RKey [replicate 32 1, replicate 32 2, replicate 32 3]"
proof -
  have "case run_events (announce_step demo_access) demo_rounds (demo_loop, demo_syncer, \<lambda>_. []) of
      Some (u, s, acc) \<Rightarrow> lost_keys s 2 = [replicate 32 1] \<and> wire_keys s 2 = []
        \<and> acc 2 = map RKey [replicate 32 1, replicate 32 2, replicate 32 3] | None \<Rightarrow> False"
    by code_simp
  then show ?thesis by (auto split: option.splits)
qed

theorem announced_keys_in_order_witness:
  "\<exists>u s. lost_keys (s :: memdb_t syncer) 2 = [replicate 32 1]
    \<and> [replicate 32 1, replicate 32 2, replicate 32 3] =
        handed_keys s 2 @ keys_at 2 (u_unsynced (u :: Key list unsynced_loop)) @ map req_key (sy_keys s ! 2)"
proof -
  obtain u s acc where r: "run_events (announce_step demo_access) demo_rounds (demo_loop, demo_syncer, \<lambda>_. []) = Some (u, s, acc)"
      "lost_keys s 2 = [replicate 32 1]" "wire_keys s 2 = []" "acc 2 = map RKey [replicate 32 1, replicate 32 2, replicate 32 3]"
    using demo_announced by (elim exE conjE) (rule that)
  have "list_all announce_ok demo_rounds" by (simp add: demo_rounds_def numeral_eq_Suc)
  then have "reach (announce_step demo_access) announce_ok (demo_loop, demo_syncer, \<lambda>_. []) (u, s, acc)" by (rule run_reach [OF _ r(1)])
  from announced_keys_in_order [OF demo_syncer_new this, of 2]
  have "map req_key (acc 2) = handed_keys s 2 @ keys_at 2 (u_unsynced u) @ map req_key (sy_keys s ! 2)"
    by (simp add: priorities_def demo_params_def NewSyncParams_def HistoryReq_def High_def Medium_def Low_def nth_Cons')
  then show ?thesis using r(2,4) by (intro exI [of _ u] exI [of _ s]) simp
qed

theorem sync_script_coverage_witness:
  "\<not> covered (fst (sync_script (\<lambda>_ x. x\<lparr>y_LastSeenAt := 20\<rparr>) (syncState0\<lparr>ss_First := 2, y_LastSeenAt := 5, y_SessionAt := 12\<rparr>))) 7
   \<and> covered (fst (sync_script (\<lambda>_ x. x\<lparr>y_LastSeenAt := 20\<rparr>) (syncState0\<lparr>ss_First := 2, y_LastSeenAt := 5, y_SessionAt := 12\<rparr>))) 4"
proof -
  let ?e = "\<lambda>_ x. x\<lparr>y_LastSeenAt := 20\<rparr>"
  let ?st = "syncState0\<lparr>ss_First := 2, y_LastSeenAt := 5, y_SessionAt := 12\<rparr>"
  have e: "ss_First (?e j x) = ss_First x" "ss_Last (?e j x) = ss_Last x" "y_SessionAt (?e j x) = y_SessionAt x"
      "y_LastSeenAt (?e j x) = 20" for j :: nat and x :: syncState
    by simp_all
  show ?thesis
    using sync_script_coverage [of ?e 20 20 ?st, OF e(1) e(2) e(3) e(4) e(4)] by (simp add: syncState0_def IsZeroKey_def Let_def)
qed

end
