(* ===== verification/Streamer.thy ===== *)
theory Streamer
  imports Net_Messages "HOL-Library.AList"
begin

text \<open>
  The broker of video streams (\<open>streaming/streamer.go\<close>, \<open>streaming/types.go\<close>) on the streams
  and subscriptions of \<open>lpms/stream\<close>. Stream objects and subscription objects live in heaps
  indexed by their address, so that a goroutine that still holds a removed object is seen;
  a worker that a \<open>cancel\<close> function would stop is a number. \<open>'m\<close> is the type of muxers.
  What the workers copy from streams to muxers, and the RTMP header a late subscriber is
  sent, are outside the model.
\<close>

section \<open>Stream identifiers\<close>

type_synonym StreamID = string

definition HashLength :: nat where "HashLength = 32"

definition BytesToHash :: "bytes \<Rightarrow> Hash" where
  "BytesToHash b =
     (let b = (if length b > HashLength then drop (length b - HashLength) b else b)
      in replicate (HashLength - length b) 0 @ b)"

definition FromHex :: "string \<Rightarrow> bytes" where
  "FromHex s =
     (if length s > 1 then
        (let s = (if take 2 s = ''0x'' \<or> take 2 s = ''0X'' then drop 2 s else s);
             s = (if length s mod 2 = 1 then CHR ''0'' # s else s)
         in Hex2Bytes s)
      else [])"

definition HexToHash :: "string \<Rightarrow> Hash" where
  "HexToHash s = BytesToHash (FromHex s)"

definition MakeStreamID :: "Hash \<Rightarrow> string \<Rightarrow> StreamID" where
  "MakeStreamID nodeID sid = hex_encode nodeID @ sid"

definition SplitComponents :: "StreamID \<Rightarrow> Hash \<times> string" where
  "SplitComponents self =
     (let originComponentLength = HashLength * 2
      in if length self \<noteq> originComponentLength * 2 then (replicate HashLength 0, [])
         else (HexToHash (take originComponentLength self), drop originComponentLength self))"

section \<open>Video chunks and streams\<close>

definition RequestStreamMsgID :: u64 where "RequestStreamMsgID = 0"
definition DeliverStreamMsgID :: u64 where "DeliverStreamMsgID = 1"
definition EOFStreamMsgID :: u64 where "EOFStreamMsgID = 2"
definition StopStreamMsgID :: u64 where "StopStreamMsgID = 3"
definition TranscodeRequestMsgID :: u64 where "TranscodeRequestMsgID = 4"
definition TranscodeAckMsgID :: u64 where "TranscodeAckMsgID = 5"

lemmas stream_ids = RequestStreamMsgID_def DeliverStreamMsgID_def EOFStreamMsgID_def
  StopStreamMsgID_def TranscodeRequestMsgID_def TranscodeAckMsgID_def

text \<open>\<open>vc_Packet\<close> is the \<open>Data\<close> field of the packet, \<open>vc_HeaderStreams\<close> the codec data.\<close>

record VideoChunk =
  vc_ID :: u64
  vc_Seq :: u64
  vc_Key :: Key
  vc_HeaderStreams :: "bytes list option"
  vc_Packet :: "bytes option"
  vc_HLSSegData :: "bytes option"
  vc_HLSSegName :: string
  vc_Duration :: int
  vc_M3U8 :: "bytes option"

definition VideoChunk0 :: VideoChunk where
  "VideoChunk0 = \<lparr>vc_ID = 0, vc_Seq = 0, vc_Key = [], vc_HeaderStreams = None, vc_Packet = None,
     vc_HLSSegData = None, vc_HLSSegName = [], vc_Duration = 0, vc_M3U8 = None\<rparr>"

definition HLS :: VideoFormat where "HLS = push_bit 1 577778"
definition RTMP :: VideoFormat where "RTMP = push_bit 1 577779"

datatype stream_item = IPlaylist bytes | ISegment u64 string int bytes | IHeader "bytes list" | IPacket bytes | IEOF

record VideoStream =
  vs_StreamID :: StreamID
  vs_Format :: VideoFormat
  vs_items :: "stream_item list"

definition NewVideoStream :: "StreamID \<Rightarrow> VideoFormat \<Rightarrow> VideoStream" where
  "NewVideoStream sid format = \<lparr>vs_StreamID = sid, vs_Format = format, vs_items = []\<rparr>"

definition vs_push :: "stream_item \<Rightarrow> VideoStream \<Rightarrow> VideoStream" where
  "vs_push i v = v\<lparr>vs_items := vs_items v @ [i]\<rparr>"

section \<open>Subscriptions\<close>

record 'm StreamSubscriber =
  sub_stream :: addr
  sub_rtmp :: "(string \<times> 'm) list"
  sub_hls :: "(string \<times> 'm) list"

datatype sub_error = ErrWrongFormat | ErrStreamSubscriber

definition NewStreamSubscriber :: "addr \<Rightarrow> 'm StreamSubscriber" where
  "NewStreamSubscriber v = \<lparr>sub_stream = v, sub_rtmp = [], sub_hls = []\<rparr>"

definition SubscribeRTMP :: "string \<Rightarrow> 'm \<Rightarrow> 'm StreamSubscriber \<Rightarrow> 'm StreamSubscriber" where
  "SubscribeRTMP muxID mux s =
     (if sub_hls s \<noteq> [] then s else s\<lparr>sub_rtmp := AList.update muxID mux (sub_rtmp s)\<rparr>)"

definition SubscribeHLS :: "string \<Rightarrow> 'm \<Rightarrow> 'm StreamSubscriber \<Rightarrow> 'm StreamSubscriber \<times> sub_error option" where
  "SubscribeHLS muxID mux s =
     (if sub_rtmp s \<noteq> [] then (s, Some ErrWrongFormat)
      else if map_of (sub_hls s) muxID \<noteq> None then (s, Some ErrStreamSubscriber)
      else (s\<lparr>sub_hls := AList.update muxID mux (sub_hls s)\<rparr>, None))"

definition UnsubscribeRTMP :: "string \<Rightarrow> 'm StreamSubscriber \<Rightarrow> 'm StreamSubscriber" where
  "UnsubscribeRTMP muxID s = s\<lparr>sub_rtmp := AList.delete muxID (sub_rtmp s)\<rparr>"

definition UnsubscribeHLS :: "string \<Rightarrow> 'm StreamSubscriber \<Rightarrow> 'm StreamSubscriber" where
  "UnsubscribeHLS muxID s = s\<lparr>sub_hls := AList.delete muxID (sub_hls s)\<rparr>"

definition sub_UnsubscribeAll :: "'m StreamSubscriber \<Rightarrow> 'm StreamSubscriber" where
  "sub_UnsubscribeAll s = s\<lparr>sub_hls := [], sub_rtmp := []\<rparr>"

definition sub_HasSubscribers :: "'m StreamSubscriber \<Rightarrow> bool" where
  "sub_HasSubscribers s \<longleftrightarrow> sub_rtmp s \<noteq> [] \<or> sub_hls s \<noteq> []"

section \<open>The streamer\<close>

record 'm Streamer =
  str_networkStreams :: "StreamID \<rightharpoonup> addr"
  str_subscribers :: "StreamID \<rightharpoonup> addr"
  str_cancellation :: "StreamID \<rightharpoonup> nat"
  str_SelfAddress :: Hash
  str_streams :: "addr \<Rightarrow> VideoStream"
  str_nextStream :: addr
  str_subs :: "addr \<Rightarrow> 'm StreamSubscriber"
  str_nextSub :: addr
  str_nextWorker :: nat
  str_cancelled :: "nat list"
  str_attach :: "(addr \<times> string \<times> 'm) list"

definition NewStreamer :: "Hash \<Rightarrow> 'm Streamer" where
  "NewStreamer self = \<lparr>str_networkStreams = Map.empty, str_subscribers = Map.empty,
     str_cancellation = Map.empty, str_SelfAddress = self,
     str_streams = (\<lambda>_. NewVideoStream [] 0), str_nextStream = 0,
     str_subs = (\<lambda>_. NewStreamSubscriber 0), str_nextSub = 0, str_nextWorker = 0, str_cancelled = [],
     str_attach = []\<rparr>"

definition new_stream :: "StreamID \<Rightarrow> VideoFormat \<Rightarrow> 'm Streamer \<Rightarrow> addr \<times> 'm Streamer" where
  "new_stream sid format s =
     (let v = str_nextStream s
      in (v, s\<lparr>str_streams := (str_streams s)(v := NewVideoStream sid format), str_nextStream := v + 1,
               str_networkStreams := (str_networkStreams s)(sid \<mapsto> v)\<rparr>))"

text \<open>The common beginning of both subscriptions: find or make the stream, then the subscription.\<close>

definition ensure_stream :: "StreamID \<Rightarrow> VideoFormat \<Rightarrow> 'm Streamer \<Rightarrow> addr \<times> 'm Streamer" where
  "ensure_stream sid format s =
     (case str_networkStreams s sid of Some v \<Rightarrow> (v, s) | None \<Rightarrow> new_stream sid format s)"

definition ensure_sub :: "StreamID \<Rightarrow> VideoFormat \<Rightarrow> 'm Streamer \<Rightarrow> addr \<times> 'm Streamer" where
  "ensure_sub sid format s =
     (case ensure_stream sid format s of (v, s) \<Rightarrow>
        (case str_subscribers s sid of
           Some b \<Rightarrow> (b, s)
         | None \<Rightarrow>
             (let b = str_nextSub s; k = str_nextWorker s
              in (b, s\<lparr>str_subs := (str_subs s)(b := NewStreamSubscriber v), str_nextSub := b + 1,
                       str_subscribers := (str_subscribers s)(sid \<mapsto> b), str_nextWorker := k + 1,
                       str_cancellation := (str_cancellation s)(sid \<mapsto> k)\<rparr>))))"

text \<open>The RTMP subscription is made by a goroutine, \<open>rtmp_attach\<close>.\<close>

definition SubscribeToRTMPStream :: "StreamID \<Rightarrow> string \<Rightarrow> 'm \<Rightarrow> 'm Streamer \<Rightarrow> 'm Streamer" where
  "SubscribeToRTMPStream sid subID mux s =
     (case ensure_sub sid RTMP s of (b, s) \<Rightarrow> s\<lparr>str_attach := str_attach s @ [(b, subID, mux)]\<rparr>)"

definition rtmp_attach :: "nat \<Rightarrow> 'm Streamer \<Rightarrow> 'm Streamer option" where
  "rtmp_attach i s =
     (if i < length (str_attach s) then
        (case str_attach s ! i of (b, subID, mux) \<Rightarrow>
           Some (s\<lparr>str_attach := take i (str_attach s) @ drop (Suc i) (str_attach s),
                   str_subs := (str_subs s)(b := SubscribeRTMP subID mux (str_subs s b))\<rparr>))
      else None)"

definition SubscribeToHLSStream ::
    "StreamID \<Rightarrow> string \<Rightarrow> 'm \<Rightarrow> 'm Streamer \<Rightarrow> 'm Streamer \<times> sub_error option" where
  "SubscribeToHLSStream sid subID mux s =
     (case ensure_sub sid HLS s of (b, s) \<Rightarrow>
        (case SubscribeHLS subID mux (str_subs s b) of (c, e) \<Rightarrow> (s\<lparr>str_subs := (str_subs s)(b := c)\<rparr>, e)))"

definition EndRTMPStream :: "StreamID \<Rightarrow> 'm Streamer \<Rightarrow> 'm Streamer" where
  "EndRTMPStream sid s =
     (case str_networkStreams s sid of
        None \<Rightarrow> s
      | Some v \<Rightarrow> s\<lparr>str_streams := (str_streams s)(v := vs_push IEOF (str_streams s v))\<rparr>)"

definition GetHLSMuxer :: "StreamID \<Rightarrow> string \<Rightarrow> 'm Streamer \<Rightarrow> 'm option" where
  "GetHLSMuxer sid subID s =
     (case str_subscribers s sid of None \<Rightarrow> None | Some b \<Rightarrow> map_of (sub_hls (str_subs s b)) subID)"

text \<open>
  \<open>GetRTMPBuffer\<close>: \<open>oldest mux\<close> is the cursor \<open>q.Oldest()\<close> where the muxer is a queue that is not nil, and \<open>None\<close> where the type assertion
  fails or the queue is nil. The subscription is used without a test; for a stream that has none the call on the nil pointer
  panics.
\<close>

definition GetRTMPBuffer :: "('m \<Rightarrow> 'b option) \<Rightarrow> StreamID \<Rightarrow> 'm Streamer \<Rightarrow> (unit, 'b option) go" where
  "GetRTMPBuffer oldest sid s =
     (case str_subscribers s sid of
        None \<Rightarrow> Panic
      | Some b \<Rightarrow> Ret (case map_of (sub_rtmp (str_subs s b)) sid of None \<Rightarrow> None | Some mux \<Rightarrow> oldest mux))"

text \<open>\<open>self.cancellation[id]()\<close> panics where there is no function.\<close>

definition call_cancel :: "StreamID \<Rightarrow> 'm Streamer \<Rightarrow> (unit, 'm Streamer) go" where
  "call_cancel sid s =
     (case str_cancellation s sid of
        None \<Rightarrow> Panic
      | Some k \<Rightarrow> Ret (s\<lparr>str_cancelled := str_cancelled s @ [k]\<rparr>))"

definition drop_sub :: "StreamID \<Rightarrow> 'm Streamer \<Rightarrow> 'm Streamer" where
  "drop_sub sid s = s\<lparr>str_subscribers := (str_subscribers s)(sid := None)\<rparr>"

definition DeleteNetworkStream :: "StreamID \<Rightarrow> 'm Streamer \<Rightarrow> 'm Streamer" where
  "DeleteNetworkStream sid s = s\<lparr>str_networkStreams := (str_networkStreams s)(sid := None)\<rparr>"

definition UnsubscribeToHLSStream :: "StreamID \<Rightarrow> string \<Rightarrow> 'm Streamer \<Rightarrow> (unit, 'm Streamer) go" where
  "UnsubscribeToHLSStream sid subID s =
     (case str_subscribers s sid of
        None \<Rightarrow> Ret s
      | Some b \<Rightarrow>
          (let s = s\<lparr>str_subs := (str_subs s)(b := UnsubscribeHLS subID (str_subs s b))\<rparr>
           in if \<not> sub_HasSubscribers (str_subs s b) then
                go_bind (call_cancel sid s) (\<lambda>s.
                  let s = drop_sub sid s
                  in Ret (if str_SelfAddress s \<noteq> fst (SplitComponents sid) then DeleteNetworkStream sid s else s))
              else Ret s))"

definition UnsubscribeToRTMPStream :: "StreamID \<Rightarrow> string \<Rightarrow> 'm Streamer \<Rightarrow> (unit, 'm Streamer) go" where
  "UnsubscribeToRTMPStream sid subID s =
     (case str_subscribers s sid of
        None \<Rightarrow> Ret s
      | Some b \<Rightarrow>
          (let s = s\<lparr>str_subs := (str_subs s)(b := UnsubscribeRTMP subID (str_subs s b))\<rparr>
           in if \<not> sub_HasSubscribers (str_subs s b) then
                go_bind (call_cancel sid s) (\<lambda>s. Ret (DeleteNetworkStream sid (drop_sub sid s)))
              else Ret s))"

definition UnsubscribeAll :: "StreamID \<Rightarrow> 'm Streamer \<Rightarrow> (unit, 'm Streamer) go" where
  "UnsubscribeAll sid s =
     (case str_subscribers s sid of
        None \<Rightarrow> Ret s
      | Some b \<Rightarrow>
          (let s = s\<lparr>str_subs := (str_subs s)(b := sub_UnsubscribeAll (str_subs s b))\<rparr>
           in go_bind (call_cancel sid s) (\<lambda>s. Ret (DeleteNetworkStream sid (drop_sub sid s)))))"

definition HasSubscribers :: "StreamID \<Rightarrow> 'm Streamer \<Rightarrow> bool" where
  "HasSubscribers sid s =
     (case str_subscribers s sid of None \<Rightarrow> False | Some b \<Rightarrow> sub_HasSubscribers (str_subs s b))"

definition GetNetworkStream :: "StreamID \<Rightarrow> 'm Streamer \<Rightarrow> addr option" where
  "GetNetworkStream sid s = str_networkStreams s sid"

definition AddNewNetworkStream :: "StreamID \<Rightarrow> VideoFormat \<Rightarrow> 'm Streamer \<Rightarrow> addr \<times> 'm Streamer" where
  "AddNewNetworkStream sid format s = new_stream sid format s"

text \<open>\<open>insertChunkToStream\<close> of \<open>network/protocol.go\<close>; the playlist is decoded by the m3u8 library.\<close>

definition insertChunkToStream ::
    "(bytes \<Rightarrow> bytes) \<Rightarrow> VideoChunk \<Rightarrow> VideoStream \<Rightarrow> VideoStream \<times> bool" where
  "insertChunkToStream decodePl chunk strm =
     (case vc_M3U8 chunk of
        Some m \<Rightarrow> (vs_push (IPlaylist (decodePl m)) strm, True)
      | None \<Rightarrow>
          (case vc_HLSSegData chunk of
             Some d \<Rightarrow> (vs_push (ISegment (vc_Seq chunk) (vc_HLSSegName chunk) (vc_Duration chunk) d) strm, True)
           | None \<Rightarrow>
               (case vc_HeaderStreams chunk of
                  Some h \<Rightarrow> (vs_push (IHeader h) strm, True)
                | None \<Rightarrow>
                    (case vc_Packet chunk of
                       Some p \<Rightarrow> (vs_push (IPacket p) strm, True)
                     | None \<Rightarrow> (strm, False)))))"

section \<open>Downstream and upstream peers of a stream\<close>

text \<open>\<open>network/streamdb.go\<close>; \<open>addr_of p\<close> is \<open>p.Addr().String()\<close>.\<close>

record StreamDB =
  sdb_Downstream :: "StreamID \<Rightarrow> peer_id list"
  sdb_Upstream :: "StreamID \<rightharpoonup> peer_id"
  sdb_Transcoded :: "StreamID \<Rightarrow> transcodedStreamData list"

definition NewStreamDB :: StreamDB where
  "NewStreamDB = \<lparr>sdb_Downstream = (\<lambda>_. []), sdb_Upstream = Map.empty, sdb_Transcoded = (\<lambda>_. [])\<rparr>"

definition AddDownstreamPeer :: "StreamID \<Rightarrow> peer_id \<Rightarrow> StreamDB \<Rightarrow> StreamDB" where
  "AddDownstreamPeer sid p d = d\<lparr>sdb_Downstream := (sdb_Downstream d)(sid := sdb_Downstream d sid @ [p])\<rparr>"

fun last_match :: "(peer_id \<Rightarrow> string) \<Rightarrow> string \<Rightarrow> nat \<Rightarrow> peer_id list \<Rightarrow> nat option \<Rightarrow> nat option" where
  "last_match addr_of a i [] found = found"
| "last_match addr_of a i (p # ps) found =
     last_match addr_of a (i + 1) ps (if addr_of p = a then Some i else found)"

definition RemoveDownstreamPeer :: "(peer_id \<Rightarrow> string) \<Rightarrow> StreamID \<Rightarrow> peer_id \<Rightarrow> StreamDB \<Rightarrow> StreamDB" where
  "RemoveDownstreamPeer addr_of sid p d =
     (let peers = sdb_Downstream d sid
      in case last_match addr_of (addr_of p) 0 peers None of
           None \<Rightarrow> d
         | Some i \<Rightarrow>
             d\<lparr>sdb_Downstream := (sdb_Downstream d)
                 (sid := take (length peers - 1) (peers[i := peers ! (length peers - 1)]))\<rparr>)"

definition AddUpstreamTranscodeRequester :: "StreamID \<Rightarrow> peer_id \<Rightarrow> StreamDB \<Rightarrow> StreamDB" where
  "AddUpstreamTranscodeRequester sid p d = d\<lparr>sdb_Upstream := (sdb_Upstream d)(sid \<mapsto> p)\<rparr>"

definition AddTranscodedStream :: "StreamID \<Rightarrow> transcodedStreamData \<Rightarrow> StreamDB \<Rightarrow> StreamDB" where
  "AddTranscodedStream sid t d = d\<lparr>sdb_Transcoded := (sdb_Transcoded d)(sid := sdb_Transcoded d sid @ [t])\<rparr>"

end
