(* ===== verification/Streamer_Props.thy ===== *)
theory Streamer_Props
  imports Streamer Event_Systems "HOL-Library.Multiset"
begin

text \<open>
  The broker of streams as a machine of its operations: its tables stay consistent under every
  sequence of calls, so no call panics and every worker is cancelled at most once. Then
  subscriptions, stream identifiers and the table of downstream peers.
\<close>

section \<open>The broker as a machine\<close>

text \<open>\<open>OpAttach i\<close> is the moment at which the goroutine of the \<open>i\<close>-th waiting RTMP subscription runs.\<close>

datatype 'm stream_op =
    OpSubRTMP StreamID string 'm
  | OpAttach nat
  | OpSubHLS StreamID string 'm
  | OpEnd StreamID
  | OpUnsubHLS StreamID string
  | OpUnsubRTMP StreamID string
  | OpUnsubAll StreamID
  | OpAdd StreamID VideoFormat
  | OpDelete StreamID

fun streamer_step :: "'m stream_op \<Rightarrow> 'm Streamer \<Rightarrow> (unit, 'm Streamer) go option" where
  "streamer_step (OpSubRTMP sid subID mux) s = Some (Ret (SubscribeToRTMPStream sid subID mux s))"
| "streamer_step (OpAttach i) s = map_option Ret (rtmp_attach i s)"
| "streamer_step (OpSubHLS sid subID mux) s = Some (Ret (fst (SubscribeToHLSStream sid subID mux s)))"
| "streamer_step (OpEnd sid) s = Some (Ret (EndRTMPStream sid s))"
| "streamer_step (OpUnsubHLS sid subID) s = Some (UnsubscribeToHLSStream sid subID s)"
| "streamer_step (OpUnsubRTMP sid subID) s = Some (UnsubscribeToRTMPStream sid subID s)"
| "streamer_step (OpUnsubAll sid) s = Some (UnsubscribeAll sid s)"
| "streamer_step (OpAdd sid format) s = Some (Ret (snd (AddNewNetworkStream sid format s)))"
| "streamer_step (OpDelete sid) s = Some (Ret (DeleteNetworkStream sid s))"

definition streamer_move :: "'m stream_op \<Rightarrow> 'm Streamer \<Rightarrow> 'm Streamer option" where
  "streamer_move e s = (case streamer_step e s of Some (Ret s') \<Rightarrow> Some s' | _ \<Rightarrow> None)"

section \<open>The invariant of the broker\<close>

definition sub_ok :: "'m StreamSubscriber \<Rightarrow> bool" where
  "sub_ok b \<longleftrightarrow> (sub_rtmp b = [] \<or> sub_hls b = []) \<and> distinct (map fst (sub_rtmp b)) \<and> distinct (map fst (sub_hls b))"

definition workers_ok :: "(StreamID \<rightharpoonup> addr) \<Rightarrow> (StreamID \<rightharpoonup> nat) \<Rightarrow> nat \<Rightarrow> nat list \<Rightarrow> bool" where
  "workers_ok subs canc next gone \<longleftrightarrow>
     dom subs \<subseteq> dom canc \<and> ran canc \<subseteq> {..<next} \<and> set gone \<subseteq> {..<next} \<and> distinct gone \<and>
     (\<forall>sid k. subs sid \<noteq> None \<longrightarrow> canc sid = Some k \<longrightarrow> k \<notin> set gone) \<and>
     (\<forall>sid sid' k. canc sid = Some k \<longrightarrow> canc sid' = Some k \<longrightarrow> sid = sid')"

definition streams_ok :: "(StreamID \<rightharpoonup> addr) \<Rightarrow> (addr \<Rightarrow> VideoStream) \<Rightarrow> addr \<Rightarrow> bool" where
  "streams_ok net strs next \<longleftrightarrow> (\<forall>sid v. net sid = Some v \<longrightarrow> v < next \<and> vs_StreamID (strs v) = sid)"

definition subs_ok :: "(StreamID \<rightharpoonup> addr) \<Rightarrow> addr \<Rightarrow> bool" where
  "subs_ok subs next \<longleftrightarrow> ran subs \<subseteq> {..<next} \<and>
     (\<forall>sid sid' b. subs sid = Some b \<longrightarrow> subs sid' = Some b \<longrightarrow> sid = sid')"

definition streamer_ok :: "'m Streamer \<Rightarrow> bool" where
  "streamer_ok s \<longleftrightarrow>
     workers_ok (str_subscribers s) (str_cancellation s) (str_nextWorker s) (str_cancelled s) \<and>
     streams_ok (str_networkStreams s) (str_streams s) (str_nextStream s) \<and>
     subs_ok (str_subscribers s) (str_nextSub s) \<and> (\<forall>b. sub_ok (str_subs s b))"

lemma workers_start:
  "workers_ok subs canc k gone \<Longrightarrow> subs sid = None \<Longrightarrow> workers_ok (subs(sid \<mapsto> b)) (canc(sid \<mapsto> k)) (k + 1) gone"
  unfolding workers_ok_def ran_def dom_def by (auto simp: less_Suc_eq subset_iff)

lemma workers_stop:
  "workers_ok subs canc n gone \<Longrightarrow> subs sid \<noteq> None \<Longrightarrow> canc sid = Some k \<Longrightarrow> workers_ok (subs(sid := None)) canc n (gone @ [k])"
  unfolding workers_ok_def by (auto simp: ran_def dom_def)

lemma subs_start: "subs_ok subs b \<Longrightarrow> subs_ok (subs(sid \<mapsto> b)) (b + 1)"
  unfolding subs_ok_def ran_def by (auto simp: less_Suc_eq subset_iff)

lemma subs_stop: "subs_ok subs n \<Longrightarrow> subs_ok (subs(sid := None)) n"
  unfolding subs_ok_def ran_def by auto

lemma streams_new: "streams_ok net strs v \<Longrightarrow> streams_ok (net(sid \<mapsto> v)) (strs(v := NewVideoStream sid f)) (v + 1)"
  unfolding streams_ok_def NewVideoStream_def by (auto simp: less_Suc_eq split: if_splits)

lemma streams_delete: "streams_ok net strs n \<Longrightarrow> streams_ok (net(sid := None)) strs n"
  unfolding streams_ok_def by auto

lemma sub_ok_ops [simp]:
  "sub_ok b \<Longrightarrow> sub_ok (SubscribeRTMP k m b)" "sub_ok b \<Longrightarrow> sub_ok (fst (SubscribeHLS k m b))"
  "sub_ok b \<Longrightarrow> sub_ok (UnsubscribeRTMP k b)" "sub_ok b \<Longrightarrow> sub_ok (UnsubscribeHLS k b)"
  "sub_ok (sub_UnsubscribeAll b)" "sub_ok (NewStreamSubscriber v)"
  by (auto simp: sub_ok_def SubscribeRTMP_def SubscribeHLS_def UnsubscribeRTMP_def UnsubscribeHLS_def
      sub_UnsubscribeAll_def NewStreamSubscriber_def distinct_update AList.distinct_delete)

lemma ensure_sub_ok:
  assumes "streamer_ok s" "ensure_sub sid f s = (b, s')"
  shows "streamer_ok s'" "str_subscribers s' sid = Some b"
  using assms workers_start [of "str_subscribers s" _ _ _ sid] subs_start [of "str_subscribers s" _ sid] streams_new
  by (auto simp: ensure_sub_def ensure_stream_def new_stream_def streamer_ok_def Let_def split: option.splits)

text \<open>Changing one subscription object to a good one keeps the invariant.\<close>

lemma set_sub_ok: "streamer_ok s \<Longrightarrow> sub_ok c \<Longrightarrow> streamer_ok (s\<lparr>str_subs := (str_subs s)(b := c)\<rparr>)"
  by (auto simp: streamer_ok_def)

lemma cancel_drop:
  assumes "streamer_ok s" "str_subscribers s sid = Some b"
  shows "\<exists>k. call_cancel sid s = Ret (s\<lparr>str_cancelled := str_cancelled s @ [k]\<rparr>)
    \<and> streamer_ok (drop_sub sid (s\<lparr>str_cancelled := str_cancelled s @ [k]\<rparr>))"
proof -
  obtain k where k: "str_cancellation s sid = Some k" using assms by (auto simp: streamer_ok_def workers_ok_def)
  then have "workers_ok ((str_subscribers s)(sid := None)) (str_cancellation s) (str_nextWorker s) (str_cancelled s @ [k])"
    using assms by (intro workers_stop) (auto simp: streamer_ok_def)
  then show ?thesis using assms k subs_stop [of "str_subscribers s"]
    by (auto simp: call_cancel_def drop_sub_def streamer_ok_def)
qed

lemma delete_ok: "streamer_ok s \<Longrightarrow> streamer_ok (DeleteNetworkStream sid s)"
  by (auto simp: streamer_ok_def DeleteNetworkStream_def streams_delete)

lemma unsubscribe_ok:
  assumes "streamer_ok s"
  shows "\<exists>s'. UnsubscribeToHLSStream sid k s = Ret s' \<and> streamer_ok s'"
    "\<exists>s'. UnsubscribeToRTMPStream sid k s = Ret s' \<and> streamer_ok s'"
    "\<exists>s'. UnsubscribeAll sid s = Ret s' \<and> streamer_ok s'"
proof -
  have *: "\<exists>s'. go_bind (call_cancel sid t) g = Ret s' \<and> streamer_ok s'"
    if "str_subscribers s sid = Some b" "t = s\<lparr>str_subs := (str_subs s)(b := c)\<rparr>" "sub_ok c"
      "\<And>t. streamer_ok (drop_sub sid t) \<Longrightarrow> \<exists>s'. g t = Ret s' \<and> streamer_ok s'" for b c t g
    using that cancel_drop [OF set_sub_ok [OF assms that(3), of b], of sid b] by auto
  have ok: "sub_ok (str_subs s b)" for b using assms by (simp add: streamer_ok_def)
  show "\<exists>s'. UnsubscribeToHLSStream sid k s = Ret s' \<and> streamer_ok s'"
    using assms ok delete_ok by (auto simp: UnsubscribeToHLSStream_def Let_def set_sub_ok split: option.splits intro!: *)
  show "\<exists>s'. UnsubscribeToRTMPStream sid k s = Ret s' \<and> streamer_ok s'"
    using assms ok delete_ok by (auto simp: UnsubscribeToRTMPStream_def Let_def set_sub_ok split: option.splits intro!: *)
  show "\<exists>s'. UnsubscribeAll sid s = Ret s' \<and> streamer_ok s'"
    using assms ok delete_ok by (auto simp: UnsubscribeAll_def Let_def split: option.splits intro!: *)
qed

lemma streamer_step_ok:
  assumes "streamer_ok s"
  shows "streamer_step e s = None \<or> (\<exists>s'. streamer_step e s = Some (Ret s') \<and> streamer_ok s')"
proof (cases e)
  case (OpSubRTMP sid k m)
  obtain b s1 where "ensure_sub sid RTMP s = (b, s1)" by fastforce
  then show ?thesis using ensure_sub_ok [OF assms] OpSubRTMP
    by (auto simp: SubscribeToRTMPStream_def streamer_ok_def)
next
  case (OpSubHLS sid k m)
  obtain b s1 where e: "ensure_sub sid HLS s = (b, s1)" by fastforce
  note ok = ensure_sub_ok(1) [OF assms e]
  have "sub_ok (str_subs s1 b)" using ok by (simp add: streamer_ok_def)
  then have "sub_ok (fst (SubscribeHLS k m (str_subs s1 b)))" by simp
  then show ?thesis using set_sub_ok [OF ok, of _ b] e OpSubHLS
    by (auto simp: SubscribeToHLSStream_def split: prod.splits)
next
  case (OpAttach i)
  then show ?thesis using assms by (auto simp: rtmp_attach_def streamer_ok_def split: prod.splits)
next
  case (OpEnd sid)
  then show ?thesis using assms
    by (auto simp: EndRTMPStream_def streamer_ok_def streams_ok_def vs_push_def split: option.splits)
next
  case (OpAdd sid f)
  then show ?thesis using assms streams_new [of "str_networkStreams s" "str_streams s" "str_nextStream s"]
    by (auto simp: AddNewNetworkStream_def new_stream_def streamer_ok_def Let_def)
qed (use unsubscribe_ok [OF assms] delete_ok [OF assms] in auto)

interpretation broker: event_invariant streamer_move "\<lambda>_. True" streamer_ok
proof
  fix s :: "'a Streamer" and e s'
  assume "streamer_ok s" "streamer_move e s = Some s'"
  then show "streamer_ok s'"
    using streamer_step_ok [of s e] by (auto simp: streamer_move_def split: option.splits go.splits)
qed

lemma NewStreamer_ok: "streamer_ok (NewStreamer self)"
  by (simp add: streamer_ok_def NewStreamer_def workers_ok_def streams_ok_def subs_ok_def)

section \<open>Properties\<close>

text \<open>
  C4: the tables of the broker stay consistent, whatever operations are called in whatever
  order, the goroutines of RTMP subscriptions included: every stream with a subscription has a running worker whose cancel
  function is known and has not been called, no worker is cancelled twice, the table of network streams
  holds streams under their own identifiers, and no subscription mixes RTMP and HLS. So no operation that changes the tables panics, although
  each unsubscription calls what it finds in the table of cancel functions without a test. Of the operations that only read them,
  \<open>GetRTMPBuffer\<close> panics, exactly for a stream without a subscription.
\<close>

theorem streamer_tables_consistent:
  assumes "reach streamer_move (\<lambda>_. True) (NewStreamer self) s"
  shows "(\<forall>sid. str_subscribers s sid \<noteq> None \<longrightarrow> (\<exists>k. str_cancellation s sid = Some k \<and> k \<notin> set (str_cancelled s)))
    \<and> distinct (str_cancelled s)
    \<and> (\<forall>sid v. str_networkStreams s sid = Some v \<longrightarrow> vs_StreamID (str_streams s v) = sid)
    \<and> (\<forall>b. sub_rtmp (str_subs s b) = [] \<or> sub_hls (str_subs s b) = [])
    \<and> (\<forall>e. streamer_step e s \<noteq> Some Panic)
    \<and> (\<forall>sid. GetRTMPBuffer oldest sid s = Panic \<longleftrightarrow> str_subscribers s sid = None)"
proof -
  have inv: "streamer_ok s" by (rule broker.reach_inv [OF assms NewStreamer_ok])
  have safe: "streamer_step e s \<noteq> Some Panic" for e using streamer_step_ok [OF inv, of e] by auto
  have ok: "workers_ok (str_subscribers s) (str_cancellation s) (str_nextWorker s) (str_cancelled s)"
      "streams_ok (str_networkStreams s) (str_streams s) (str_nextStream s)" "\<And>b. sub_ok (str_subs s b)"
    using inv by (auto simp: streamer_ok_def)
  have "\<exists>k. str_cancellation s sid = Some k \<and> k \<notin> set (str_cancelled s)" if "str_subscribers s sid \<noteq> None" for sid
    using ok(1) that unfolding workers_ok_def by blast
  moreover have "GetRTMPBuffer oldest sid s = Panic \<longleftrightarrow> str_subscribers s sid = None" for sid
    by (simp add: GetRTMPBuffer_def split: option.split)
  ultimately show ?thesis using ok safe by (auto simp: workers_ok_def streams_ok_def sub_ok_def)
qed

definition demo_ops :: "nat stream_op list" where
  "demo_ops = [OpSubHLS ''v'' ''a'' 1, OpSubHLS ''v'' ''b'' 2, OpSubRTMP ''w'' ''c'' 3, OpAttach 0, OpUnsubHLS ''v'' ''a'',
     OpUnsubHLS ''v'' ''b'', OpSubHLS ''v'' ''d'' 4]"

lemma demo_reach:
  "\<exists>s. reach streamer_move (\<lambda>_. True) (NewStreamer [] :: nat Streamer) s \<and> str_cancelled s = [0] \<and> str_subscribers s ''v'' = Some 2
    \<and> str_cancellation s ''v'' = Some 2"
proof -
  have "\<exists>s. run_events streamer_move demo_ops (NewStreamer [] :: nat Streamer) = Some s \<and> str_cancelled s = [0]
      \<and> str_subscribers s ''v'' = Some 2 \<and> str_cancellation s ''v'' = Some 2"
    by (simp add: demo_ops_def streamer_move_def SubscribeToHLSStream_def SubscribeToRTMPStream_def ensure_sub_def ensure_stream_def
        new_stream_def NewStreamer_def rtmp_attach_def SubscribeHLS_def SubscribeRTMP_def NewStreamSubscriber_def Let_def
        UnsubscribeToHLSStream_def UnsubscribeHLS_def sub_HasSubscribers_def call_cancel_def drop_sub_def
        DeleteNetworkStream_def NewVideoStream_def)
  then show ?thesis using run_reach [of "\<lambda>_. True" demo_ops streamer_move] by (auto simp: list_all_iff)
qed

theorem streamer_tables_consistent_witness:
  "\<exists>s :: nat Streamer. str_cancelled s = [0] \<and> str_subscribers s ''v'' \<noteq> None
    \<and> (\<exists>k. str_cancellation s ''v'' = Some k \<and> k \<notin> set (str_cancelled s)) \<and> UnsubscribeAll ''v'' s \<noteq> Panic"
proof -
  obtain s where s: "reach streamer_move (\<lambda>_. True) (NewStreamer [] :: nat Streamer) s" "str_cancelled s = [0]" "str_subscribers s ''v'' = Some 2"
    using demo_reach by blast
  have "\<exists>k. str_cancellation s ''v'' = Some k \<and> k \<notin> set (str_cancelled s)"
    using streamer_tables_consistent [OF s(1)] s(3) by blast
  moreover have "streamer_step (OpUnsubAll ''v'') s \<noteq> Some Panic" using streamer_tables_consistent [OF s(1)] by blast
  ultimately show ?thesis using s(2,3) by auto
qed

lemma hex_digit_not_x: "n < 16 \<Longrightarrow> hex_digit n \<noteq> CHR ''x'' \<and> hex_digit n \<noteq> CHR ''X''"
  using from_hex_digit_hex_digit [of n] by (auto simp: from_hex_digit_def Let_def)

text \<open>
  The two parts of a stream identifier come back when the local part is 64 characters
  long, and every other identifier that a node makes splits into the zero address and the empty string.
\<close>

theorem streamID_roundtrip:
  assumes "length nodeID = 32"
  shows "SplitComponents (MakeStreamID nodeID sid) =
    (if length sid = 64 then (nodeID, sid) else (replicate 32 0, []))"
proof -
  have even: "take 2 (hex_encode nodeID) \<noteq> ''0x'' \<and> take 2 (hex_encode nodeID) \<noteq> ''0X''"
    using assms hex_digit_not_x [of "unat (hd nodeID) mod 16"] by (cases nodeID) (auto simp: numeral_2_eq_2)
  then have "HexToHash (hex_encode nodeID) = nodeID"
    using assms by (simp add: HexToHash_def FromHex_def BytesToHash_def HashLength_def)
  then show ?thesis using assms by (simp add: SplitComponents_def MakeStreamID_def HashLength_def)
qed

theorem streamID_roundtrip_witness:
  "SplitComponents (MakeStreamID (replicate 32 171) (replicate 64 CHR ''s'')) = (replicate 32 171, replicate 64 CHR ''s'')"
  using streamID_roundtrip [of "replicate 32 171" "replicate 64 CHR ''s''"] by simp

lemma ensure_sub_subs:
  assumes "ensure_sub sid f s = (b, s1)"
  shows "str_subscribers s sid = Some b \<and> str_subs s1 = str_subs s \<and> str_subscribers s1 = str_subscribers s
    \<or> str_subscribers s sid = None \<and> b = str_nextSub s \<and> str_subscribers s1 = (str_subscribers s)(sid \<mapsto> b)
      \<and> (\<exists>v. str_subs s1 = (str_subs s)(b := NewStreamSubscriber v))"
  using assms by (auto simp: ensure_sub_def ensure_stream_def new_stream_def Let_def split: option.splits)

lemma lookup_after_SubscribeHLS:
  "SubscribeHLS k m c = (c', e) \<Longrightarrow> map_of (sub_hls c') k' = (if e = None \<and> k' = k then Some m else map_of (sub_hls c) k')"
  by (auto simp: SubscribeHLS_def update_conv split: if_splits)

text \<open>
  Subscribing to HLS. The call refuses exactly when the stream has RTMP subscribers or the
  subscriber's identifier is taken; then the subscribers stay as they were. Otherwise the muxer
  is found under its identifier afterwards, every other subscriber of every stream that had a subscription
  stays, and unsubscribing removes it again.
\<close>

theorem subscribe_hls_lookup:
  assumes ok: "streamer_ok s" and sub: "SubscribeToHLSStream sid k mux s = (s', e)"
  shows "e = (case str_subscribers s sid of None \<Rightarrow> None
      | Some b \<Rightarrow> if sub_rtmp (str_subs s b) \<noteq> [] then Some ErrWrongFormat
                else if GetHLSMuxer sid k s \<noteq> None then Some ErrStreamSubscriber else None)
    \<and> GetHLSMuxer sid' k' s' = (if e = None \<and> sid' = sid \<and> k' = k then Some mux else GetHLSMuxer sid' k' s)
    \<and> (\<exists>s''. UnsubscribeToHLSStream sid k s' = Ret s'' \<and> GetHLSMuxer sid k s'' = None)"
proof -
  have fresh: "b < str_nextSub s" if "str_subscribers s sid' = Some b" for sid' b
    using ok that by (auto simp: streamer_ok_def subs_ok_def ran_def)
  have inj: "sid1 = sid2" if "str_subscribers s sid1 = Some b" "str_subscribers s sid2 = Some b" for sid1 sid2 b
    using ok that by (auto simp: streamer_ok_def subs_ok_def)
  have step: "streamer_ok s'" using streamer_step_ok [OF ok, of "OpSubHLS sid k mux"] sub by simp
  obtain s'' where un: "UnsubscribeToHLSStream sid k s' = Ret s''" using unsubscribe_ok(1) [OF step] by blast
  then have "GetHLSMuxer sid k s'' = None"
    by (auto simp: UnsubscribeToHLSStream_def GetHLSMuxer_def Let_def UnsubscribeHLS_def drop_sub_def delete_conv
        go_bind_Ret_iff DeleteNetworkStream_def split: option.splits if_splits)
  moreover obtain b s1 c where e: "ensure_sub sid HLS s = (b, s1)" and c: "SubscribeHLS k mux (str_subs s1 b) = (c, e)"
      and s': "s' = s1\<lparr>str_subs := (str_subs s1)(b := c)\<rparr>"
    using sub by (auto simp: SubscribeToHLSStream_def split: prod.splits)
  note look = lookup_after_SubscribeHLS [OF c]
  have "e = (case str_subscribers s sid of None \<Rightarrow> None
      | Some b \<Rightarrow> if sub_rtmp (str_subs s b) \<noteq> [] then Some ErrWrongFormat
                else if GetHLSMuxer sid k s \<noteq> None then Some ErrStreamSubscriber else None)"
    using ensure_sub_subs [OF e] c
    by (elim disjE) (auto simp: SubscribeHLS_def GetHLSMuxer_def NewStreamSubscriber_def split: if_splits)
  moreover have "GetHLSMuxer sid' k' s' = (if e = None \<and> sid' = sid \<and> k' = k then Some mux else GetHLSMuxer sid' k' s)"
    using ensure_sub_subs [OF e]
  proof (elim disjE conjE exE)
    assume b: "str_subscribers s sid = Some b" "str_subs s1 = str_subs s" "str_subscribers s1 = str_subscribers s"
    show ?thesis
    proof (cases "sid' = sid")
      case True
      then show ?thesis using b look [of k'] by (simp add: s' GetHLSMuxer_def)
    next
      case False
      then have "str_subscribers s sid' \<noteq> Some b" using inj b(1) by blast
      then show ?thesis using b False by (simp add: s' GetHLSMuxer_def split: option.split)
    qed
  next
    fix v assume "str_subscribers s sid = None" "b = str_nextSub s" "str_subscribers s1 = (str_subscribers s)(sid \<mapsto> b)"
      "str_subs s1 = (str_subs s)(b := NewStreamSubscriber v)"
    then show ?thesis using look [of k'] fresh [of sid'] by (auto simp: s' GetHLSMuxer_def NewStreamSubscriber_def split: option.split)
  qed
  ultimately show ?thesis using un by blast
qed

theorem subscribe_hls_lookup_witness:
  "\<exists>s' s''. SubscribeToHLSStream ''v'' ''a'' (1 :: nat) (NewStreamer []) = (s', None) \<and> GetHLSMuxer ''v'' ''a'' s' = Some 1
    \<and> UnsubscribeToHLSStream ''v'' ''a'' s' = Ret s'' \<and> GetHLSMuxer ''v'' ''a'' s'' = None"
proof -
  obtain s' e where s': "SubscribeToHLSStream ''v'' ''a'' (1 :: nat) (NewStreamer []) = (s', e)" by fastforce
  note r = subscribe_hls_lookup [OF NewStreamer_ok s', of "''v''" "''a''"]
  then have "e = None" by (simp add: NewStreamer_def)
  then show ?thesis using r s' by auto
qed

section \<open>Downstream peers\<close>

lemma last_match_Some: "last_match ad a i ps (Some j) \<noteq> None"
proof (induction ps arbitrary: i j)
  case (Cons p ps)
  then show ?case by (cases "ad p = a") (simp_all del: not_None_eq)
qed simp

lemma last_match_none: "last_match ad a i ps None = None \<longleftrightarrow> (\<forall>p \<in> set ps. ad p \<noteq> a)"
proof (induction ps arbitrary: i)
  case (Cons p ps)
  then show ?case using last_match_Some [of ad a "i + 1" ps i] by (cases "ad p = a") (simp_all del: not_None_eq)
qed simp

lemma last_match_some:
  "last_match ad a i ps found = Some j \<Longrightarrow> found = Some j \<or> (i \<le> j \<and> j < i + length ps \<and> ad (ps ! (j - i)) = a)"
proof (induction ps arbitrary: i found)
  case (Cons p ps)
  have "last_match ad a (i + 1) ps (if ad p = a then Some i else found) = Some j" using Cons.prems by simp
  then consider "(if ad p = a then Some i else found) = Some j"
    | "i + 1 \<le> j" "j < i + 1 + length ps" "ad (ps ! (j - (i + 1))) = a"
    using Cons.IH by blast
  then show ?case
  proof cases
    case 1
    then show ?thesis by (cases "ad p = a") auto
  next
    case 2
    then have "(p # ps) ! (j - i) = ps ! (j - (i + 1))" by (simp add: nth_Cons')
    then show ?thesis using 2 by auto
  qed
qed simp

lemma mset_swap_remove:
  assumes "i < length xs"
  shows "mset (take (length xs - 1) (xs[i := xs ! (length xs - 1)])) = mset xs - {#xs ! i#}"
proof -
  obtain ys y where xs: "xs = ys @ [y]" using assms by (cases xs rule: rev_cases) auto
  show ?thesis
  proof (cases "i = length ys")
    case False
    then have i: "i < length ys" using assms xs by simp
    then have "take (length xs - 1) (xs[i := xs ! (length xs - 1)]) = ys[i := y]" using xs by (simp add: list_update_append)
    then show ?thesis using i xs by (simp add: mset_update nth_append)
  qed (simp add: xs list_update_append)
qed

text \<open>
  Removing a downstream peer. When no downstream peer of the stream has the peer's address
  the table stays as it is; otherwise exactly one entry with that address goes, the others
  stay with their multiplicities (their order may change), and other streams are not touched.
\<close>

theorem remove_downstream_peer:
  "if \<exists>q \<in> set (sdb_Downstream d sid). addr_of q = addr_of p
   then \<exists>q. q \<in> set (sdb_Downstream d sid) \<and> addr_of q = addr_of p
     \<and> mset (sdb_Downstream (RemoveDownstreamPeer addr_of sid p d) sid) = mset (sdb_Downstream d sid) - {#q#}
     \<and> (sid' \<noteq> sid \<longrightarrow> sdb_Downstream (RemoveDownstreamPeer addr_of sid p d) sid' = sdb_Downstream d sid')
   else RemoveDownstreamPeer addr_of sid p d = d"
proof (cases "last_match addr_of (addr_of p) 0 (sdb_Downstream d sid) None")
  case None
  then show ?thesis using last_match_none [of addr_of "addr_of p" 0 "sdb_Downstream d sid"]
    by (auto simp: RemoveDownstreamPeer_def Let_def)
next
  case (Some j)
  let ?ps = "sdb_Downstream d sid"
  have j: "j < length ?ps" "addr_of (?ps ! j) = addr_of p" using last_match_some [OF Some] by auto
  then have "?ps ! j \<in> set ?ps" by simp
  moreover have "mset (sdb_Downstream (RemoveDownstreamPeer addr_of sid p d) sid) = mset ?ps - {#?ps ! j#}"
    using mset_swap_remove [OF j(1)] Some by (simp add: RemoveDownstreamPeer_def Let_def)
  moreover have "sid' \<noteq> sid \<longrightarrow> sdb_Downstream (RemoveDownstreamPeer addr_of sid p d) sid' = sdb_Downstream d sid'"
    using Some by (simp add: RemoveDownstreamPeer_def Let_def)
  ultimately show ?thesis using j(2) by auto
qed

theorem remove_downstream_peer_witness:
  "mset (sdb_Downstream (RemoveDownstreamPeer (\<lambda>n. if n < 2 then ''x'' else ''y'') ''v'' 2
     (NewStreamDB\<lparr>sdb_Downstream := (\<lambda>_. [0, 2, 1])\<rparr>)) ''v'') = {#0, 1#}"
  using remove_downstream_peer [of "NewStreamDB\<lparr>sdb_Downstream := (\<lambda>_. [0, 2, 1])\<rparr>" "''v''"
      "\<lambda>n. if n < 2 then ''x'' else ''y''" 2 "''w''"] by (auto split: if_splits)

end
