(* ===== verification/Hive.thy ===== *)
theory Hive
  imports Sync_Loops Streamer
begin

text \<open>
  A node of the network: its stores, its peer connections and the hive that manages them
  (\<open>network/hive.go\<close>, and the \<open>bzz\<close> and \<open>peer\<close> types and the outgoing messages of
  \<open>network/protocol.go\<close>). The Kademlia table, the enode URL of an address, the relay check of
  an IP address, the JSON codec and the SWAP account come from go-ethereum: they are the
  fields of \<open>net_env\<close>. \<open>'k\<close> is the state of the table, \<open>'sw\<close> of an account, \<open>'q\<close> a cheque and
  \<open>'d\<close> the database engine.
\<close>

section \<open>Node state\<close>

datatype 'q bzz_msg =
    MStore storeRequestMsgData
  | MRetrieve retrieveRequestMsgData
  | MPeers peersMsgData
  | MSyncRequest "syncState option"
  | MDelivery "syncRequest list"
  | MUnsynced "syncRequest list" syncState
  | MPayment "'q paymentMsgData"
  | MStream streamRequestMsgData
  | MStopStream stopStreamRequestMsgData
  | MTranscode transcodeRequestMsgData
  | MTranscodeAck transcodeAckMsgData

datatype node_mux = PeerMux peer_id Hash string | LocalMux nat

record NodeRecord =
  nr_Addr :: Hash
  nr_Url :: string
  nr_Seen :: go_time
  nr_After :: go_time

record 'k kad_ops =
  kad_FindClosest :: "'k \<Rightarrow> Hash \<Rightarrow> int \<Rightarrow> peer_id list"
  kad_Meta :: "'k \<Rightarrow> Hash \<Rightarrow> string option"
  kad_SetMeta :: "Hash \<Rightarrow> string \<Rightarrow> 'k \<Rightarrow> 'k"
  kad_Node :: "'k \<Rightarrow> Hash \<Rightarrow> peer_id option"
  kad_On :: "peer_id \<Rightarrow> 'k \<Rightarrow> 'k \<times> bool"
  kad_Off :: "peer_id \<Rightarrow> 'k \<Rightarrow> 'k"
  kad_Add :: "NodeRecord list \<Rightarrow> 'k \<Rightarrow> 'k"
  kad_Suggest :: "'k \<Rightarrow> 'k \<times> string \<times> bool \<times> int"
  kad_KeyRange :: "'k \<Rightarrow> Hash \<Rightarrow> Hash \<times> Hash"
  kad_DBCount :: "'k \<Rightarrow> nat"

record ('d, 'k, 'sw) net_env =
  ne_db :: "'d db_env"
  ne_kad :: "'k kad_ops"
  ne_json :: json
  ne_url :: "peerAddr \<Rightarrow> string"
  ne_relay :: "bytes \<Rightarrow> bytes \<Rightarrow> bool"
  ne_swapAdd :: "int \<Rightarrow> 'sw \<Rightarrow> 'sw \<times> bool"

text \<open>
  A connected peer. \<open>pe_wire\<close> says that writes to the connection work, \<open>pe_out\<close> is what has
  been written.
\<close>

record ('d, 'sw, 'q) peer =
  pe_remoteAddr :: peerAddr
  pe_syncer :: "'d syncer option"
  pe_syncParams :: SyncParams
  pe_syncState :: "syncState option"
  pe_syncEnabled :: bool
  pe_swap :: "'sw option"
  pe_swapEnabled :: bool
  pe_NetworkId :: u64
  pe_lastActive :: go_time
  pe_wire :: bool
  pe_dropped :: bool
  pe_out :: "'q bzz_msg list"

record ('d, 'k, 'sw, 'q) node =
  nd_w :: "('d, retrieveRequestMsgData) world"
  nd_requestDb :: "'d LDBDatabase"
  nd_peers :: "peer_id \<Rightarrow> ('d, 'sw, 'q) peer"
  nd_streamer :: "node_mux Streamer"
  nd_streamDB :: StreamDB
  nd_kad :: 'k
  nd_addr :: Hash
  nd_swapEnabled :: bool
  nd_syncEnabled :: bool
  nd_blockRead :: bool
  nd_blockWrite :: bool
  nd_alarm :: bool
  nd_waiting :: bool
  nd_quit :: bool
  nd_dialled :: "string list"

definition peer_Addr :: "('d, 'k, 'sw, 'q) node \<Rightarrow> peer_id \<Rightarrow> Hash" where
  "peer_Addr n p = pa_Addr (pe_remoteAddr (nd_peers n p))"

definition peer_Url :: "('d, 'k, 'sw) net_env \<Rightarrow> ('d, 'k, 'sw, 'q) node \<Rightarrow> peer_id \<Rightarrow> string" where
  "peer_Url V n p = ne_url V (pe_remoteAddr (nd_peers n p))"

definition peer_LastActive :: "('d, 'k, 'sw, 'q) node \<Rightarrow> peer_id \<Rightarrow> go_time" where
  "peer_LastActive n p = pe_lastActive (nd_peers n p)"

definition upd_peer ::
    "peer_id \<Rightarrow> (('d, 'sw, 'q) peer \<Rightarrow> ('d, 'sw, 'q) peer) \<Rightarrow> ('d, 'k, 'sw, 'q) node \<Rightarrow> ('d, 'k, 'sw, 'q) node" where
  "upd_peer p f n = n\<lparr>nd_peers := (nd_peers n)(p := f (nd_peers n p))\<rparr>"

section \<open>Outgoing messages\<close>

definition bzz_Drop :: "peer_id \<Rightarrow> ('d, 'k, 'sw, 'q) node \<Rightarrow> ('d, 'k, 'sw, 'q) node" where
  "bzz_Drop p = upd_peer p (\<lambda>e. e\<lparr>pe_dropped := True\<rparr>)"

definition send :: "peer_id \<Rightarrow> 'q bzz_msg \<Rightarrow> ('d, 'k, 'sw, 'q) node \<Rightarrow> bool \<times> ('d, 'k, 'sw, 'q) node" where
  "send p m n =
     (if nd_blockWrite n then (False, n)
      else if pe_wire (nd_peers n p) then (True, upd_peer p (\<lambda>e. e\<lparr>pe_out := pe_out e @ [m]\<rparr>) n)
      else (False, bzz_Drop p n))"

definition bzz_retrieve :: "peer_id \<Rightarrow> retrieveRequestMsgData \<Rightarrow> ('d, 'k, 'sw, 'q) node \<Rightarrow> bool \<times> ('d, 'k, 'sw, 'q) node" where
  "bzz_retrieve p m = send p (MRetrieve m)"

definition bzz_store :: "peer_id \<Rightarrow> storeRequestMsgData \<Rightarrow> ('d, 'k, 'sw, 'q) node \<Rightarrow> bool \<times> ('d, 'k, 'sw, 'q) node" where
  "bzz_store p m = send p (MStore m)"

definition bzz_stream :: "peer_id \<Rightarrow> streamRequestMsgData \<Rightarrow> ('d, 'k, 'sw, 'q) node \<Rightarrow> bool \<times> ('d, 'k, 'sw, 'q) node" where
  "bzz_stream p m = send p (MStream m)"

definition bzz_stopStream :: "peer_id \<Rightarrow> stopStreamRequestMsgData \<Rightarrow> ('d, 'k, 'sw, 'q) node \<Rightarrow> bool \<times> ('d, 'k, 'sw, 'q) node" where
  "bzz_stopStream p m = send p (MStopStream m)"

definition bzz_transcode :: "peer_id \<Rightarrow> transcodeRequestMsgData \<Rightarrow> ('d, 'k, 'sw, 'q) node \<Rightarrow> bool \<times> ('d, 'k, 'sw, 'q) node" where
  "bzz_transcode p m = send p (MTranscode m)"

definition bzz_transcodeAck :: "peer_id \<Rightarrow> transcodeAckMsgData \<Rightarrow> ('d, 'k, 'sw, 'q) node \<Rightarrow> bool \<times> ('d, 'k, 'sw, 'q) node" where
  "bzz_transcodeAck p m = send p (MTranscodeAck m)"

definition bzz_deliveryRequest :: "peer_id \<Rightarrow> syncRequest list \<Rightarrow> ('d, 'k, 'sw, 'q) node \<Rightarrow> bool \<times> ('d, 'k, 'sw, 'q) node" where
  "bzz_deliveryRequest p reqs = send p (MDelivery reqs)"

definition bzz_unsyncedKeys ::
    "peer_id \<Rightarrow> syncRequest list \<Rightarrow> syncState \<Rightarrow> ('d, 'k, 'sw, 'q) node \<Rightarrow> bool \<times> ('d, 'k, 'sw, 'q) node" where
  "bzz_unsyncedKeys p reqs state = send p (MUnsynced reqs state)"

definition bzz_payment :: "peer_id \<Rightarrow> 'q paymentMsgData \<Rightarrow> ('d, 'k, 'sw, 'q) node \<Rightarrow> bool \<times> ('d, 'k, 'sw, 'q) node" where
  "bzz_payment p m = send p (MPayment m)"

definition bzz_Pay :: "peer_id \<Rightarrow> nat \<Rightarrow> 'q \<Rightarrow> ('d, 'k, 'sw, 'q) node \<Rightarrow> ('d, 'k, 'sw, 'q) node" where
  "bzz_Pay p units promise n = snd (bzz_payment p \<lparr>pay_Units = units, pay_Promise = promise\<rparr> n)"

definition bzz_peers :: "peer_id \<Rightarrow> peersMsgData \<Rightarrow> ('d, 'k, 'sw, 'q) node \<Rightarrow> bool \<times> ('d, 'k, 'sw, 'q) node" where
  "bzz_peers p m = send p (MPeers m)"

definition bzz_syncRequest :: "peer_id \<Rightarrow> ('d, 'k, 'sw, 'q) node \<Rightarrow> bool \<times> ('d, 'k, 'sw, 'q) node" where
  "bzz_syncRequest p n =
     send p (MSyncRequest (if nd_syncEnabled n then pe_syncState (nd_peers n p) else None)) n"

section \<open>Proximity\<close>

text \<open>The inner loop of \<open>proximity\<close>: the first bit from the left that is set in \<open>oxo\<close>.\<close>

fun first_bit :: "byte \<Rightarrow> nat \<Rightarrow> nat \<Rightarrow> nat option" where
  "first_bit oxo j 0 = None"
| "first_bit oxo j (Suc k) =
     (if and (drop_bit (7 - j) oxo) 1 \<noteq> 0 then Some j else first_bit oxo (j + 1) k)"

fun proximity_loop :: "nat \<Rightarrow> bytes \<Rightarrow> bytes \<Rightarrow> nat" where
  "proximity_loop i (a # as) (b # bs) =
     (case first_bit (xor a b) 0 8 of Some j \<Rightarrow> i * 8 + j | None \<Rightarrow> proximity_loop (i + 1) as bs)"
| "proximity_loop i _ _ = i * 8"

definition proximity :: "Hash \<Rightarrow> Hash \<Rightarrow> nat" where
  "proximity one other = proximity_loop 0 one other"

section \<open>Peers\<close>

definition kad_key :: "Key \<Rightarrow> Hash" where
  "kad_key target = go_copy (replicate 32 0) target"

definition getPeers :: "('d, 'k, 'sw) net_env \<Rightarrow> Key \<Rightarrow> int \<Rightarrow> ('d, 'k, 'sw, 'q) node \<Rightarrow> peer_id list" where
  "getPeers V target m n = kad_FindClosest (ne_kad V) (nd_kad n) (kad_key target) m"

definition getPeersCloserThanSelf ::
    "('d, 'k, 'sw) net_env \<Rightarrow> Key \<Rightarrow> int \<Rightarrow> ('d, 'k, 'sw, 'q) node \<Rightarrow> peer_id list" where
  "getPeersCloserThanSelf V target m n =
     (let a = kad_key target
      in filter (\<lambda>p. proximity (peer_Addr n p) a > proximity (nd_addr n) a)
           (kad_FindClosest (ne_kad V) (nd_kad n) a m))"

definition DropAll :: "('d, 'k, 'sw) net_env \<Rightarrow> ('d, 'k, 'sw, 'q) node \<Rightarrow> ('d, 'k, 'sw, 'q) node" where
  "DropAll V n = fold bzz_Drop (kad_FindClosest (ne_kad V) (nd_kad n) (replicate 32 0) 0) n"

definition PeersCount :: "('d, 'k, 'sw) net_env \<Rightarrow> ('d, 'k, 'sw, 'q) node \<Rightarrow> nat" where
  "PeersCount V n = length (kad_FindClosest (ne_kad V) (nd_kad n) (replicate 32 0) 0)"

definition newNodeRecord :: "('d, 'k, 'sw) net_env \<Rightarrow> go_time \<Rightarrow> peerAddr \<Rightarrow> NodeRecord" where
  "newNodeRecord V now a = \<lparr>nr_Addr = pa_Addr a, nr_Url = ne_url V a, nr_Seen = now, nr_After = now\<rparr>"

definition HandlePeersMsg ::
    "('d, 'k, 'sw) net_env \<Rightarrow> go_time \<Rightarrow> peersMsgData \<Rightarrow> peer_id \<Rightarrow> ('d, 'k, 'sw, 'q) node \<Rightarrow> ('d, 'k, 'sw, 'q) node" where
  "HandlePeersMsg V now req from n =
     n\<lparr>nd_kad := kad_Add (ne_kad V)
         (map (newNodeRecord V now)
           (filter (\<lambda>a. ne_relay V (pa_IP (pe_remoteAddr (nd_peers n from))) (pa_IP a)) (pm_Peers req))) (nd_kad n)\<rparr>"

text \<open>The immediate answer to a retrieve request; \<open>req.from\<close> is dereferenced.\<close>

definition hive_peers ::
    "('d, 'k, 'sw) net_env \<Rightarrow> go_time \<Rightarrow> retrieveRequestMsgData \<Rightarrow> ('d, 'k, 'sw, 'q) node
      \<Rightarrow> (unit, ('d, 'k, 'sw, 'q) node) go" where
  "hive_peers V now req n =
     (if (case rm_timeout req of None \<Rightarrow> True | Some t \<Rightarrow> now < t) then
        (case rm_from req of
           None \<Rightarrow> Panic
         | Some from \<Rightarrow>
             (let zero = IsZeroKey (rm_Key req);
                  key = (if zero then peer_Addr n from else rm_Key req);
                  req = (if zero then req\<lparr>rm_Key := []\<rparr> else req);
                  addrs = map (\<lambda>p. pe_remoteAddr (nd_peers n p)) (getPeers V key (sint (rm_MaxPeers req)) n);
                  dat = \<lparr>pm_Peers = addrs, pm_Timeout = 0, pm_timeout = None, pm_Key = rm_Key req,
                         pm_Id = rm_Id req, pm_from = None\<rparr>
              in Ret (snd (bzz_peers from (peers_setTimeout dat (rm_timeout req)) n))))
      else Ret n)"

section \<open>Joining and leaving\<close>

text \<open>A non-blocking send on \<open>more\<close>: it is received if the update loop waits for it.\<close>

definition poke :: "('d, 'k, 'sw, 'q) node \<Rightarrow> ('d, 'k, 'sw, 'q) node" where
  "poke n = (if nd_waiting n then n\<lparr>nd_waiting := False\<rparr> else n)"

definition loadSync ::
    "('d, 'k, 'sw) net_env \<Rightarrow> string option \<Rightarrow> peer_id \<Rightarrow> ('d, 'k, 'sw, 'q) node
      \<Rightarrow> (unit, ('d, 'k, 'sw, 'q) node) go" where
  "loadSync V meta p n =
     (case meta of
        None \<Rightarrow> Ret (upd_peer p (\<lambda>e. e\<lparr>pe_syncState := Some syncState0\<rparr>) n)
      | Some m \<Rightarrow>
          go_bind (decodeSync (ne_json V) (Some m)) (\<lambda>st. Ret (upd_peer p (\<lambda>e. e\<lparr>pe_syncState := Some st\<rparr>) n)))"

text \<open>\<open>saveSync\<close>; \<open>json.Marshal\<close> of a nil state is \<open>null\<close>.\<close>

definition saveSync ::
    "('d, 'k, 'sw) net_env \<Rightarrow> Hash \<Rightarrow> peer_id option \<Rightarrow> ('d, 'k, 'sw, 'q) node \<Rightarrow> ('d, 'k, 'sw, 'q) node" where
  "saveSync V a p n =
     (case p of
        None \<Rightarrow> n
      | Some p \<Rightarrow>
          (case (case pe_syncState (nd_peers n p) of None \<Rightarrow> Some ''null'' | Some st \<Rightarrow> encodeSync (ne_json V) st) of
             None \<Rightarrow> n
           | Some m \<Rightarrow> n\<lparr>nd_kad := kad_SetMeta (ne_kad V) a m (nd_kad n)\<rparr>))"

definition addPeer ::
    "('d, 'k, 'sw) net_env \<Rightarrow> peer_id \<Rightarrow> ('d, 'k, 'sw, 'q) node \<Rightarrow> bool \<times> ('d, 'k, 'sw, 'q) node" where
  "addPeer V p n =
     (case loadSync V (kad_Meta (ne_kad V) (nd_kad n) (peer_Addr n p)) p n of
        Ret n' \<Rightarrow>
          (case kad_On (ne_kad V) p (nd_kad n') of
             (k, ok) \<Rightarrow>
               (let n'' = n'\<lparr>nd_kad := k\<rparr>
                in if ok then (True, poke (snd (bzz_retrieve p retrieveRequest0 n''))) else (False, poke n'')))
      | _ \<Rightarrow> (False, poke n))"

definition removePeer ::
    "('d, 'k, 'sw) net_env \<Rightarrow> peer_id \<Rightarrow> ('d, 'k, 'sw, 'q) node \<Rightarrow> ('d, 'k, 'sw, 'q) node" where
  "removePeer V p n =
     (let a = peer_Addr n p;
          n = saveSync V a (kad_Node (ne_kad V) (nd_kad n) a) n
      in poke (n\<lparr>nd_kad := kad_Off (ne_kad V) p (nd_kad n)\<rparr>))"

section \<open>The update loop and the alarm\<close>

text \<open>
  One round of the loop started by \<open>Start\<close>, after it has been woken: call a known node, look
  for new ones through a peer near \<open>r1\<close> (\<open>r1\<close>, \<open>r2\<close> are the random addresses), and tell
  \<open>keepAlive\<close> whether more are needed; then it waits again.
\<close>

definition hive_update ::
    "('d, 'k, 'sw) net_env \<Rightarrow> Hash \<Rightarrow> (int \<Rightarrow> Hash) \<Rightarrow> ('d, 'k, 'sw, 'q) node \<Rightarrow> ('d, 'k, 'sw, 'q) node option" where
  "hive_update V r1 r2 n =
     (if nd_waiting n \<or> nd_quit n then None
      else (case kad_Suggest (ne_kad V) (nd_kad n) of
        (k, url, need, proxLimit) \<Rightarrow>
          (let n = n\<lparr>nd_kad := k\<rparr>;
               n = (if url \<noteq> [] then n\<lparr>nd_dialled := nd_dialled n @ [url]\<rparr> else n);
               n = (if need then
                      (case kad_FindClosest (ne_kad V) (nd_kad n) r1 1 of
                         [] \<Rightarrow> n
                       | p # _ \<Rightarrow> snd (bzz_retrieve p (retrieveRequest0\<lparr>rm_Key := r2 proxLimit\<rparr>) n))
                    else n)
           in Some (n\<lparr>nd_alarm := need, nd_waiting := True\<rparr>))))"

text \<open>The alarm of \<open>keepAlive\<close> rings.\<close>

definition keepAlive_alarm ::
    "('d, 'k, 'sw) net_env \<Rightarrow> ('d, 'k, 'sw, 'q) node \<Rightarrow> ('d, 'k, 'sw, 'q) node option" where
  "keepAlive_alarm V n =
     (if nd_alarm n \<and> \<not> nd_quit n
      then Some (if kad_DBCount (ne_kad V) (nd_kad n) > 0 then poke n else n) else None)"

text \<open>\<open>Stop\<close>: closing \<open>quit\<close> twice panics; the sync states of the connected nodes are saved.\<close>

definition hive_Stop ::
    "('d, 'k, 'sw) net_env \<Rightarrow> (Hash \<times> peer_id option) list \<Rightarrow> ('d, 'k, 'sw, 'q) node
      \<Rightarrow> (unit, ('d, 'k, 'sw, 'q) node) go" where
  "hive_Stop V records n =
     (if nd_quit n then Panic
      else Ret (fold (\<lambda>(a, p). saveSync V a p) records (n\<lparr>nd_quit := True\<rparr>)))"

end
