(* ===== verification/Forwarder.thy ===== *)
theory Forwarder
  imports Hive
begin

text \<open>
  The forwarder (\<open>network/forwarding.go\<close>), which the network store uses as its cloud: it sends
  requests for chunks and streams to the peers the hive names and delivers chunks to those
  who asked for them. The keys of the map of requesters come in the order \<open>ids\<close> in which
  Go happens to iterate; \<open>gid\<close> gives the random request ids and \<open>sel\<close> resolves a \<open>select\<close>.
\<close>

section \<open>Calls on a peer's syncer\<close>

definition go_seq :: "('e, 'a) go option \<Rightarrow> ('a \<Rightarrow> ('e, 'b) go option) \<Rightarrow> ('e, 'b) go option" where
  "go_seq r f = (case r of None \<Rightarrow> None | Some (Ret a) \<Rightarrow> f a | Some (Err e) \<Rightarrow> Some (Err e) | Some Panic \<Rightarrow> Some Panic)"

lemma go_seq_simps [simp]:
  "go_seq None f = None" "go_seq (Some (Ret a)) f = f a" "go_seq (Some (Err e)) f = Some (Err e)"
  "go_seq (Some Panic) f = Some Panic"
  by (simp_all add: go_seq_def)

definition set_syncer ::
    "peer_id \<Rightarrow> 'd syncer \<Rightarrow> ('d, 'k, 'sw, 'q) node \<Rightarrow> ('d, 'k, 'sw, 'q) node" where
  "set_syncer p s = upd_peer p (\<lambda>e. e\<lparr>pe_syncer := Some s\<rparr>)"

text \<open>\<open>Deliver(p, req, ty)\<close>. A nil syncer is dereferenced.\<close>

definition Deliver ::
    "bool \<Rightarrow> peer_id \<Rightarrow> sync_req \<Rightarrow> nat \<Rightarrow> ('d, 'k, 'sw, 'q) node \<Rightarrow> (unit, ('d, 'k, 'sw, 'q) node) go option" where
  "Deliver sel p req ty n =
     (case pe_syncer (nd_peers n p) of
        None \<Rightarrow> Some Panic
      | Some s \<Rightarrow> go_seq (addRequest req ty sel s) (\<lambda>s. Some (Ret (set_syncer p s n))))"

text \<open>\<open>Push(p, key, priority)\<close>.\<close>

definition Push_key ::
    "('d, 'k, 'sw) net_env \<Rightarrow> u64 \<Rightarrow> bool \<Rightarrow> peer_id \<Rightarrow> Key \<Rightarrow> nat \<Rightarrow> ('d, 'k, 'sw, 'q) node
      \<Rightarrow> (unit, ('d, 'k, 'sw, 'q) node) go option" where
  "Push_key V gid sel p key priority n =
     (case pe_syncer (nd_peers n p) of
        None \<Rightarrow> Some Panic
      | Some s \<Rightarrow>
          go_seq (doDelivery (NewDbAccess (ne_db V)) gid (RKey key) priority sel (nd_w n, s))
            (\<lambda>(_, w, s). Some (Ret (set_syncer p s (n\<lparr>nd_w := w\<rparr>)))))"

section \<open>Chunks\<close>

definition requesterCount :: nat where "requesterCount = 3"

definition all_requests :: "u64 list \<Rightarrow> 'r RequestStatus \<Rightarrow> 'r list" where
  "all_requests ids rs = concat (map (\<lambda>i. case rs_Requesters rs i of None \<Rightarrow> [] | Some l \<Rightarrow> l) ids)"

text \<open>Does one of the requests come from the address \<open>a\<close>? A request without sender panics.\<close>

fun asked_by :: "('d, 'k, 'sw, 'q) node \<Rightarrow> Hash \<Rightarrow> retrieveRequestMsgData list \<Rightarrow> bool option" where
  "asked_by n a [] = Some False"
| "asked_by n a (r # rs) =
     (case rm_from r of
        None \<Rightarrow> None
      | Some q \<Rightarrow> if peer_Addr n q = a then Some True else asked_by n a rs)"

definition swap_add ::
    "('d, 'k, 'sw) net_env \<Rightarrow> int \<Rightarrow> peer_id \<Rightarrow> ('d, 'k, 'sw, 'q) node \<Rightarrow> bool \<times> ('d, 'k, 'sw, 'q) node" where
  "swap_add V amount p n =
     (case pe_swap (nd_peers n p) of
        None \<Rightarrow> (True, n)
      | Some sw \<Rightarrow> (case ne_swapAdd V amount sw of (sw', ok) \<Rightarrow> (ok, upd_peer p (\<lambda>e. e\<lparr>pe_swap := Some sw'\<rparr>) n)))"

fun Retrieve_loop ::
    "('d, 'k, 'sw) net_env \<Rightarrow> (peer_id \<Rightarrow> u64) \<Rightarrow> Key \<Rightarrow> retrieveRequestMsgData list \<Rightarrow> peer_id list
      \<Rightarrow> ('d, 'k, 'sw, 'q) node \<Rightarrow> (unit, ('d, 'k, 'sw, 'q) node) go" where
  "Retrieve_loop V gid key reqs [] n = Ret n"
| "Retrieve_loop V gid key reqs (p # ps) n =
     (case asked_by n (peer_Addr n p) reqs of
        None \<Rightarrow> Panic
      | Some True \<Rightarrow> Retrieve_loop V gid key reqs ps n
      | Some False \<Rightarrow>
          (case swap_add V (-1) p n of
             (ok, n') \<Rightarrow>
               if ok then Ret (snd (bzz_retrieve p (retrieveRequest0\<lparr>rm_Key := key, rm_Id := gid p\<rparr>) n'))
               else Retrieve_loop V gid key reqs ps n'))"

definition forwarder_Retrieve ::
    "('d, 'k, 'sw) net_env \<Rightarrow> (peer_id \<Rightarrow> u64) \<Rightarrow> u64 list \<Rightarrow> addr \<Rightarrow> ('d, 'k, 'sw, 'q) node
      \<Rightarrow> (unit, ('d, 'k, 'sw, 'q) node) go" where
  "forwarder_Retrieve V gid ids c n =
     (let chunk = w_heap (nd_w n) c; peers = getPeers V (ch_Key chunk) 0 n
      in case ch_Req chunk of
           None \<Rightarrow> if peers = [] then Ret n else Panic
         | Some r \<Rightarrow> Retrieve_loop V gid (ch_Key chunk) (all_requests ids (w_reqs (nd_w n) r)) peers n)"

definition store_to :: "Hash option \<Rightarrow> ('d, 'k, 'sw, 'q) node \<Rightarrow> peer_id \<Rightarrow> bool" where
  "store_to source n p \<longleftrightarrow> pe_syncer (nd_peers n p) \<noteq> None \<and> source \<noteq> Some (peer_Addr n p)"

fun Store_loop ::
    "bool \<Rightarrow> storeRequestMsgData \<Rightarrow> Hash option \<Rightarrow> peer_id list \<Rightarrow> ('d, 'k, 'sw, 'q) node
      \<Rightarrow> (unit, ('d, 'k, 'sw, 'q) node) go option" where
  "Store_loop sel m source [] n = Some (Ret n)"
| "Store_loop sel m source (p # ps) n =
     go_seq (if store_to source n p then Deliver sel p (RStore m) PropagateReq n else Some (Ret n))
       (Store_loop sel m source ps)"

definition forwarder_Store ::
    "('d, 'k, 'sw) net_env \<Rightarrow> bool \<Rightarrow> addr \<Rightarrow> ('d, 'k, 'sw, 'q) node \<Rightarrow> (unit, ('d, 'k, 'sw, 'q) node) go option" where
  "forwarder_Store V sel c n =
     (let chunk = w_heap (nd_w n) c
      in Store_loop sel (storeRequest0\<lparr>sm_Key := ch_Key chunk, sm_SData := ch_SData chunk\<rparr>)
           (map_option (peer_Addr n) (ch_Source chunk)) (getPeers V (ch_Key chunk) 0 n) n)"

text \<open>
  The inner loop of \<open>Deliver\<close>: \<open>i\<close> is the index of the request in its list, which the code
  writes into the message as its id.
\<close>

fun Deliver_loop ::
    "bool \<Rightarrow> go_time \<Rightarrow> storeRequestMsgData \<Rightarrow> nat \<Rightarrow> nat \<Rightarrow> retrieveRequestMsgData list
      \<Rightarrow> ('d, 'k, 'sw, 'q) node \<Rightarrow> (unit, ('d, 'k, 'sw, 'q) node) go option" where
  "Deliver_loop sel now m i counter [] n = Some (Ret n)"
| "Deliver_loop sel now m i counter (r # rs) n =
     (if (case rm_timeout r of None \<Rightarrow> True | Some t \<Rightarrow> t > now) then
        (case rm_from r of
           None \<Rightarrow> Some Panic
         | Some q \<Rightarrow>
             go_seq (Deliver sel q (RStore (m\<lparr>sm_Id := of_nat i\<rparr>)) DeliverReq n)
               (\<lambda>n. if counter - 1 = 0 then Some (Ret n)
                    else Deliver_loop sel now m (i + 1) (counter - 1) rs n))
      else Deliver_loop sel now m (i + 1) counter rs n)"

fun Deliver_ids ::
    "bool \<Rightarrow> go_time \<Rightarrow> storeRequestMsgData \<Rightarrow> retrieveRequestMsgData RequestStatus \<Rightarrow> u64 list
      \<Rightarrow> ('d, 'k, 'sw, 'q) node \<Rightarrow> (unit, ('d, 'k, 'sw, 'q) node) go option" where
  "Deliver_ids sel now m rs [] n = Some (Ret n)"
| "Deliver_ids sel now m rs (i # ids) n =
     go_seq (Deliver_loop sel now m 0 requesterCount (case rs_Requesters rs i of None \<Rightarrow> [] | Some l \<Rightarrow> l) n)
       (Deliver_ids sel now m rs ids)"

definition forwarder_Deliver ::
    "bool \<Rightarrow> go_time \<Rightarrow> u64 list \<Rightarrow> addr \<Rightarrow> ('d, 'k, 'sw, 'q) node \<Rightarrow> (unit, ('d, 'k, 'sw, 'q) node) go option" where
  "forwarder_Deliver sel now ids c n =
     (let chunk = w_heap (nd_w n) c
      in case ch_Req chunk of
           None \<Rightarrow> Some Panic
         | Some r \<Rightarrow>
             Deliver_ids sel now (storeRequest0\<lparr>sm_Key := ch_Key chunk, sm_SData := ch_SData chunk\<rparr>)
               (w_reqs (nd_w n) r) ids n)"

section \<open>Streams\<close>

text \<open>Of the two closest peers, the first that is not the requester; a single one is always taken.\<close>

definition stream_peer :: "('d, 'k, 'sw, 'q) node \<Rightarrow> Hash \<Rightarrow> peer_id list \<Rightarrow> peer_id option" where
  "stream_peer n peerAddr peers =
     (case peers of
        p0 # p1 # _ \<Rightarrow> Some (if peer_Addr n p0 = peerAddr then p1 else p0)
      | [p0] \<Rightarrow> Some p0
      | [] \<Rightarrow> None)"

definition forwarder_Stream ::
    "('d, 'k, 'sw) net_env \<Rightarrow> StreamID \<Rightarrow> Hash \<Rightarrow> VideoFormat \<Rightarrow> ('d, 'k, 'sw, 'q) node \<Rightarrow> ('d, 'k, 'sw, 'q) node" where
  "forwarder_Stream V sid peerAddr format n =
     (case SplitComponents sid of
        (nodeID, streamID) \<Rightarrow>
          if streamID = [] then n
          else
            (case stream_peer n peerAddr (getPeers V nodeID 2 n) of
               None \<Rightarrow> n
             | Some p \<Rightarrow>
                 snd (bzz_stream p \<lparr>sr_OriginNode = nodeID, sr_StreamID = streamID, sr_Format = format,
                                    sr_SData = [], sr_Id = RequestStreamMsgID\<rparr> n)))"

definition forwarder_StopStream ::
    "('d, 'k, 'sw) net_env \<Rightarrow> StreamID \<Rightarrow> Hash \<Rightarrow> VideoFormat \<Rightarrow> ('d, 'k, 'sw, 'q) node \<Rightarrow> ('d, 'k, 'sw, 'q) node" where
  "forwarder_StopStream V sid peerAddr format n =
     (case SplitComponents sid of
        (nodeID, streamID) \<Rightarrow>
          (case stream_peer n peerAddr (getPeers V nodeID 2 n) of
             None \<Rightarrow> n
           | Some p \<Rightarrow>
               snd (bzz_stopStream p \<lparr>sp_OriginNode = nodeID, sp_Format = format, sp_StreamID = streamID,
                                      sp_SData = [], sp_Id = StopStreamMsgID\<rparr> n)))"

definition forwarder_Transcode ::
    "('d, 'k, 'sw) net_env \<Rightarrow> StreamID \<Rightarrow> Hash \<Rightarrow> string list \<Rightarrow> string list \<Rightarrow> string \<Rightarrow> string list
      \<Rightarrow> ('d, 'k, 'sw, 'q) node \<Rightarrow> ('d, 'k, 'sw, 'q) node" where
  "forwarder_Transcode V sid transcodeId formats bitrates codecin codeout n =
     (case SplitComponents sid of
        (nodeID, streamID) \<Rightarrow>
          fold (\<lambda>p n. snd (bzz_transcode p \<lparr>tr_OriginNode = nodeID, tr_OriginStreamID = streamID,
                  tr_TranscodeID = transcodeId, tr_Id = TranscodeRequestMsgID, tr_Formats = formats,
                  tr_Bitrates = bitrates, tr_CodecIn = codecin, tr_CodecOut = codeout\<rparr> n))
            (getPeers V transcodeId 1 n) n)"

section \<open>Muxers that write to a peer\<close>

text \<open>\<open>network/peer_muxer.go\<close>; \<open>enc\<close> is \<open>VideoChunkToByteArr\<close>, gob encoding.\<close>

definition mux_send ::
    "(VideoChunk \<Rightarrow> bytes) \<Rightarrow> peer_id \<Rightarrow> Hash \<Rightarrow> string \<Rightarrow> VideoFormat \<Rightarrow> u64 \<Rightarrow> VideoChunk
      \<Rightarrow> ('d, 'k, 'sw, 'q) node \<Rightarrow> ('d, 'k, 'sw, 'q) node" where
  "mux_send enc p originNode streamID format i chunk n =
     snd (bzz_stream p \<lparr>sr_OriginNode = originNode, sr_StreamID = streamID, sr_Format = format,
                        sr_SData = enc chunk, sr_Id = i\<rparr> n)"

definition WriteSegment where
  "WriteSegment enc p originNode streamID seqNo name duration s =
     mux_send enc p originNode streamID 0 DeliverStreamMsgID
       (VideoChunk0\<lparr>vc_ID := DeliverStreamMsgID, vc_Seq := seqNo, vc_HLSSegData := Some s,
                    vc_HLSSegName := name, vc_Duration := duration\<rparr>)"

definition WriteHeader where
  "WriteHeader enc p originNode streamID header =
     mux_send enc p originNode streamID 0 DeliverStreamMsgID
       (VideoChunk0\<lparr>vc_ID := DeliverStreamMsgID, vc_HeaderStreams := Some header\<rparr>)"

definition WritePacket where
  "WritePacket enc p originNode streamID pkt =
     mux_send enc p originNode streamID 0 DeliverStreamMsgID
       (VideoChunk0\<lparr>vc_ID := DeliverStreamMsgID, vc_Packet := Some pkt\<rparr>)"

definition WriteTrailer where
  "WriteTrailer enc p originNode streamID =
     mux_send enc p originNode streamID RTMP EOFStreamMsgID (VideoChunk0\<lparr>vc_ID := EOFStreamMsgID\<rparr>)"

end
