(* ===== verification/Depo.thy ===== *)
theory Depo
  imports Forwarder
begin

text \<open>
  The handler of storage and retrieval messages (\<open>network/depo.go\<close>) on the local store and
  the network store of a node.
\<close>

section \<open>Announced keys and delivery requests\<close>

text \<open>The announced chunks the node does not have.\<close>

fun missing_keys ::
    "'d db_env \<Rightarrow> syncRequest list \<Rightarrow> ('d, 'r) world \<Rightarrow> ((unit, syncRequest list) go \<times> ('d, 'r) world) option" where
  "missing_keys E [] w = Some (Ret [], w)"
| "missing_keys E (q # qs) w =
     (case LocalStore_Get E (sq_Key q) w of
        None \<Rightarrow> None
      | Some (Panic, w) \<Rightarrow> Some (Panic, w)
      | Some (r, w) \<Rightarrow>
          (let absent = (case r of Ret a \<Rightarrow> ch_SData (w_heap w a) = None | _ \<Rightarrow> True)
           in case missing_keys E qs w of
                Some (Ret ms, w) \<Rightarrow> Some (Ret (if absent then q # ms else ms), w)
              | x \<Rightarrow> x))"

definition HandleUnsyncedKeysMsg ::
    "('d, 'k, 'sw) net_env \<Rightarrow> syncRequest list \<Rightarrow> syncState \<Rightarrow> peer_id \<Rightarrow> ('d, 'k, 'sw, 'q) node
      \<Rightarrow> (unit, bool \<times> ('d, 'k, 'sw, 'q) node) go option" where
  "HandleUnsyncedKeysMsg V unsynced state p n =
     (case missing_keys (ne_db V) unsynced (nd_w n) of
        None \<Rightarrow> None
      | Some (Ret ms, w) \<Rightarrow>
          (case bzz_deliveryRequest p ms (n\<lparr>nd_w := w\<rparr>) of
             (ok, n) \<Rightarrow>
               Some (Ret (ok, if ok then upd_peer p (\<lambda>e. e\<lparr>pe_syncState := Some state\<rparr>) n else n)))
      | Some (_, w) \<Rightarrow> Some Panic)"

fun push_all ::
    "('d, 'k, 'sw) net_env \<Rightarrow> u64 \<Rightarrow> bool \<Rightarrow> peer_id \<Rightarrow> syncRequest list \<Rightarrow> ('d, 'k, 'sw, 'q) node
      \<Rightarrow> (unit, ('d, 'k, 'sw, 'q) node) go option" where
  "push_all V gid sel p [] n = Some (Ret n)"
| "push_all V gid sel p (q # qs) n =
     go_seq (Push_key V gid sel p (sq_Key q) (sq_Priority q) n) (push_all V gid sel p qs)"

definition HandleDeliveryRequestMsg ::
    "('d, 'k, 'sw) net_env \<Rightarrow> u64 \<Rightarrow> bool \<Rightarrow> syncRequest list \<Rightarrow> peer_id \<Rightarrow> ('d, 'k, 'sw, 'q) node
      \<Rightarrow> (unit, ('d, 'k, 'sw, 'q) node) go option" where
  "HandleDeliveryRequestMsg V gid sel deliver p n =
     go_seq (push_all V gid sel p deliver n)
       (\<lambda>n. case pe_syncer (nd_peers n p) of
              None \<Rightarrow> Some Panic
            | Some s \<Rightarrow> Some (Ret (set_syncer p (sendUnsyncedKeys s) n)))"

section \<open>Store requests\<close>

definition set_chunk :: "addr \<Rightarrow> Chunk \<Rightarrow> ('d, 'r) world \<Rightarrow> ('d, 'r) world" where
  "set_chunk a c w = w\<lparr>w_heap := (w_heap w)(a := c)\<rparr>"

definition take_over ::
    "storeRequestMsgData \<Rightarrow> peer_id \<Rightarrow> addr \<Rightarrow> ('d, 'k, 'sw, 'q) node \<Rightarrow> (unit, ('d, 'k, 'sw, 'q) node) go option" where
  "take_over req p a n =
     (case data_size (case sm_SData req of None \<Rightarrow> [] | Some d \<Rightarrow> d) of
        None \<Rightarrow> Some Panic
      | Some sz \<Rightarrow>
          (let w = nd_w n;
               c = (w_heap w a)\<lparr>ch_SData := sm_SData req, ch_Size := sz, ch_Source := Some p\<rparr>
           in case NetStore_Put a (set_chunk a c w) of
                Some (Ret _, w) \<Rightarrow> Some (Ret (n\<lparr>nd_w := w\<rparr>))
              | Some (Panic, w) \<Rightarrow> Some Panic
              | _ \<Rightarrow> None))"

definition HandleStoreRequestMsg ::
    "('d, 'k, 'sw) net_env \<Rightarrow> Hasher \<Rightarrow> storeRequestMsgData \<Rightarrow> peer_id \<Rightarrow> ('d, 'k, 'sw, 'q) node
      \<Rightarrow> (unit, ('d, 'k, 'sw, 'q) node) go option" where
  "HandleStoreRequestMsg V H req p n =
     (let req = req\<lparr>sm_from := Some p\<rparr>
      in case LocalStore_Get (ne_db V) (sm_Key req) (nd_w n) of
           None \<Rightarrow> None
         | Some (Panic, w) \<Rightarrow> Some Panic
         | Some (Err e, w) \<Rightarrow>
             (case alloc_chunk (NewChunk (sm_Key req) None) w of (a, w) \<Rightarrow> take_over req p a (n\<lparr>nd_w := w\<rparr>))
         | Some (Ret a, w) \<Rightarrow>
             if ch_SData (w_heap w a) = None then
               (if h_Sum H (case sm_SData req of None \<Rightarrow> [] | Some d \<Rightarrow> d) \<noteq> sm_Key req then Some (Ret (n\<lparr>nd_w := w\<rparr>))
                else take_over req p a (n\<lparr>nd_w := w\<rparr>))
             else Some (Ret (n\<lparr>nd_w := w\<rparr>)))"

section \<open>Retrieve requests\<close>

definition searchTimeout :: int where "searchTimeout = 3 * 1000000000"

definition depo_searchTimeout :: "go_time \<Rightarrow> retrieveRequestMsgData \<Rightarrow> go_time option" where
  "depo_searchTimeout now req =
     (let t = now + searchTimeout
      in case retrieve_getTimeout req of
           Some reqt \<Rightarrow> if reqt < t then Some reqt else Some t
         | None \<Rightarrow> Some t)"

definition addRequester ::
    "retrieveRequestMsgData \<Rightarrow> retrieveRequestMsgData RequestStatus \<Rightarrow> retrieveRequestMsgData RequestStatus" where
  "addRequester req rs =
     rs\<lparr>rs_Requesters := (rs_Requesters rs)
          (rm_Id req \<mapsto> (case rs_Requesters rs (rm_Id req) of None \<Rightarrow> [] | Some l \<Rightarrow> l) @ [req])\<rparr>"

text \<open>
  The request that is recorded is the message itself; \<open>setTimeout\<close> leaves it as it is.
\<close>

definition strategyUpdateRequest ::
    "go_time \<Rightarrow> addr option \<Rightarrow> retrieveRequestMsgData \<Rightarrow> ('d, retrieveRequestMsgData) world
      \<Rightarrow> retrieveRequestMsgData \<times> ('d, retrieveRequestMsgData) world" where
  "strategyUpdateRequest now rs req w =
     (case rs of
        None \<Rightarrow> (req, w)
      | Some r \<Rightarrow>
          (retrieve_setTimeout req (depo_searchTimeout now req),
           w\<lparr>w_reqs := (w_reqs w)(r := addRequester req (w_reqs w r))\<rparr>))"

definition retrieve_found ::
    "bool \<Rightarrow> peer_id \<Rightarrow> retrieveRequestMsgData \<Rightarrow> Chunk \<Rightarrow> ('d, 'k, 'sw, 'q) node
      \<Rightarrow> (unit, ('d, 'k, 'sw, 'q) node) go option" where
  "retrieve_found sel p req chunk n =
     (if ch_SData chunk \<noteq> None \<and> (rm_MaxSize req = 0 \<or> sint (rm_MaxSize req) \<ge> ch_Size chunk) then
        Deliver sel p
          (RStore (storeRequest0\<lparr>sm_Id := rm_Id req, sm_Key := ch_Key chunk, sm_SData := ch_SData chunk,
                                 sm_requestTimeout := rm_timeout req\<rparr>)) DeliverReq n
      else Some (Ret n))"

definition HandleRetrieveRequestMsg ::
    "('d, 'k, 'sw) net_env \<Rightarrow> go_time \<Rightarrow> bool \<Rightarrow> retrieveRequestMsgData \<Rightarrow> peer_id \<Rightarrow> ('d, 'k, 'sw, 'q) node
      \<Rightarrow> (unit, ('d, 'k, 'sw, 'q) node) go option" where
  "HandleRetrieveRequestMsg V now sel req p n =
     (let req = req\<lparr>rm_from := Some p\<rparr>
      in case swap_add V 1 p n of
           (False, n) \<Rightarrow> Some (Ret n)
         | (True, n) \<Rightarrow>
             (case NetStore_Get (ne_db V) (rm_Key req) (nd_w n) of
                Some (Ret a, w) \<Rightarrow>
                  (case strategyUpdateRequest now (ch_Req (w_heap w a)) req w of
                     (req, w) \<Rightarrow> retrieve_found sel p req (w_heap w a) (n\<lparr>nd_w := w\<rparr>))
              | Some (Panic, w) \<Rightarrow> Some Panic
              | _ \<Rightarrow> None))"

end
