(* ===== verification/Bzz_Protocol.thy ===== *)
theory Bzz_Protocol
  imports Depo
begin

text \<open>
  The bzz wire protocol (\<open>network/protocol.go\<close>): the handshake, the dispatch of incoming
  messages, the start of a syncer and the cleanup when a connection ends. A raw message is
  its code, its size and a body; decoding (RLP) is a parameter, \<open>decoders\<close>. \<open>wire_env\<close> also
  has the gob decoder of video chunks, the playlist decoder, the constructor and the
  payment entry of SWAP and the repair of an unspecified IP address.
\<close>

section \<open>Messages and errors\<close>

definition Version :: u64 where "Version = 0"
definition ProtocolLength :: u64 where "ProtocolLength = 11"
definition ProtocolMaxMsgSize :: nat where "ProtocolMaxMsgSize = 10 * 1024 * 1024"
definition NetworkId :: u64 where "NetworkId = 326326"

datatype proto_error =
    ErrMsgTooLarge | ErrDecode | ErrInvalidMsgCode | ErrVersionMismatch | ErrNetworkIdMismatch
  | ErrNoStatusMsg | ErrExtraStatusMsg | ErrSwap | ErrSync | ErrUnwanted | ErrTranscode | ErrStream
  | ErrRead | ErrPlain

record 'b raw_msg =
  m_Code :: u64
  m_Size :: nat
  m_Body :: 'b

text \<open>The second component of a decoded retrieve request says that its key is nil.\<close>

record ('b, 'sp, 'q) decoders =
  de_status :: "'b \<Rightarrow> 'sp statusMsgData option"
  de_store :: "'b \<Rightarrow> storeRequestMsgData option"
  de_retrieve :: "'b \<Rightarrow> (retrieveRequestMsgData \<times> bool) option"
  de_peers :: "'b \<Rightarrow> peersMsgData option"
  de_syncRequest :: "'b \<Rightarrow> syncState option option"
  de_delivery :: "'b \<Rightarrow> syncRequest list option"
  de_unsynced :: "'b \<Rightarrow> (syncRequest list \<times> syncState) option"
  de_payment :: "'b \<Rightarrow> 'q paymentMsgData option"
  de_stream :: "'b \<Rightarrow> streamRequestMsgData option"
  de_stopStream :: "'b \<Rightarrow> stopStreamRequestMsgData option"
  de_transcode :: "'b \<Rightarrow> transcodeRequestMsgData option"
  de_transcodeAck :: "'b \<Rightarrow> transcodeAckMsgData option"

record ('b, 'sp, 'sw, 'q) wire_env =
  we_dec :: "('b, 'sp, 'q) decoders"
  we_chunk :: "bytes \<Rightarrow> VideoChunk"
  we_playlist :: "bytes \<Rightarrow> bytes"
  we_newSwap :: "'sp \<Rightarrow> 'sw option"
  we_swapReceive :: "nat \<Rightarrow> 'q \<Rightarrow> 'sw \<Rightarrow> 'sw"
  we_repairIP :: "peerAddr \<Rightarrow> peerAddr"
  we_hash :: Hasher
  we_rle :: rle

text \<open>What is drawn from outside while a message is handled: the time, a random id, select choices.\<close>

record choices =
  or_now :: go_time
  or_gid :: u64
  or_sel :: bool

section \<open>Starting the syncer\<close>

text \<open>\<open>bzz.sync\<close>; the flag in the result is \<open>err == nil\<close>.\<close>

definition session_state :: "Key \<Rightarrow> Key \<Rightarrow> u64 \<Rightarrow> syncState \<Rightarrow> syncState" where
  "session_state start stop cnt state =
     (let state = state\<lparr>y_SessionAt := cnt\<rparr>
      in if IsZeroKey (ss_Stop state) \<and> y_Synced state then state\<lparr>ss_Start := start, ss_Stop := stop\<rparr> else state)"

definition bzz_sync ::
    "('d, 'k, 'sw) net_env \<Rightarrow> rle \<Rightarrow> syncState option \<Rightarrow> peer_id \<Rightarrow> ('d, 'k, 'sw, 'q) node
      \<Rightarrow> (unit, bool \<times> ('d, 'k, 'sw, 'q) node) go" where
  "bzz_sync V rle state p n =
     (let e = nd_peers n p
      in if pe_syncer e \<noteq> None then Ret (False, n)
         else
           (let cnt = DbStore_Counter (w_db (nd_w n));
                a = pa_Addr (pe_remoteAddr e);
                (start, stop) = kad_KeyRange (ne_kad V) (nd_kad n) a;
                (enabled, st) = (case state of
                    None \<Rightarrow> (False, syncState0\<lparr>y_Synced := True\<rparr>)
                  | Some st \<Rightarrow> (pe_syncEnabled e, session_state start stop cnt st))
            in case newSyncer (env_L (ne_db V)) rle (nd_requestDb n) a (pe_syncParams e) st enabled of
                 None \<Rightarrow> Panic
               | Some s \<Rightarrow> Ret (True, upd_peer p (\<lambda>e. e\<lparr>pe_syncEnabled := enabled, pe_syncer := Some s\<rparr>) n)))"

section \<open>The handshake\<close>

text \<open>
  \<open>handleStatus\<close> after the own status has been written; \<open>msg\<close> is the first message read,
  \<open>None\<close> on a read error. A first message of another code is only logged.
\<close>

definition check_status ::
    "('d, 'k, 'sw, 'q) node \<Rightarrow> peer_id \<Rightarrow> 'sp statusMsgData \<Rightarrow> proto_error option" where
  "check_status n p status =
     (if st_NetworkId status \<noteq> pe_NetworkId (nd_peers n p) then Some ErrNetworkIdMismatch
      else if Version \<noteq> st_Version status then Some ErrVersionMismatch
      else None)"

definition admit ::
    "('d, 'k, 'sw) net_env \<Rightarrow> ('b, 'sp, 'sw, 'q) wire_env \<Rightarrow> peer_id \<Rightarrow> 'sp statusMsgData \<Rightarrow> ('d, 'k, 'sw, 'q) node
      \<Rightarrow> (proto_error, unit) go \<times> ('d, 'k, 'sw, 'q) node" where
  "admit V W p status n =
     (let n = upd_peer p (\<lambda>e. e\<lparr>pe_remoteAddr := we_repairIP W (st_Addr status)\<rparr>) n
      in case (if pe_swapEnabled (nd_peers n p) then map_option Some (we_newSwap W (st_Swap status)) else Some None) of
           None \<Rightarrow> (Err ErrSwap, n)
         | Some sw \<Rightarrow>
             (let n = (if sw = None then n else upd_peer p (\<lambda>e. e\<lparr>pe_swap := sw\<rparr>) n)
              in case addPeer V p n of
                   (False, n) \<Rightarrow> (Err ErrUnwanted, n)
                 | (True, n) \<Rightarrow> (Ret (), snd (bzz_syncRequest p n))))"

definition handleStatus ::
    "('d, 'k, 'sw) net_env \<Rightarrow> ('b, 'sp, 'sw, 'q) wire_env \<Rightarrow> 'b raw_msg option \<Rightarrow> peer_id \<Rightarrow> ('d, 'k, 'sw, 'q) node
      \<Rightarrow> (proto_error, unit) go \<times> ('d, 'k, 'sw, 'q) node" where
  "handleStatus V W msg p n =
     (case msg of
        None \<Rightarrow> (Err ErrRead, n)
      | Some m \<Rightarrow>
          if m_Size m > ProtocolMaxMsgSize then (Err ErrMsgTooLarge, n)
          else (case de_status (we_dec W) (m_Body m) of
                  None \<Rightarrow> (Err ErrDecode, n)
                | Some status \<Rightarrow>
                    (case check_status n p status of
                       Some e \<Rightarrow> (Err e, n)
                     | None \<Rightarrow> admit V W p status n)))"

section \<open>Stream messages\<close>

text \<open>A handler that returns: the error, if any, and the node.\<close>

type_synonym ('d, 'k, 'sw, 'q) handled = "(unit, proto_error option \<times> ('d, 'k, 'sw, 'q) node) go option"

definition fine :: "('d, 'k, 'sw, 'q) node \<Rightarrow> ('d, 'k, 'sw, 'q) handled" where
  "fine n = Some (Ret (None, n))"

definition fails :: "proto_error \<Rightarrow> ('d, 'k, 'sw, 'q) node \<Rightarrow> ('d, 'k, 'sw, 'q) handled" where
  "fails e n = Some (Ret (Some e, n))"

definition upd_streamer ::
    "(node_mux Streamer \<Rightarrow> node_mux Streamer) \<Rightarrow> ('d, 'k, 'sw, 'q) node \<Rightarrow> ('d, 'k, 'sw, 'q) node" where
  "upd_streamer f n = n\<lparr>nd_streamer := f (nd_streamer n)\<rparr>"

definition peer_Name :: "('d, 'k, 'sw) net_env \<Rightarrow> peer_id \<Rightarrow> ('d, 'k, 'sw, 'q) node \<Rightarrow> string" where
  "peer_Name V p n = ne_url V (pe_remoteAddr (nd_peers n p))"

definition handle_stopStream ::
    "('d, 'k, 'sw) net_env \<Rightarrow> stopStreamRequestMsgData \<Rightarrow> peer_id \<Rightarrow> ('d, 'k, 'sw, 'q) node
      \<Rightarrow> ('d, 'k, 'sw, 'q) handled" where
  "handle_stopStream V req p n =
     (let sid = MakeStreamID (sp_OriginNode req) (sp_StreamID req)
      in if sp_Id req = StopStreamMsgID then
           (let n = (if nd_addr n \<noteq> sp_OriginNode req
                     then forwarder_StopStream V sid (peer_Addr n p) (sp_Format req) n else n)
            in case (if sp_Format req = HLS then UnsubscribeToHLSStream sid (peer_Name V p n) (nd_streamer n)
                     else UnsubscribeToRTMPStream sid (peer_Name V p n) (nd_streamer n)) of
                 Ret s \<Rightarrow> fine (n\<lparr>nd_streamer := s\<rparr>)
               | _ \<Rightarrow> Some Panic)
         else fails ErrPlain n)"

definition handle_stream ::
    "('d, 'k, 'sw) net_env \<Rightarrow> ('b, 'sp, 'sw, 'q) wire_env \<Rightarrow> streamRequestMsgData \<Rightarrow> peer_id
      \<Rightarrow> ('d, 'k, 'sw, 'q) node \<Rightarrow> ('d, 'k, 'sw, 'q) handled" where
  "handle_stream V W req p n =
     (let sid = MakeStreamID (sr_OriginNode req) (sr_StreamID req);
          strm = GetNetworkStream sid (nd_streamer n)
      in if sr_Id req = RequestStreamMsgID then
           (let n = (if strm = None then forwarder_Stream V sid (peer_Addr n p) (sr_Format req) n else n);
                mux = PeerMux p (sr_OriginNode req) (sr_StreamID req)
            in fine (upd_streamer
                 (if sr_Format req = HLS then (\<lambda>s. fst (SubscribeToHLSStream sid (peer_Name V p n) mux s))
                  else SubscribeToRTMPStream sid (peer_Name V p n) mux) n))
         else if sr_Id req = DeliverStreamMsgID then
           (case strm of
              None \<Rightarrow> fails ErrStream n
            | Some v \<Rightarrow>
                fine (upd_streamer (\<lambda>s. s\<lparr>str_streams := (str_streams s)
                  (v := fst (insertChunkToStream (we_playlist W) (we_chunk W (sr_SData req)) (str_streams s v)))\<rparr>) n))
         else if sr_Id req = EOFStreamMsgID then
           fine (if sr_Format req = HLS then n else upd_streamer (EndRTMPStream sid) n)
         else fine n)"

definition handle_transcodeAck ::
    "transcodeAckMsgData \<Rightarrow> ('d, 'k, 'sw, 'q) node \<Rightarrow> ('d, 'k, 'sw, 'q) node" where
  "handle_transcodeAck req n =
     (let sid = MakeStreamID (ta_OriginNode req) (ta_OriginStreamID req)
      in case sdb_Upstream (nd_streamDB n) sid of
           Some q \<Rightarrow> snd (bzz_transcodeAck q req n)
         | None \<Rightarrow> n\<lparr>nd_streamDB := fold (AddTranscodedStream sid) (ta_NewStreamIDs req) (nd_streamDB n)\<rparr>)"

section \<open>The dispatch\<close>

definition active :: "choices \<Rightarrow> peer_id \<Rightarrow> ('d, 'k, 'sw, 'q) node \<Rightarrow> ('d, 'k, 'sw, 'q) node" where
  "active R p = upd_peer p (\<lambda>e. e\<lparr>pe_lastActive := or_now R\<rparr>)"

text \<open>A handler without an error result.\<close>

definition lift_go :: "(unit, ('d, 'k, 'sw, 'q) node) go option \<Rightarrow> ('d, 'k, 'sw, 'q) handled" where
  "lift_go r = go_seq r fine"

definition handle_store ::
    "('d, 'k, 'sw) net_env \<Rightarrow> ('b, 'sp, 'sw, 'q) wire_env \<Rightarrow> choices \<Rightarrow> storeRequestMsgData \<Rightarrow> peer_id
      \<Rightarrow> ('d, 'k, 'sw, 'q) node \<Rightarrow> ('d, 'k, 'sw, 'q) handled" where
  "handle_store V W R req p n =
     (if length (case sm_SData req of None \<Rightarrow> [] | Some d \<Rightarrow> d) < 9 then fails ErrDecode n
      else lift_go (HandleStoreRequestMsg V (we_hash W) req p (active R p n)))"

definition handle_retrieve ::
    "('d, 'k, 'sw) net_env \<Rightarrow> choices \<Rightarrow> retrieveRequestMsgData \<Rightarrow> bool \<Rightarrow> peer_id
      \<Rightarrow> ('d, 'k, 'sw, 'q) node \<Rightarrow> ('d, 'k, 'sw, 'q) handled" where
  "handle_retrieve V R req keyNil p n =
     (let req = req\<lparr>rm_from := Some p\<rparr>
      in if isLookup req then lift_go (Some (hive_peers V (or_now R) req n))
         else if keyNil then fails ErrDecode n
         else lift_go (go_seq (HandleRetrieveRequestMsg V (or_now R) (or_sel R) req p n)
                        (\<lambda>n. Some (hive_peers V (or_now R) req n))))"

definition handle_unsynced ::
    "('d, 'k, 'sw) net_env \<Rightarrow> choices \<Rightarrow> syncRequest list \<times> syncState \<Rightarrow> peer_id
      \<Rightarrow> ('d, 'k, 'sw, 'q) node \<Rightarrow> ('d, 'k, 'sw, 'q) handled" where
  "handle_unsynced V R us p n =
     go_seq (HandleUnsyncedKeysMsg V (fst us) (snd us) p n)
       (\<lambda>(ok, n). let n = active R p n in if ok then fine n else fails ErrDecode n)"

definition handle_payment ::
    "('b, 'sp, 'sw, 'q) wire_env \<Rightarrow> 'b \<Rightarrow> peer_id \<Rightarrow> ('d, 'k, 'sw, 'q) node \<Rightarrow> ('d, 'k, 'sw, 'q) handled" where
  "handle_payment W body p n =
     (if pe_swapEnabled (nd_peers n p) then
        (case de_payment (we_dec W) body of
           None \<Rightarrow> fails ErrDecode n
         | Some pay \<Rightarrow>
             (case pe_swap (nd_peers n p) of
                None \<Rightarrow> Some Panic
              | Some sw \<Rightarrow>
                  fine (upd_peer p (\<lambda>e. e\<lparr>pe_swap := Some (we_swapReceive W (pay_Units pay) (pay_Promise pay) sw)\<rparr>) n)))
      else fine n)"

definition decoded ::
    "proto_error \<Rightarrow> ('d, 'k, 'sw, 'q) node \<Rightarrow> 'a option \<Rightarrow> ('a \<Rightarrow> ('d, 'k, 'sw, 'q) handled) \<Rightarrow> ('d, 'k, 'sw, 'q) handled" where
  "decoded e n d f = (case d of None \<Rightarrow> fails e n | Some x \<Rightarrow> f x)"

text \<open>The error of a stream message that cannot be decoded is handed on without a code.\<close>

definition dispatch ::
    "('d, 'k, 'sw) net_env \<Rightarrow> ('b, 'sp, 'sw, 'q) wire_env \<Rightarrow> choices \<Rightarrow> u64 \<Rightarrow> 'b \<Rightarrow> peer_id
      \<Rightarrow> ('d, 'k, 'sw, 'q) node \<Rightarrow> ('d, 'k, 'sw, 'q) handled" where
  "dispatch V W R code body p n =
     (let D = we_dec W
      in if code = statusMsg then fails ErrExtraStatusMsg n
         else if code = stopStreamRequestMsg then decoded ErrPlain n (de_stopStream D body) (\<lambda>r. handle_stopStream V r p n)
         else if code = streamRequestMsg then decoded ErrPlain n (de_stream D body) (\<lambda>r. handle_stream V W r p n)
         else if code = storeRequestMsg then decoded ErrDecode n (de_store D body) (\<lambda>r. handle_store V W R r p n)
         else if code = retrieveRequestMsg then
           decoded ErrDecode n (de_retrieve D body) (\<lambda>(r, keyNil). handle_retrieve V R r keyNil p n)
         else if code = transcodeRequestMsg then decoded ErrDecode n (de_transcode D body) (\<lambda>r. fine n)
         else if code = transcodeAckMsg then decoded ErrDecode n (de_transcodeAck D body) (\<lambda>r. fine (handle_transcodeAck r n))
         else if code = peersMsg then decoded ErrDecode n (de_peers D body) (\<lambda>r. fine (HandlePeersMsg V (or_now R) r p n))
         else if code = syncRequestMsg then
           decoded ErrDecode n (de_syncRequest D body)
             (\<lambda>st. lift_go (Some (go_bind (bzz_sync V (we_rle W) st p (active R p n)) (\<lambda>(_, n). Ret n))))
         else if code = unsyncedKeysMsg then decoded ErrDecode n (de_unsynced D body) (\<lambda>u. handle_unsynced V R u p n)
         else if code = deliveryRequestMsg then
           decoded ErrDecode n (de_delivery D body)
             (\<lambda>ds. lift_go (go_seq (HandleDeliveryRequestMsg V (or_gid R) (or_sel R) ds p n) (\<lambda>n. Some (Ret (active R p n)))))
         else if code = paymentMsg then handle_payment W body p n
         else fails ErrInvalidMsgCode n)"

text \<open>One cycle of the main loop; \<open>None\<close> as message is a read error.\<close>

definition handle ::
    "('d, 'k, 'sw) net_env \<Rightarrow> ('b, 'sp, 'sw, 'q) wire_env \<Rightarrow> choices \<Rightarrow> 'b raw_msg option \<Rightarrow> peer_id
      \<Rightarrow> ('d, 'k, 'sw, 'q) node \<Rightarrow> ('d, 'k, 'sw, 'q) handled" where
  "handle V W R msg p n =
     (case msg of
        None \<Rightarrow> fails ErrRead n
      | Some m \<Rightarrow>
          if m_Size m > ProtocolMaxMsgSize then fails ErrMsgTooLarge n
          else dispatch V W R (m_Code m) (m_Body m) p n)"

section \<open>A connection\<close>

text \<open>The deferred cleanup of \<open>run\<close>, up to the call of \<open>syncer.stop\<close>.\<close>

definition run_cleanup ::
    "('d, 'k, 'sw) net_env \<Rightarrow> peer_id \<Rightarrow> ('d, 'k, 'sw, 'q) node \<Rightarrow> (unit, ('d, 'k, 'sw, 'q) node) go" where
  "run_cleanup V p n =
     (let n = removePeer V p n
      in case pe_syncer (nd_peers n p) of
           None \<Rightarrow> Ret n
         | Some s \<Rightarrow> go_bind (syncer_stop s) (\<lambda>s. Ret (set_syncer p s n)))"

text \<open>
  The main loop on the messages that come in: the node when an error ends it, with the
  error, or the node after the last message.
\<close>

fun run_loop ::
    "('d, 'k, 'sw) net_env \<Rightarrow> ('b, 'sp, 'sw, 'q) wire_env \<Rightarrow> (choices \<times> 'b raw_msg option) list \<Rightarrow> peer_id
      \<Rightarrow> ('d, 'k, 'sw, 'q) node \<Rightarrow> ('d, 'k, 'sw, 'q) handled" where
  "run_loop V W [] p n = fine n"
| "run_loop V W ((R, m) # ms) p n =
     (if nd_blockRead n then fine n
      else go_seq (handle V W R m p n)
             (\<lambda>(e, n). case e of
                None \<Rightarrow> run_loop V W ms p n
              | Some e \<Rightarrow> go_seq (Some (run_cleanup V p n)) (fails e)))"

text \<open>\<open>run\<close>: the handshake, then the loop; no cleanup where the handshake fails.\<close>

definition run ::
    "('d, 'k, 'sw) net_env \<Rightarrow> ('b, 'sp, 'sw, 'q) wire_env \<Rightarrow> 'b raw_msg option \<Rightarrow> (choices \<times> 'b raw_msg option) list
      \<Rightarrow> peer_id \<Rightarrow> ('d, 'k, 'sw, 'q) node \<Rightarrow> ('d, 'k, 'sw, 'q) handled" where
  "run V W first msgs p n =
     (case handleStatus V W first p n of
        (Err e, n) \<Rightarrow> fails e n
      | (Panic, n) \<Rightarrow> Some Panic
      | (Ret _, n) \<Rightarrow> run_loop V W msgs p n)"

end
