(* ===== verification/Net_Props.thy ===== *)
theory Net_Props
  imports Depo "HOL-Library.Sublist"
begin

text \<open>
  Properties of the hive, the forwarder and the depo: the proximity of addresses, to whom
  requests and chunks are sent, and what a store request may change.
\<close>

section \<open>Proximity\<close>

definition addr_bits :: "bytes \<Rightarrow> bool list" where
  "addr_bits bs = concat (map (\<lambda>b. map (\<lambda>j. bit b (7 - j)) [0..<8]) bs)"

definition common_bits :: "bool list \<Rightarrow> bool list \<Rightarrow> nat" where
  "common_bits xs ys = length (takeWhile (\<lambda>(x, y). x = y) (zip xs ys))"

lemma tested_bit: "and (drop_bit m (w :: byte)) 1 \<noteq> 0 \<longleftrightarrow> bit w m"
  by (simp add: and_one_eq bit_iff_odd_drop_bit odd_iff_mod_2_eq_one)

lemma common_bits_Cons: "common_bits (x # xs) (y # ys) = (if x = y then 1 + common_bits xs ys else 0)"
  by (simp add: common_bits_def)

lemma first_bit_common:
  assumes "j + k = 8"
  shows "common_bits (map (\<lambda>i. bit a (7 - i)) [j..<8] @ xs) (map (\<lambda>i. bit b (7 - i)) [j..<8] @ ys) =
    (case first_bit (xor a b) j k of Some m \<Rightarrow> m - j | None \<Rightarrow> k + common_bits xs ys)
    \<and> (\<forall>m. first_bit (xor a b) j k = Some m \<longrightarrow> j \<le> m)"
  using assms
proof (induction k arbitrary: j)
  case (Suc k)
  then have j: "j < 8" "[j..<8] = j # [Suc j..<8]" by (auto simp: upt_conv_Cons)
  note IH = Suc.IH [of "j + 1"]
  show ?case
  proof (cases "bit a (7 - j) = bit b (7 - j)")
    case True
    then have "first_bit (xor a b) j (Suc k) = first_bit (xor a b) (j + 1) k"
      by (simp add: tested_bit bit_xor_iff del: drop_bit_xor)
    then show ?thesis using IH Suc.prems True
      by (auto simp: j(2) common_bits_Cons split: option.splits)
  next
    case False
    then have "first_bit (xor a b) j (Suc k) = Some j" by (simp add: tested_bit bit_xor_iff del: drop_bit_xor)
    then show ?thesis using False by (simp add: j(2) common_bits_Cons)
  qed
qed simp

lemma proximity_loop_common: "proximity_loop i a b = i * 8 + common_bits (addr_bits a) (addr_bits b)"
proof (induction i a b rule: proximity_loop.induct)
  case (1 i a as b bs)
  then show ?case using first_bit_common [of 0 8 a "addr_bits as" b "addr_bits bs"]
    by (auto simp: addr_bits_def split: option.splits)
qed (auto simp: addr_bits_def common_bits_def)

text \<open>
  C30: the proximity that the hive computes byte by byte is the number of leading bits that two
  addresses share, most significant bit first.
\<close>

theorem proximity_is_common_prefix: "proximity one other = common_bits (addr_bits one) (addr_bits other)"
  by (simp add: proximity_def proximity_loop_common)

section \<open>Whom the forwarder asks\<close>

abbreviation out :: "('d, 'k, 'sw, 'q) node \<Rightarrow> peer_id \<Rightarrow> 'q bzz_msg list" where
  "out n p \<equiv> pe_out (nd_peers n p)"

lemma swap_add_frame:
  assumes "swap_add V c p n = (ok, n')"
  shows "out n' q = out n q" "peer_Addr n' q = peer_Addr n q" "pe_wire (nd_peers n' q) = pe_wire (nd_peers n q)"
    "nd_blockWrite n' = nd_blockWrite n"
  using assms by (auto simp: swap_add_def upd_peer_def peer_Addr_def split: option.splits prod.splits if_splits)

lemma asked_by_cong: "(\<And>q. peer_Addr n' q = peer_Addr n q) \<Longrightarrow> asked_by n' a rs = asked_by n a rs"
  by (induction rs) (auto split: option.splits)

lemma asked_by_False:
  "asked_by n a rs = Some False \<Longrightarrow> r \<in> set rs \<Longrightarrow> \<exists>q. rm_from r = Some q \<and> peer_Addr n q \<noteq> a"
  by (induction rs) (auto split: option.splits if_splits)

lemma send_out: "out (snd (send p m n)) q = (if q = p \<and> \<not> nd_blockWrite n \<and> pe_wire (nd_peers n p) then out n p @ [m] else out n q)"
  by (auto simp: send_def upd_peer_def bzz_Drop_def)

lemma Retrieve_loop_out:
  assumes "Retrieve_loop V gid key reqs ps n = Ret n'"
  shows "(\<forall>q. out n' q = out n q) \<or>
    (\<exists>p \<in> set ps. asked_by n (peer_Addr n p) reqs = Some False
      \<and> out n' p = out n p @ [MRetrieve (retrieveRequest0\<lparr>rm_Key := key, rm_Id := gid p\<rparr>)]
      \<and> (\<forall>q. q \<noteq> p \<longrightarrow> out n' q = out n q))"
  using assms
proof (induction ps arbitrary: n)
  case (Cons p ps)
  obtain ok n1 where s: "swap_add V (- 1) p n = (ok, n1)" by fastforce
  note fr = swap_add_frame [OF s]
  consider "asked_by n (peer_Addr n p) reqs = Some True" | "asked_by n (peer_Addr n p) reqs = Some False" ok
    | "asked_by n (peer_Addr n p) reqs = Some False" "\<not> ok"
    using Cons.prems by (auto split: option.splits bool.splits)
  then show ?case
  proof cases
    case 1
    then show ?thesis using Cons.IH [of n] Cons.prems by auto
  next
    case 2
    then have "n' = snd (send p (MRetrieve (retrieveRequest0\<lparr>rm_Key := key, rm_Id := gid p\<rparr>)) n1)"
      using Cons.prems s by (simp add: bzz_retrieve_def)
    then show ?thesis using 2 fr by (auto simp: send_out)
  next
    case 3
    then have r: "Retrieve_loop V gid key reqs ps n1 = Ret n'" using Cons.prems s by simp
    have "asked_by n1 a reqs = asked_by n a reqs" for a using fr(2) by (rule asked_by_cong)
    then show ?thesis using Cons.IH [OF r] fr(1,2) by auto
  qed
qed simp

text \<open>
  C31: a retrieve request for a pending chunk goes to at most one peer. That peer is one of those the
  Kademlia table names for the key, has not itself asked for the chunk, and gets exactly one message, for that
  key; nothing is written to any other peer.
\<close>

theorem forwarder_retrieve_one_peer:
  assumes "forwarder_Retrieve V gid ids c n = Ret n'" "ch_Req (w_heap (nd_w n) c) = Some r"
  shows "(\<forall>q. out n' q = out n q) \<or>
    (\<exists>p \<in> set (getPeers V (ch_Key (w_heap (nd_w n) c)) 0 n).
      (\<forall>m \<in> set (all_requests ids (w_reqs (nd_w n) r)). \<exists>q. rm_from m = Some q \<and> peer_Addr n q \<noteq> peer_Addr n p)
      \<and> out n' p = out n p @ [MRetrieve (retrieveRequest0\<lparr>rm_Key := ch_Key (w_heap (nd_w n) c), rm_Id := gid p\<rparr>)]
      \<and> (\<forall>q. q \<noteq> p \<longrightarrow> out n' q = out n q))"
proof -
  have "Retrieve_loop V gid (ch_Key (w_heap (nd_w n) c)) (all_requests ids (w_reqs (nd_w n) r))
      (getPeers V (ch_Key (w_heap (nd_w n) c)) 0 n) n = Ret n'"
    using assms by (simp add: forwarder_Retrieve_def Let_def)
  from Retrieve_loop_out [OF this] show ?thesis using asked_by_False by blast
qed

section \<open>To whom a chunk is delivered\<close>

definition in_time :: "go_time \<Rightarrow> retrieveRequestMsgData \<Rightarrow> bool" where
  "in_time now r = (case rm_timeout r of None \<Rightarrow> True | Some t \<Rightarrow> t > now)"

fun deliver_each ::
    "bool \<Rightarrow> storeRequestMsgData \<Rightarrow> (nat \<times> retrieveRequestMsgData) list \<Rightarrow> ('d, 'k, 'sw, 'q) node
      \<Rightarrow> (unit, ('d, 'k, 'sw, 'q) node) go option" where
  "deliver_each sel m [] n = Some (Ret n)"
| "deliver_each sel m ((i, r) # rs) n =
     (case rm_from r of None \<Rightarrow> Some Panic
      | Some q \<Rightarrow> go_seq (Deliver sel q (RStore (m\<lparr>sm_Id := of_nat i\<rparr>)) DeliverReq n) (deliver_each sel m rs))"

lemma go_seq_Ret: "go_seq x (\<lambda>n. Some (Ret n)) = x"
  by (auto simp: go_seq_def split: option.splits go.splits)

lemma Deliver_loop_first:
  fixes n :: "('d, 'k, 'sw, 'q) node"
  shows "0 < c \<Longrightarrow> Deliver_loop sel now m i c rs n =
    deliver_each sel m (take c (filter (\<lambda>(i, r). in_time now r) (enumerate i rs))) n"
proof (induction rs arbitrary: i c n)
  case (Cons r rs)
  have late: "Deliver_loop sel now m i c (r # rs) n = Deliver_loop sel now m (i + 1) c rs n" if "\<not> in_time now r"
    using that by (auto simp: in_time_def split: option.splits)
  show ?case
  proof (cases "in_time now r")
    case False
    then show ?thesis using late Cons.IH [OF Cons.prems, of "Suc i" n] by simp
  next
    case True
    obtain c' where c: "c = Suc c'" using Cons.prems by (cases c) auto
    have last: "Deliver_loop sel now m (Suc i) c' rs n1 = deliver_each sel m (take c' (filter (\<lambda>(i, r). in_time now r) (enumerate (Suc i) rs))) n1"
      if "0 < c'" for n1 :: "('d, 'k, 'sw, 'q) node"
      by (rule Cons.IH [OF that])
    have "Deliver_loop sel now m i c (r # rs) n = (case rm_from r of None \<Rightarrow> Some Panic
        | Some q \<Rightarrow> go_seq (Deliver sel q (RStore (m\<lparr>sm_Id := of_nat i\<rparr>)) DeliverReq n)
            (\<lambda>n. if c' = 0 then Some (Ret n) else Deliver_loop sel now m (Suc i) c' rs n))"
      using True c by (auto simp: in_time_def split: option.splits cong: if_cong)
    also have "\<dots> = (case rm_from r of None \<Rightarrow> Some Panic
        | Some q \<Rightarrow> go_seq (Deliver sel q (RStore (m\<lparr>sm_Id := of_nat i\<rparr>)) DeliverReq n)
            (deliver_each sel m (take c' (filter (\<lambda>(i, r). in_time now r) (enumerate (Suc i) rs)))))"
    proof (cases c')
      case 0
      have "deliver_each sel m [] = (\<lambda>n :: ('d, 'k, 'sw, 'q) node. Some (Ret n))" by (rule ext) simp
      then show ?thesis using 0 by (simp del: deliver_each.simps split: option.split)
    next
      case (Suc c'')
      then show ?thesis using last by (simp cong: if_cong del: Deliver_loop.simps split: option.split)
    qed
    finally show ?thesis using True c by simp
  qed
qed simp

definition requests_of :: "'r RequestStatus \<Rightarrow> u64 \<Rightarrow> 'r list" where
  "requests_of rs i = (case rs_Requesters rs i of None \<Rightarrow> [] | Some l \<Rightarrow> l)"

lemma go_seq_assoc: "go_seq (go_seq x f) g = go_seq x (\<lambda>a. go_seq (f a) g)"
  by (auto simp: go_seq_def split: option.splits go.splits)

lemma deliver_each_append: "deliver_each sel m (xs @ ys) n = go_seq (deliver_each sel m xs n) (deliver_each sel m ys)"
  by (induction sel m xs n rule: deliver_each.induct) (auto simp: go_seq_assoc go_seq_def split: option.splits go.splits)

lemma Deliver_ids_each:
  "Deliver_ids sel now m rs ids n =
     deliver_each sel m (concat (map (\<lambda>i. take 3 (filter (\<lambda>(j, q). in_time now q) (enumerate 0 (requests_of rs i)))) ids)) n"
proof (induction ids arbitrary: n)
  case (Cons i ids)
  then show ?case
    by (simp add: deliver_each_append Deliver_loop_first requesterCount_def flip: requests_of_def)
      (auto simp: go_seq_def split: option.splits go.splits)
qed simp

text \<open>
  C32: a chunk that has arrived is handed to exactly the first three requests of each request id
  that have not timed out, in the order in which they came. (Each copy carries as its id the position of
  the request in its list.)
\<close>

theorem forwarder_deliver_first_three:
  assumes "ch_Req (w_heap (nd_w n) c) = Some r"
  shows "forwarder_Deliver sel now ids c n =
    deliver_each sel (storeRequest0\<lparr>sm_Key := ch_Key (w_heap (nd_w n) c), sm_SData := ch_SData (w_heap (nd_w n) c)\<rparr>)
      (concat (map (\<lambda>i. take 3 (filter (\<lambda>(j, q). in_time now q) (enumerate 0 (requests_of (w_reqs (nd_w n) r) i)))) ids)) n"
  using assms by (simp add: forwarder_Deliver_def Deliver_ids_each Let_def)

section \<open>Store requests\<close>

lemma cached_key:
  assumes "cached w k a" "world_ok E L w"
  shows "ch_Key (w_heap w a) = k" "a < w_next w"
  using assms by (auto simp: cached_def mem_content_def world_ok_def)

lemma set_chunk_ok:
  assumes "world_ok E L w" "ch_Key c = ch_Key (w_heap w a)"
  shows "world_ok E L (set_chunk a c w)" "cached (set_chunk a c w) = cached w" "has_room (set_chunk a c w) = has_room w"
proof -
  have keys: "ch_Key (w_heap (set_chunk a c w) x) = ch_Key (w_heap w x)" for x using assms(2) by (simp add: set_chunk_def)
  note hp = trie_ok_heap [of "w_heap (set_chunk a c w)" "w_heap w", OF keys]
  show "world_ok E L (set_chunk a c w)" using assms(1) hp(1) by (simp add: world_ok_def) (simp add: set_chunk_def)
  show "cached (set_chunk a c w) = cached w" by (simp add: cached_def fun_eq_iff hp(2)) (simp add: set_chunk_def)
  show "has_room (set_chunk a c w) = has_room w" by (simp add: has_room_def set_chunk_def)
qed

text \<open>
  C26: a store request for a chunk the node is waiting for. If the data hashes to the key the waiting chunk takes
  it over, those who wait for the request are woken, the chunk is handed to the forwarder for
  delivery and its database write is started; if it does not, the request stays open and no chunk, no channel and no
  pending work changes.
\<close>

theorem store_request_answers_pending:
  assumes ok: "world_ok (ne_db V) L (nd_w n)" "has_room (nd_w n)" and key: "length (sm_Key req) = L" "cached (nd_w n) (sm_Key req) a"
    and pend: "ch_SData (w_heap (nd_w n) a) = None" "ch_Req (w_heap (nd_w n) a) = Some r" "\<not> w_closed (nd_w n) (rs_C (w_reqs (nd_w n) r))"
    and dat: "sm_SData req = Some d" "8 \<le> length d"
  shows "\<exists>n'. HandleStoreRequestMsg V H req p n = Some (Ret n') \<and>
    (if h_Sum H d = sm_Key req
     then ch_SData (w_heap (nd_w n') a) = Some d \<and> w_closed (nd_w n') (rs_C (w_reqs (nd_w n) r))
       \<and> w_cloud (nd_w n') = w_cloud (nd_w n) @ [CDeliver a] \<and> w_pending (nd_w n') = w_pending (nd_w n) @ [a]
     else w_heap (nd_w n') = w_heap (nd_w n) \<and> w_closed (nd_w n') = w_closed (nd_w n)
       \<and> w_cloud (nd_w n') = w_cloud (nd_w n) \<and> w_pending (nd_w n') = w_pending (nd_w n))"
proof -
  obtain m db where g: "LocalStore_Get (ne_db V) (sm_Key req) (nd_w n) = Some (Ret a, nd_w n\<lparr>w_mem := m, w_db := db\<rparr>)"
      "world_ok (ne_db V) L (nd_w n\<lparr>w_mem := m, w_db := db\<rparr>)" "cached (nd_w n\<lparr>w_mem := m, w_db := db\<rparr>) = cached (nd_w n)"
      "ms_entryCnt m = ms_entryCnt (w_mem (nd_w n))" "ms_capacity m = ms_capacity (w_mem (nd_w n))"
    using LocalStore_Get_hit [OF ok(1) key] by blast
  let ?w = "nd_w n\<lparr>w_mem := m, w_db := db\<rparr>"
  obtain sz where sz: "data_size d = Some sz" using dat(2) by (simp add: data_size_def)
  let ?c = "(w_heap ?w a)\<lparr>ch_SData := Some d, ch_Size := sz, ch_Source := Some p\<rparr>"
  let ?w2 = "set_chunk a ?c ?w"
  have k: "ch_Key (w_heap (nd_w n) a) = sm_Key req" "a < w_next (nd_w n)" using cached_key [OF key(2) ok(1)] by auto
  have w2: "world_ok (ne_db V) L ?w2" "cached ?w2 = cached (nd_w n)" "has_room ?w2"
    using set_chunk_ok [OF g(2), of ?c a] g(3-5) ok(2) by (simp_all add: has_room_def)
  have h2: "w_heap ?w2 a = ?c" "w_reqs ?w2 = w_reqs (nd_w n)" "w_closed ?w2 = w_closed (nd_w n)" "w_next ?w2 = w_next (nd_w n)"
      "w_cloud ?w2 = w_cloud (nd_w n)" "w_pending ?w2 = w_pending (nd_w n)"
    by (simp_all add: set_chunk_def)
  have put: "\<exists>w'. NetStore_Put a ?w2 = Some (Ret (), w') \<and> w_closed w' = (w_closed ?w2)(rs_C (w_reqs ?w2 r) := True)
      \<and> w_cloud w' = w_cloud ?w2 @ [CDeliver a] \<and> ch_SData (w_heap w' a) = Some d \<and> w_pending w' = w_pending ?w2 @ [a]"
    using NetStore_Put_cached [OF w2(1,3), of a a r d] w2(2) key k pend(2,3) h2 by auto
  show ?thesis
  proof (cases "h_Sum H d = sm_Key req")
    case True
    then show ?thesis using put g(1) pend(1) dat(1) sz
      by (auto simp: HandleStoreRequestMsg_def take_over_def Let_def set_chunk_def)
  next
    case False
    then show ?thesis using g(1) pend(1) dat(1) by (simp add: HandleStoreRequestMsg_def Let_def)
  qed
qed

text \<open>
  The comment on \<open>HandleStoreRequestMsg\<close> says that the remote is untrusted, so the hash is
  verified. For a key that the node does not hold it is not: what the handler does with such a chunk does not depend on
  the hash function, and the chunk is handed to the network store with whatever data came.
\<close>

theorem store_request_unknown_key_unverified:
  assumes "LocalStore_Get (ne_db V) (sm_Key req) (nd_w n) = Some (Err e, w)"
    "alloc_chunk (NewChunk (sm_Key req) None) w = (a, w')" "sm_SData req = Some d" "data_size d = Some sz"
  shows "HandleStoreRequestMsg V H req p n = HandleStoreRequestMsg V H' req p n
    \<and> (\<forall>n'. HandleStoreRequestMsg V H req p n = Some (Ret n') \<longrightarrow>
        (\<exists>u. NetStore_Put a (set_chunk a ((w_heap w' a)\<lparr>ch_SData := Some d, ch_Size := sz, ch_Source := Some p\<rparr>) w') = Some (Ret u, nd_w n')))"
  using assms by (auto simp: HandleStoreRequestMsg_def take_over_def Let_def split: option.splits prod.splits go.splits)

text \<open>
  The lookups of the announced keys follow one another, each in the stores as the one before left them (a lookup counts
  an access and moves a chunk to the memory store). \<open>lookups_before\<close> are the stores after the lookups of a list of keys, and
  \<open>found_at E qs i w\<close> says that the \<open>i\<close>-th lookup, of those of \<open>qs\<close> made from the stores \<open>w\<close> on, finds a chunk with data.
\<close>

fun lookups_before :: "'d db_env \<Rightarrow> syncRequest list \<Rightarrow> ('d, 'r) world \<Rightarrow> ('d, 'r) world option" where
  "lookups_before E [] w = Some w"
| "lookups_before E (q # qs) w =
     (case LocalStore_Get E (sq_Key q) w of Some (r, w') \<Rightarrow> lookups_before E qs w' | None \<Rightarrow> None)"

definition found_in :: "'d db_env \<Rightarrow> Key \<Rightarrow> ('d, 'r) world \<Rightarrow> bool" where
  "found_in E k w =
     (case LocalStore_Get E k w of Some (Ret a, w') \<Rightarrow> ch_SData (w_heap w' a) \<noteq> None | _ \<Rightarrow> False)"

definition found_at :: "'d db_env \<Rightarrow> syncRequest list \<Rightarrow> nat \<Rightarrow> ('d, 'r) world \<Rightarrow> bool" where
  "found_at E qs i w = (case lookups_before E (take i qs) w of Some w' \<Rightarrow> found_in E (sq_Key (qs ! i)) w' | None \<Rightarrow> False)"

lemma missing_keys_spec:
  assumes "missing_keys E qs w = Some (Ret ms, w')"
  shows "ms = map ((!) qs) (filter (\<lambda>i. \<not> found_at E qs i w) [0..<length qs])" "lookups_before E qs w = Some w'"
proof -
  have "ms = map ((!) qs) (filter (\<lambda>i. \<not> found_at E qs i w) [0..<length qs]) \<and> lookups_before E qs w = Some w'"
    using assms
  proof (induction qs arbitrary: w ms)
    case (Cons q qs)
    obtain r w1 where r: "LocalStore_Get E (sq_Key q) w = Some (r, w1)" "r \<noteq> Panic"
      using Cons.prems by (cases "LocalStore_Get E (sq_Key q) w") (auto split: go.splits)
    obtain ms1 where m: "missing_keys E qs w1 = Some (Ret ms1, w')" "ms = (if found_in E (sq_Key q) w then ms1 else q # ms1)"
      using Cons.prems r by (cases r; cases "missing_keys E qs w1") (auto split: go.splits if_splits simp: Let_def found_in_def)
    have at: "found_at E (q # qs) 0 w = found_in E (sq_Key q) w" "found_at E (q # qs) (Suc i) w = found_at E qs i w1" for i
      using r by (simp_all add: found_at_def split: option.split)
    have "[0..<length (q # qs)] = 0 # map Suc [0..<length qs]" by (simp add: upt_conv_Cons map_Suc_upt del: upt_Suc)
    then have "map ((!) (q # qs)) (filter (\<lambda>i. \<not> found_at E (q # qs) i w) [0..<length (q # qs)])
        = (if found_in E (sq_Key q) w then [] else [q]) @ map ((!) qs) (filter (\<lambda>i. \<not> found_at E qs i w1) [0..<length qs])"
      by (simp add: at filter_map o_def del: upt_Suc)
    then show ?case using Cons.IH [OF m(1)] m(2) r(1) by simp
  qed simp
  then show "ms = map ((!) qs) (filter (\<lambda>i. \<not> found_at E qs i w) [0..<length qs])" "lookups_before E qs w = Some w'" by blast+
qed

text \<open>
  C27: keys that a peer announces. The node looks them up one after the other in its own local store, starting from the stores
  as they are when the message arrives, and asks that peer in one message, in the announced order, for exactly those
  whose lookup found no data; no other peer is sent anything. It takes over the peer's sync state only when
  that message could be written; when it could not, the state that will be saved stays the old one.
\<close>

theorem unsynced_keys_requested:
  fixes n :: "('d, 'k, 'sw, 'q) node"
  assumes "HandleUnsyncedKeysMsg V unsynced state p n = Some (Ret (ok, n'))"
  shows "lookups_before (ne_db V) unsynced (nd_w n) = Some (nd_w n')
    \<and> (if ok then out n' p = out n p @ [MDelivery (map ((!) unsynced) (filter (\<lambda>i. \<not> found_at (ne_db V) unsynced i (nd_w n)) [0..<length unsynced]))]
           \<and> pe_syncState (nd_peers n' p) = Some state
       else out n' p = out n p \<and> pe_syncState (nd_peers n' p) = pe_syncState (nd_peers n p))
    \<and> (\<forall>p'. p' \<noteq> p \<longrightarrow> out n' p' = out n p')"
proof -
  obtain ms w where m: "missing_keys (ne_db V) unsynced (nd_w n) = Some (Ret ms, w)"
      and s: "bzz_deliveryRequest p ms (n\<lparr>nd_w := w\<rparr>) = (ok, n'\<lparr>nd_peers := nd_peers (snd (bzz_deliveryRequest p ms (n\<lparr>nd_w := w\<rparr>)))\<rparr>)"
      and n': "n' = (if ok then upd_peer p (\<lambda>e. e\<lparr>pe_syncState := Some state\<rparr>) (snd (bzz_deliveryRequest p ms (n\<lparr>nd_w := w\<rparr>)))
          else snd (bzz_deliveryRequest p ms (n\<lparr>nd_w := w\<rparr>)))"
    using assms by (auto simp: HandleUnsyncedKeysMsg_def upd_peer_def split: option.splits prod.splits go.splits)
  then show ?thesis using missing_keys_spec [OF m]
    by (auto simp: bzz_deliveryRequest_def send_def upd_peer_def bzz_Drop_def split: if_splits)
qed

section \<open>A concrete node\<close>

text \<open>Two peers, numbered 0 and 1, which the Kademlia table names for every key; no account with either.\<close>

definition demo_kad :: "unit kad_ops" where
  "demo_kad = \<lparr>kad_FindClosest = (\<lambda>_ _ _. [0, 1]), kad_Meta = (\<lambda>_ _. None), kad_SetMeta = (\<lambda>_ _ k. k), kad_Node = (\<lambda>_ _. None),
     kad_On = (\<lambda>_ k. (k, True)), kad_Off = (\<lambda>_ k. k), kad_Add = (\<lambda>_ k. k), kad_Suggest = (\<lambda>k. (k, [], False, 0)),
     kad_KeyRange = (\<lambda>_ _. (replicate 32 0, replicate 32 255)), kad_DBCount = (\<lambda>_. 0)\<rparr>"

definition demo_net :: "(memdb_t, unit, unit) net_env" where
  "demo_net = \<lparr>ne_db = toy_env, ne_kad = demo_kad, ne_json = (\<lambda>_. None, \<lambda>_ s. (s, False)), ne_url = (\<lambda>_. []),
     ne_relay = (\<lambda>_ _. True), ne_swapAdd = (\<lambda>_ s. (s, True))\<rparr>"

definition demo_peer :: "peer_id \<Rightarrow> (memdb_t, unit, unit) peer" where
  "demo_peer i = \<lparr>pe_remoteAddr = \<lparr>pa_IP = [], pa_Port = 0, pa_ID = [], pa_Addr = replicate 32 (of_nat i)\<rparr>, pe_syncer = None,
     pe_syncParams = NewSyncParams [], pe_syncState = None, pe_syncEnabled = True, pe_swap = None, pe_swapEnabled = False,
     pe_NetworkId = 0, pe_lastActive = 0, pe_wire = True, pe_dropped = False, pe_out = []\<rparr>"

definition demo_node :: "(memdb_t, retrieveRequestMsgData) world \<Rightarrow> (memdb_t, unit, unit, unit) node" where
  "demo_node w = \<lparr>nd_w = w, nd_requestDb = NewLDBDatabase mem_empty, nd_peers = demo_peer, nd_streamer = NewStreamer [],
     nd_streamDB = NewStreamDB, nd_kad = (), nd_addr = replicate 32 9, nd_swapEnabled = False, nd_syncEnabled = True,
     nd_blockRead = False, nd_blockWrite = False, nd_alarm = False, nd_waiting = False, nd_quit = False, nd_dialled = []\<rparr>"

text \<open>A world in which chunk 100 is a request with id 5 that peer 0 made, twice in time and once too late.\<close>

definition demo_reqs :: "retrieveRequestMsgData list" where
  "demo_reqs = [retrieveRequest0\<lparr>rm_from := Some 0\<rparr>, retrieveRequest0\<lparr>rm_timeout := Some 3, rm_from := Some 0\<rparr>,
     retrieveRequest0\<lparr>rm_Id := 5, rm_from := Some 0\<rparr>]"

definition demo_asked :: "(memdb_t, retrieveRequestMsgData) world" where
  "demo_asked = toy_world\<lparr>w_heap := toy_heap(100 := NewChunk [1, 7] (Some 0)),
     w_reqs := (\<lambda>_. (newRequestStatus [1, 7] 0)\<lparr>rs_Requesters := [5 \<mapsto> demo_reqs]\<rparr>)\<rparr>"

lemma demo_asked_facts:
  "ch_Req (w_heap (nd_w (demo_node demo_asked)) 100) = Some 0" "ch_Key (w_heap (nd_w (demo_node demo_asked)) 100) = [1, 7]"
  "all_requests [5] (w_reqs (nd_w (demo_node demo_asked)) 0) = demo_reqs" "requests_of (w_reqs (nd_w (demo_node demo_asked)) 0) 5 = demo_reqs"
  by (simp_all add: demo_asked_def demo_node_def NewChunk_def all_requests_def requests_of_def)

theorem forwarder_retrieve_one_peer_witness:
  "\<exists>n'. forwarder_Retrieve demo_net (\<lambda>_. 8) [5] 100 (demo_node demo_asked) = Ret n' \<and> (\<forall>q. q \<noteq> 1 \<longrightarrow> out n' q = [])
    \<and> out n' 1 = [MRetrieve (retrieveRequest0\<lparr>rm_Key := [1, 7], rm_Id := 8\<rparr>)]"
proof -
  let ?n = "demo_node demo_asked"
  have ad: "peer_Addr ?n i = replicate 32 (of_nat i)" for i by (simp add: demo_node_def peer_Addr_def demo_peer_def)
  have asked: "asked_by ?n (peer_Addr ?n 0) demo_reqs = Some True" "asked_by ?n (peer_Addr ?n 1) demo_reqs = Some False"
    by (simp_all add: demo_reqs_def ad)
  have sw: "swap_add demo_net (- 1) 1 ?n = (True, ?n)" by (simp add: swap_add_def demo_node_def demo_peer_def)
  have pe: "getPeers demo_net k 0 ?n = [0, 1]" for k by (simp add: getPeers_def demo_net_def demo_kad_def)
  have o: "out ?n q = []" for q by (simp add: demo_node_def demo_peer_def)
  obtain n' where n': "forwarder_Retrieve demo_net (\<lambda>_. 8) [5] 100 ?n = Ret n'"
      "n' = snd (bzz_retrieve 1 (retrieveRequest0\<lparr>rm_Key := [1, 7], rm_Id := 8\<rparr>) ?n)"
    using asked sw by (simp add: forwarder_Retrieve_def demo_asked_facts pe Let_def)
  have ne: "out n' 1 \<noteq> out ?n 1" by (simp add: n'(2) bzz_retrieve_def send_out o) (simp add: demo_node_def demo_peer_def)
  obtain p where p: "p \<in> {0, 1}" "\<forall>m \<in> set demo_reqs. \<exists>q. rm_from m = Some q \<and> peer_Addr ?n q \<noteq> peer_Addr ?n p"
      "out n' p = out ?n p @ [MRetrieve (retrieveRequest0\<lparr>rm_Key := [1, 7], rm_Id := 8\<rparr>)]" "\<forall>q. q \<noteq> p \<longrightarrow> out n' q = out ?n q"
    using forwarder_retrieve_one_peer [OF n'(1) demo_asked_facts(1)] ne unfolding demo_asked_facts(2,3) pe by auto
  then have "p = 1" using ne by metis
  then show ?thesis using p(3,4) n'(1) o by auto
qed

theorem forwarder_deliver_first_three_witness:
  "forwarder_Deliver True 10 [5] 100 (demo_node demo_asked) =
    deliver_each True (storeRequest0\<lparr>sm_Key := [1, 7]\<rparr>) [(0, demo_reqs ! 0), (2, demo_reqs ! 2)] (demo_node demo_asked)"
proof -
  have "ch_SData (w_heap (nd_w (demo_node demo_asked)) 100) = None" by (simp add: demo_asked_def demo_node_def NewChunk_def)
  moreover have "storeRequest0\<lparr>sm_Key := [1, 7], sm_SData := None\<rparr> = storeRequest0\<lparr>sm_Key := [1, 7]\<rparr>" by (simp add: storeRequest0_def)
  moreover have "filter (\<lambda>(j, q). in_time 10 q) (enumerate 0 demo_reqs) = [(0, demo_reqs ! 0), (2, demo_reqs ! 2)]"
    by (simp add: demo_reqs_def in_time_def retrieveRequest0_def)
  ultimately show ?thesis using forwarder_deliver_first_three [OF demo_asked_facts(1), of True 10 "[5]"]
    by (simp add: demo_asked_facts)
qed

theorem store_request_answers_pending_witness:
  "\<exists>w n'. NetStore_Get toy_env [1, 7] (toy_world :: (memdb_t, retrieveRequestMsgData) world) = Some (Ret 100, w)
    \<and> HandleStoreRequestMsg demo_net \<lparr>h_Size = 2, h_Sum = (\<lambda>_. [1, 7])\<rparr> (storeRequest0\<lparr>sm_Key := [1, 7], sm_SData := Some (replicate 9 0)\<rparr>) 1
        (demo_node w) = Some (Ret n')
    \<and> ch_SData (w_heap (nd_w n') 100) = Some (replicate 9 0) \<and> w_cloud (nd_w n') = [CRetrieve 100, CDeliver 100]"
proof -
  obtain w where w: "NetStore_Get toy_env [1, 7] (toy_world :: (memdb_t, retrieveRequestMsgData) world) = Some (Ret 100, w)" "world_ok toy_env 2 w" "cached w [1, 7] 100"
      "w_cloud w = [CRetrieve 100]" "w_closed w = (\<lambda>_. False)" "w_heap w = toy_heap(100 := NewChunk [1, 7] (Some 0))"
      "ms_capacity (w_mem w) = 3" "ms_entryCnt (w_mem w) = 1"
    using toy_pending by blast
  have d: "ne_db demo_net = toy_env" "nd_w (demo_node w) = w" by (simp_all add: demo_net_def demo_node_def)
  have "has_room w" using w(7,8) by (simp add: has_room_def)
  then show ?thesis
    using store_request_answers_pending [of demo_net 2 "demo_node w" "storeRequest0\<lparr>sm_Key := [1, 7], sm_SData := Some (replicate 9 0)\<rparr>" 100 0
        "replicate 9 0" "\<lparr>h_Size = 2, h_Sum = (\<lambda>_. [1, 7])\<rparr>" 1] w by (auto simp: d NewChunk_def)
qed

lemma toy_absent:
  "\<exists>m db. LocalStore_Get toy_env [1, 7] (toy_world :: (memdb_t, 'r) world) = Some (Err SNotFound, toy_world\<lparr>w_mem := m, w_db := db\<rparr>)"
proof -
  have "index_of toy_env (w_db (toy_world :: (memdb_t, 'r) world)) [1, 7] = None" by (simp add: toy_world_def toy_index)
  moreover have "\<nexists>a. cached (toy_world :: (memdb_t, 'r) world) [1, 7] a" by (simp add: toy_world_ok(3))
  ultimately show ?thesis using LocalStore_Get_miss [OF toy_world_ok(1), of "[1, 7]"] by auto
qed

theorem store_request_unknown_key_unverified_witness:
  "HandleStoreRequestMsg demo_net \<lparr>h_Size = 2, h_Sum = (\<lambda>_. [1, 7])\<rparr> (storeRequest0\<lparr>sm_Key := [1, 7], sm_SData := Some (replicate 9 0)\<rparr>) 1 (demo_node toy_world)
    = HandleStoreRequestMsg demo_net \<lparr>h_Size = 2, h_Sum = (\<lambda>_. [6, 6])\<rparr> (storeRequest0\<lparr>sm_Key := [1, 7], sm_SData := Some (replicate 9 0)\<rparr>) 1 (demo_node toy_world)"
proof -
  have d: "ne_db demo_net = toy_env" "nd_w (demo_node toy_world) = toy_world" by (simp_all add: demo_net_def demo_node_def)
  obtain m db where g: "LocalStore_Get toy_env [1, 7] (toy_world :: (memdb_t, retrieveRequestMsgData) world)
      = Some (Err SNotFound, toy_world\<lparr>w_mem := m, w_db := db\<rparr>)"
    using toy_absent by blast
  obtain a w' where al: "alloc_chunk (NewChunk [1, 7] None) (toy_world\<lparr>w_mem := m, w_db := db\<rparr> :: (memdb_t, retrieveRequestMsgData) world) = (a, w')"
    by fastforce
  obtain sz where "data_size (replicate 9 0) = Some sz" by (simp add: data_size_def)
  then show ?thesis
    using store_request_unknown_key_unverified [of demo_net "storeRequest0\<lparr>sm_Key := [1, 7], sm_SData := Some (replicate 9 0)\<rparr>" "demo_node toy_world"]
      g al by (simp add: d)
qed

theorem unsynced_keys_requested_witness:
  "\<exists>n'. HandleUnsyncedKeysMsg demo_net [\<lparr>sq_Key = [1, 7], sq_Priority = 2\<rparr>] syncState0 1 (demo_node toy_world) = Some (Ret (True, n'))
    \<and> out n' 1 = [MDelivery [\<lparr>sq_Key = [1, 7], sq_Priority = 2\<rparr>]] \<and> pe_syncState (nd_peers n' 1) = Some syncState0"
proof -
  have d: "ne_db demo_net = toy_env" "nd_w (demo_node toy_world) = toy_world" by (simp_all add: demo_net_def demo_node_def)
  obtain m db where g: "LocalStore_Get toy_env [1, 7] (toy_world :: (memdb_t, retrieveRequestMsgData) world)
      = Some (Err SNotFound, toy_world\<lparr>w_mem := m, w_db := db\<rparr>)"
    using toy_absent by blast
  obtain n' where n': "HandleUnsyncedKeysMsg demo_net [\<lparr>sq_Key = [1, 7], sq_Priority = 2\<rparr>] syncState0 1 (demo_node toy_world) = Some (Ret (True, n'))"
      "out n' 1 = [MDelivery [\<lparr>sq_Key = [1, 7], sq_Priority = 2\<rparr>]]"
    using g by (simp add: HandleUnsyncedKeysMsg_def d bzz_deliveryRequest_def send_def Let_def)
      (simp add: demo_node_def demo_peer_def upd_peer_def)
  then show ?thesis using unsynced_keys_requested [OF n'(1)] by auto
qed

end
