(* ===== verification/Bzz_Props.thy ===== *)
theory Bzz_Props
  imports Bzz_Protocol Net_Props
begin

text \<open>
  Sessions of the wire protocol: what no message but a sync request changes, and the message
  that a peer must not send before one.
\<close>

section \<open>A peer without a syncer\<close>

text \<open>The peer has no syncer, and neither does it afterwards.\<close>

definition still :: "peer_id \<Rightarrow> ('d, 'k, 'sw, 'q) node \<Rightarrow> ('d, 'k, 'sw, 'q) node \<Rightarrow> bool" where
  "still p n n' \<longleftrightarrow> pe_syncer (nd_peers n' p) = pe_syncer (nd_peers n p) \<and> nd_blockRead n' = nd_blockRead n"

lemma still_refl [simp]: "still p n n"
  by (simp add: still_def)

lemma still_trans [trans]: "still p n n1 \<Longrightarrow> still p n1 n2 \<Longrightarrow> still p n n2"
  by (simp add: still_def)

lemma still_upd [simp]: "(\<And>e. pe_syncer (f e) = pe_syncer e) \<Longrightarrow> still p n (upd_peer q f n)"
  by (simp add: still_def upd_peer_def)

lemma still_send [simp]: "still p n (snd (send q m n))"
  by (simp add: send_def bzz_Drop_def)

lemma still_fields [simp]:
  "still p n (n\<lparr>nd_w := w\<rparr>)" "still p n (n\<lparr>nd_streamer := st\<rparr>)" "still p n (n\<lparr>nd_streamDB := sd\<rparr>)" "still p n (n\<lparr>nd_kad := k\<rparr>)"
  "still p n (upd_streamer g n)"
  by (simp_all add: still_def upd_streamer_def)

lemmas send_defs = bzz_retrieve_def bzz_store_def bzz_stream_def bzz_stopStream_def bzz_transcode_def bzz_transcodeAck_def
  bzz_deliveryRequest_def bzz_unsyncedKeys_def bzz_payment_def bzz_peers_def

lemma still_forward [simp]:
  "still p n (forwarder_StopStream V sid a f n)" "still p n (forwarder_Stream V sid a f n)" "still p n (handle_transcodeAck r n)"
  "still p n (active R p n)" "still p n (HandlePeersMsg V now ps q n)"
  by (simp_all add: forwarder_StopStream_def forwarder_Stream_def handle_transcodeAck_def active_def HandlePeersMsg_def send_defs Let_def
      split: prod.splits option.splits)

lemma still_swap: "swap_add V c q n = (ok, n') \<Longrightarrow> still p n n'"
  by (auto simp: swap_add_def split: option.splits prod.splits)

lemma still_hive_peers: "hive_peers V now req n = Ret n' \<Longrightarrow> still p n n'"
  by (auto simp: hive_peers_def Let_def send_defs split: if_splits option.splits)

lemma still_store: "HandleStoreRequestMsg V H req q n = Some (Ret n') \<Longrightarrow> still p n n'"
  by (auto simp: HandleStoreRequestMsg_def take_over_def Let_def still_def split: option.splits prod.splits go.splits if_splits)

lemma still_retrieve:
  assumes "HandleRetrieveRequestMsg V now sel req p n = Some (Ret n')" "pe_syncer (nd_peers n p) = None"
  shows "still p n n'"
proof -
  obtain ok n1 where s: "swap_add V 1 p n = (ok, n1)" by fastforce
  have st: "still p n n1" by (rule still_swap [OF s])
  then have no: "pe_syncer (nd_peers n1 p) = None" using assms(2) by (simp add: still_def)
  have nodel: "m' = m" if "retrieve_found sel p r c m = Some (Ret m')" "pe_syncer (nd_peers m p) = None" for r c m m'
    using that by (auto simp: retrieve_found_def Deliver_def split: if_splits)
  have "n' = n1 \<or> (\<exists>w. n' = n1\<lparr>nd_w := w\<rparr>)"
  proof (cases ok)
    case True
    then obtain a w where g: "NetStore_Get (ne_db V) (rm_Key req) (nd_w n1) = Some (Ret a, w)"
      using assms(1) s by (auto simp: HandleRetrieveRequestMsg_def Let_def split: option.splits prod.splits go.splits)
    obtain r w1 where u: "strategyUpdateRequest now (ch_Req (w_heap w a)) (req\<lparr>rm_from := Some p\<rparr>) w = (r, w1)" by fastforce
    have "retrieve_found sel p r (w_heap w1 a) (n1\<lparr>nd_w := w1\<rparr>) = Some (Ret n')"
      using assms(1) s g u True by (simp add: HandleRetrieveRequestMsg_def Let_def)
    from nodel [OF this] have "n' = n1\<lparr>nd_w := w1\<rparr>" using no by simp
    then show ?thesis by blast
  qed (use assms(1) s in \<open>simp add: HandleRetrieveRequestMsg_def Let_def\<close>)
  then show ?thesis using st by (auto simp: still_def)
qed

lemma still_unsynced: "HandleUnsyncedKeysMsg V us st q n = Some (Ret (ok, n')) \<Longrightarrow> still p n n'"
  by (auto simp: HandleUnsyncedKeysMsg_def send_defs send_def bzz_Drop_def still_def upd_peer_def
      split: option.splits prod.splits go.splits if_splits)

lemma delivery_without_syncer:
  assumes "pe_syncer (nd_peers n p) = None"
  shows "HandleDeliveryRequestMsg V gid sel ds p n = Some Panic"
  using assms by (cases ds) (simp_all add: HandleDeliveryRequestMsg_def Push_key_def)

lemma go_seq_Ret_iff: "go_seq r f = Some (Ret x) \<longleftrightarrow> (\<exists>a. r = Some (Ret a) \<and> f a = Some (Ret x))"
  by (auto simp: go_seq_def split: option.splits go.splits)

lemma handle_stream_still:
  "handle_stopStream V r p n = Some (Ret (e, n')) \<Longrightarrow> still p n n'"
  "handle_stream V W q p n = Some (Ret (e, n')) \<Longrightarrow> still p n n'"
proof -
  show "handle_stopStream V r p n = Some (Ret (e, n')) \<Longrightarrow> still p n n'"
    using still_trans [OF still_forward(1) still_fields(2)]
    by (auto simp: handle_stopStream_def fine_def fails_def Let_def split: if_splits go.splits)
  show "handle_stream V W q p n = Some (Ret (e, n')) \<Longrightarrow> still p n n'"
    using still_trans [OF still_forward(2) still_fields(5)]
    by (auto simp: handle_stream_def fine_def fails_def Let_def split: if_splits option.splits)
qed

lemma handle_requests_still:
  assumes no: "pe_syncer (nd_peers n p) = None"
  shows "handle_store V W R r p n = Some (Ret (e, n')) \<Longrightarrow> still p n n'"
    "handle_retrieve V R q b p n = Some (Ret (e, n')) \<Longrightarrow> still p n n'"
    "handle_unsynced V R us p n = Some (Ret (e, n')) \<Longrightarrow> still p n n'"
    "handle_payment W body p n = Some (Ret (e, n')) \<Longrightarrow> still p n n'"
proof -
  show "handle_store V W R r p n = Some (Ret (e, n')) \<Longrightarrow> still p n n'"
    using still_trans [OF still_forward(4) still_store]
    by (auto simp: handle_store_def lift_go_def go_seq_Ret_iff fine_def fails_def split: if_splits)
  show "handle_retrieve V R q b p n = Some (Ret (e, n')) \<Longrightarrow> still p n n'"
    by (auto simp: handle_retrieve_def lift_go_def go_seq_Ret_iff fine_def fails_def Let_def
        intro: still_hive_peers still_trans [OF still_retrieve [OF _ no] still_hive_peers] split: if_splits)
  show "handle_unsynced V R us p n = Some (Ret (e, n')) \<Longrightarrow> still p n n'"
    using still_trans [OF still_unsynced still_forward(4)]
    by (auto simp: handle_unsynced_def go_seq_Ret_iff fine_def fails_def Let_def split: if_splits)
  show "handle_payment W body p n = Some (Ret (e, n')) \<Longrightarrow> still p n n'"
    by (auto simp: handle_payment_def fine_def fails_def split: if_splits option.splits)
qed

lemmas handler_still = handle_stream_still handle_requests_still

text \<open>Only a sync request gives the peer a syncer.\<close>

lemma handle_still:
  assumes h: "handle V W R m p n = Some (Ret (e, n'))" and no: "pe_syncer (nd_peers n p) = None"
    and code: "\<And>x. m = Some x \<Longrightarrow> m_Code x \<noteq> syncRequestMsg"
  shows "still p n n'"
proof (cases m)
  case None
  then show ?thesis using h by (auto simp: handle_def fails_def)
next
  case (Some x)
  note d = handler_still(1-2) handler_still(3-) [OF no]
  have del: "lift_go (go_seq (HandleDeliveryRequestMsg V g sel ds p n) f) = Some Panic" for g sel ds f
    by (simp add: delivery_without_syncer [OF no] lift_go_def)
  show ?thesis using h Some code [OF Some]
    by (auto simp: del handle_def dispatch_def decoded_def fine_def fails_def Let_def intro: d
        split: if_splits option.splits prod.splits)
qed

definition no_sync :: "'b raw_msg option \<Rightarrow> bool" where
  "no_sync m = (case m of None \<Rightarrow> True | Some x \<Rightarrow> m_Code x \<noteq> syncRequestMsg)"

text \<open>
  A peer that asks for deliveries before it has sent a sync request brings the node down. Let the
  connection have no syncer yet and let the messages before it, none of them a sync request, be
  handled without error; then a well-formed delivery request, even an empty one, dereferences the nil
  syncer, whatever follows.
\<close>

theorem delivery_before_sync_panics:
  assumes no: "pe_syncer (nd_peers n p) = None" and "\<not> nd_blockRead n"
    and ms: "list_all no_sync (map snd ms)" "run_loop V W ms p n = Some (Ret (None, n1))"
    and x: "m_Code x = deliveryRequestMsg" "m_Size x \<le> ProtocolMaxMsgSize" "de_delivery (we_dec W) (m_Body x) = Some ds"
  shows "run_loop V W (ms @ (R, Some x) # rest) p n = Some Panic"
  using no assms(2) ms
proof (induction ms arbitrary: n)
  case Nil
  have "handle V W R (Some x) p n = Some Panic"
    using x delivery_without_syncer [OF Nil.prems(1)]
    by (simp add: handle_def dispatch_def Let_def decoded_def lift_go_def msg_codes)
  then show ?case using Nil.prems(2) by simp
next
  case (Cons a ms)
  obtain R' m where a: "a = (R', m)" by fastforce
  obtain n2 where n2: "handle V W R' m p n = Some (Ret (None, n2))" "run_loop V W ms p n2 = Some (Ret (None, n1))"
    using Cons.prems(2,4) a by (auto simp: go_seq_Ret_iff fails_def split: option.splits)
  have code: "m_Code y \<noteq> syncRequestMsg" if "m = Some y" for y using Cons.prems(3) a that by (simp add: no_sync_def)
  have "still p n n2" by (rule handle_still [OF n2(1) Cons.prems(1) code])
  then have "pe_syncer (nd_peers n2 p) = None" "\<not> nd_blockRead n2" using Cons.prems(1,2) by (simp_all add: still_def)
  then have "run_loop V W (ms @ (R, Some x) # rest) p n2 = Some Panic" using Cons.IH Cons.prems(3) n2(2) by simp
  then show ?case using n2(1) a Cons.prems(2) by simp
qed

definition demo_wire :: "(unit, unit, unit, unit) wire_env" where
  "demo_wire = \<lparr>we_dec = \<lparr>de_status = (\<lambda>_. None), de_store = (\<lambda>_. None), de_retrieve = (\<lambda>_. None), de_peers = (\<lambda>_. None),
       de_syncRequest = (\<lambda>_. None), de_delivery = (\<lambda>_. Some []), de_unsynced = (\<lambda>_. None), de_payment = (\<lambda>_. None),
       de_stream = (\<lambda>_. None), de_stopStream = (\<lambda>_. None), de_transcode = (\<lambda>_. None), de_transcodeAck = (\<lambda>_. None)\<rparr>,
     we_chunk = (\<lambda>_. VideoChunk0), we_playlist = (\<lambda>_. []), we_newSwap = (\<lambda>_. None), we_swapReceive = (\<lambda>_ _ s. s),
     we_repairIP = (\<lambda>a. a), we_hash = \<lparr>h_Size = 2, h_Sum = (\<lambda>_. [0, 0])\<rparr>, we_rle = (id, Some)\<rparr>"

theorem delivery_before_sync_panics_witness:
  "run_loop demo_net demo_wire [(\<lparr>or_now = 0, or_gid = 0, or_sel = True\<rparr>, Some \<lparr>m_Code = deliveryRequestMsg, m_Size = 4, m_Body = ()\<rparr>)] 1
     (demo_node toy_world) = Some Panic"
proof -
  have n: "pe_syncer (nd_peers (demo_node toy_world) 1) = None" "\<not> nd_blockRead (demo_node toy_world)"
    by (simp_all add: demo_node_def demo_peer_def)
  show ?thesis
    using delivery_before_sync_panics [OF n, of "[]" demo_net demo_wire "demo_node toy_world"
        "\<lparr>m_Code = deliveryRequestMsg, m_Size = 4, m_Body = ()\<rparr>" "[]"]
    by (simp add: fine_def demo_wire_def ProtocolMaxMsgSize_def)
qed

end
