(* ===== verification/Manifest.thy ===== *)
theory Manifest
  imports Chunk_Join
begin

text \<open>
  The manifest trie of \<open>api/manifest.go\<close>: a table of documents under paths, split by the first
  byte of the path and compressed along common prefixes. A subtrie is a manifest of its own; it
  is stored as a document and fetched on demand.

  The array of 257 entry pointers is a list of that length; entries and subtries are reached
  through one pointer each, so they are values here. The document layer is the chunker with the
  reply of the retrieval side, as in \<open>Chunk_Join\<close>; a stored document is the list of chunks the
  chunker emits. \<open>encoding/json\<close> is a parameter; in the list of entries of a manifest a \<open>null\<close>
  is a nil pointer, \<open>None\<close>.

  The channel \<open>quitC\<close> is never closed by the callers in this package, so its branches
  (\<open>aborted\<close>) are left out.
\<close>

section \<open>Data\<close>

datatype manifestTrie =
    ManifestTrie (mt_entries: "manifestTrieEntry option list") (mt_hash: "Key option")
and manifestTrieEntry =
    ManifestTrieEntry (te_Path: string) (te_Hash: string) (te_ContentType: string)
      (te_Status: int) (te_subtrie: "manifestTrie option")

definition manifestType :: string where
  "manifestType = ''application/bzz-manifest+json''"

definition is_manifest :: "manifestTrieEntry \<Rightarrow> bool" where
  "is_manifest e \<longleftrightarrow> te_ContentType e = manifestType"

fun with_Path :: "string \<Rightarrow> manifestTrieEntry \<Rightarrow> manifestTrieEntry" where
  "with_Path p (ManifestTrieEntry _ h c s st) = ManifestTrieEntry p h c s st"

fun with_Hash :: "string \<Rightarrow> manifestTrieEntry \<Rightarrow> manifestTrieEntry" where
  "with_Hash h (ManifestTrieEntry p _ c s st) = ManifestTrieEntry p h c s st"

fun with_subtrie :: "manifestTrie option \<Rightarrow> manifestTrieEntry \<Rightarrow> manifestTrieEntry" where
  "with_subtrie st (ManifestTrieEntry p h c s _) = ManifestTrieEntry p h c s st"

definition newTrie :: manifestTrie where
  "newTrie = ManifestTrie (replicate 257 None) None"

text \<open>
  A call returns, panics, or does not return: \<open>Err OutOfFuel\<close> is a recursion that has not ended
  within its bound. Errors the code handles are values.
\<close>

datatype hang = OutOfFuel

type_synonym 'a mrun = "(hang, 'a) go"

datatype manifest_error =
    ManifestNotFound
  | CutShort nat int
  | ReadFailed join_error
  | ReadIO io_error
  | Malformed
  | MarshalFailed
  | StoreFailed io_error

type_synonym loader = "Key \<Rightarrow> (manifest_error + manifestTrie) mrun"

section \<open>Updating the trie\<close>

text \<open>A subtrie that cannot be loaded leaves the entry without subtrie and without hash.\<close>

definition loadSubTrie :: "loader \<Rightarrow> manifestTrieEntry \<Rightarrow> (manifestTrieEntry \<times> manifest_error option) mrun" where
  "loadSubTrie ld entry =
     (case te_subtrie entry of
        Some _ \<Rightarrow> Ret (entry, None)
      | None \<Rightarrow>
          go_bind (ld (Hex2Bytes (te_Hash entry))) (\<lambda>r. Ret
            (case r of
               Inl e \<Rightarrow> (with_Hash '''' (with_subtrie None entry), Some e)
             | Inr t \<Rightarrow> (with_Hash '''' (with_subtrie (Some t) entry), None))))"

text \<open>The loop that advances \<open>cpl\<close> while the two paths agree.\<close>

fun cpl_loop :: "string \<Rightarrow> string \<Rightarrow> nat" where
  "cpl_loop (x # xs) (y # ys) = (if x = y then Suc (cpl_loop xs ys) else 0)"
| "cpl_loop _ _ = 0"

text \<open>
  \<open>addEntry\<close> by recursion on a bound. Each nested call has consumed at least one byte of the
  path when the entries stand in their slots, so the length of the path is bound enough.
\<close>

fun addEntry_bounded :: "nat \<Rightarrow> loader \<Rightarrow> manifestTrie \<Rightarrow> manifestTrieEntry \<Rightarrow> manifestTrie mrun" where
  "addEntry_bounded 0 ld t entry = Err OutOfFuel"
| "addEntry_bounded (Suc n) ld (ManifestTrie es h) entry =
     (if length (te_Path entry) = 0 then Ret (ManifestTrie (es[256 := Some entry]) None)
      else let b = of_char (te_Path entry ! 0) in
        case es ! b of
          None \<Rightarrow> Ret (ManifestTrie (es[b := Some entry]) None)
        | Some oldentry \<Rightarrow>
            if te_Path oldentry = te_Path entry then Ret (ManifestTrie (es[b := Some entry]) None)
            else let cpl = cpl_loop (te_Path entry) (te_Path oldentry);
                     entry' = with_Path (drop cpl (te_Path entry)) entry in
              if is_manifest oldentry \<and> cpl = length (te_Path oldentry) then
                go_bind (loadSubTrie ld oldentry) (\<lambda>(old', err).
                  if err \<noteq> None then Ret (ManifestTrie (es[b := Some old']) None)
                  else case te_subtrie old' of
                    None \<Rightarrow> Panic
                  | Some sub \<Rightarrow>
                      go_bind (addEntry_bounded n ld sub entry') (\<lambda>sub'.
                        Ret (ManifestTrie (es[b := Some (with_Hash '''' (with_subtrie (Some sub') old'))]) None)))
              else
                go_bind (addEntry_bounded n ld newTrie entry') (\<lambda>sub.
                  go_bind (addEntry_bounded n ld sub (with_Path (drop cpl (te_Path oldentry)) oldentry)) (\<lambda>sub'.
                    Ret (ManifestTrie
                      (es[b := Some (ManifestTrieEntry (take cpl (te_Path entry)) '''' manifestType 0 (Some sub'))])
                      None))))"

definition addEntry :: "loader \<Rightarrow> manifestTrie \<Rightarrow> manifestTrieEntry \<Rightarrow> manifestTrie mrun" where
  "addEntry ld t entry = addEntry_bounded (Suc (length (te_Path entry))) ld t entry"

fun getCountLast_loop :: "manifestTrieEntry option list \<Rightarrow> nat \<times> manifestTrieEntry option \<Rightarrow> nat \<times> manifestTrieEntry option" where
  "getCountLast_loop [] r = r"
| "getCountLast_loop (None # es) r = getCountLast_loop es r"
| "getCountLast_loop (Some e # es) (cnt, entry) = getCountLast_loop es (Suc cnt, Some e)"

definition getCountLast :: "manifestTrie \<Rightarrow> nat \<times> manifestTrieEntry option" where
  "getCountLast t = getCountLast_loop (mt_entries t) (0, None)"

fun deleteEntry_bounded :: "nat \<Rightarrow> loader \<Rightarrow> manifestTrie \<Rightarrow> string \<Rightarrow> manifestTrie mrun" where
  "deleteEntry_bounded 0 ld t path = Err OutOfFuel"
| "deleteEntry_bounded (Suc n) ld (ManifestTrie es h) path =
     (if length path = 0 then Ret (ManifestTrie (es[256 := None]) None)
      else let b = of_char (path ! 0) in
        case es ! b of
          None \<Rightarrow> Ret (ManifestTrie es None)
        | Some entry \<Rightarrow>
            if te_Path entry = path then Ret (ManifestTrie (es[b := None]) None)
            else let epl = length (te_Path entry) in
              if is_manifest entry \<and> epl \<le> length path \<and> take epl path = te_Path entry then
                go_bind (loadSubTrie ld entry) (\<lambda>(entry', err).
                  if err \<noteq> None then Ret (ManifestTrie (es[b := Some entry']) None)
                  else case te_subtrie entry' of
                    None \<Rightarrow> Panic
                  | Some sub \<Rightarrow>
                      go_bind (deleteEntry_bounded n ld sub (drop epl path)) (\<lambda>sub'.
                        let entry'' = with_Hash '''' (with_subtrie (Some sub') entry') in
                        case getCountLast sub' of (cnt, lastentry) \<Rightarrow>
                          Ret (ManifestTrie
                            (es[b := (if cnt < 2
                                      then map_option (\<lambda>l. with_Path (te_Path entry @ te_Path l) l) lastentry
                                      else Some entry'')]) None)))
              else Ret (ManifestTrie es None))"

definition deleteEntry :: "loader \<Rightarrow> manifestTrie \<Rightarrow> string \<Rightarrow> manifestTrie mrun" where
  "deleteEntry ld t path = deleteEntry_bounded (Suc (length path)) ld t path"

section \<open>Looking entries up\<close>

text \<open>
  The entry, its position, and the trie with the subtries the search has loaded. When the entry
  found is \<open>nil\<close> the position is that of the inner call, 0.
\<close>

fun findPrefixOf_bounded :: "nat \<Rightarrow> loader \<Rightarrow> manifestTrie \<Rightarrow> string
    \<Rightarrow> ((manifestTrieEntry option \<times> nat) \<times> manifestTrie) mrun" where
  "findPrefixOf_bounded 0 ld t path = Err OutOfFuel"
| "findPrefixOf_bounded (Suc n) ld (ManifestTrie es h) path =
     (if length path = 0 then Ret ((es ! 256, 0), ManifestTrie es h)
      else let b = of_char (path ! 0) in
        case es ! b of
          None \<Rightarrow> Ret ((es ! 256, 0), ManifestTrie es h)
        | Some entry \<Rightarrow>
            let epl = length (te_Path entry) in
            if epl \<le> length path \<and> take epl path = te_Path entry then
              (if is_manifest entry then
                 go_bind (loadSubTrie ld entry) (\<lambda>(entry', err).
                   if err \<noteq> None then Ret ((None, 0), ManifestTrie (es[b := Some entry']) h)
                   else case te_subtrie entry' of
                     None \<Rightarrow> Panic
                   | Some sub \<Rightarrow>
                       go_bind (findPrefixOf_bounded n ld sub (drop epl path)) (\<lambda>((found, pos), sub').
                         Ret ((found, if found \<noteq> None then pos + epl else pos),
                              ManifestTrie (es[b := Some (with_subtrie (Some sub') entry')]) h)))
               else Ret ((Some entry, epl), ManifestTrie es h))
            else Ret ((None, 0), ManifestTrie es h))"

definition findPrefixOf :: "loader \<Rightarrow> manifestTrie \<Rightarrow> string
    \<Rightarrow> ((manifestTrieEntry option \<times> nat) \<times> manifestTrie) mrun" where
  "findPrefixOf ld t path = findPrefixOf_bounded (Suc (length path)) ld t path"

text \<open>\<open>RegularSlashes\<close>: the loop over \<open>i\<close>, then the trailing slash is cut.\<close>

fun RegularSlashes_loop :: "string \<Rightarrow> nat \<Rightarrow> nat \<Rightarrow> string \<Rightarrow> string" where
  "RegularSlashes_loop path i 0 res = res"
| "RegularSlashes_loop path i (Suc k) res =
     RegularSlashes_loop path (Suc i) k
       (if path ! i \<noteq> CHR ''/'' \<or> (i > 0 \<and> path ! (i - 1) \<noteq> CHR ''/'') then res @ [path ! i] else res)"

definition RegularSlashes :: "string \<Rightarrow> string" where
  "RegularSlashes path =
     (let res = RegularSlashes_loop path 0 (length path) [] in
      if length res > 0 \<and> res ! (length res - 1) = CHR ''/'' then take (length res - 1) res else res)"

definition getEntry :: "loader \<Rightarrow> manifestTrie \<Rightarrow> string
    \<Rightarrow> ((manifestTrieEntry option \<times> string) \<times> manifestTrie) mrun" where
  "getEntry ld t spath =
     (let path = RegularSlashes spath in
      go_bind (findPrefixOf ld t path) (\<lambda>((entry, pos), t'). Ret ((entry, take pos path), t')))"

section \<open>Loading and storing manifests\<close>

text \<open>
  The exported fields of an entry, in the order of its JSON object. \<open>me_Unmarshal\<close> is
  \<open>json.Unmarshal\<close> into an empty \<open>manifestJSON\<close>, \<open>me_Marshal\<close> is \<open>json.Marshal\<close> of one;
  \<open>me_wg\<close> is the wait group of a call of \<open>DPA.Store\<close>.
\<close>

type_synonym json_entry = "string \<times> string \<times> string \<times> int"

fun of_json :: "json_entry \<Rightarrow> manifestTrieEntry" where
  "of_json (path, hash, contentType, status) = ManifestTrieEntry path hash contentType status None"

definition to_json :: "manifestTrieEntry \<Rightarrow> json_entry" where
  "to_json e = (te_Path e, te_Hash e, te_ContentType e, te_Status e)"

type_synonym manifestJSON = "json_entry option list"

record man_env =
  me_chunker :: TreeChunker
  me_fetch :: fetch
  me_wg :: "nat option"
  me_Unmarshal :: "bytes \<Rightarrow> manifestJSON option"
  me_Marshal :: "manifestJSON \<Rightarrow> bytes option"

definition DPA_Retrieve :: "man_env \<Rightarrow> Key \<Rightarrow> LazyChunkReader" where
  "DPA_Retrieve E key = TreeChunker_Join (me_chunker E) key"

definition DPA_Store :: "man_env \<Rightarrow> nat option \<Rightarrow> reader \<Rightarrow> nat \<Rightarrow> (split_error, Key \<times> Chunk list) go" where
  "DPA_Store E swg data sz = TreeChunker_Split (me_chunker E) swg data sz"

text \<open>The entries of a manifest are added one after the other; \<open>null\<close> is a nil pointer.\<close>

fun addEntries :: "loader \<Rightarrow> manifestTrie \<Rightarrow> manifestJSON \<Rightarrow> manifestTrie mrun" where
  "addEntries ld t [] = Ret t"
| "addEntries ld t (None # es) = Panic"
| "addEntries ld t (Some e # es) = go_bind (addEntry ld t (of_json e)) (\<lambda>t'. addEntries ld t' es)"

text \<open>
  \<open>make([]byte, size)\<close> panics for a negative size. \<open>DepthNoReturn\<close> is the depth search of
  \<open>ReadAt\<close> that never ends; after every other error \<open>ReadAt\<close> has read nothing.
\<close>

definition readManifest :: "man_env \<Rightarrow> loader \<Rightarrow> LazyChunkReader \<Rightarrow> (manifest_error + manifestTrie) mrun" where
  "readManifest E ld manifestReader =
     (case LazyChunkReader_Size (me_fetch E) manifestReader of
        (Panic, _) \<Rightarrow> Panic
      | (Err _, _) \<Rightarrow> Ret (Inl ManifestNotFound)
      | (Ret sz, reader') \<Rightarrow>
          if sz < 0 then Panic
          else case LazyChunkReader_Read (me_fetch E) reader' (replicate (nat sz) 0) of
            (Panic, _) \<Rightarrow> Panic
          | (Err e, _) \<Rightarrow> (if e = DepthNoReturn then Err OutOfFuel else Ret (Inl (ReadFailed e)))
          | (Ret (read, manifestData, err), _) \<Rightarrow>
              if int read < sz then
                Ret (Inl (case err of None \<Rightarrow> CutShort read sz | Some e \<Rightarrow> ReadIO e))
              else case me_Unmarshal E manifestData of
                None \<Rightarrow> Ret (Inl Malformed)
              | Some man \<Rightarrow> go_bind (addEntries ld newTrie man) (\<lambda>trie. Ret (Inr trie)))"

text \<open>Adding the entries of a manifest may load other manifests; the first argument bounds the nesting.\<close>

fun loadManifest :: "nat \<Rightarrow> man_env \<Rightarrow> loader" where
  "loadManifest 0 E hash = Err OutOfFuel"
| "loadManifest (Suc n) E hash = readManifest E (loadManifest n E) (DPA_Retrieve E hash)"

text \<open>
  \<open>recalcAndStore\<close>: the error, the trie with its hashes and the chunks handed to the store.
  A call on a nil subtrie panics at \<open>self.hash\<close>. \<open>json.Marshal\<close> sees the exported fields only.
\<close>

fun recalcAndStore :: "man_env \<Rightarrow> manifestTrie \<Rightarrow> (manifest_error option \<times> manifestTrie \<times> Chunk list) mrun"
  and recalc_entries :: "man_env \<Rightarrow> manifestTrieEntry option list
      \<Rightarrow> (manifest_error option \<times> manifestTrieEntry option list \<times> Chunk list) mrun"
  and recalc_entry :: "man_env \<Rightarrow> manifestTrieEntry
      \<Rightarrow> (manifest_error option \<times> manifestTrieEntry \<times> Chunk list) mrun" where
  "recalcAndStore E (ManifestTrie es h) =
     (if h \<noteq> None then Ret (None, ManifestTrie es h, [])
      else go_bind (recalc_entries E es) (\<lambda>(err, es', cs).
        if err \<noteq> None then Ret (err, ManifestTrie es' h, cs)
        else case me_Marshal E (map (map_option to_json) (filter (\<lambda>e. e \<noteq> None) es')) of
          None \<Rightarrow> Ret (Some MarshalFailed, ManifestTrie es' h, cs)
        | Some manifest \<Rightarrow>
            (case DPA_Store E (me_wg E) [(manifest, None)] (length manifest) of
               Panic \<Rightarrow> Panic
             | Err NoReturn \<Rightarrow> Err OutOfFuel
             | Err (ReadError e) \<Rightarrow> Ret (Some (StoreFailed e), ManifestTrie es' None, cs)
             | Ret (key, cs') \<Rightarrow> Ret (None, ManifestTrie es' (Some key), cs @ cs'))))"
| "recalc_entries E [] = Ret (None, [], [])"
| "recalc_entries E (None # es) =
     go_bind (recalc_entries E es) (\<lambda>(err, es', cs). Ret (err, None # es', cs))"
| "recalc_entries E (Some e # es) =
     go_bind (recalc_entry E e) (\<lambda>(err, e', cs).
       if err \<noteq> None then Ret (err, Some e' # es, cs)
       else go_bind (recalc_entries E es) (\<lambda>(err', es', cs'). Ret (err', Some e' # es', cs @ cs')))"
| "recalc_entry E (ManifestTrieEntry p h c s st) =
     (if h \<noteq> '''' then Ret (None, ManifestTrieEntry p h c s st, [])
      else case st of
        None \<Rightarrow> Panic
      | Some sub \<Rightarrow>
          go_bind (recalcAndStore E sub) (\<lambda>(err, sub', cs).
            if err \<noteq> None then Ret (err, ManifestTrieEntry p h c s (Some sub'), cs)
            else Ret (None, ManifestTrieEntry p (Key_String (case mt_hash sub' of None \<Rightarrow> [] | Some k \<Rightarrow> k)) c s
                             (Some sub'), cs)))"

section \<open>Listing\<close>

text \<open>
  \<open>listWithPrefixInt\<close>: the calls of \<open>cb\<close> in order, the error if any, and the trie with the
  subtries loaded on the way. The depth of the stored tries is not bounded by the arguments,
  hence the bound on nested calls.
\<close>

type_synonym listing = "(manifestTrieEntry \<times> string) list \<times> manifest_error option \<times> manifestTrie"

fun list_slots :: "(nat \<Rightarrow> manifestTrie \<Rightarrow> listing mrun) \<Rightarrow> nat \<Rightarrow> nat \<Rightarrow> manifestTrie \<Rightarrow> listing mrun" where
  "list_slots visit i 0 t = Ret ([], None, t)"
| "list_slots visit i (Suc k) t =
     go_bind (visit i t) (\<lambda>(out, err, t').
       if err \<noteq> None then Ret (out, err, t')
       else go_bind (list_slots visit (Suc i) k t') (\<lambda>(out', err', t''). Ret (out @ out', err', t'')))"

text \<open>The body of the loop; \<open>list_sub\<close> is the recursive call on the subtrie.\<close>

definition list_slot :: "(string \<Rightarrow> string \<Rightarrow> manifestTrie \<Rightarrow> listing mrun) \<Rightarrow> loader \<Rightarrow> string \<Rightarrow> string
    \<Rightarrow> nat \<Rightarrow> manifestTrie \<Rightarrow> listing mrun" where
  "list_slot list_sub ld prefix rp i t =
     (case mt_entries t ! i of
        None \<Rightarrow> Ret ([], None, t)
      | Some entry \<Rightarrow>
          let plen = length prefix; epl = length (te_Path entry) in
          if is_manifest entry then
            (let l = (if epl < plen then epl else plen) in
             if take l prefix = take l (te_Path entry) then
               go_bind (loadSubTrie ld entry) (\<lambda>(entry', err).
                 if err \<noteq> None then Ret ([], err, ManifestTrie ((mt_entries t)[i := Some entry']) (mt_hash t))
                 else case te_subtrie entry' of
                   None \<Rightarrow> Panic
                 | Some sub \<Rightarrow>
                     go_bind (list_sub (drop l prefix) (rp @ drop l (te_Path entry)) sub)
                       (\<lambda>(out, err', sub'). Ret (out, err',
                         ManifestTrie ((mt_entries t)[i := Some (with_subtrie (Some sub') entry')]) (mt_hash t))))
             else Ret ([], None, t))
          else if plen \<le> epl \<and> prefix = take plen (te_Path entry)
          then Ret ([(entry, rp @ drop plen (te_Path entry))], None, t)
          else Ret ([], None, t))"

primrec listWithPrefixInt :: "nat \<Rightarrow> loader \<Rightarrow> string \<Rightarrow> string \<Rightarrow> manifestTrie \<Rightarrow> listing mrun" where
  "listWithPrefixInt 0 ld prefix rp t = Err OutOfFuel"
| "listWithPrefixInt (Suc n) ld prefix rp t =
     (let start = (if length prefix = 0 then 0 else of_char (prefix ! 0));
          stop = (if length prefix = 0 then 256 else start) in
      list_slots (list_slot (listWithPrefixInt n ld) ld prefix rp) start (stop + 1 - start) t)"

definition listWithPrefix :: "nat \<Rightarrow> loader \<Rightarrow> string \<Rightarrow> manifestTrie \<Rightarrow> listing mrun" where
  "listWithPrefix n ld prefix t = listWithPrefixInt n ld prefix '''' t"

end
