(* ===== verification/Manifest_Laws.thy ===== *)
theory Manifest_Laws
  imports Manifest "HOL-Library.Sublist"
begin

text \<open>
  The manifest trie as a map from paths to documents. \<open>look\<close> reads that map off the trie,
  loading subtries where it has to; \<open>mtrie_ok\<close> is the shape every operation keeps. The lemmas
  say what the lookup, the insertion and the deletion of \<open>api/manifest.go\<close> do to the map.
\<close>

section \<open>Slots and common prefixes\<close>

definition slot :: "string \<Rightarrow> nat" where
  "slot p = (if p = [] then 256 else of_char (p ! 0))"

lemma of_char_lt_256 [simp]: "of_char (c :: char) < (256 :: nat)"
  using of_char_mod_256 [of c, where 'a = nat] by (metis mod_less_divisor zero_less_numeral)

lemma of_char_neq_256 [simp]: "of_char (c :: char) \<noteq> (256 :: nat)" "(256 :: nat) \<noteq> of_char (c :: char)"
  using of_char_lt_256 [of c] by linarith+

lemma slot_lt [simp]: "slot p < 257"
  using less_trans [OF of_char_lt_256 [of "p ! 0"], of 257] by (simp add: slot_def)

lemma slot_256 [simp]: "slot p = 256 \<longleftrightarrow> p = []" "256 = slot p \<longleftrightarrow> p = []"
  by (auto simp: slot_def)

lemma slot_Nil: "slot [] = 256"
  by simp

lemma slot_Nil_iff [simp]: "slot q = slot [] \<longleftrightarrow> q = []" "slot [] = slot q \<longleftrightarrow> q = []"
  by (metis slot_256(1))+

lemma slot_Cons [simp]: "slot (c # p) = of_char c"
  by (simp add: slot_def)

lemma slot_prefix: "prefix p q \<Longrightarrow> p \<noteq> [] \<Longrightarrow> slot q = slot p"
  by (cases p; cases q) auto

lemma slot_take: "p \<noteq> [] \<Longrightarrow> 0 < k \<Longrightarrow> slot (take k p) = slot p"
  by (cases p; cases k) auto

lemma take_eq_prefix: "length p \<le> length q \<and> take (length p) q = p \<longleftrightarrow> prefix p q"
  by (metis append_eq_conv_conj prefix_def prefix_length_le)

lemma cpl_loop_sym: "cpl_loop xs ys = cpl_loop ys xs"
  by (induction xs ys rule: cpl_loop.induct) auto

lemma cpl_loop_le: "cpl_loop xs ys \<le> length xs" "cpl_loop xs ys \<le> length ys"
  by (induction xs ys rule: cpl_loop.induct) auto

lemma cpl_loop_take: "take (cpl_loop xs ys) xs = take (cpl_loop xs ys) ys"
  by (induction xs ys rule: cpl_loop.induct) auto

lemma cpl_loop_prefix: "cpl_loop xs ys = length ys \<longleftrightarrow> prefix ys xs"
  by (induction xs ys rule: cpl_loop.induct) auto

lemma cpl_loop_pos: "slot xs = slot ys \<Longrightarrow> xs \<noteq> [] \<Longrightarrow> ys \<noteq> [] \<Longrightarrow> 0 < cpl_loop xs ys"
  by (cases xs; cases ys) (auto simp: of_char_eq_iff)

text \<open>Past their common prefix two different paths belong to different slots.\<close>

lemma cpl_loop_slots:
  "xs \<noteq> ys \<Longrightarrow> slot (drop (cpl_loop xs ys) xs) \<noteq> slot (drop (cpl_loop xs ys) ys)"
proof (induction xs arbitrary: ys)
  case Nil
  then have "slot ys \<noteq> slot []" by (metis slot_256(1))
  then show ?case by simp
next
  case (Cons x xs)
  then show ?case
    by (cases ys) (auto simp: of_char_eq_iff slot_Nil)
qed

section \<open>Well-formed tries\<close>

text \<open>Text without bytes above 127: \<open>encoding/json\<close> writes it exactly.\<close>

definition ascii :: "string \<Rightarrow> bool" where
  "ascii s \<longleftrightarrow> list_all (\<lambda>c. of_char c < (128 :: nat)) s"

definition plain_text :: "manifestTrieEntry \<Rightarrow> bool" where
  "plain_text e \<longleftrightarrow> ascii (te_Path e) \<and> ascii (te_Hash e) \<and> ascii (te_ContentType e)"

lemma ascii_simps [simp]: "ascii []" "ascii (p @ q) \<longleftrightarrow> ascii p \<and> ascii q" "ascii manifestType"
  by (simp_all add: ascii_def manifestType_def)

lemma ascii_parts: "ascii p \<Longrightarrow> ascii (take n p)" "ascii p \<Longrightarrow> ascii (drop n p)"
  by (auto simp: ascii_def list_all_iff dest: in_set_takeD in_set_dropD)

text \<open>
  The shape of the tries of this package until they are stored: every entry stands in the slot of
  its path, only manifest entries have a subtrie, and neither a trie nor an entry whose subtrie
  is in memory has a hash. With \<open>m\<close> the text of the entries is plain, and no entry with an empty
  path is a manifest: there the lookup and the listing of the code disagree on its meaning.
\<close>

fun mtrie_ok :: "bool \<Rightarrow> manifestTrie \<Rightarrow> bool"
  and entry_ok :: "bool \<Rightarrow> manifestTrieEntry \<Rightarrow> bool" where
  "mtrie_ok m (ManifestTrie es h) \<longleftrightarrow> h = None \<and> length es = 257
     \<and> (\<forall>i < 257. \<forall>e. es ! i = Some e \<longrightarrow> slot (te_Path e) = i \<and> (m \<and> te_Path e = [] \<longrightarrow> \<not> is_manifest e))
     \<and> (\<forall>x \<in> set es. case x of None \<Rightarrow> True | Some e \<Rightarrow> entry_ok m e)"
| "entry_ok m (ManifestTrieEntry p h c s st) \<longleftrightarrow>
     (m \<longrightarrow> ascii p \<and> ascii h \<and> ascii c)
     \<and> (case st of None \<Rightarrow> True | Some t \<Rightarrow> c = manifestType \<and> h = '''' \<and> mtrie_ok m t)"

lemma with_simps [simp]:
  "te_Path (with_Path p e) = p" "te_Hash (with_Path p e) = te_Hash e"
  "te_ContentType (with_Path p e) = te_ContentType e" "te_Status (with_Path p e) = te_Status e"
  "te_subtrie (with_Path p e) = te_subtrie e"
  "te_Path (with_Hash h e) = te_Path e" "te_Hash (with_Hash h e) = h"
  "te_ContentType (with_Hash h e) = te_ContentType e" "te_Status (with_Hash h e) = te_Status e"
  "te_subtrie (with_Hash h e) = te_subtrie e"
  "te_Path (with_subtrie st e) = te_Path e" "te_Hash (with_subtrie st e) = te_Hash e"
  "te_ContentType (with_subtrie st e) = te_ContentType e" "te_Status (with_subtrie st e) = te_Status e"
  "te_subtrie (with_subtrie st e) = st"
  by (cases e; simp)+

lemma is_manifest_with [simp]:
  "is_manifest (with_Path p e) = is_manifest e" "is_manifest (with_Hash h e) = is_manifest e"
  "is_manifest (with_subtrie st e) = is_manifest e"
  "is_manifest (ManifestTrieEntry p h c s st) \<longleftrightarrow> c = manifestType"
  by (simp_all add: is_manifest_def)

lemma entry_ok_iff: "entry_ok m e \<longleftrightarrow> (m \<longrightarrow> plain_text e) \<and>
    (case te_subtrie e of None \<Rightarrow> True | Some t \<Rightarrow> is_manifest e \<and> te_Hash e = '''' \<and> mtrie_ok m t)"
  by (cases e) (auto simp: plain_text_def split: option.split)

declare entry_ok.simps [simp del]

lemma entry_ok_text: "entry_ok m e \<Longrightarrow> m \<Longrightarrow> plain_text e"
  by (simp add: entry_ok_iff)

lemma plain_text_with [simp]:
  "plain_text (with_Path p e) \<longleftrightarrow> ascii p \<and> ascii (te_Hash e) \<and> ascii (te_ContentType e)"
  "plain_text (with_Hash h e) \<longleftrightarrow> ascii (te_Path e) \<and> ascii h \<and> ascii (te_ContentType e)"
  "plain_text (with_subtrie st e) \<longleftrightarrow> plain_text e"
  by (simp_all add: plain_text_def)

lemma entry_ok_with_Path: "entry_ok m e \<Longrightarrow> (m \<Longrightarrow> ascii p) \<Longrightarrow> entry_ok m (with_Path p e)"
  by (auto simp: entry_ok_iff plain_text_def split: option.splits)

lemma entry_ok_cleared: "entry_ok m e \<Longrightarrow> entry_ok m (with_Hash '''' (with_subtrie None e))"
  by (simp add: entry_ok_iff plain_text_def)

lemma entry_ok_loaded:
  "entry_ok m e \<Longrightarrow> is_manifest e \<Longrightarrow> mtrie_ok m t \<Longrightarrow> entry_ok m (with_Hash '''' (with_subtrie (Some t) e))"
  by (simp add: entry_ok_iff plain_text_def)

definition slot_ok :: "bool \<Rightarrow> nat \<Rightarrow> manifestTrieEntry option \<Rightarrow> bool" where
  "slot_ok m i x \<longleftrightarrow> (\<forall>e. x = Some e \<longrightarrow>
     slot (te_Path e) = i \<and> (m \<and> te_Path e = [] \<longrightarrow> \<not> is_manifest e) \<and> entry_ok m e)"

lemma mtrie_ok_iff: "mtrie_ok m (ManifestTrie es h) \<longleftrightarrow> h = None \<and> length es = 257 \<and> (\<forall>i < 257. slot_ok m i (es ! i))"
proof -
  have *: "Ball (set es) (case_option True (entry_ok m))
    \<longleftrightarrow> (\<forall>i < length es. \<forall>e. es ! i = Some e \<longrightarrow> entry_ok m e)"
    unfolding all_set_conv_all_nth by (intro all_cong) (simp split: option.split)
  show ?thesis unfolding mtrie_ok.simps slot_ok_def * by (intro conj_cong) auto
qed

declare mtrie_ok.simps [simp del]

lemma slot_ok_None [simp]: "slot_ok m i None"
  by (simp add: slot_ok_def)

lemma mtrie_ok_entry:
  assumes "mtrie_ok m (ManifestTrie es h)" "es ! i = Some e" "i < 257"
  shows "slot (te_Path e) = i" "entry_ok m e" "m \<Longrightarrow> te_Path e = [] \<Longrightarrow> \<not> is_manifest e"
  using assms unfolding mtrie_ok_iff slot_ok_def by blast+

lemma mtrie_ok_length: "mtrie_ok m (ManifestTrie es h) \<Longrightarrow> length es = 257"
  by (simp add: mtrie_ok_iff)

lemma mtrie_ok_new [simp]: "mtrie_ok m newTrie"
  by (simp add: newTrie_def mtrie_ok_iff)

lemma mtrie_ok_hash: "mtrie_ok m (ManifestTrie es h) \<Longrightarrow> h = None"
  by (simp add: mtrie_ok_iff)

lemma mtrie_ok_update:
  assumes "mtrie_ok m (ManifestTrie es h)" "slot_ok m i x"
  shows "mtrie_ok m (ManifestTrie (es[i := x]) None)"
proof (cases "i < 257")
  case True
  then show ?thesis using assms by (auto simp: mtrie_ok_iff nth_list_update)
next
  case False
  then show ?thesis using assms(1) by (simp add: mtrie_ok_iff list_update_beyond)
qed

lemmas mtrie_ok_clear = mtrie_ok_update [OF _ slot_ok_None]

lemma mtrie_ok_put:
  assumes "mtrie_ok m (ManifestTrie es h)" "i = slot (te_Path e)" "entry_ok m e"
    "m \<Longrightarrow> te_Path e = [] \<Longrightarrow> \<not> is_manifest e"
  shows "mtrie_ok m (ManifestTrie (es[i := Some e]) None)"
  using assms by (intro mtrie_ok_update [OF assms(1)]) (auto simp: slot_ok_def)

section \<open>The map of a trie\<close>

type_synonym document = "string \<times> string \<times> int"

definition doc :: "manifestTrieEntry \<Rightarrow> document" where
  "doc e = (te_Hash e, te_ContentType e, te_Status e)"

text \<open>The subtrie of an entry, fetched when it is not in memory.\<close>

definition subtrie_of :: "loader \<Rightarrow> manifestTrieEntry \<Rightarrow> manifestTrie option" where
  "subtrie_of ld e =
     (case te_subtrie e of
        Some t \<Rightarrow> Some t
      | None \<Rightarrow> (case ld (Hex2Bytes (te_Hash e)) of Ret (Inr t) \<Rightarrow> Some t | _ \<Rightarrow> None))"

lemma subtrie_of_with_Path [simp]: "subtrie_of ld (with_Path p e) = subtrie_of ld e"
  by (simp add: subtrie_of_def cong: option.case_cong)

function look :: "loader \<Rightarrow> manifestTrie \<Rightarrow> string \<Rightarrow> document option" where
  "look ld t p =
     (case mt_entries t ! slot p of
        None \<Rightarrow> None
      | Some e \<Rightarrow>
          if is_manifest e \<and> te_Path e \<noteq> [] then
            (if prefix (te_Path e) p
             then (case subtrie_of ld e of
                     None \<Rightarrow> None
                   | Some s \<Rightarrow> look ld s (drop (length (te_Path e)) p))
             else None)
          else if te_Path e = p then Some (doc e) else None)"
  by pat_completeness auto
termination
  by (relation "measure (\<lambda>(ld, t, p). length p)") (auto simp: prefix_def)

text \<open>Every subtrie on the way along a path can be loaded.\<close>

function opens :: "loader \<Rightarrow> manifestTrie \<Rightarrow> string \<Rightarrow> bool" where
  "opens ld t p \<longleftrightarrow>
     (case mt_entries t ! slot p of
        None \<Rightarrow> True
      | Some e \<Rightarrow>
          if is_manifest e \<and> te_Path e \<noteq> [] \<and> prefix (te_Path e) p
          then (case subtrie_of ld e of
                  None \<Rightarrow> False
                | Some s \<Rightarrow> opens ld s (drop (length (te_Path e)) p))
          else True)"
  by pat_completeness auto
termination
  by (relation "measure (\<lambda>(ld, t, p). length p)") (auto simp: prefix_def)

text \<open>The path is that of a subtrie.\<close>

function inner :: "loader \<Rightarrow> manifestTrie \<Rightarrow> string \<Rightarrow> bool" where
  "inner ld t p \<longleftrightarrow>
     (case mt_entries t ! slot p of
        None \<Rightarrow> False
      | Some e \<Rightarrow>
          if is_manifest e \<and> te_Path e \<noteq> [] \<and> prefix (te_Path e) p
          then te_Path e = p \<or>
            (case subtrie_of ld e of
               None \<Rightarrow> False
             | Some s \<Rightarrow> inner ld s (drop (length (te_Path e)) p))
          else False)"
  by pat_completeness auto
termination
  by (relation "measure (\<lambda>(ld, t, p). length p)") (auto simp: prefix_def)

declare look.simps [simp del] opens.simps [simp del] inner.simps [simp del]

text \<open>What one entry contributes to the map.\<close>

definition look_entry :: "loader \<Rightarrow> manifestTrieEntry option \<Rightarrow> string \<Rightarrow> document option" where
  "look_entry ld x p =
     (case x of
        None \<Rightarrow> None
      | Some e \<Rightarrow>
          if is_manifest e \<and> te_Path e \<noteq> [] then
            (if prefix (te_Path e) p
             then (case subtrie_of ld e of
                     None \<Rightarrow> None
                   | Some s \<Rightarrow> look ld s (drop (length (te_Path e)) p))
             else None)
          else if te_Path e = p then Some (doc e) else None)"

lemma look_slot: "look ld (ManifestTrie es h) p = look_entry ld (es ! slot p) p"
  by (subst look.simps) (simp add: look_entry_def)

lemma look_update:
  assumes "length es = 257" "i < 257"
  shows "look ld (ManifestTrie (es[i := x]) h) p =
    (if slot p = i then look_entry ld x p else look ld (ManifestTrie es h') p)"
  using assms by (simp add: look_slot nth_list_update)

lemma look_entry_None [simp]: "look_entry ld None p = None"
  by (simp add: look_entry_def)

lemma look_entry_document [simp]:
  "\<not> is_manifest e \<Longrightarrow> look_entry ld (Some e) p = (if te_Path e = p then Some (doc e) else None)"
  by (simp add: look_entry_def)

lemma look_entry_subtrie:
  "is_manifest e \<Longrightarrow> te_Path e \<noteq> [] \<Longrightarrow> subtrie_of ld e = Some s \<Longrightarrow>
    look_entry ld (Some e) p = (if prefix (te_Path e) p then look ld s (drop (length (te_Path e)) p) else None)"
  by (simp add: look_entry_def)

lemma look_entry_Some_slot: "look_entry ld (Some e) p \<noteq> None \<Longrightarrow> slot p = slot (te_Path e)"
  by (auto simp: look_entry_def slot_prefix split: if_splits)

lemma look_new [simp]: "look ld newTrie p = None"
  by (simp add: newTrie_def look_slot)

text \<open>Moving an entry below a prefix of its path moves its part of the map.\<close>

lemma look_entry_drop:
  assumes "te_Path e = c @ r" "is_manifest e \<Longrightarrow> r \<noteq> []" "c \<noteq> []"
  shows "look_entry ld (Some (with_Path r e)) q = look_entry ld (Some e) (c @ q)"
  using assms by (cases "is_manifest e") (auto simp: look_entry_def doc_def split: option.split)

section \<open>Loading a subtrie\<close>

text \<open>The result of \<open>loadSubTrie\<close> on an entry whose subtrie can be loaded.\<close>

definition loaded :: "manifestTrieEntry \<Rightarrow> manifestTrie \<Rightarrow> manifestTrieEntry" where
  "loaded e s = (case te_subtrie e of None \<Rightarrow> with_Hash '''' (with_subtrie (Some s) e) | Some _ \<Rightarrow> e)"

lemma loaded_simps [simp]:
  "te_Path (loaded e s) = te_Path e" "te_ContentType (loaded e s) = te_ContentType e"
  "te_Status (loaded e s) = te_Status e" "is_manifest (loaded e s) = is_manifest e"
  by (simp_all add: loaded_def split: option.split)

lemma loaded_subtrie [simp]: "subtrie_of ld e = Some s \<Longrightarrow> te_subtrie (loaded e s) = Some s"
  by (auto simp: loaded_def subtrie_of_def split: option.splits)

lemma loaded_ok:
  assumes "entry_ok m e" "is_manifest e" "mtrie_ok m s'"
  shows "entry_ok m (with_Hash '''' (with_subtrie (Some s') (loaded e s)))"
    "entry_ok m (with_subtrie (Some s') (loaded e s))"
  using assms by (auto simp: loaded_def entry_ok_iff plain_text_def split: option.splits)

lemma loadSubTrie_ok: "subtrie_of ld e = Some s \<Longrightarrow> loadSubTrie ld e = Ret (loaded e s, None)"
  by (auto simp: subtrie_of_def loadSubTrie_def loaded_def split: option.splits go.splits sum.splits)

lemma subtrie_of_loaded [simp]: "te_subtrie e = Some s \<Longrightarrow> subtrie_of ld e = Some s"
  by (simp add: subtrie_of_def)

section \<open>Changing one path\<close>

text \<open>
  The effect of an update of the path \<open>p\<close>: the path gets the value \<open>v\<close>. Where \<open>p\<close> is the path
  of a subtrie the update replaces it, so every path below disappears. New subtries arise only
  on the way to \<open>p\<close>, and no path is closed.
\<close>

definition sets :: "loader \<Rightarrow> string \<Rightarrow> document option \<Rightarrow> manifestTrie \<Rightarrow> manifestTrie \<Rightarrow> bool" where
  "sets ld p v t t' \<longleftrightarrow> (\<forall>q. look ld t' q =
     (if q = p then v else if inner ld t p \<and> prefix p q then None else look ld t q))
     \<and> (\<forall>q. inner ld t' q \<longrightarrow> inner ld t q \<or> prefix q p) \<and> (\<forall>q. opens ld t q \<longrightarrow> opens ld t' q)"

lemma setsD: "sets ld p v t t' \<Longrightarrow> look ld t' q =
    (if q = p then v else if inner ld t p \<and> prefix p q then None else look ld t q)"
  unfolding sets_def by blast

lemma sets_inner: "sets ld p v t t' \<Longrightarrow> inner ld t' q \<Longrightarrow> inner ld t q \<or> prefix q p"
  unfolding sets_def by blast

lemma sets_opens: "sets ld p v t t' \<Longrightarrow> opens ld t q \<Longrightarrow> opens ld t' q"
  unfolding sets_def by blast

lemma inner_Nil [simp]: "\<not> inner ld t []"
  by (subst inner.simps) (auto split: option.split)

definition opens_entry :: "loader \<Rightarrow> manifestTrieEntry option \<Rightarrow> string \<Rightarrow> bool" where
  "opens_entry ld x p \<longleftrightarrow> (\<forall>e. x = Some e \<longrightarrow> is_manifest e \<and> te_Path e \<noteq> [] \<and> prefix (te_Path e) p \<longrightarrow>
     (\<exists>s. subtrie_of ld e = Some s \<and> opens ld s (drop (length (te_Path e)) p)))"

lemma opens_slot: "opens ld (ManifestTrie es h) p = opens_entry ld (es ! slot p) p"
  by (subst opens.simps) (auto simp: opens_entry_def split: option.splits)

definition inner_of :: "loader \<Rightarrow> manifestTrieEntry option \<Rightarrow> string \<Rightarrow> bool" where
  "inner_of ld x p \<longleftrightarrow> (\<exists>e. x = Some e \<and> is_manifest e \<and> te_Path e \<noteq> [] \<and> prefix (te_Path e) p \<and>
     (te_Path e = p \<or> (\<exists>s. subtrie_of ld e = Some s \<and> inner ld s (drop (length (te_Path e)) p))))"

lemma inner_slot: "inner ld (ManifestTrie es h) p \<longleftrightarrow> inner_of ld (es ! slot p) p"
  by (subst inner.simps) (auto simp: inner_of_def split: option.splits)

lemma inner_of_simps [simp]:
  "\<not> inner_of ld None p" "\<not> is_manifest e \<Longrightarrow> \<not> inner_of ld (Some e) p"
  by (simp_all add: inner_of_def)

lemma opens_entry_simps [simp]:
  "opens_entry ld None p" "\<not> is_manifest e \<Longrightarrow> opens_entry ld (Some e) p"
  by (simp_all add: opens_entry_def)

lemma opens_entry_drop:
  assumes "te_Path e = c @ r" "r \<noteq> []"
  shows "opens_entry ld (Some (with_Path r e)) q \<longleftrightarrow> opens_entry ld (Some e) (c @ q)"
  using assms by (auto simp: opens_entry_def)

lemma inner_entry:
  assumes "es ! slot p = Some e" "te_Path e \<noteq> []"
  shows "inner ld (ManifestTrie es h) p \<longleftrightarrow> is_manifest e \<and> prefix (te_Path e) p \<and>
    (te_Path e = p \<or> (\<exists>s. subtrie_of ld e = Some s \<and> inner ld s (drop (length (te_Path e)) p)))"
  using assms by (simp add: inner_slot inner_of_def)

lemma inner_of_drop:
  assumes "te_Path e = c @ r" "r \<noteq> []"
  shows "inner_of ld (Some (with_Path r e)) q \<longleftrightarrow> inner_of ld (Some e) (c @ q)"
  using assms by (auto simp: inner_of_def)

lemma inner_of_Some_slot: "inner_of ld (Some e) p \<Longrightarrow> slot p = slot (te_Path e)"
  by (auto simp: inner_of_def slot_prefix)

lemma sets_slot:
  assumes "length es = 257"
    and "\<And>q. slot q = slot p \<Longrightarrow> look_entry ld x q =
      (if q = p then v else if inner ld (ManifestTrie es h) p \<and> prefix p q then None else look_entry ld (es ! slot p) q)"
    and "\<And>q. inner_of ld x q \<Longrightarrow> inner_of ld (es ! slot p) q \<or> prefix q p"
    and "\<And>q. opens_entry ld (es ! slot p) q \<Longrightarrow> opens_entry ld x q"
  shows "sets ld p v (ManifestTrie es h) (ManifestTrie (es[slot p := x]) None)"
proof -
  have "look ld (ManifestTrie (es[slot p := x]) None) q = (if q = p then v
      else if inner ld (ManifestTrie es h) p \<and> prefix p q then None else look ld (ManifestTrie es h) q)" for q
  proof (cases "slot q = slot p")
    case True
    then show ?thesis using assms(2) [OF True] assms(1) by (simp add: look_slot)
  next
    case False
    then have "q \<noteq> p" "\<not> (inner ld (ManifestTrie es h) p \<and> prefix p q)" using slot_prefix by (cases "p = []"; auto)+
    then show ?thesis using False assms(1) by (auto simp: look_slot nth_list_update)
  qed
  moreover have "inner ld (ManifestTrie es h) q \<or> prefix q p" if "inner ld (ManifestTrie (es[slot p := x]) None) q" for q
    using that assms(1,3) by (cases "slot q = slot p") (auto simp: inner_slot nth_list_update)
  moreover have "opens ld (ManifestTrie (es[slot p := x]) None) q" if "opens ld (ManifestTrie es h) q" for q
    using that assms(1,4) by (cases "slot q = slot p") (auto simp: opens_slot nth_list_update)
  ultimately show ?thesis by (simp only: sets_def) blast
qed

lemma sets_fresh:
  assumes "length es = 257" "p = [] \<or> es ! slot p = None" "\<And>q. look_entry ld x q = (if q = p then v else None)"
    "\<And>q. \<not> inner_of ld x q" "\<And>q. opens_entry ld x q"
  shows "sets ld p v (ManifestTrie es h) (ManifestTrie (es[slot p := x]) None)"
  using assms by (intro sets_slot) (auto simp: inner_slot)

lemma sets_replace:
  assumes "length es = 257" "es ! slot p = Some e" "te_Path e = p" "p \<noteq> []"
    "\<And>q. look_entry ld x q = (if q = p then v else None)" "\<And>q. \<not> inner_of ld x q" "\<And>q. opens_entry ld x q"
  shows "sets ld p v (ManifestTrie es h) (ManifestTrie (es[slot p := x]) None)"
  using assms inner_entry [OF assms(2), of ld h] by (intro sets_slot) (auto simp: look_entry_def)

text \<open>An update inside a subtrie is an update of the trie.\<close>

lemma sets_below:
  assumes len: "length es = 257" and e: "es ! slot p = Some e" "is_manifest e" "te_Path e \<noteq> []"
    and p: "p = te_Path e @ r" "r \<noteq> []" and s: "subtrie_of ld e = Some s" "sets ld r v s s'"
    and x: "\<And>q. look_entry ld x q = (if prefix (te_Path e) q then look ld s' (drop (length (te_Path e)) q) else None)"
    and i: "\<And>q. inner_of ld x q \<Longrightarrow> prefix (te_Path e) q \<and> (q = te_Path e \<or> inner ld s' (drop (length (te_Path e)) q))"
    and o: "\<And>q. (prefix (te_Path e) q \<Longrightarrow> opens ld s' (drop (length (te_Path e)) q)) \<Longrightarrow> opens_entry ld x q"
  shows "sets ld p v (ManifestTrie es h) (ManifestTrie (es[slot p := x]) None)"
proof (rule sets_slot [OF len])
  fix q
  have "inner ld (ManifestTrie es h) p \<longleftrightarrow> inner ld s r"
    using inner_entry [OF e(1,3), of ld h] e(2) p s(1) by simp
  moreover have "look_entry ld (es ! slot p) q = (if prefix (te_Path e) q then look ld s (drop (length (te_Path e)) q) else None)"
    using look_entry_subtrie [OF e(2,3) s(1)] e(1) by simp
  ultimately show "look_entry ld x q = (if q = p then v
      else if inner ld (ManifestTrie es h) p \<and> prefix p q then None else look_entry ld (es ! slot p) q)"
    using p setsD [OF s(2)] x [of q] by (auto simp: prefix_def)
next
  fix q
  assume "inner_of ld x q"
  from i [OF this] obtain r' where r': "q = te_Path e @ r'" "r' = [] \<or> inner ld s' r'" by (auto simp: prefix_def)
  then have "r' = [] \<or> inner ld s r' \<or> prefix r' r" using sets_inner [OF s(2)] by blast
  then show "inner_of ld (es ! slot p) q \<or> prefix q p"
    using e s(1) p(1) r'(1) by (auto simp: inner_of_def)
next
  fix q
  assume "opens_entry ld (es ! slot p) q"
  then have "opens ld s (drop (length (te_Path e)) q)" if "prefix (te_Path e) q"
    using e s(1) that by (simp add: opens_entry_def)
  then show "opens_entry ld x q" using o sets_opens [OF s(2)] by blast
qed

section \<open>Adding an entry\<close>

lemma addEntry_fresh:
  assumes "te_Path e = [] \<or> es ! slot (te_Path e) = None"
  shows "addEntry_bounded (Suc n) ld (ManifestTrie es h) e =
    Ret (ManifestTrie (es[slot (te_Path e) := Some e]) None)"
  using assms by (auto simp: slot_def)

text \<open>Where two entries share a proper prefix they become the two entries of a new subtrie.\<close>

definition split_entry :: "manifestTrieEntry \<Rightarrow> manifestTrieEntry \<Rightarrow> manifestTrieEntry" where
  "split_entry e old =
     (let n = cpl_loop (te_Path e) (te_Path old); p = drop n (te_Path e); po = drop n (te_Path old) in
      ManifestTrieEntry (take n (te_Path e)) '''' manifestType 0
        (Some (ManifestTrie ((replicate 257 None)[slot p := Some (with_Path p e), slot po := Some (with_Path po old)]) None)))"

lemma split_entry_look:
  assumes slots: "slot (te_Path old) = slot (te_Path e)" "te_Path e \<noteq> []" "te_Path old \<noteq> te_Path e"
    and old: "\<not> (is_manifest old \<and> prefix (te_Path old) (te_Path e))" and e: "\<not> is_manifest e"
  shows "look_entry ld (Some (split_entry e old)) q =
    (if q = te_Path e then Some (doc e) else look_entry ld (Some old) q)"
proof -
  define n where "n = cpl_loop (te_Path e) (te_Path old)"
  define c where "c = take n (te_Path e)"
  define p where "p = drop n (te_Path e)"
  define po where "po = drop n (te_Path old)"
  have old_ne: "te_Path old \<noteq> []" using slots by (metis slot_256(1))
  have c: "te_Path e = c @ p" "te_Path old = c @ po" "c \<noteq> []" "length c = n"
    using cpl_loop_take [of "te_Path e" "te_Path old"] cpl_loop_pos [of "te_Path e" "te_Path old"]
      cpl_loop_le [of "te_Path e" "te_Path old"] slots old_ne
    by (auto simp: c_def p_def po_def n_def) (metis append_take_drop_id)
  have ne: "slot p \<noteq> slot po" using cpl_loop_slots [of "te_Path e" "te_Path old"] slots(3) by (simp add: p_def po_def n_def)
  have po: "is_manifest old \<Longrightarrow> po \<noteq> []" using old c by auto
  let ?sub = "ManifestTrie ((replicate 257 None)[slot p := Some (with_Path p e), slot po := Some (with_Path po old)]) None"
  have sub: "look ld ?sub r =
      (if r = p then Some (doc e) else look_entry ld (Some old) (c @ r))" for r
  proof -
    have "look_entry ld (Some old) (c @ r) = look_entry ld (Some (with_Path po old)) r"
      using look_entry_drop [of old c po ld r] c po by simp
    moreover have "look_entry ld (Some (with_Path po old)) r = None" if "slot r \<noteq> slot po"
      using look_entry_Some_slot [of ld "with_Path po old" r] that by (metis with_simps(1))
    moreover have "look_entry ld (Some (with_Path p e)) r = (if r = p then Some (doc e) else None)"
      using e by (auto simp: doc_def)
    ultimately show ?thesis using ne by (auto simp: look_slot nth_list_update)
  qed
  have "split_entry e old = ManifestTrieEntry c '''' manifestType 0 (Some ?sub)"
    by (simp add: split_entry_def Let_def c_def p_def po_def n_def)
  then have entry: "look_entry ld (Some (split_entry e old)) q =
      (if prefix c q then look ld ?sub (drop n q) else None)"
    using c(3,4) by (simp add: look_entry_def)
  show ?thesis
  proof (cases "prefix c q")
    case True
    then obtain r where "q = c @ r" by (auto simp: prefix_def)
    then show ?thesis using entry sub [of r] c by simp
  next
    case False
    then have "look_entry ld (Some old) q = None"
      using c by (auto simp: look_entry_def prefix_def)
    then show ?thesis using entry False c by (auto simp: prefix_def)
  qed
qed

lemma split_entry_inner:
  assumes slots: "slot (te_Path old) = slot (te_Path e)" "te_Path e \<noteq> []"
    and old: "\<not> (is_manifest old \<and> prefix (te_Path old) (te_Path e))" and e: "\<not> is_manifest e"
    and q: "inner_of ld (Some (split_entry e old)) q"
  shows "inner_of ld (Some old) q \<or> prefix q (te_Path e)"
proof -
  define n where "n = cpl_loop (te_Path e) (te_Path old)"
  let ?p = "drop n (te_Path e)" and ?po = "drop n (te_Path old)"
  let ?sub = "ManifestTrie ((replicate 257 None)[slot ?p := Some (with_Path ?p e), slot ?po := Some (with_Path ?po old)]) None"
  have c: "te_Path old = take n (te_Path e) @ ?po"
    using cpl_loop_take [of "te_Path e" "te_Path old"] by (simp add: n_def)
  have po: "is_manifest old \<Longrightarrow> ?po \<noteq> []" using old c by (auto simp: take_is_prefix)
  have "prefix (take n (te_Path e)) q \<and> (q = take n (te_Path e) \<or> inner ld ?sub (drop (length (take n (te_Path e))) q))"
    using q by (auto simp: inner_of_def split_entry_def Let_def n_def)
  then obtain r where r: "q = take n (te_Path e) @ r" "r = [] \<or> inner ld ?sub r" by (auto simp: prefix_def)
  show ?thesis
  proof (cases "r = []")
    case True
    then show ?thesis using r(1) by (simp add: take_is_prefix)
  next
    case False
    then have "inner_of ld (Some (with_Path ?po old)) r"
      using r(2) e by (auto simp: inner_slot nth_list_update split: if_splits)
    then show ?thesis using inner_of_drop [OF c] po r(1) by (cases "is_manifest old") auto
  qed
qed

lemma split_entry_opens:
  assumes old: "\<not> (is_manifest old \<and> prefix (te_Path old) (te_Path e))" and e: "\<not> is_manifest e"
    and q: "opens_entry ld (Some old) q"
  shows "opens_entry ld (Some (split_entry e old)) q"
proof -
  define n where "n = cpl_loop (te_Path e) (te_Path old)"
  let ?p = "drop n (te_Path e)" and ?po = "drop n (te_Path old)"
  let ?sub = "ManifestTrie ((replicate 257 None)[slot ?p := Some (with_Path ?p e), slot ?po := Some (with_Path ?po old)]) None"
  have c: "te_Path old = take n (te_Path e) @ ?po"
    using cpl_loop_take [of "te_Path e" "te_Path old"] by (simp add: n_def)
  have po: "is_manifest old \<Longrightarrow> ?po \<noteq> []" using old c by (auto simp: take_is_prefix)
  have "opens ld ?sub r" if "q = take n (te_Path e) @ r" for r
    using q that opens_entry_drop [OF c, of ld r] po e
    by (cases "is_manifest old") (auto simp: opens_slot nth_list_update)
  then show ?thesis by (auto simp: opens_entry_def split_entry_def Let_def n_def prefix_def)
qed

lemma split_entry_ok:
  assumes "entry_ok m old" "entry_ok m e" "m \<Longrightarrow> \<not> is_manifest e"
    "\<not> (is_manifest old \<and> prefix (te_Path old) (te_Path e))"
  shows "entry_ok m (split_entry e old)"
proof -
  let ?n = "cpl_loop (te_Path e) (te_Path old)"
  let ?e = "with_Path (drop ?n (te_Path e)) e" and ?old = "with_Path (drop ?n (te_Path old)) old"
  have "drop ?n (te_Path old) \<noteq> []" if "is_manifest old"
    using assms(4) that cpl_loop_le(2) [of "te_Path e" "te_Path old"] cpl_loop_prefix [of "te_Path e" "te_Path old"]
    by simp
  moreover have "entry_ok m ?e" "entry_ok m ?old"
    using entry_ok_with_Path [OF assms(2)] entry_ok_with_Path [OF assms(1)] entry_ok_text [OF assms(2)]
      entry_ok_text [OF assms(1)] ascii_parts(2) by (auto simp: plain_text_def)
  ultimately have "mtrie_ok m (ManifestTrie ((replicate 257 None)[slot (te_Path ?e) := Some ?e, slot (te_Path ?old) := Some ?old]) None)"
    using assms(3) mtrie_ok_new [of m] unfolding newTrie_def
    by (intro mtrie_ok_put [where h = None]) auto
  then show ?thesis
    using entry_ok_text [OF assms(2)] ascii_parts(1)
    by (auto simp: split_entry_def Let_def entry_ok_iff plain_text_def)
qed

lemma split_entry_Path:
  assumes "slot (te_Path old) = slot (te_Path e)" "te_Path e \<noteq> []"
  shows "slot (te_Path (split_entry e old)) = slot (te_Path e)"
proof -
  have "te_Path old \<noteq> []" using assms by (metis slot_Nil_iff(2))
  then have "0 < cpl_loop (te_Path e) (te_Path old)" using cpl_loop_pos assms by metis
  then show ?thesis
    using assms(2) by (cases "te_Path e") (auto simp: split_entry_def Let_def take_Cons split: nat.split)
qed

lemma addEntry_split:
  assumes "es ! slot (te_Path e) = Some old" "te_Path e \<noteq> []" "te_Path old \<noteq> te_Path e"
    "\<not> (is_manifest old \<and> prefix (te_Path old) (te_Path e))"
  shows "addEntry_bounded (Suc (Suc n)) ld (ManifestTrie es h) e =
    Ret (ManifestTrie (es[slot (te_Path e) := Some (split_entry e old)]) None)"
proof -
  let ?n = "cpl_loop (te_Path e) (te_Path old)"
  let ?e = "with_Path (drop ?n (te_Path e)) e" and ?old = "with_Path (drop ?n (te_Path old)) old"
  let ?es = "(replicate 257 None)[slot (te_Path ?e) := Some ?e]"
  have pos: "of_char (te_Path e ! 0) = slot (te_Path e)" using assms(2) by (simp add: slot_def)
  have ne: "slot (te_Path ?e) \<noteq> slot (te_Path ?old)"
    using cpl_loop_slots [of "te_Path e" "te_Path old"] assms(3) by simp
  have "addEntry_bounded (Suc n) ld newTrie ?e = Ret (ManifestTrie ?es None)"
    unfolding newTrie_def by (rule addEntry_fresh) simp
  moreover have "addEntry_bounded (Suc n) ld (ManifestTrie ?es None) ?old =
      Ret (ManifestTrie (?es[slot (te_Path ?old) := Some ?old]) None)"
    using ne by (intro addEntry_fresh) simp
  moreover have "\<not> (is_manifest old \<and> ?n = length (te_Path old))"
    using assms(4) by (simp add: cpl_loop_prefix)
  ultimately show ?thesis
    using assms pos
    by (subst addEntry_bounded.simps) (auto simp: Let_def split_entry_def simp del: addEntry_bounded.simps)
qed

section \<open>Collapsing a subtrie\<close>

lemma getCountLast_loop_filter:
  "getCountLast_loop es (n, l) =
    (let fs = filter (\<lambda>x. x \<noteq> None) es in (n + length fs, if fs = [] then l else last fs))"
  by (induction es "(n, l)" arbitrary: n l rule: getCountLast_loop.induct) (auto simp: Let_def)

lemma getCountLast_small:
  assumes "getCountLast (ManifestTrie es h) = (n, l)" "n < 2"
  shows "(l = None \<and> (\<forall>x \<in> set es. x = None))
    \<or> (\<exists>i e. l = Some e \<and> i < length es \<and> es ! i = Some e \<and> (\<forall>j < length es. j \<noteq> i \<longrightarrow> es ! j = None))"
proof -
  let ?fs = "filter (\<lambda>x. x \<noteq> None) es"
  have n: "n = length ?fs" and l: "l = (if ?fs = [] then None else last ?fs)"
    using assms(1) by (auto simp: getCountLast_def getCountLast_loop_filter Let_def)
  consider "?fs = []" | x where "?fs = [x]" using n assms(2) by (cases ?fs) (auto simp: length_Suc_conv less_2_cases_iff)
  then show ?thesis
  proof cases
    case 1
    then show ?thesis using l by (simp add: filter_empty_conv)
  next
    case (2 x)
    then obtain us vs where es: "es = us @ x # vs" "\<forall>u\<in>set us. u = None" "\<forall>v\<in>set vs. v = None" "x \<noteq> None"
      by (auto simp: filter_eq_Cons_iff filter_empty_conv eq_commute [of "[]"])
    have "es ! j = None" if "j < length es" "j \<noteq> length us" for j
    proof (cases "j < length us")
      case True
      then show ?thesis using es by (simp add: nth_append)
    next
      case False
      then have "es ! j = vs ! (j - Suc (length us))" "j - Suc (length us) < length vs"
        using that es(1) by (simp_all add: nth_append nth_Cons' )
      then show ?thesis using es(3) by (metis nth_mem)
    qed
    moreover have "l = x" using l 2 by simp
    moreover have "es ! length us = x" "length us < length es" using es(1) by simp_all
    ultimately show ?thesis using es(4) by blast
  qed
qed

lemma with_Path_same [simp]: "with_Path (te_Path e) e = e" "with_Path p (with_Path q e) = with_Path p e"
  by (cases e; simp)+

text \<open>A subtrie with at most one entry is the same as that entry under the joint path.\<close>

lemma collapse_look:
  assumes sub: "mtrie_ok True sub" "getCountLast sub = (n, l)" "n < 2" and c: "c \<noteq> []"
  shows "look_entry ld (map_option (\<lambda>e. with_Path (c @ te_Path e) e) l) q =
    (if prefix c q then look ld sub (drop (length c) q) else None)"
proof -
  obtain es h where es: "sub = ManifestTrie es h" by (cases sub)
  have len: "length es = 257" using sub(1) es mtrie_ok_length by blast
  from getCountLast_small [OF sub(2) [unfolded es] sub(3)] show ?thesis
  proof (elim disjE exE conjE)
    assume "l = None" "\<forall>x \<in> set es. x = None"
    moreover have "es ! slot r \<in> set es" for r using len by simp
    ultimately have "es ! slot r = None" for r by blast
    then show ?thesis using \<open>l = None\<close> by (simp add: es look_slot)
  next
    fix i e
    assume e: "l = Some e" "i < length es" "es ! i = Some e" "\<forall>j < length es. j \<noteq> i \<longrightarrow> es ! j = None"
    note ok = mtrie_ok_entry [OF sub(1) [unfolded es] e(3) e(2) [unfolded len]]
    have look: "look ld sub r = look_entry ld (Some e) r" for r
    proof (cases "slot r = i")
      case True
      then show ?thesis using e(3) by (simp add: es look_slot)
    next
      case False
      then have "look_entry ld (Some e) r = None" using look_entry_Some_slot [of ld e r] ok(1) by metis
      then show ?thesis using e(4) len False by (simp add: es look_slot)
    qed
    show ?thesis
    proof (cases "prefix c q")
      case True
      then obtain r where "q = c @ r" by (auto simp: prefix_def)
      moreover have "is_manifest e \<Longrightarrow> te_Path e \<noteq> []" using ok(3) by blast
      ultimately show ?thesis
        using look_entry_drop [of "with_Path (c @ te_Path e) e" c "te_Path e" ld r] look c e(1) by simp
    next
      case False
      then show ?thesis using e(1) c by (auto simp: look_entry_def prefix_def)
    qed
  qed
qed

lemma collapse_inner:
  assumes sub: "mtrie_ok True sub" "getCountLast sub = (n, l)" "n < 2" and c: "c \<noteq> []"
    and q: "inner_of ld (map_option (\<lambda>e. with_Path (c @ te_Path e) e) l) q"
  shows "prefix c q \<and> inner ld sub (drop (length c) q)"
proof -
  obtain es h where es: "sub = ManifestTrie es h" by (cases sub)
  obtain i e where e: "l = Some e" "i < length es" "es ! i = Some e"
    using getCountLast_small [OF sub(2) [unfolded es] sub(3)] q by auto
  have len: "length es = 257" using sub(1) es mtrie_ok_length by blast
  note ok = mtrie_ok_entry [OF sub(1) [unfolded es] e(3) e(2) [unfolded len]]
  have m: "is_manifest e" "te_Path e \<noteq> []" using q e(1) ok(3) by (auto simp: inner_of_def)
  obtain r where r: "q = c @ r" using q e(1) by (auto simp: inner_of_def prefix_def)
  then have "inner_of ld (Some e) r"
    using q e(1) m inner_of_drop [of "with_Path (c @ te_Path e) e" c "te_Path e" ld r] by simp
  then show ?thesis using inner_of_Some_slot [of ld e r] ok(1) e(3) r by (simp add: es inner_slot)
qed

lemma collapse_opens:
  assumes sub: "mtrie_ok True sub" "getCountLast sub = (n, l)" "n < 2" and c: "c \<noteq> []"
    and q: "prefix c q \<Longrightarrow> opens ld sub (drop (length c) q)"
  shows "opens_entry ld (map_option (\<lambda>e. with_Path (c @ te_Path e) e) l) q"
proof (cases "prefix c q \<and> (\<exists>e. l = Some e \<and> is_manifest e)")
  case True
  obtain es h where es: "sub = ManifestTrie es h" by (cases sub)
  obtain i e where e: "l = Some e" "i < length es" "es ! i = Some e" "is_manifest e"
    using getCountLast_small [OF sub(2) [unfolded es] sub(3)] True by auto
  have len: "length es = 257" using sub(1) es mtrie_ok_length by blast
  note ok = mtrie_ok_entry [OF sub(1) [unfolded es] e(3) e(2) [unfolded len]]
  have m: "te_Path e \<noteq> []" using e(4) ok(3) by auto
  obtain r where r: "q = c @ r" using True by (auto simp: prefix_def)
  have "opens_entry ld (Some e) r"
    using q r ok(1) e(3) slot_prefix [of "te_Path e" r] m by (cases "prefix (te_Path e) r") (auto simp: es opens_slot opens_entry_def)
  then show ?thesis
    using e(1) m r
      opens_entry_drop [of "with_Path (c @ te_Path e) e" c "te_Path e" ld r] by simp
next
  case False
  then show ?thesis by (auto simp: opens_entry_def prefix_def)
qed

lemma collapse_ok:
  assumes sub: "mtrie_ok m sub" "getCountLast sub = (n, l)" "n < 2" and c: "c \<noteq> []" "m \<Longrightarrow> ascii c"
  shows "slot_ok m (slot c) (map_option (\<lambda>e. with_Path (c @ te_Path e) e) l)"
proof -
  obtain es h where es: "sub = ManifestTrie es h" by (cases sub)
  have "entry_ok m e" if "l = Some e" for e
    using getCountLast_small [OF sub(2) [unfolded es] sub(3)] that sub(1) mtrie_ok_entry(2) [of m es h]
      mtrie_ok_length [of m es h] es by force
  then have "entry_ok m (with_Path (c @ te_Path e) e)" if "l = Some e" for e
    using entry_ok_with_Path entry_ok_text c(2) that by (metis ascii_simps(2) plain_text_def)
  then show ?thesis using c(1) by (cases c) (auto simp: slot_ok_def)
qed

section \<open>The longest known prefix\<close>

definition longest :: "(string \<Rightarrow> document option) \<Rightarrow> string \<Rightarrow> manifestTrieEntry option \<Rightarrow> nat \<Rightarrow> bool" where
  "longest M p found pos \<longleftrightarrow>
     (case found of
        None \<Rightarrow> pos = 0 \<and> M p = None
      | Some e \<Rightarrow> pos \<le> length p \<and> M (take pos p) = Some (doc e)
          \<and> (\<forall>k. pos < k \<and> k \<le> length p \<longrightarrow> M (take k p) = None))"

lemma longest_below:
  assumes "longest M' r found pos" "c \<noteq> []" "\<And>q. M (c @ q) = M' q"
  shows "longest M (c @ r) found (if found \<noteq> None then pos + length c else pos)"
proof (cases found)
  case (Some e)
  have "M (take k (c @ r)) = None" if "pos + length c < k" "k \<le> length (c @ r)" for k
  proof -
    have "take k (c @ r) = c @ take (k - length c) r" "pos < k - length c" "k - length c \<le> length r"
      using that by auto
    then show ?thesis using assms(1,3) Some by (simp add: longest_def)
  qed
  then show ?thesis using assms(1,3) Some by (auto simp: longest_def)
next
  case None
  then show ?thesis using assms by (simp add: longest_def)
qed

text \<open>
  The search goes down one branch. \<open>deepest ld t p k\<close>: the deepest subtrie on the way along \<open>p\<close> is that under the first \<open>k\<close>
  bytes. \<open>blocked\<close>: there, the entry that stands in the slot of the next byte has a path the rest of \<open>p\<close> does not
  start with.
\<close>

definition deepest :: "loader \<Rightarrow> manifestTrie \<Rightarrow> string \<Rightarrow> nat \<Rightarrow> bool" where
  "deepest ld t p k \<longleftrightarrow> k \<le> length p \<and> (k = 0 \<or> inner ld t (take k p))
     \<and> (\<forall>j. k < j \<and> j \<le> length p \<longrightarrow> \<not> inner ld t (take j p))"

function blocked :: "loader \<Rightarrow> manifestTrie \<Rightarrow> string \<Rightarrow> bool" where
  "blocked ld t p \<longleftrightarrow>
     (case mt_entries t ! slot p of
        None \<Rightarrow> False
      | Some e \<Rightarrow>
          if \<not> prefix (te_Path e) p then True
          else if is_manifest e \<and> te_Path e \<noteq> []
          then (case subtrie_of ld e of
                  None \<Rightarrow> False
                | Some s \<Rightarrow> blocked ld s (drop (length (te_Path e)) p))
          else False)"
  by pat_completeness auto
termination
  by (relation "measure (\<lambda>(ld, t, p). length p)") (auto simp: prefix_def)

declare blocked.simps [simp del]

text \<open>
  Nothing is found exactly when the way is blocked or when neither the path of the deepest subtrie nor any longer prefix is known; what is
  found is never shorter than the path of the deepest subtrie.
\<close>

definition one_branch :: "loader \<Rightarrow> manifestTrie \<Rightarrow> string \<Rightarrow> manifestTrieEntry option \<Rightarrow> nat \<Rightarrow> bool" where
  "one_branch ld t p found pos \<longleftrightarrow> (\<exists>k. deepest ld t p k
     \<and> (found = None \<longleftrightarrow> blocked ld t p \<or> (\<forall>j. k \<le> j \<and> j \<le> length p \<longrightarrow> look ld t (take j p) = None))
     \<and> (found \<noteq> None \<longrightarrow> k \<le> pos))"

lemma one_branch_below:
  assumes sub: "one_branch ld s r found pos" and p: "p = c @ r" "c \<noteq> []"
    and here: "\<And>q. look ld t (c @ q) = look ld s q" "\<And>q. inner ld t (c @ q) \<longleftrightarrow> q = [] \<or> inner ld s q" "blocked ld t p = blocked ld s r"
  shows "one_branch ld t p found (if found \<noteq> None then pos + length c else pos)"
proof -
  obtain k where k: "k \<le> length r" "k = 0 \<or> inner ld s (take k r)" "\<And>j. k < j \<Longrightarrow> j \<le> length r \<Longrightarrow> \<not> inner ld s (take j r)"
      "found = None \<longleftrightarrow> blocked ld s r \<or> (\<forall>j. k \<le> j \<and> j \<le> length r \<longrightarrow> look ld s (take j r) = None)" "found \<noteq> None \<longrightarrow> k \<le> pos"
    using sub unfolding one_branch_def deepest_def by blast
  have tk: "take (length c + j) p = c @ take j r" for j using p(1) by simp
  have big: "\<exists>i. j = length c + i \<and> k \<le> i \<and> i \<le> length r" if "length c + k \<le> j" "j \<le> length p" for j
    using that p(1) by (intro exI [of _ "j - length c"]) auto
  have "\<not> inner ld t (take j p)" if j: "length c + k < j" "j \<le> length p" for j
  proof -
    obtain i where i: "j = length c + i" "k \<le> i" "i \<le> length r" using big [OF less_imp_le [OF j(1)] j(2)] by blast
    then have "k < i" using j by simp
    then have "\<not> inner ld s (take i r)" "take i r \<noteq> []" using k(3) i(3) by auto
    then show ?thesis using i(1) tk here(2) by simp
  qed
  moreover have "inner ld t (take (length c + k) p)" using k(2) tk here(2) by auto
  ultimately have "deepest ld t p (length c + k)" using k(1) p(1) by (simp add: deepest_def)
  moreover have "(\<forall>j. length c + k \<le> j \<and> j \<le> length p \<longrightarrow> look ld t (take j p) = None)
      \<longleftrightarrow> (\<forall>j. k \<le> j \<and> j \<le> length r \<longrightarrow> look ld s (take j r) = None)" (is "?l \<longleftrightarrow> ?r")
  proof
    assume l: ?l
    show ?r
    proof (intro allI impI)
      fix j
      assume "k \<le> j \<and> j \<le> length r"
      then have "look ld t (take (length c + j) p) = None" using spec [OF l, of "length c + j"] p(1) by simp
      then show "look ld s (take j r) = None" using tk here(1) by simp
    qed
  next
    assume r: ?r
    show ?l
    proof (intro allI impI)
      fix j
      assume "length c + k \<le> j \<and> j \<le> length p"
      then obtain i where "j = length c + i" "k \<le> i" "i \<le> length r" using big [of j] by blast
      then show "look ld t (take j p) = None" using r tk here(1) by simp
    qed
  qed
  ultimately show ?thesis using k(4,5) here(3) by (intro exI [of _ "length c + k"] iffD2 [OF one_branch_def]) auto
qed

section \<open>Tries with a loader\<close>

text \<open>A result is well-formed; where there is none, the loader has not returned either.\<close>

definition shape_result :: "loader \<Rightarrow> bool \<Rightarrow> manifestTrie mrun \<Rightarrow> bool" where
  "shape_result ld m r \<longleftrightarrow>
     (case r of Ret t \<Rightarrow> mtrie_ok m t | Err _ \<Rightarrow> \<exists>k x. ld k = Err x | Panic \<Rightarrow> \<exists>k. ld k = Panic)"

text \<open>A loader whose tries are well-formed, as those of \<open>loadManifest\<close> are.\<close>

locale trie_loader =
  fixes ld :: loader and m :: bool
  assumes loads_ok: "ld k = Ret (Inr t) \<Longrightarrow> mtrie_ok m t"
begin

lemma subtrie_ok:
  assumes "entry_ok m e" "subtrie_of ld e = Some s"
  shows "mtrie_ok m s"
  using assms loads_ok
  by (auto simp: entry_ok_iff subtrie_of_def split: option.splits go.splits sum.splits)

text \<open>The subtrie into which an operation on the path \<open>p\<close> descends.\<close>

lemma descend:
  assumes t: "mtrie_ok m (ManifestTrie es h)" "opens ld (ManifestTrie es h) p" and p: "p \<noteq> []"
    and e: "es ! slot p = Some e" "is_manifest e" "prefix (te_Path e) p"
  obtains r s where "p = te_Path e @ r" "te_Path e = p \<or> r \<noteq> []" "subtrie_of ld e = Some s" "opens ld s r" "mtrie_ok m s"
    "length r < length p" "te_Path e \<noteq> []" "loadSubTrie ld e = Ret (loaded e s, None)"
    "te_subtrie (loaded e s) = Some s"
proof -
  note ok = mtrie_ok_entry [OF t(1) e(1) slot_lt]
  have ne: "te_Path e \<noteq> []" using ok(1) p by (metis slot_Nil_iff(2))
  obtain r where r: "p = te_Path e @ r" "te_Path e = p \<or> r \<noteq> []" using e(3) by (auto simp: prefix_def)
  obtain s where s: "subtrie_of ld e = Some s" "opens ld s r"
    using t(2) e ne r by (subst (asm) opens.simps) (auto split: option.splits)
  have "length r < length p" using r(1) ne by (cases "te_Path e") auto
  then show thesis
    using that r s subtrie_ok [OF ok(2) s(1)] ne loadSubTrie_ok [OF s(1)] loaded_subtrie [OF s(1)] by blast
qed

lemma loadSubTrie_cases:
  assumes "entry_ok m e"
  obtains s where "loadSubTrie ld e = Ret (loaded e s, None)" "te_subtrie (loaded e s) = Some s" "mtrie_ok m s"
    | x err where "loadSubTrie ld e = Ret (x, Some err)" "te_Path x = te_Path e" "entry_ok m x"
    | k y where "loadSubTrie ld e = Err y" "ld k = Err y"
    | k where "loadSubTrie ld e = Panic" "ld k = Panic"
proof (cases "subtrie_of ld e")
  case (Some s)
  then show ?thesis using that(1) loadSubTrie_ok loaded_subtrie subtrie_ok [OF assms] by blast
next
  case None
  then show ?thesis
    using that(2) [of "with_Hash '''' (with_subtrie None e)"] that(3,4) entry_ok_cleared [OF assms]
    by (auto simp: subtrie_of_def loadSubTrie_def split: option.splits go.splits sum.splits)
qed

text \<open>
  Adding any entry ends and keeps the shape: it panics or runs on only where the loader does.
\<close>

lemma addEntry_bounded_shape:
  assumes "length (te_Path e) < n" "mtrie_ok m t" "entry_ok m e" "m \<Longrightarrow> \<not> is_manifest e"
  shows "shape_result ld m (addEntry_bounded n ld t e)"
  using assms
proof (induction n arbitrary: t e)
  case (Suc n)
  obtain es h where t: "t = ManifestTrie es h" by (cases t)
  let ?p = "te_Path e"
  note ok = Suc.prems(2) [unfolded t]
  have put: "mtrie_ok m (ManifestTrie (es[slot ?p := Some e]) None)"
    using mtrie_ok_put [OF ok refl Suc.prems(3)] Suc.prems(4) by blast
  show ?case
  proof (cases "?p = [] \<or> es ! slot ?p = None")
    case True
    then show ?thesis using addEntry_fresh [OF True, of n ld h] put t by (simp add: shape_result_def)
  next
    case False
    then obtain old where old: "es ! slot ?p = Some old" "?p \<noteq> []" by auto
    note old_ok = mtrie_ok_entry [OF ok old(1) slot_lt]
    have pos: "of_char (?p ! 0) = slot ?p" using old(2) by (simp add: slot_def)
    have ne: "te_Path old \<noteq> []" using old_ok(1) old(2) by (metis slot_Nil_iff(2))
    consider (same) "te_Path old = ?p"
      | (down) "is_manifest old" "prefix (te_Path old) ?p" "te_Path old \<noteq> ?p"
      | (split) "te_Path old \<noteq> ?p" "\<not> (is_manifest old \<and> prefix (te_Path old) ?p)" by blast
    then show ?thesis
    proof cases
      case same
      then show ?thesis using put old t pos by (simp add: Let_def shape_result_def)
    next
      case split
      have "n = Suc (n - 1)" using Suc.prems(1) old(2) by (cases n) auto
      then have "addEntry_bounded (Suc n) ld t e = Ret (ManifestTrie (es[slot ?p := Some (split_entry e old)]) None)"
        using addEntry_split [OF old split, of "n - 1" ld h] t by simp
      moreover have "mtrie_ok m (ManifestTrie (es[slot ?p := Some (split_entry e old)]) None)"
        using split_entry_Path [OF old_ok(1) old(2)] split_entry_ok [OF old_ok(2) Suc.prems(3,4) split(2)] old(2)
        by (intro mtrie_ok_put [OF ok]) (metis slot_Nil_iff(1))+
      ultimately show ?thesis by (simp add: shape_result_def)
    next
      case down
      obtain r where r: "?p = te_Path old @ r" using down(2) by (auto simp: prefix_def)
      have "length r < n" using r ne Suc.prems(1) by (cases "te_Path old") auto
      then have IH: "shape_result ld m (addEntry_bounded n ld s (with_Path r e))" if "mtrie_ok m s" for s
        using Suc.IH [of "with_Path r e" s] Suc.prems(3,4) that r entry_ok_with_Path [OF Suc.prems(3), of r]
          entry_ok_text [OF Suc.prems(3)] by (simp add: plain_text_def)
      have put': "mtrie_ok m (ManifestTrie (es[slot ?p := Some x]) None)" if "te_Path x = te_Path old" "entry_ok m x" for x
        using that old_ok(1) ne by (intro mtrie_ok_put [OF ok]) auto
      have cpl: "cpl_loop ?p (te_Path old) = length (te_Path old)" using down(2) by (simp add: cpl_loop_prefix)
      from old_ok(2) show ?thesis
      proof (cases rule: loadSubTrie_cases)
        case (1 s)
        then show ?thesis
          using IH [OF 1(3)] put' [OF _ loaded_ok(1) [OF old_ok(2) down(1)]] old down t pos cpl r
          by (cases "addEntry_bounded n ld s (with_Path r e)") (auto simp: Let_def shape_result_def)
      next
        case (2 x err)
        then show ?thesis using put' [of x] old down t pos cpl by (simp add: Let_def shape_result_def)
      qed (use old down t pos cpl in \<open>auto simp: Let_def shape_result_def\<close>)
    qed
  qed
qed simp

lemma addEntry_bounded_sets:
  assumes "length (te_Path e) < n" "mtrie_ok m t" "opens ld t (te_Path e)" "\<not> is_manifest e" "entry_ok m e"
  shows "\<exists>t'. addEntry_bounded n ld t e = Ret t' \<and> mtrie_ok m t' \<and> mt_hash t' = None
    \<and> sets ld (te_Path e) (Some (doc e)) t t'"
  using assms
proof (induction n arbitrary: t e)
  case (Suc n)
  obtain es h where t: "t = ManifestTrie es h" by (cases t)
  let ?p = "te_Path e"
  note ok = Suc.prems(2) [unfolded t]
  have len: "length es = 257" using ok mtrie_ok_length by blast
  note e_ok = Suc.prems(5)
  have put: "mtrie_ok m (ManifestTrie (es[slot ?p := Some e]) None)"
    using mtrie_ok_put [OF ok refl e_ok] Suc.prems(4) by blast
  have leaf: "look_entry ld (Some e) q = (if q = ?p then Some (doc e) else None)" for q
    using Suc.prems(4) by auto
  show ?case
  proof (cases "?p = [] \<or> es ! slot ?p = None")
    case True
    then show ?thesis
      using addEntry_fresh [OF True, of n ld h] put sets_fresh [OF len True leaf, of h] Suc.prems(4) t by simp
  next
    case False
    then obtain old where old: "es ! slot ?p = Some old" "?p \<noteq> []" by auto
    note old_ok = mtrie_ok_entry [OF ok old(1) slot_lt]
    have pos: "of_char (?p ! 0) = slot ?p" using old(2) by (simp add: slot_def)
    consider (same) "te_Path old = ?p"
      | (down) "is_manifest old" "prefix (te_Path old) ?p" "te_Path old \<noteq> ?p"
      | (split) "te_Path old \<noteq> ?p" "\<not> (is_manifest old \<and> prefix (te_Path old) ?p)" by blast
    then show ?thesis
    proof cases
      case same
      then show ?thesis using put sets_replace [OF len old(1) same old(2) leaf, of h] Suc.prems(4) old t pos by (simp add: Let_def)
    next
      case split
      have "n = Suc (n - 1)" using Suc.prems(1) old(2) by (cases n) auto
      then have "addEntry_bounded (Suc n) ld t e = Ret (ManifestTrie (es[slot ?p := Some (split_entry e old)]) None)"
        using addEntry_split [OF old split, of "n - 1" ld h] t by simp
      moreover have "mtrie_ok m (ManifestTrie (es[slot ?p := Some (split_entry e old)]) None)"
        using split_entry_Path [OF old_ok(1) old(2)] split_entry_ok [OF old_ok(2) e_ok _ split(2)] Suc.prems(4) old(2)
        by (intro mtrie_ok_put [OF ok]) (metis slot_Nil_iff(1))+
      moreover have "te_Path old \<noteq> []" using old_ok(1) old(2) by (metis slot_Nil_iff(2))
      then have "\<not> inner ld t ?p" using split(2) inner_entry [OF old(1), of ld h] t by blast
      then have "sets ld ?p (Some (doc e)) t (ManifestTrie (es[slot ?p := Some (split_entry e old)]) None)"
        unfolding t using split_entry_look [OF old_ok(1) old(2) split Suc.prems(4)] old(1)
          split_entry_inner [OF old_ok(1) old(2) split(2) Suc.prems(4)] split_entry_opens [OF split(2) Suc.prems(4)]
        by (intro sets_slot [OF len]) simp_all
      ultimately show ?thesis by simp
    next
      case down
      from descend [OF ok _ old(2,1) down(1,2)] down(3) Suc.prems(3) t obtain r s where
        r: "?p = te_Path old @ r" "r \<noteq> []" "length r < length ?p" and ne: "te_Path old \<noteq> []"
        and s: "subtrie_of ld old = Some s" "opens ld s r" "mtrie_ok m s"
        and ld: "loadSubTrie ld old = Ret (loaded old s, None)" "te_subtrie (loaded old s) = Some s"
        by metis
      let ?e = "with_Path r e"
      obtain s' where s': "addEntry_bounded n ld s ?e = Ret s'" "mtrie_ok m s'" "sets ld r (Some (doc e)) s s'"
        using Suc.IH [of ?e s] s(2,3) Suc.prems(1,4) r(1,3) entry_ok_with_Path [OF e_ok, of r] entry_ok_text [OF e_ok]
        by (auto simp: doc_def plain_text_def)
      let ?new = "with_Hash '''' (with_subtrie (Some s') (loaded old s))"
      have cpl: "cpl_loop ?p (te_Path old) = length (te_Path old)" using down(2) by (simp add: cpl_loop_prefix)
      have "addEntry_bounded (Suc n) ld t e = Ret (ManifestTrie (es[slot ?p := Some ?new]) None)"
        using old down t pos s' ld cpl r(1) by (simp add: Let_def)
      moreover have "mtrie_ok m (ManifestTrie (es[slot ?p := Some ?new]) None)"
        using loaded_ok(1) [OF old_ok(2) down(1) s'(2)] old_ok(1) ne by (intro mtrie_ok_put [OF ok]) auto
      moreover have "sets ld ?p (Some (doc e)) t (ManifestTrie (es[slot ?p := Some ?new]) None)"
        unfolding t using down(1) ne
        by (intro sets_below [OF len old(1) down(1) ne r(1,2) s(1) s'(3)])
           (auto simp: look_entry_def inner_of_def opens_entry_def)
      ultimately show ?thesis by simp
    qed
  qed
qed simp

lemma deleteEntry_bounded_sets:
  assumes "length p < n" "mtrie_ok m t" "opens ld t p" m
  shows "\<exists>t'. deleteEntry_bounded n ld t p = Ret t' \<and> mtrie_ok m t' \<and> mt_hash t' = None \<and> sets ld p None t t'"
  using assms
proof (induction n arbitrary: t p)
  case (Suc n)
  obtain es h where t: "t = ManifestTrie es h" by (cases t)
  note ok = Suc.prems(2) [unfolded t]
  have len: "length es = 257" using ok mtrie_ok_length by blast
  have none: "look_entry ld None q = (if q = p then None else None)" for q by simp
  show ?case
  proof (cases "p = [] \<or> es ! slot p = None")
    case True
    have "es[slot p := None] = es" if "p \<noteq> []" using True that by (metis list_update_id)
    then have "deleteEntry_bounded (Suc n) ld t p = Ret (ManifestTrie (es[slot p := None]) None)"
      using True t by (auto simp: slot_def)
    then show ?thesis using mtrie_ok_clear [OF ok] sets_fresh [OF len True none, of h] t by simp
  next
    case False
    then obtain e where e: "es ! slot p = Some e" "p \<noteq> []" by auto
    note e_ok = mtrie_ok_entry [OF ok e(1) slot_lt]
    have pos: "of_char (p ! 0) = slot p" using e(2) by (simp add: slot_def)
    consider (hit) "te_Path e = p"
      | (down) "is_manifest e" "prefix (te_Path e) p" "te_Path e \<noteq> p"
      | (miss) "te_Path e \<noteq> p" "\<not> (is_manifest e \<and> prefix (te_Path e) p)" by blast
    then show ?thesis
    proof cases
      case hit
      then show ?thesis using mtrie_ok_clear [OF ok] sets_replace [OF len e(1) hit e(2) none, of h] e t pos by simp
    next
      case miss
      have "te_Path e \<noteq> []" using e_ok(1) e(2) by (metis slot_Nil_iff(2))
      then have "\<not> inner ld t p" using miss(2) inner_entry [OF e(1), of ld h] t by blast
      then have "sets ld p None t (ManifestTrie (es[slot p := Some e]) None)"
        unfolding t using miss e(1) by (intro sets_slot [OF len]) (auto simp: look_entry_def)
      moreover have "es[slot p := Some e] = es" using e(1) by (metis list_update_id)
      ultimately show ?thesis
        using e miss t pos ok mtrie_ok_hash [OF ok] by (auto simp: Let_def take_eq_prefix [symmetric])
    next
      case down
      from descend [OF ok _ e(2,1) down(1,2)] down(3) Suc.prems(3) t obtain r s where
        r: "p = te_Path e @ r" "r \<noteq> []" "length r < length p" and ne: "te_Path e \<noteq> []"
        and s: "subtrie_of ld e = Some s" "opens ld s r" "mtrie_ok m s"
        and ld: "loadSubTrie ld e = Ret (loaded e s, None)" "te_subtrie (loaded e s) = Some s"
        by metis
      obtain s' where s': "deleteEntry_bounded n ld s r = Ret s'" "mtrie_ok m s'" "sets ld r None s s'"
        using Suc.IH [of r s] s(2,3) Suc.prems(1,4) r(3) by auto
      obtain k l where kl: "getCountLast s' = (k, l)" by (cases "getCountLast s'")
      let ?new = "if k < 2 then map_option (\<lambda>l. with_Path (te_Path e @ te_Path l) l) l
        else Some (with_Hash '''' (with_subtrie (Some s') (loaded e s)))"
      have "deleteEntry_bounded (Suc n) ld t p = Ret (ManifestTrie (es[slot p := ?new]) None)"
        using e down t pos s' kl ld r(1) by (simp add: Let_def)
      moreover have "slot_ok m (slot p) ?new"
        using collapse_ok [OF s'(2) kl _ ne] e_ok(1) ne loaded_ok(1) [OF e_ok(2) down(1) s'(2)] entry_ok_text [OF e_ok(2)]
        by (auto simp: slot_ok_def plain_text_def)
      then have "mtrie_ok m (ManifestTrie (es[slot p := ?new]) None)" by (rule mtrie_ok_update [OF ok])
      moreover have "sets ld p None t (ManifestTrie (es[slot p := ?new]) None)"
        unfolding t
        using collapse_look [of s' k l "te_Path e" ld] collapse_inner [of s' k l "te_Path e" ld]
          collapse_opens [of s' k l "te_Path e" _ ld] s'(2) kl ne down(1) Suc.prems(4)
        by (intro sets_below [OF len e(1) down(1) ne r(1,2) s(1) s'(3)])
           (auto simp: look_entry_def inner_of_def opens_entry_def split: if_splits)
      ultimately show ?thesis by simp
    qed
  qed
qed simp

text \<open>
  The search finds the longest prefix of the path that the map knows, but only along one
  branch: it may find nothing although a shorter prefix is known. A known path is found.
\<close>

lemma findPrefixOf_bounded_longest:
  assumes "length p < n" "mtrie_ok m t" "opens ld t p"
  shows "\<exists>found pos t'. findPrefixOf_bounded n ld t p = Ret ((found, pos), t') \<and> mtrie_ok m t'
    \<and> mt_hash t' = mt_hash t \<and> look ld t' = look ld t \<and> longest (look ld t) p found pos \<and> one_branch ld t p found pos"
  using assms
proof (induction n arbitrary: t p)
  case (Suc n)
  obtain es h where t: "t = ManifestTrie es h" by (cases t)
  note ok = Suc.prems(2) [unfolded t]
  have len: "length es = 257" using ok mtrie_ok_length by blast
  have pos: "of_char (p ! 0) = slot p" if "p \<noteq> []" using that by (simp add: slot_def)
  show ?case
  proof (cases "p = [] \<or> es ! slot p = None")
    case True
    have zero: "look ld t [] = map_option doc (es ! 256)"
      using mtrie_ok_entry(1) [OF ok, of 256]
      by (cases "es ! 256") (auto simp: t look_slot look_entry_def slot_Nil)
    have some: "look ld t (take k p) = None" if "0 < k" "p \<noteq> []" for k
      using True that slot_take [of p k] by (simp add: t look_slot)
    have "look ld t p = None" if "p \<noteq> []" using some [of "length p"] that by simp
    then have lng: "longest (look ld t) p (es ! 256) 0"
      using zero some by (cases "p = []") (auto simp: longest_def split: option.split)
    have "\<not> inner ld t (take j p)" if "0 < j" "j \<le> length p" for j
    proof -
      have "p \<noteq> []" using that by auto
      then show ?thesis using True slot_take [OF _ that(1)] by (simp add: t inner_slot)
    qed
    then have d: "deepest ld t p 0" by (simp add: deepest_def)
    have b: "\<not> blocked ld t p"
      using True mtrie_ok_entry(1) [OF ok, of 256] by (subst blocked.simps) (auto simp: t slot_Nil split: option.split)
    have "es ! 256 = None \<longleftrightarrow> (\<forall>j. 0 \<le> j \<and> j \<le> length p \<longrightarrow> look ld t (take j p) = None)"
    proof -
      have "look ld t (take j p) = None" if "es ! 256 = None" for j
        using that zero some [of j] by (cases "j = 0 \<or> p = []") auto
      moreover have "es ! 256 = None" if "\<forall>j. 0 \<le> j \<and> j \<le> length p \<longrightarrow> look ld t (take j p) = None"
        using spec [OF that, of 0] zero by simp
      ultimately show ?thesis by blast
    qed
    with d b have "one_branch ld t p (es ! 256) 0" unfolding one_branch_def by (intro exI [of _ 0]) simp
    then show ?thesis using lng True t ok pos by (auto simp: slot_def)
  next
    case False
    then obtain e where e: "es ! slot p = Some e" "p \<noteq> []" by auto
    note e_ok = mtrie_ok_entry [OF ok e(1) slot_lt]
    have ne: "te_Path e \<noteq> []" using e_ok(1) e(2) by (metis slot_Nil_iff(2))
    have here: "look ld t (take k p) = look_entry ld (Some e) (take k p)" "inner ld t (take k p) = inner_of ld (Some e) (take k p)" if "0 < k" for k
      using slot_take [OF e(2) that] e(1) by (simp_all add: t look_slot inner_slot)
    consider (leaf) "\<not> is_manifest e" "prefix (te_Path e) p"
      | (down) "is_manifest e" "prefix (te_Path e) p"
      | (miss) "\<not> prefix (te_Path e) p" by blast
    then show ?thesis
    proof cases
      case leaf
      then have "longest (look ld t) p (Some e) (length (te_Path e))"
        using here ne by (auto simp: longest_def prefix_def)
      moreover from this have "one_branch ld t p (Some e) (length (te_Path e))"
        using here(2) leaf e(1) unfolding one_branch_def deepest_def
        by (intro exI [of _ 0]) (subst blocked.simps, auto simp: t longest_def doc_def intro!: exI [of _ "length (te_Path e)"])
      ultimately show ?thesis using leaf e t ok pos by (auto simp: Let_def take_eq_prefix [symmetric])
    next
      case miss
      then have "longest (look ld t) p None 0"
        using here(1) [of "length p"] e(2) by (auto simp: longest_def look_entry_def)
      moreover have "\<not> inner ld t (take j p)" if "0 < j" for j
        using here(2) [OF that] miss prefix_order.trans [OF _ take_is_prefix [of j p]] by (auto simp: inner_of_def)
      moreover have "blocked ld t p" using e(1) miss by (subst blocked.simps) (simp add: t)
      ultimately have "longest (look ld t) p None 0 \<and> one_branch ld t p None 0"
        unfolding one_branch_def deepest_def by auto
      then show ?thesis using miss e t ok pos by (auto simp: Let_def take_eq_prefix [symmetric])
    next
      case down
      from descend [OF ok _ e(2,1) down] Suc.prems(3) t obtain r s where
        r: "p = te_Path e @ r" "length r < length p"
        and s: "subtrie_of ld e = Some s" "opens ld s r" "mtrie_ok m s"
        and ld: "loadSubTrie ld e = Ret (loaded e s, None)" "te_subtrie (loaded e s) = Some s"
        by metis
      obtain found k s' where s': "findPrefixOf_bounded n ld s r = Ret ((found, k), s')" "mtrie_ok m s'"
        "look ld s' = look ld s" "longest (look ld s) r found k" "one_branch ld s r found k"
        using Suc.IH [of r s] s(2,3) Suc.prems(1) r(2) by auto
      let ?new = "with_subtrie (Some s') (loaded e s)"
      have new: "look_entry ld (Some ?new) q = look_entry ld (Some e) q" for q
        using look_entry_subtrie [OF down(1) ne s(1)] s'(3) down(1) ne by (simp add: look_entry_def)
      have "findPrefixOf_bounded (Suc n) ld t p =
          Ret ((found, if found \<noteq> None then k + length (te_Path e) else k), ManifestTrie (es[slot p := Some ?new]) h)"
        using e down t pos s' ld r(1) ne by (simp add: Let_def)
      moreover have "mtrie_ok m (ManifestTrie (es[slot p := Some ?new]) h)"
        using loaded_ok(2) [OF e_ok(2) down(1) s'(2)] e_ok(1) ne unfolding mtrie_ok_hash [OF ok]
        by (intro mtrie_ok_put [OF ok]) auto
      moreover have "look ld (ManifestTrie (es[slot p := Some ?new]) h) = look ld t"
        using new e(1) len by (auto simp: t look_slot nth_list_update fun_eq_iff)
      moreover have below: "look ld t (te_Path e @ q) = look ld s q" for q
        using look_entry_subtrie [OF down(1) ne s(1)] e_ok(1) e(1) ne slot_prefix [of "te_Path e" "te_Path e @ q"]
        by (simp add: t look_slot)
      then have "longest (look ld t) p found (if found \<noteq> None then k + length (te_Path e) else k)"
        unfolding r(1) by (intro longest_below [OF s'(4) ne])
      moreover have "one_branch ld t p found (if found \<noteq> None then k + length (te_Path e) else k)"
      proof (rule one_branch_below [OF s'(5) r(1) ne below])
        have "es ! slot (te_Path e @ q) = Some e" for q using e(1) e_ok(1) ne slot_prefix [of "te_Path e" "te_Path e @ q"] by simp
        then show "inner ld t (te_Path e @ q) \<longleftrightarrow> q = [] \<or> inner ld s q" for q
          using inner_entry [of es "te_Path e @ q" e ld h] ne down(1) s(1) by (auto simp: t)
        show "blocked ld t p = blocked ld s r" using e(1) down s(1) ne r(1) by (subst blocked.simps) (simp add: t)
      qed
      ultimately show ?thesis using t by auto
    qed
  qed
qed simp

end

end
