(* ===== verification/Manifest_Store.thy ===== *)
theory Manifest_Store
  imports Manifest_Laws
begin

text \<open>
  Storing and loading manifests: \<open>loadManifest\<close> meets the contract of a loader, a table of
  entries is rebuilt from its JSON text, and a trie written by \<open>recalcAndStore\<close> is found again,
  with the same map, under the hash it returned.
\<close>

section \<open>The loader of the package\<close>

lemma of_json_simps [simp]:
  "te_Path (of_json j) = fst j" "te_subtrie (of_json j) = None" "entry_ok False (of_json j)"
  "of_json (to_json e) = with_subtrie None e"
  by (cases j; simp add: entry_ok_iff) (cases j; simp add: entry_ok_iff to_json_def; cases e; simp)+

context trie_loader
begin

lemma addEntries_shape:
  assumes "mtrie_ok m t" "addEntries ld t js = Ret t'" "\<not> m"
  shows "mtrie_ok m t'"
  using assms
proof (induction js arbitrary: t)
  case (Cons j js)
  then obtain j' t1 where t1: "j = Some j'" "addEntry ld t (of_json j') = Ret t1" "addEntries ld t1 js = Ret t'"
    by (cases j) (auto simp: go_bind_Ret_iff)
  have "mtrie_ok m t1"
    using addEntry_bounded_shape [of "of_json j'" "Suc (length (fst j'))" t] Cons.prems(1,3) t1(2) of_json_simps(3) [of j']
    by (simp add: addEntry_def shape_result_def)
  then show ?case using Cons.IH t1(3) Cons.prems(3) by blast
qed simp

lemma readManifest_shape:
  assumes "readManifest E ld R = Ret (Inr t)" "\<not> m"
  shows "mtrie_ok m t"
  using assms addEntries_shape [OF mtrie_ok_new _ assms(2)]
  by (auto simp: readManifest_def go_bind_Ret_iff split: prod.splits go.splits if_splits option.splits)

end

lemma loadManifest_shape: "loadManifest n E k = Ret (Inr t) \<Longrightarrow> mtrie_ok False t"
proof (induction n arbitrary: k t)
  case (Suc n)
  then have "trie_loader (loadManifest n E) False" by unfold_locales
  from trie_loader.readManifest_shape [OF this] Suc.prems show ?case by auto
qed simp

declare loadManifest.simps [simp del]

interpretation stored: trie_loader "loadManifest n E" False for n E
  by unfold_locales (rule loadManifest_shape)

section \<open>Rebuilding a table\<close>

lemma addEntries_append:
  "addEntries ld t (xs @ ys) = go_bind (addEntries ld t xs) (\<lambda>t'. addEntries ld t' ys)"
proof (induction ld t xs rule: addEntries.induct)
  case (3 ld t e es)
  then show ?case by (cases "addEntry ld t (of_json e)") auto
qed simp_all

definition entries_json :: "manifestTrieEntry option list \<Rightarrow> manifestJSON" where
  "entries_json es = map (map_option to_json) (filter (\<lambda>e. e \<noteq> None) es)"

definition stripped :: "manifestTrieEntry option list \<Rightarrow> manifestTrieEntry option list" where
  "stripped es = map (map_option (with_subtrie None)) es"

text \<open>Adding the entries of a table in order fills an empty table with them.\<close>

lemma addEntries_table:
  assumes "length es = 257" "\<And>i e. i < 257 \<Longrightarrow> es ! i = Some e \<Longrightarrow> slot (te_Path e) = i"
  shows "addEntries ld newTrie (entries_json es) = Ret (ManifestTrie (stripped es) None)"
proof -
  have "addEntries ld newTrie (entries_json (take k es)) =
      Ret (ManifestTrie (stripped (take k es) @ replicate (257 - k) None) None)" if "k \<le> 257" for k
    using that
  proof (induction k)
    case 0
    then show ?case by (simp add: entries_json_def stripped_def newTrie_def)
  next
    case (Suc k)
    have tk: "take (Suc k) es = take k es @ [es ! k]" using Suc.prems assms(1) by (simp add: take_Suc_conv_app_nth)
    have rep: "replicate (257 - k) (None :: manifestTrieEntry option) = None # replicate (257 - Suc k) None"
      using Suc.prems by (metis Suc_diff_Suc Suc_le_lessD replicate_Suc)
    have len: "length (stripped (take k es)) = k" using Suc.prems assms(1) by (simp add: stripped_def)
    note IH = Suc.IH [OF Suc_leD [OF Suc.prems]]
    show ?case
    proof (cases "es ! k")
      case None
      then show ?thesis using IH tk rep by (simp add: entries_json_def stripped_def)
    next
      case (Some e)
      let ?t = "stripped (take k es) @ replicate (257 - k) None"
      have sl: "slot (te_Path (with_subtrie None e)) = k" using assms(2) [of k e] Some Suc.prems by simp
      have "?t ! k = None" using len rep by (simp add: nth_append)
      then have "addEntry ld (ManifestTrie ?t None) (with_subtrie None e) =
          Ret (ManifestTrie (?t[k := Some (with_subtrie None e)]) None)"
        using addEntry_fresh [of "with_subtrie None e" ?t _ ld None] sl by (simp only: addEntry_def simp_thms)
      moreover have "?t[k := Some (with_subtrie None e)] = stripped (take (Suc k) es) @ replicate (257 - Suc k) None"
        using len rep tk Some by (simp add: list_update_append stripped_def)
      ultimately show ?thesis
        using IH tk Some addEntries_append [of ld newTrie "entries_json (take k es)" "[Some (to_json e)]"]
        by (simp add: entries_json_def)
    qed
  qed
  from this [of 257] show ?thesis using assms(1) by simp
qed

section \<open>Reading a stored manifest\<close>

lemma Size_served:
  assumes "chunker_ok T" "1 < branches T" "reader_clean r" "sz = length (reader_content r)"
    "sz \<le> chunkSize T * branches T ^ m" "chunkSize T * branches T ^ m < 2 ^ 63"
    "TreeChunker_Split T swg r sz = Ret (key, cs)" "serves f cs"
  shows "length key = hashSize T"
    "\<exists>c. ch_Size c = int sz \<and> LazyChunkReader_Size f (TreeChunker_Join T key) =
      (Ret (int sz), (TreeChunker_Join T key)\<lparr>lr_chunk := Some c\<rparr>)"
proof -
  obtain d t where m: "merkle T swg d t (reader_content r) = (key, cs)"
    using Split_merkle [OF assms(1-6), of swg] assms(7) by auto
  then show "length key = hashSize T" using merkle_key(2) [OF assms(1), of swg d t "reader_content r"] by simp
  show "\<exists>c. ch_Size c = int sz \<and> LazyChunkReader_Size f (TreeChunker_Join T key) =
      (Ret (int sz), (TreeChunker_Join T key)\<lparr>lr_chunk := Some c\<rparr>)"
    using retrieve_served [OF assms(1), of f swg d t "reader_content r"] m assms(4,8)
    by (auto simp: root_reply_def LazyChunkReader_Size_def TreeChunker_Join_def split: option.splits)
qed

lemma ReadAt_after_Size:
  assumes "LazyChunkReader_Size f R = (Ret sz, R\<lparr>lr_chunk := Some c\<rparr>)" "ch_Size c = sz"
  shows "fst (LazyChunkReader_ReadAt f (R\<lparr>lr_chunk := Some c\<rparr>) b off) = fst (LazyChunkReader_ReadAt f R b off)"
proof -
  have "LazyChunkReader_Size f (R\<lparr>lr_chunk := Some c\<rparr>) = (Ret sz, R\<lparr>lr_chunk := Some c\<rparr>)"
    using assms(2) by (simp add: LazyChunkReader_Size_def)
  then show ?thesis by (simp add: LazyChunkReader_ReadAt_def assms(1) split: option.split)
qed

text \<open>A manifest that was stored and whose chunks are served is read back.\<close>

lemma readManifest_stored:
  assumes T: "chunker_ok (me_chunker E)" "1 < branches (me_chunker E)"
    and d: "d \<noteq> []" "length d \<le> chunkSize (me_chunker E) * branches (me_chunker E) ^ mm"
      "chunkSize (me_chunker E) * branches (me_chunker E) ^ mm < 2 ^ 63"
    and st: "DPA_Store E swg [(d, None)] (length d) = Ret (key, cs)"
    and E': "me_chunker E' = me_chunker E" "serves (me_fetch E') cs" "me_Unmarshal E' d = Some js"
  shows "readManifest E' ld (DPA_Retrieve E' key) = go_bind (addEntries ld newTrie js) (\<lambda>t. Ret (Inr t))"
    "length key = hashSize (me_chunker E)"
proof -
  have clean: "reader_clean [(d, None)]" "length d = length (reader_content [(d, None)])"
    by (simp_all add: reader_clean_def)
  note hyps = T clean d(2,3) st [unfolded DPA_Store_def] E'(2)
  show "length key = hashSize (me_chunker E)" by (rule Size_served(1) [OF hyps])
  let ?R = "TreeChunker_Join (me_chunker E) key" and ?b = "replicate (length d) (0 :: byte)"
  obtain c where c: "ch_Size c = int (length d)"
    "LazyChunkReader_Size (me_fetch E') ?R = (Ret (int (length d)), ?R\<lparr>lr_chunk := Some c\<rparr>)"
    using Size_served(2) [OF hyps] by blast
  have "fst (LazyChunkReader_ReadAt (me_fetch E') (?R\<lparr>lr_chunk := Some c\<rparr>) ?b 0) = Ret (length d, d, Some EOF)"
    using ReadAt_slice [OF hyps, of ?b 0] d(1) ReadAt_after_Size [OF c(2,1)] by simp
  then obtain R' where "LazyChunkReader_Read (me_fetch E') (?R\<lparr>lr_chunk := Some c\<rparr>) ?b = (Ret (length d, d, Some EOF), R')"
    by (cases "LazyChunkReader_ReadAt (me_fetch E') (?R\<lparr>lr_chunk := Some c\<rparr>) ?b 0")
       (simp add: LazyChunkReader_Read_def TreeChunker_Join_def)
  then show "readManifest E' ld (DPA_Retrieve E' key) = go_bind (addEntries ld newTrie js) (\<lambda>t. Ret (Inr t))"
    using c(2) E'(1,3) by (simp add: readManifest_def DPA_Retrieve_def)
qed

section \<open>The map under a larger loader\<close>

definition extends :: "loader \<Rightarrow> loader \<Rightarrow> bool" where
  "extends ld ld' \<longleftrightarrow> (\<forall>k t. ld k = Ret (Inr t) \<longrightarrow> ld' k = Ret (Inr t))"

lemma subtrie_of_extends: "extends ld ld' \<Longrightarrow> subtrie_of ld e = Some s \<Longrightarrow> subtrie_of ld' e = Some s"
  by (auto simp: subtrie_of_def extends_def split: option.splits go.splits sum.splits)

lemma look_extends: "extends ld ld' \<Longrightarrow> opens ld t p \<Longrightarrow> opens ld' t p \<and> look ld' t p = look ld t p"
proof (induction ld t p rule: look.induct)
  case (1 ld t p)
  show ?case
  proof (cases "mt_entries t ! slot p")
    case None
    then show ?thesis by (simp add: look.simps [of _ t p] opens.simps [of _ t p])
  next
    case (Some e)
    show ?thesis
    proof (cases "is_manifest e \<and> te_Path e \<noteq> [] \<and> prefix (te_Path e) p")
      case True
      then obtain s where s: "subtrie_of ld e = Some s" "opens ld s (drop (length (te_Path e)) p)"
        using "1.prems"(2) Some by (subst (asm) opens.simps) (auto split: option.splits)
      then show ?thesis
        using "1.IH" [OF Some _ _ s(1)] True "1.prems"(1) subtrie_of_extends [OF "1.prems"(1) s(1)] Some
        by (simp add: look.simps [of _ t p] opens.simps [of _ t p])
    next
      case False
      then show ?thesis using Some by (auto simp: look.simps [of _ t p] opens.simps [of _ t p])
    qed
  qed
qed

text \<open>All subtries of a trie can be loaded, and they are nested at most \<open>m\<close> deep.\<close>

primrec listable :: "loader \<Rightarrow> nat \<Rightarrow> manifestTrie \<Rightarrow> bool" where
  "listable ld 0 t \<longleftrightarrow> False"
| "listable ld (Suc m) t \<longleftrightarrow> (\<forall>e. Some e \<in> set (mt_entries t) \<longrightarrow> is_manifest e \<longrightarrow>
     (\<exists>sub. subtrie_of ld e = Some sub \<and> listable ld m sub))"

definition listable_entry :: "loader \<Rightarrow> nat \<Rightarrow> manifestTrieEntry option \<Rightarrow> bool" where
  "listable_entry ld m x \<longleftrightarrow> (\<forall>e. x = Some e \<longrightarrow> is_manifest e \<longrightarrow> (\<exists>sub. subtrie_of ld e = Some sub \<and> listable ld m sub))"

lemma listable_entries: "listable ld (Suc m) t \<longleftrightarrow> (\<forall>x \<in> set (mt_entries t). listable_entry ld m x)"
  by (auto simp: listable_entry_def)

lemma listable_mono: "m \<le> m' \<Longrightarrow> listable ld m t \<Longrightarrow> listable ld m' t"
proof (induction m arbitrary: m' t)
  case (Suc m)
  obtain k where k: "m' = Suc k" "m \<le> k" using Suc.prems(1) by (cases m') auto
  show ?case using Suc.prems(2) Suc.IH [OF k(2)] unfolding k(1) listable.simps by blast
qed simp

lemma listable_extends: "extends ld ld' \<Longrightarrow> listable ld m t \<Longrightarrow> listable ld' m t"
proof (induction m arbitrary: t)
  case (Suc m)
  show ?case unfolding listable.simps
  proof (intro allI impI)
    fix e
    assume "Some e \<in> set (mt_entries t)" "is_manifest e"
    then obtain sub where "subtrie_of ld e = Some sub" "listable ld m sub" using Suc.prems(2) by auto
    then show "\<exists>sub. subtrie_of ld' e = Some sub \<and> listable ld' m sub"
      using subtrie_of_extends [OF Suc.prems(1)] Suc.IH [OF Suc.prems(1)] by blast
  qed
qed simp

section \<open>Storing a trie and loading it again\<close>

text \<open>
  \<open>encoding/json\<close> reads plain text back as it wrote it. \<open>B\<close> bounds the length of the texts it
  returns.
\<close>

definition json_exact :: "man_env \<Rightarrow> nat \<Rightarrow> bool" where
  "json_exact E B \<longleftrightarrow> (\<forall>js d. (\<forall>j \<in> set js. plain_text (of_json j)) \<and> me_Marshal E (map Some js) = Some d \<longrightarrow>
     d \<noteq> [] \<and> length d \<le> B \<and> me_Unmarshal E d = Some (map Some js))"

text \<open>
  \<open>E\<close> is the environment in which a trie is stored, \<open>E'\<close> a later one: keys have 32 bytes, as
  those of SHA3 and SHA256, and what could be loaded still can.
\<close>

definition later :: "man_env \<Rightarrow> man_env \<Rightarrow> nat \<Rightarrow> nat \<Rightarrow> bool" where
  "later E E' mm n \<longleftrightarrow>
     (let T = me_chunker E in
      chunker_ok T \<and> 1 < branches T \<and> hashSize T = 32 \<and> chunkSize T * branches T ^ mm < 2 ^ 63
      \<and> json_exact E (chunkSize T * branches T ^ mm)
      \<and> me_chunker E' = T \<and> me_Unmarshal E' = me_Unmarshal E
      \<and> extends (loadManifest n E) (loadManifest (Suc n) E'))"

definition good_entry :: "manifestTrieEntry \<Rightarrow> bool" where
  "good_entry e \<longleftrightarrow> entry_ok True e \<and> (is_manifest e \<longrightarrow> te_Path e \<noteq> [])"

text \<open>An entry and what was stored for it have the same part in the map.\<close>

definition reloaded :: "loader \<Rightarrow> loader \<Rightarrow> manifestTrieEntry option \<Rightarrow> manifestTrieEntry option \<Rightarrow> bool" where
  "reloaded ld ld' x y \<longleftrightarrow>
     (case (x, y) of
        (None, None) \<Rightarrow> True
      | (Some e, Some e') \<Rightarrow> te_Path e' = te_Path e \<and> plain_text e'
          \<and> (\<forall>q. opens_entry ld x q \<longrightarrow> opens_entry ld' (Some (with_subtrie None e')) q
               \<and> look_entry ld' (Some (with_subtrie None e')) q = look_entry ld x q)
          \<and> (\<forall>m. listable_entry ld m x \<longrightarrow> listable_entry ld' m (Some (with_subtrie None e')))
      | _ \<Rightarrow> False)"

definition same_map :: "loader \<Rightarrow> loader \<Rightarrow> manifestTrie \<Rightarrow> manifestTrie \<Rightarrow> bool" where
  "same_map ld ld' t t' \<longleftrightarrow> (\<forall>p. opens ld t p \<longrightarrow> opens ld' t' p \<and> look ld' t' p = look ld t p)
     \<and> (\<forall>m. listable ld m t \<longrightarrow> listable ld' m t')"

lemma ascii_hex_encode: "ascii (hex_encode k)"
proof (induction k)
  case (Cons b k)
  have "of_char (hex_digit i) < (128 :: nat)" if "i < 16" for i
    using that by (auto simp: hex_digit_def of_char_of)
  moreover have "unat b div 16 < 16" using unat_byte_lt [of b] by (simp add: div_less_iff_less_mult)
  ultimately show ?case using Cons by (simp add: ascii_def)
qed (simp add: ascii_def)

lemma Key_String_32: "length k = 32 \<Longrightarrow> Hex2Bytes (Key_String k) = k \<and> ascii (Key_String k)"
  by (simp add: Key_String_def ascii_hex_encode)

lemma reloaded_unchanged:
  assumes "good_entry e" "te_Hash e \<noteq> ''''" "extends ld ld'"
  shows "reloaded ld ld' (Some e) (Some e)"
proof -
  have "te_subtrie e = None" using assms(1,2) by (simp add: good_entry_def entry_ok_iff split: option.splits)
  then have e: "with_subtrie None e = e" by (cases e) simp
  have "opens_entry ld' (Some e) q \<and> look_entry ld' (Some e) q = look_entry ld (Some e) q"
    if "opens_entry ld (Some e) q" for q
    using that subtrie_of_extends [OF assms(3)] look_extends [OF assms(3)]
    by (auto simp: opens_entry_def look_entry_def)
  moreover have "listable_entry ld m (Some e) \<longrightarrow> listable_entry ld' m (Some e)" for m
    using subtrie_of_extends [OF assms(3)] listable_extends [OF assms(3)] by (auto simp: listable_entry_def)
  moreover have "plain_text e" using assms(1) by (simp add: good_entry_def entry_ok_iff)
  ultimately show ?thesis by (simp add: reloaded_def e)
qed

lemma reloaded_subtrie:
  assumes "good_entry (ManifestTrieEntry p '''' c s (Some sub))" "length k = 32"
    "ld' k = Ret (Inr t)" "same_map ld ld' sub t"
  shows "reloaded ld ld' (Some (ManifestTrieEntry p '''' c s (Some sub)))
    (Some (ManifestTrieEntry p (Key_String k) c s (Some sub')))"
proof -
  have c: "c = manifestType" "p \<noteq> []" "ascii p" "ascii c"
    using assms(1) by (auto simp: good_entry_def entry_ok_iff plain_text_def)
  have "subtrie_of ld' (ManifestTrieEntry p (Key_String k) c s None) = Some t"
    using assms(2,3) Key_String_32 by (simp add: subtrie_of_def)
  moreover have "subtrie_of ld (ManifestTrieEntry p '''' c s (Some sub)) = Some sub" by (simp add: subtrie_of_def)
  ultimately show ?thesis
    using c assms(2,4) Key_String_32
    by (auto simp: reloaded_def plain_text_def opens_entry_def look_entry_def same_map_def listable_entry_def)
qed

lemma same_map_stored:
  assumes "list_all2 (reloaded ld ld') es es'" "length es = 257"
  shows "same_map ld ld' (ManifestTrie es h) (ManifestTrie (stripped es') None)"
  unfolding same_map_def
proof (intro conjI allI impI)
  fix m
  assume "listable ld m (ManifestTrie es h)"
  then obtain m' where m: "m = Suc m'" "\<forall>x \<in> set es. listable_entry ld m' x" by (cases m) (auto simp: listable_entry_def)
  have "listable_entry ld' m' (map_option (with_subtrie None) y)" if "reloaded ld ld' x y" "listable_entry ld m' x" for x y
    using that by (auto simp: reloaded_def listable_entry_def split: option.splits)
  then have "\<forall>y \<in> set es'. listable_entry ld' m' (map_option (with_subtrie None) y)"
    using assms(1) m(2) by (metis in_set_conv_nth list_all2_conv_all_nth)
  then show "listable ld' m (ManifestTrie (stripped es') None)"
    unfolding m(1) listable_entries by (auto simp: stripped_def)
next
  fix p
  assume "opens ld (ManifestTrie es h) p"
  then have "opens_entry ld (es ! slot p) p" by (simp add: opens_slot)
  moreover have "reloaded ld ld' (es ! slot p) (es' ! slot p)" "stripped es' ! slot p = map_option (with_subtrie None) (es' ! slot p)"
    using assms list_all2_nthD [OF assms(1), of "slot p"] list_all2_lengthD [OF assms(1)] by (simp_all add: stripped_def)
  ultimately show "opens ld' (ManifestTrie (stripped es') None) p"
      "look ld' (ManifestTrie (stripped es') None) p = look ld (ManifestTrie es h) p"
    by (auto simp: look_slot opens_slot reloaded_def split: option.splits)
qed

lemma mtrie_ok_good:
  assumes "mtrie_ok True (ManifestTrie es h)" "Some e \<in> set es"
  shows "good_entry e"
proof -
  obtain i where "i < 257" "es ! i = Some e"
    using assms mtrie_ok_length by (metis in_set_conv_nth)
  then show ?thesis
    using mtrie_ok_entry [OF assms(1), of i e] by (auto simp: good_entry_def)
qed

text \<open>The root of a trie, once its entries are stored.\<close>

lemma root_stored:
  assumes later: "later E E' mm n" and ok: "mtrie_ok m (ManifestTrie es None)"
    and es': "list_all2 (reloaded (loadManifest n E) (loadManifest (Suc n) E')) es es'"
    and st: "me_Marshal E (entries_json es') = Some d" "DPA_Store E wg [(d, None)] (length d) = Ret (key, cs)"
    and sv: "serves (me_fetch E') cs"
  shows "length key = 32 \<and> loadManifest (Suc n) E' key = Ret (Inr (ManifestTrie (stripped es') None))"
proof -
  have len: "length es' = 257" using es' ok list_all2_lengthD mtrie_ok_length by metis
  have re: "reloaded (loadManifest n E) (loadManifest (Suc n) E') (es ! i) (es' ! i)" if "i < 257" for i
    using that len list_all2_nthD2 [OF es'] by simp
  have slots: "slot (te_Path e) = i" if "i < 257" "es' ! i = Some e" for i e
    using re [OF that(1)] that mtrie_ok_entry(1) [OF ok _ that(1)] by (auto simp: reloaded_def split: option.splits)
  let ?js = "map (\<lambda>x. to_json (the x)) (filter (\<lambda>x. x \<noteq> None) es')"
  have js: "entries_json es' = map Some ?js" by (auto simp: entries_json_def)
  have "plain_text (with_subtrie None e)" if e: "Some e \<in> set es'" for e
  proof -
    obtain i where "i < 257" "es' ! i = Some e" using e len by (metis in_set_conv_nth)
    then show ?thesis using re [of i] by (simp add: reloaded_def split: option.splits)
  qed
  then have "\<forall>j \<in> set ?js. plain_text (of_json j)" by auto
  moreover note later [unfolded later_def Let_def]
  ultimately have d: "d \<noteq> []" "length d \<le> chunkSize (me_chunker E) * branches (me_chunker E) ^ mm"
    "me_Unmarshal E d = Some (entries_json es')"
    using st(1) unfolding json_exact_def js by blast+
  note env = later [unfolded later_def Let_def]
  have tab: "addEntries (loadManifest n E') newTrie (entries_json es') = Ret (ManifestTrie (stripped es') None)"
    using addEntries_table [OF len slots] .
  show ?thesis
    using readManifest_stored [OF _ _ d(1,2) _ st(2) _ sv, of "entries_json es'"] tab env d(3)
    by (simp add: loadManifest.simps)
qed

lemma recalc_reloads:
  "\<lbrakk>later E E' mm n; recalcAndStore E t = Ret (None, t', cs); mtrie_ok True t; serves (me_fetch E') cs\<rbrakk>
    \<Longrightarrow> \<exists>k t2. mt_hash t' = Some k \<and> length k = 32 \<and> loadManifest (Suc n) E' k = Ret (Inr t2)
          \<and> same_map (loadManifest n E) (loadManifest (Suc n) E') t t2"
  "\<lbrakk>later E E' mm n; recalc_entries E es = Ret (None, es', cs); \<forall>e. Some e \<in> set es \<longrightarrow> good_entry e; serves (me_fetch E') cs\<rbrakk>
    \<Longrightarrow> list_all2 (reloaded (loadManifest n E) (loadManifest (Suc n) E')) es es'"
  "\<lbrakk>later E E' mm n; recalc_entry E e = Ret (None, e', cs); good_entry e; serves (me_fetch E') cs\<rbrakk>
    \<Longrightarrow> reloaded (loadManifest n E) (loadManifest (Suc n) E') (Some e) (Some e')"
proof (induction E t and E es and E e arbitrary: t' cs and es' cs and e' cs
    rule: recalcAndStore_recalc_entries_recalc_entry.induct)
  case (1 E es h)
  have h: "h = None" using "1.prems"(3) mtrie_ok_hash by blast
  obtain es' cs1 d key cs2 where r: "recalc_entries E es = Ret (None, es', cs1)" "me_Marshal E (entries_json es') = Some d"
    "DPA_Store E (me_wg E) [(d, None)] (length d) = Ret (key, cs2)" "t' = ManifestTrie es' (Some key)" "cs = cs1 @ cs2"
    using "1.prems"(2) h
    by (auto simp: go_bind_Ret_iff entries_json_def split: if_splits option.splits go.splits split_error.splits)
  have good: "\<forall>e. Some e \<in> set es \<longrightarrow> good_entry e"
    using mtrie_ok_good [OF "1.prems"(3)] by blast
  have re: "list_all2 (reloaded (loadManifest n E) (loadManifest (Suc n) E')) es es'"
    using "1.IH" [OF _ "1.prems"(1) r(1) good] h "1.prems"(4) r(5) by simp
  have "same_map (loadManifest n E) (loadManifest (Suc n) E') (ManifestTrie es h) (ManifestTrie (stripped es') None)"
    using same_map_stored [OF re] "1.prems"(3) mtrie_ok_length by blast
  then show ?case
    using root_stored [OF "1.prems"(1) _ re r(2,3)] "1.prems"(3,4) h r(4,5) by (metis manifestTrie.sel(2) serves_append)
next
  case (2 E)
  then show ?case by simp
next
  case (3 E es)
  then show ?case by (auto simp: go_bind_Ret_iff reloaded_def)
next
  case (4 E e es)
  obtain e1 cs1 es1 cs2 where r: "recalc_entry E e = Ret (None, e1, cs1)" "recalc_entries E es = Ret (None, es1, cs2)"
    "es' = Some e1 # es1" "cs = cs1 @ cs2"
    using "4.prems"(2) by (auto simp: go_bind_Ret_iff split: if_splits)
  then show ?case
    using "4.IH"(1) [OF "4.prems"(1) r(1)] "4.IH"(2) [OF _ "4.prems"(1) r(2)] "4.prems"(3,4) by simp
next
  case (5 E p h c s st)
  show ?case
  proof (cases "h = ''''")
    case True
    then obtain sub sub' cs0 where r: "st = Some sub" "recalcAndStore E sub = Ret (None, sub', cs0)"
      "e' = ManifestTrieEntry p (Key_String (case mt_hash sub' of None \<Rightarrow> [] | Some k \<Rightarrow> k)) c s (Some sub')" "cs = cs0"
      using "5.prems"(2) by (auto simp: go_bind_Ret_iff split: if_splits option.splits)
    moreover have "mtrie_ok True sub" using "5.prems"(3) r(1) by (simp add: good_entry_def entry_ok_iff)
    moreover have "serves (me_fetch E') cs0" using "5.prems"(4) r(4) by simp
    ultimately obtain k t2 where "mt_hash sub' = Some k" "length k = 32" "loadManifest (Suc n) E' k = Ret (Inr t2)"
      "same_map (loadManifest n E) (loadManifest (Suc n) E') sub t2"
      using "5.IH" True "5.prems"(1) by blast
    then show ?thesis using reloaded_subtrie "5.prems"(3) True r(1,3) by (simp add: reloaded_subtrie)
  next
    case False
    then have "e' = ManifestTrieEntry p h c s st" using "5.prems"(2) by simp
    then show ?thesis
      using reloaded_unchanged [OF "5.prems"(3)] False "5.prems"(1) by (simp add: later_def Let_def)
  qed
qed

end
