(* ===== verification/Api.thy ===== *)
theory Api
  imports Manifest
begin

text \<open>
  \<open>api/api.go\<close>, \<open>api/storage.go\<close> and the manifest part of \<open>FileSystem.Upload\<close> (\<open>api/filesystem.go\<close>):
  documents under a content hash and a path. The name resolver (\<open>dns\<close>) is a parameter: for a
  name it gives the 32 bytes of a hash, and an error or none. Where an operation stores
  documents the chunks it hands to the store are part of the result.
\<close>

section \<open>Names and paths\<close>

datatype api_error =
    NotContentHash string
  | ErrResolve string
  | EManifest manifest_error
  | EntryNotFound string
  | EStore io_error
  | EReader join_error
  | EFile nat
  | EMessage string

type_synonym resolver = "string \<Rightarrow> Key \<times> string option"

definition hashMatcher :: "string \<Rightarrow> bool" where
  "hashMatcher s \<longleftrightarrow> 64 \<le> length s \<and> list_all (\<lambda>c. from_hex_digit c \<noteq> None) (take 64 s)"

definition Api_Resolve :: "resolver option \<Rightarrow> string \<Rightarrow> bool \<Rightarrow> Key \<times> api_error option" where
  "Api_Resolve dns hostPort nameresolver =
     (if hashMatcher hostPort \<or> dns = None then (Hex2Bytes hostPort, None)
      else if \<not> nameresolver then ([], Some (NotContentHash hostPort))
      else case dns of
        None \<Rightarrow> ([], None)
      | Some resolve \<Rightarrow> (case resolve hostPort of (contentHash, err) \<Rightarrow> (contentHash, map_option ErrResolve err)))"

text \<open>
  \<open>slashes.Split(s, n)\<close>: at most \<open>n\<close> pieces between runs of slashes, the last one not split.
\<close>

fun slashes_Split :: "nat \<Rightarrow> string \<Rightarrow> string list" where
  "slashes_Split 0 s = []"
| "slashes_Split (Suc 0) s = [s]"
| "slashes_Split (Suc (Suc n)) s =
     (if CHR ''/'' \<in> set s
      then takeWhile (\<lambda>c. c \<noteq> CHR ''/'') s
        # slashes_Split (Suc n) (dropWhile (\<lambda>c. c = CHR ''/'') (dropWhile (\<lambda>c. c \<noteq> CHR ''/'') s))
      else [s])"

text \<open>The index of the first part that is not empty; past the end the access panics.\<close>

fun first_part :: "string list \<Rightarrow> nat \<Rightarrow> nat option" where
  "first_part [] i = None"
| "first_part (p # ps) i = (if length p = 0 then first_part ps (Suc i) else Some i)"

fun join_parts :: "string list \<Rightarrow> string \<Rightarrow> string" where
  "join_parts [] path = path"
| "join_parts (p # ps) path = join_parts ps (if length path > 0 then path @ ''/'' @ p else p)"

definition parse :: "string \<Rightarrow> (string \<times> string) mrun" where
  "parse uri =
     (let parts = slashes_Split 3 uri in
      if length parts = 0 then Ret ([], [])
      else case first_part parts 0 of
        None \<Rightarrow> Panic
      | Some i \<Rightarrow> Ret (parts ! i, join_parts (drop (Suc i) parts) []))"

definition parseAndResolve :: "resolver option \<Rightarrow> string \<Rightarrow> bool \<Rightarrow> (Key \<times> string \<times> string \<times> api_error option) mrun" where
  "parseAndResolve dns uri nameresolver =
     go_bind (parse uri) (\<lambda>(hostPort, path).
       case Api_Resolve dns hostPort nameresolver of (contentHash, err) \<Rightarrow> Ret (contentHash, hostPort, path, err))"

section \<open>Documents\<close>

definition bytes_of :: "string \<Rightarrow> bytes" where
  "bytes_of s = map (\<lambda>c. of_nat (of_char c)) s"

definition Api_Retrieve :: "man_env \<Rightarrow> Key \<Rightarrow> LazyChunkReader" where
  "Api_Retrieve E key = DPA_Retrieve E key"

definition Api_Store :: "man_env \<Rightarrow> nat option \<Rightarrow> reader \<Rightarrow> nat \<Rightarrow> (api_error + Key \<times> Chunk list) mrun" where
  "Api_Store E wg data sz =
     (case DPA_Store E wg data sz of
        Panic \<Rightarrow> Panic
      | Err NoReturn \<Rightarrow> Err OutOfFuel
      | Err (ReadError e) \<Rightarrow> Ret (Inl (EStore e))
      | Ret r \<Rightarrow> Ret (Inr r))"

text \<open>
  Reading a document from its start to its end, as \<open>io.CopyN\<close> does with the size the reader gives; the
  reads of the copy are joined into one.
\<close>

definition read_document :: "fetch \<Rightarrow> LazyChunkReader \<Rightarrow> (join_error, bytes) go" where
  "read_document fetch reader =
     (case LazyChunkReader_Size fetch reader of
        (Panic, _) \<Rightarrow> Panic
      | (Err e, _) \<Rightarrow> Err e
      | (Ret sz, reader') \<Rightarrow>
          (case LazyChunkReader_ReadAt fetch reader' (replicate (nat sz) 0) 0 of
             (Panic, _) \<Rightarrow> Panic
           | (Err e, _) \<Rightarrow> Err e
           | (Ret (_, body, _), _) \<Rightarrow> Ret body))"

definition put_manifest :: "Key \<Rightarrow> string \<Rightarrow> string" where
  "put_manifest key contentType =
     ''{'' @ [quote] @ ''entries'' @ [quote] @ '':[{'' @ [quote] @ ''hash'' @ [quote] @ '':'' @ [quote]
       @ Key_String key @ [quote] @ '','' @ [quote] @ ''contentType'' @ [quote] @ '':'' @ [quote]
       @ contentType @ [quote] @ ''}]}''"

definition Api_Put :: "man_env \<Rightarrow> string \<Rightarrow> string \<Rightarrow> (api_error + string \<times> Chunk list) mrun" where
  "Api_Put E content contentType =
     go_bind (Api_Store E (me_wg E) [(bytes_of content, None)] (length content)) (\<lambda>r.
       case r of
         Inl err \<Rightarrow> Ret (Inl err)
       | Inr (key, cs) \<Rightarrow>
           let manifest = put_manifest key contentType in
           go_bind (Api_Store E (me_wg E) [(bytes_of manifest, None)] (length manifest)) (\<lambda>r'.
             case r' of
               Inl err \<Rightarrow> Ret (Inl err)
             | Inr (key', cs') \<Rightarrow> Ret (Inr (Key_String key', cs @ cs'))))"

text \<open>
  \<open>Get\<close>: the error of the resolution is overwritten by that of \<open>loadManifest\<close>. \<open>n\<close> bounds the
  nesting of manifests that load manifests.
\<close>

definition Api_Get :: "nat \<Rightarrow> man_env \<Rightarrow> resolver option \<Rightarrow> string \<Rightarrow> bool
    \<Rightarrow> (api_error + LazyChunkReader \<times> string \<times> int) mrun" where
  "Api_Get n E dns uri nameresolver =
     go_bind (parseAndResolve dns uri nameresolver) (\<lambda>(key, _, path, _).
       go_bind (loadManifest n E key) (\<lambda>r.
         case r of
           Inl err \<Rightarrow> Ret (Inl (EManifest err))
         | Inr trie \<Rightarrow>
             go_bind (getEntry (loadManifest n E) trie path) (\<lambda>((entry, _), _).
               case entry of
                 Some e \<Rightarrow> Ret (Inr (DPA_Retrieve E (Hex2Bytes (te_Hash e)), te_ContentType e, te_Status e))
               | None \<Rightarrow> Ret (Inl (EntryNotFound path)))))"

definition Api_Modify :: "nat \<Rightarrow> man_env \<Rightarrow> resolver option \<Rightarrow> string \<Rightarrow> string \<Rightarrow> string \<Rightarrow> bool
    \<Rightarrow> (api_error + string \<times> Chunk list) mrun" where
  "Api_Modify n E dns uri contentHash contentType nameresolver =
     go_bind (parseAndResolve dns uri nameresolver) (\<lambda>(root, _, path, _).
       go_bind (loadManifest n E root) (\<lambda>r.
         case r of
           Inl err \<Rightarrow> Ret (Inl (EManifest err))
         | Inr trie \<Rightarrow>
             go_bind (if contentHash \<noteq> ''''
                      then addEntry (loadManifest n E) trie (ManifestTrieEntry path contentHash contentType 0 None)
                      else deleteEntry (loadManifest n E) trie path) (\<lambda>trie'.
               go_bind (recalcAndStore E trie') (\<lambda>(err, trie'', cs).
                 case err of
                   Some e \<Rightarrow> Ret (Inl (EManifest e))
                 | None \<Rightarrow> Ret (Inr (Key_String (case mt_hash trie'' of None \<Rightarrow> [] | Some k \<Rightarrow> k), cs))))))"

section \<open>The storage service\<close>

record Response =
  rs_MimeType :: string
  rs_Status :: int
  rs_Size :: int
  rs_Content :: bytes

definition Storage_Put :: "man_env \<Rightarrow> string \<Rightarrow> string \<Rightarrow> (api_error + string \<times> Chunk list) mrun" where
  "Storage_Put E content contentType = Api_Put E content contentType"

text \<open>
  \<open>Get\<close>: the response comes with the error of a read that fell short. \<open>make([]byte, expsize)\<close>
  panics for a negative size.
\<close>

definition Storage_Get :: "nat \<Rightarrow> man_env \<Rightarrow> resolver option \<Rightarrow> string \<Rightarrow> (api_error + Response \<times> api_error option) mrun" where
  "Storage_Get n E dns bzzpath =
     go_bind (Api_Get n E dns bzzpath True) (\<lambda>r.
       case r of
         Inl err \<Rightarrow> Ret (Inl err)
       | Inr (reader, mimeType, status) \<Rightarrow>
           (case LazyChunkReader_Size (me_fetch E) reader of
              (Panic, _) \<Rightarrow> Panic
            | (Err e, _) \<Rightarrow> Ret (Inl (EReader e))
            | (Ret expsize, reader') \<Rightarrow>
                if expsize < 0 then Panic
                else case LazyChunkReader_Read (me_fetch E) reader' (replicate (nat expsize) 0) of
                  (Panic, _) \<Rightarrow> Panic
                | (Err e, _) \<Rightarrow>
                    if e = DepthNoReturn then Err OutOfFuel
                    else Ret (Inr (\<lparr>rs_MimeType = mimeType, rs_Status = status, rs_Size = expsize, rs_Content = []\<rparr>,
                                   if expsize = 0 then None else Some (EReader e)))
                | (Ret (sz, body, err), _) \<Rightarrow>
                    Ret (Inr (\<lparr>rs_MimeType = mimeType, rs_Status = status, rs_Size = expsize,
                                rs_Content = take sz body\<rparr>,
                              if int sz = expsize then None else map_option EStore err))))"

definition Storage_Modify :: "nat \<Rightarrow> man_env \<Rightarrow> resolver option \<Rightarrow> string \<Rightarrow> string \<Rightarrow> string \<Rightarrow> string
    \<Rightarrow> (api_error + string \<times> Chunk list) mrun" where
  "Storage_Modify n E dns rootHash path contentHash contentType =
     Api_Modify n E dns (rootHash @ ''/'' @ path) contentHash contentType True"

section \<open>The manifest of an uploaded directory\<close>

text \<open>
  The last part of \<open>Upload\<close>. Each file comes with its path, of which the first \<open>start\<close> bytes
  are those of the directory, and the outcome of its upload: an error, or its hash and its
  content type. The file named \<open>index\<close> is entered a second time under the empty path.
\<close>

type_synonym upload = "string \<times> (api_error + string \<times> string)"

fun Upload_entries :: "loader \<Rightarrow> nat \<Rightarrow> string \<Rightarrow> manifestTrie \<Rightarrow> upload list \<Rightarrow> (api_error + manifestTrie) mrun" where
  "Upload_entries ld start index trie [] = Ret (Inr trie)"
| "Upload_entries ld start index trie ((path, Inl err) # fs) = Ret (Inl err)"
| "Upload_entries ld start index trie ((path, Inr (hash, contentType)) # fs) =
     (let p = RegularSlashes (drop start path) in
      go_bind (if p = index then addEntry ld trie (ManifestTrieEntry '''' hash contentType 0 None) else Ret trie)
        (\<lambda>trie'.
           go_bind (addEntry ld trie' (ManifestTrieEntry p hash contentType 0 None))
             (\<lambda>trie''. Upload_entries ld start index trie'' fs)))"

definition Upload_manifest :: "loader \<Rightarrow> man_env \<Rightarrow> nat \<Rightarrow> string \<Rightarrow> upload list
    \<Rightarrow> (api_error + string \<times> Chunk list) mrun" where
  "Upload_manifest ld E start index fs =
     go_bind (Upload_entries ld start index newTrie fs) (\<lambda>r.
       case r of
         Inl err \<Rightarrow> Ret (Inl err)
       | Inr trie \<Rightarrow>
           go_bind (recalcAndStore E trie) (\<lambda>(err, trie', cs).
             case err of
               Some e \<Rightarrow> Ret (Inl (EManifest e))
             | None \<Rightarrow> Ret (Inr (Key_String (case mt_hash trie' of None \<Rightarrow> [] | Some k \<Rightarrow> k), cs))))"

end
