(* ===== verification/Path_Laws.thy ===== *)
theory Path_Laws
  imports Api
begin

text \<open>
  Paths: the segments between slashes, what \<open>RegularSlashes\<close> and the parser of \<open>bzz\<close> addresses
  make of them.
\<close>

section \<open>Segments\<close>

abbreviation slash :: char where "slash \<equiv> CHR ''/''"

function segs :: "string \<Rightarrow> string list" where
  "segs [] = []"
| "segs (c # cs) =
     (if c = slash then segs cs
      else (c # takeWhile (\<lambda>x. x \<noteq> slash) cs) # segs (dropWhile (\<lambda>x. x \<noteq> slash) cs))"
  by pat_completeness auto
termination
  by (relation "measure length") (auto simp: less_Suc_eq_le length_dropWhile_le)

text \<open>Paths without leading, trailing or repeated slashes.\<close>

definition regular :: "string \<Rightarrow> bool" where
  "regular p \<longleftrightarrow> successively (\<lambda>x y. \<not> (x = slash \<and> y = slash)) (slash # p)
     \<and> (p \<noteq> [] \<longrightarrow> last p \<noteq> slash)"

text \<open>The loop of \<open>RegularSlashes\<close> by structural recursion; the flag says that a slash would be dropped.\<close>

fun squeeze :: "bool \<Rightarrow> string \<Rightarrow> string" where
  "squeeze b [] = []"
| "squeeze b (c # cs) =
     (if c = slash then (if b then squeeze True cs else c # squeeze True cs) else c # squeeze False cs)"

lemma RegularSlashes_loop_squeeze:
  "i + k \<le> length path \<Longrightarrow> RegularSlashes_loop path i k res =
    res @ squeeze (i = 0 \<or> path ! (i - 1) = slash) (take k (drop i path))"
proof (induction k arbitrary: i res)
  case (Suc k)
  have "take (Suc k) (drop i path) = path ! i # take k (drop (Suc i) path)"
    using Suc.prems by (simp add: Cons_nth_drop_Suc [symmetric])
  then show ?case using Suc by auto
qed simp

definition cut_slash :: "string \<Rightarrow> string" where
  "cut_slash res = (if res \<noteq> [] \<and> last res = slash then butlast res else res)"

lemma RegularSlashes_squeeze: "RegularSlashes p = cut_slash (squeeze True p)"
  using RegularSlashes_loop_squeeze [of 0 "length p" p "[]"]
  by (auto simp: RegularSlashes_def Let_def cut_slash_def last_conv_nth butlast_conv_take)

section \<open>What regularising keeps\<close>

lemma squeeze_no_repeat: "successively (\<lambda>x y. \<not> (x = slash \<and> y = slash)) (if b then slash # squeeze b p else squeeze b p)"
proof (induction p arbitrary: b)
  case (Cons c p)
  show ?case using Cons [of True] Cons [of False] by (auto simp: successively_Cons split: if_splits)
qed simp

lemma squeeze_regular:
  "successively (\<lambda>x y. \<not> (x = slash \<and> y = slash)) (if b then slash # p else p) \<Longrightarrow> squeeze b p = p"
  by (induction b p rule: squeeze.induct) (auto simp: successively_Cons split: if_splits)

lemma takeWhile_squeeze: "takeWhile (\<lambda>x. x \<noteq> slash) (squeeze False p) = takeWhile (\<lambda>x. x \<noteq> slash) p"
  by (induction p) auto

lemma dropWhile_squeeze: "dropWhile (\<lambda>x. x \<noteq> slash) (squeeze False p) = squeeze False (dropWhile (\<lambda>x. x \<noteq> slash) p)"
  by (induction p) auto

lemma segs_squeeze: "segs (squeeze b p) = segs p"
proof (induction p arbitrary: b rule: segs.induct)
  case (2 c cs)
  then show ?case by (auto simp: takeWhile_squeeze dropWhile_squeeze)
qed simp

lemma noslash_takeWhile: "slash \<notin> set p \<Longrightarrow> takeWhile (\<lambda>x. x \<noteq> slash) (p @ q) = p @ takeWhile (\<lambda>x. x \<noteq> slash) q"
  by (induction p) auto

lemma noslash_dropWhile: "slash \<notin> set p \<Longrightarrow> dropWhile (\<lambda>x. x \<noteq> slash) (p @ q) = dropWhile (\<lambda>x. x \<noteq> slash) q"
  by (induction p) auto

lemma slash_takeWhile: "slash \<in> set p \<Longrightarrow> takeWhile (\<lambda>x. x \<noteq> slash) (p @ q) = takeWhile (\<lambda>x. x \<noteq> slash) p"
  by (induction p) auto

lemma slash_dropWhile: "slash \<in> set p \<Longrightarrow> dropWhile (\<lambda>x. x \<noteq> slash) (p @ q) = dropWhile (\<lambda>x. x \<noteq> slash) p @ q"
  by (induction p) auto

lemma noslash_all:
  "slash \<notin> set p \<Longrightarrow> takeWhile (\<lambda>x. x \<noteq> slash) p = p" "slash \<notin> set p \<Longrightarrow> dropWhile (\<lambda>x. x \<noteq> slash) p = []"
  by (induction p) auto

lemmas noslash = noslash_takeWhile noslash_dropWhile noslash_all

lemma segs_slash_append: "segs (p @ slash # q) = segs p @ segs q"
proof (induction p rule: segs.induct)
  case (2 c cs)
  show ?case
  proof (cases "c = slash")
    case True
    then show ?thesis using 2(1) by simp
  next
    case c: False
    show ?thesis
    proof (cases "slash \<in> set cs")
      case True
      then show ?thesis using 2(2) [OF c] c by (simp add: slash_takeWhile slash_dropWhile)
    next
      case False
      then show ?thesis using c by (simp add: noslash)
    qed
  qed
qed simp

lemma segs_append_slash: "segs (p @ [slash]) = segs p"
  using segs_slash_append [of p "[]"] by simp

lemma segs_cut: "segs (cut_slash p) = segs p"
  using segs_append_slash [of "butlast p"] by (auto simp: cut_slash_def dest!: append_butlast_last_id)

lemma successively_butlast: "successively P xs \<Longrightarrow> successively P (butlast xs)"
  by (cases xs rule: rev_cases) (auto simp: successively_append_iff)

lemma cut_regular:
  assumes "successively (\<lambda>x y. \<not> (x = slash \<and> y = slash)) (slash # p)"
  shows "regular (cut_slash p)"
proof (cases "p \<noteq> [] \<and> last p = slash")
  case True
  then have s: "successively (\<lambda>x y. \<not> (x = slash \<and> y = slash)) (slash # butlast p)"
    using successively_butlast [OF assms] by simp
  have "last (butlast p) \<noteq> slash" if "butlast p \<noteq> []"
  proof -
    have "slash # p = (slash # butlast (butlast p)) @ [last (butlast p), last p]"
      using True that by (metis append.assoc append_Cons append_Nil append_butlast_last_id)
    then have "successively (\<lambda>x y. \<not> (x = slash \<and> y = slash)) [last (butlast p), last p]"
      using assms by (metis successively_append_iff)
    then show ?thesis using True by simp
  qed
  then show ?thesis using s True by (simp add: regular_def cut_slash_def)
next
  case False
  then show ?thesis using assms by (auto simp: regular_def cut_slash_def)
qed

lemma RegularSlashes_regular: "regular (RegularSlashes p)"
  using cut_regular squeeze_no_repeat [of True p] by (simp add: RegularSlashes_squeeze)

lemma RegularSlashes_segs: "segs (RegularSlashes p) = segs p"
  by (simp add: RegularSlashes_squeeze segs_cut segs_squeeze)

lemma RegularSlashes_same: "regular p \<Longrightarrow> RegularSlashes p = p"
  using squeeze_regular [of True p] by (auto simp: regular_def RegularSlashes_squeeze cut_slash_def)

section \<open>Addresses\<close>

lemma segs_drop_slashes: "segs (dropWhile (\<lambda>c. c = slash) s) = segs s"
  by (induction s) auto

lemma segs_first:
  assumes "takeWhile (\<lambda>c. c \<noteq> slash) s \<noteq> []"
  shows "segs s = takeWhile (\<lambda>c. c \<noteq> slash) s # segs (dropWhile (\<lambda>c. c \<noteq> slash) s)"
  using assms by (cases s) (auto split: if_splits)

lemma segs_none: "slash \<notin> set s \<Longrightarrow> segs s = (if s = [] then [] else [s])"
  by (cases s) (auto simp: noslash)

lemma segs_Nil: "segs s = [] \<longleftrightarrow> (\<forall>c \<in> set s. c = slash)"
  by (induction s) auto

text \<open>One step of the split, in terms of segments.\<close>

lemma Split_step:
  obtains "slash \<notin> set s" "slashes_Split (Suc (Suc n)) s = [s]"
  | a r where "slashes_Split (Suc (Suc n)) s = a # slashes_Split (Suc n) r" "slash \<in> set s"
      "segs s = (if a = [] then segs r else a # segs r)" "slash \<notin> set a" "r = [] \<or> hd r \<noteq> slash" "s = [] \<or> hd s \<noteq> slash \<Longrightarrow> a \<noteq> []"
proof (cases "slash \<in> set s")
  case True
  let ?a = "takeWhile (\<lambda>c. c \<noteq> slash) s" and ?r = "dropWhile (\<lambda>c. c = slash) (dropWhile (\<lambda>c. c \<noteq> slash) s)"
  have "segs s = (if ?a = [] then segs ?r else ?a # segs ?r)"
    using segs_first [of s] by (cases s) (auto simp: segs_drop_slashes)
  moreover have "slash \<notin> set ?a" using set_takeWhileD by fastforce
  moreover have "?r = [] \<or> hd ?r \<noteq> slash" using hd_dropWhile [of "\<lambda>c. c = slash"] by blast
  moreover have "?a \<noteq> []" if "s = [] \<or> hd s \<noteq> slash" using that True by (cases s) auto
  ultimately show ?thesis using that(2) [of ?a ?r] True by simp
qed (use that(1) in simp)

text \<open>
  The parser takes the first segment as the host and keeps the others in the path; it panics
  where there is no segment.
\<close>

lemma join_parts_segs: "segs (join_parts ps path) = segs path @ concat (map segs ps)"
proof (induction ps arbitrary: path)
  case (Cons p ps)
  then show ?case using segs_slash_append [of path p] by simp
qed simp

lemma Split_segs: "concat (map segs (slashes_Split (Suc n) s)) = segs s"
proof (induction n arbitrary: s)
  case (Suc n)
  show ?case
  proof (rule Split_step [of s n])
    fix a r
    assume *: "slashes_Split (Suc (Suc n)) s = a # slashes_Split (Suc n) r"
      "segs s = (if a = [] then segs r else a # segs r)" "slash \<notin> set a"
    then show ?thesis using Suc [of r] segs_none [of a] by (auto split: if_splits)
  qed simp
qed simp

text \<open>Every part but the last is free of slashes, and only the first and the last may be empty.\<close>

lemma Split_parts:
  obtains a where "slashes_Split 3 s = [a]" "slash \<notin> set a"
  | a r where "slashes_Split 3 s = [a, r]" "slash \<notin> set a" "slash \<notin> set r"
  | a b r where "slashes_Split 3 s = [a, b, r]" "slash \<notin> set a" "slash \<notin> set b" "b \<noteq> []"
proof -
  have three: "(3 :: nat) = Suc (Suc (Suc 0))" by simp
  show thesis
  proof (cases rule: Split_step [of s "Suc 0"])
    case 1
    then show ?thesis using that(1) three by metis
  next
    case a: (2 a r)
    show ?thesis
    proof (cases rule: Split_step [of r 0])
      case 1
      then show ?thesis using that(2) [of a r] a three by simp
    next
      case (2 b r')
      then show ?thesis using that(3) [of a b r'] a three by simp
    qed
  qed
qed

lemma parse_segs:
  "case parse uri of
     Ret (host, path) \<Rightarrow> segs uri = host # segs path
   | Panic \<Rightarrow> segs uri = []
   | Err _ \<Rightarrow> False"
proof -
  have all: "concat (map segs (slashes_Split 3 uri)) = segs uri"
    using Split_segs [of 2 uri] by (simp add: numeral_3_eq_3 numeral_2_eq_2)
  show ?thesis
  proof (cases rule: Split_parts [of uri])
    case (1 a)
    then show ?thesis using all segs_none [of a] by (auto simp: parse_def split: if_splits)
  next
    case (2 a r)
    then show ?thesis using all segs_none [of a] segs_none [of r] by (auto simp: parse_def)
  next
    case (3 a b r)
    then show ?thesis using all segs_none [of a] segs_none [of b] join_parts_segs [of "[b, r]" "[]"]
      by (auto simp: parse_def)
  qed
qed

end
