(* ===== verification/Manifest_Props.thy ===== *)
theory Manifest_Props
  imports Manifest_Store Path_Laws
begin

text \<open>
  The properties of the manifest trie and of the operations of \<open>api/api.go\<close> on it.
\<close>

section \<open>Manifests written by this package\<close>

text \<open>
  \<open>json.Unmarshal\<close> accepts far more than this package writes: \<open>null\<close> entries, entries in any order or twice under
  one path. \<open>package_manifests\<close> is therefore a condition on the store and not on the decoder: of the documents that can be read
  from the store, those that decode as a manifest are tables as this package writes them. \<open>manifest_text\<close> is the text
  that \<open>readManifest\<close> hands to the decoder.
\<close>

definition manifest_text :: "man_env \<Rightarrow> Key \<Rightarrow> bytes option" where
  "manifest_text E k =
     (case LazyChunkReader_Size (me_fetch E) (DPA_Retrieve E k) of
        (Ret sz, reader') \<Rightarrow>
          if sz < 0 then None
          else (case LazyChunkReader_Read (me_fetch E) reader' (replicate (nat sz) 0) of
                  (Ret (read, manifestData, err), _) \<Rightarrow> if int read < sz then None else Some manifestData
                | _ \<Rightarrow> None)
      | _ \<Rightarrow> None)"

definition package_manifests :: "man_env \<Rightarrow> bool" where
  "package_manifests E \<longleftrightarrow> (\<forall>k d js. manifest_text E k = Some d \<longrightarrow> me_Unmarshal E d = Some js \<longrightarrow>
     (\<exists>es. mtrie_ok True (ManifestTrie es None) \<and> js = entries_json es))"

lemma stripped_ok:
  assumes "mtrie_ok m (ManifestTrie es None)"
  shows "mtrie_ok m (ManifestTrie (stripped es) None)"
  using assms unfolding mtrie_ok_iff by (auto simp: stripped_def slot_ok_def entry_ok_iff)

lemma package_loader: "package_manifests E \<Longrightarrow> trie_loader (loadManifest n E) True"
proof
  fix k t
  assume E: "package_manifests E" and "loadManifest n E k = Ret (Inr t)"
  then obtain n' d js where "manifest_text E k = Some d" "me_Unmarshal E d = Some js"
      and t: "addEntries (loadManifest n' E) newTrie js = Ret t"
    by (cases n) (auto simp: loadManifest.simps readManifest_def manifest_text_def go_bind_Ret_iff
        split: prod.splits go.splits if_splits option.splits)
  then obtain es where es: "mtrie_ok True (ManifestTrie es None)" "js = entries_json es"
    using E unfolding package_manifests_def by blast
  have "addEntries (loadManifest n' E) newTrie js = Ret (ManifestTrie (stripped es) None)"
    unfolding es(2) using addEntries_table [OF mtrie_ok_length [OF es(1)]] mtrie_ok_entry(1) [OF es(1)] by blast
  then show "mtrie_ok True t" using t stripped_ok [OF es(1)] by simp
qed

section \<open>Composed operations\<close>

lemma addEntry_sets:
  assumes "trie_loader ld m" "mtrie_ok m t" "opens ld t (te_Path e)" "\<not> is_manifest e" "entry_ok m e"
  obtains t' where "addEntry ld t e = Ret t'" "mtrie_ok m t'" "sets ld (te_Path e) (Some (doc e)) t t'"
  using trie_loader.addEntry_bounded_sets [OF assms(1) _ assms(2-5), of "Suc (length (te_Path e))"]
  by (auto simp: addEntry_def)

lemma deleteEntry_sets:
  assumes "trie_loader ld True" "mtrie_ok True t" "opens ld t p"
  obtains t' where "deleteEntry ld t p = Ret t'" "mtrie_ok True t'" "sets ld p None t t'"
  using trie_loader.deleteEntry_bounded_sets [OF assms(1) _ assms(2,3), of "Suc (length p)"]
  by (auto simp: deleteEntry_def)

lemma findPrefixOf_longest:
  assumes "trie_loader ld m" "mtrie_ok m t" "opens ld t p"
  obtains found pos t' where "findPrefixOf ld t p = Ret ((found, pos), t')" "mtrie_ok m t'"
    "look ld t' = look ld t" "longest (look ld t) p found pos" "one_branch ld t p found pos"
  using trie_loader.findPrefixOf_bounded_longest [OF assms(1) _ assms(2,3), of "Suc (length p)"]
  by (auto simp: findPrefixOf_def)

lemma longest_exact:
  assumes "longest M p found pos" "M p = Some v"
  shows "\<exists>e. found = Some e \<and> doc e = v \<and> pos = length p"
proof -
  obtain e where e: "found = Some e" "pos \<le> length p" "M (take pos p) = Some (doc e)"
    "\<forall>k. pos < k \<and> k \<le> length p \<longrightarrow> M (take k p) = None"
    using assms by (auto simp: longest_def split: option.splits)
  have "pos = length p"
  proof (rule ccontr)
    assume "pos \<noteq> length p"
    then have "M (take (length p) p) = None" using e(2,4) by (metis le_neq_implies_less order_refl)
    then show False using assms(2) by simp
  qed
  then show ?thesis using e assms(2) by simp
qed

lemma getEntry_exact:
  assumes "trie_loader ld m" "mtrie_ok m t" "opens ld t p" "regular p" "look ld t p = Some (h, c, s)"
  shows "\<exists>e t'. getEntry ld t p = Ret ((Some e, p), t') \<and> te_Hash e = h \<and> te_ContentType e = c \<and> te_Status e = s"
proof -
  obtain found pos t' where f: "findPrefixOf ld t p = Ret ((found, pos), t')" "longest (look ld t) p found pos"
    using findPrefixOf_longest [OF assms(1-3)] by metis
  then obtain e where "found = Some e" "doc e = (h, c, s)" "pos = length p" using longest_exact assms(5) by blast
  then show ?thesis using f(1) RegularSlashes_same [OF assms(4)] by (simp add: getEntry_def doc_def)
qed

section \<open>Addresses of stored manifests\<close>

lemma regular_hd: "regular p \<Longrightarrow> p \<noteq> [] \<Longrightarrow> hd p \<noteq> slash"
  by (cases p) (auto simp: regular_def)

lemma regular_split:
  assumes "regular p" "slash \<in> set p"
  obtains b r where "p = b @ slash # r" "slash \<notin> set b" "b \<noteq> []" "r \<noteq> []" "hd r \<noteq> slash"
proof -
  obtain b r where p: "p = b @ slash # r" "slash \<notin> set b" using split_list_first [OF assms(2)] by blast
  moreover have "b \<noteq> []" using regular_hd [OF assms(1)] p(1) by auto
  moreover have "r \<noteq> []" using assms(1) p(1) by (auto simp: regular_def)
  moreover have "hd r \<noteq> slash"
    using assms(1) p(1) \<open>r \<noteq> []\<close>
    by (cases r) (auto simp: regular_def successively_append_iff successively_Cons split: if_splits)
  ultimately show ?thesis using that by blast
qed

lemma Split_first:
  assumes "slash \<notin> set a" "r = [] \<or> hd r \<noteq> slash"
  shows "slashes_Split (Suc (Suc n)) (a @ slash # r) = a # slashes_Split (Suc n) r"
  using assms by (cases r) (auto simp: noslash)

lemma parse_root:
  assumes "slash \<notin> set host" "host \<noteq> []" "regular path"
  shows "parse (host @ slash # path) = Ret (host, path)"
proof -
  have "slashes_Split 3 (host @ slash # path) = host # slashes_Split (Suc (Suc 0)) path"
    unfolding numeral_3_eq_3 using regular_hd [OF assms(3)] by (intro Split_first [OF assms(1)]) blast
  moreover have "join_parts (slashes_Split (Suc (Suc 0)) path) [] = path"
  proof (cases "slash \<in> set path")
    case True
    then obtain b r where "path = b @ slash # r" "slash \<notin> set b" "b \<noteq> []" "hd r \<noteq> slash"
      using regular_split [OF assms(3)] by metis
    then show ?thesis using Split_first [of b r 0] by simp
  qed simp
  ultimately show ?thesis using assms(2) by (simp add: parse_def del: slashes_Split.simps)
qed

lemma hex_encode_digits: "list_all (\<lambda>c. from_hex_digit c \<noteq> None) (hex_encode k)"
proof (induction k)
  case (Cons b k)
  have "unat b div 16 < 16" using unat_byte_lt [of b] by (simp add: div_less_iff_less_mult)
  then show ?case using Cons by simp
qed simp

lemma hashMatcher_key:
  assumes "length k = 32"
  shows "hashMatcher (Key_String k)" "slash \<notin> set (Key_String k)" "Key_String k \<noteq> []"
proof -
  have k: "Key_String k = hex_encode k" "length (hex_encode k) = 64" using assms by (simp_all add: Key_String_def)
  show "hashMatcher (Key_String k)" using k hex_encode_digits [of k] by (simp add: hashMatcher_def)
  have "from_hex_digit slash = None" by (simp add: from_hex_digit_def)
  then show "slash \<notin> set (Key_String k)" using k hex_encode_digits [of k] by (auto simp: list_all_iff)
  show "Key_String k \<noteq> []" using k by (metis length_0_conv zero_neq_numeral)
qed

section \<open>Properties\<close>

text \<open>A chunker with keys of 32 bytes and a JSON codec for concrete runs.\<close>

definition demo_chunker :: TreeChunker where
  "demo_chunker = \<lparr>branches = 2, hashFunc = \<lparr>h_Size = 32, h_Sum = (\<lambda>x. take 32 (x @ replicate 32 0))\<rparr>,
     hashSize = 32, chunkSize = 64, workerCount = 1\<rparr>"

definition demo_doc :: "string \<Rightarrow> string \<Rightarrow> manifestTrieEntry" where
  "demo_doc p h = ManifestTrieEntry p h ''text/plain'' 200 None"

definition no_fetch :: fetch where
  "no_fetch k = (None, 0)"

definition demo_env :: "fetch \<Rightarrow> man_env" where
  "demo_env f = \<lparr>me_chunker = demo_chunker, me_fetch = f, me_wg = None,
     me_Unmarshal = (\<lambda>_. None), me_Marshal = (\<lambda>_. None)\<rparr>"

definition demo_trie :: manifestTrie where
  "demo_trie = ManifestTrie ((replicate 257 None)[97 := Some (demo_doc ''ab'' ''01'')]) None"

lemma demo_doc_simps [simp]:
  "te_Path (demo_doc p h) = p" "\<not> is_manifest (demo_doc p h)" "doc (demo_doc p h) = (h, ''text/plain'', 200)"
  by (simp_all add: demo_doc_def doc_def manifestType_def)

lemma demo_trie_ok: "mtrie_ok m demo_trie"
proof -
  have "entry_ok m (demo_doc ''ab'' ''01'')"
    by (simp add: entry_ok_iff demo_doc_def plain_text_def ascii_def)
  then show ?thesis
    unfolding demo_trie_def using mtrie_ok_new [of m] unfolding newTrie_def by (intro mtrie_ok_put) auto
qed

lemma demo_opens: "opens ld demo_trie p"
  unfolding demo_trie_def opens_slot opens_entry_def
  by (auto simp: nth_list_update demo_trie_ok [of True, unfolded demo_trie_def, THEN mtrie_ok_length])

text \<open>
  C13: \<open>addEntry\<close> on a trie whose subtries on the way to the path can be loaded returns, keeps the
  trie well-formed and makes the document known under its path. Every other path keeps its
  document, except that where the path was that of a subtrie everything below it is lost.
\<close>

theorem addEntry_refines:
  assumes "mtrie_ok False t" "opens (loadManifest n E) t p" "c \<noteq> manifestType"
  shows "\<exists>t'. addEntry (loadManifest n E) t (ManifestTrieEntry p h c s None) = Ret t' \<and> mtrie_ok False t'
    \<and> (\<forall>q. look (loadManifest n E) t' q =
         (if q = p then Some (h, c, s)
          else if inner (loadManifest n E) t p \<and> prefix p q then None
          else look (loadManifest n E) t q))"
proof -
  let ?e = "ManifestTrieEntry p h c s None"
  have "entry_ok False ?e" by (simp add: entry_ok_iff)
  then obtain t' where "addEntry (loadManifest n E) t ?e = Ret t'" "mtrie_ok False t'"
    "sets (loadManifest n E) p (Some (h, c, s)) t t'"
    using addEntry_sets [OF stored.trie_loader_axioms assms(1), of n E ?e] assms(2,3) by (auto simp: doc_def)
  then show ?thesis using setsD by metis
qed

lemma demo_look: "look ld demo_trie p = (if p = ''ab'' then Some (''01'', ''text/plain'', 200) else None)"
  by (auto simp: demo_trie_def look_slot nth_list_update)

theorem addEntry_refines_witness:
  "\<exists>t'. addEntry (loadManifest 1 (demo_env no_fetch)) demo_trie (ManifestTrieEntry ''ac'' ''02'' ''text/html'' 0 None) = Ret t'
    \<and> look (loadManifest 1 (demo_env no_fetch)) t' ''ac'' = Some (''02'', ''text/html'', 0)
    \<and> look (loadManifest 1 (demo_env no_fetch)) t' ''ab'' = Some (''01'', ''text/plain'', 200)"
proof -
  obtain t' where "addEntry (loadManifest 1 (demo_env no_fetch)) demo_trie (ManifestTrieEntry ''ac'' ''02'' ''text/html'' 0 None) = Ret t'"
    "\<forall>q. look (loadManifest 1 (demo_env no_fetch)) t' q =
      (if q = ''ac'' then Some (''02'', ''text/html'', 0)
       else if inner (loadManifest 1 (demo_env no_fetch)) demo_trie ''ac'' \<and> prefix ''ac'' q then None
       else look (loadManifest 1 (demo_env no_fetch)) demo_trie q)"
    using addEntry_refines [OF demo_trie_ok demo_opens, of "''text/html''" 1 "demo_env no_fetch" "''ac''" "''02''" 0]
    by (auto simp: manifestType_def)
  then show ?thesis by (simp add: demo_look)
qed

text \<open>
  C14: \<open>deleteEntry\<close> removes a path and nothing else, unless the path is that of a subtrie: then
  every path below it is removed too. A subtrie left with fewer than two entries is merged into
  its parent without changing what is found.
\<close>

theorem deleteEntry_refines:
  assumes "package_manifests E" "mtrie_ok True t" "opens (loadManifest n E) t p"
  shows "\<exists>t'. deleteEntry (loadManifest n E) t p = Ret t' \<and> mtrie_ok True t'
    \<and> (\<forall>q. look (loadManifest n E) t' q =
         (if q = p \<or> inner (loadManifest n E) t p \<and> prefix p q then None else look (loadManifest n E) t q))"
proof -
  obtain t' where "deleteEntry (loadManifest n E) t p = Ret t'" "mtrie_ok True t'" "sets (loadManifest n E) p None t t'"
    using deleteEntry_sets [OF package_loader [OF assms(1)] assms(2,3)] by metis
  then show ?thesis using setsD [of "loadManifest n E" p None t t'] by auto
qed

theorem deleteEntry_refines_witness:
  "\<exists>t'. deleteEntry (loadManifest 1 (demo_env no_fetch)) demo_trie ''ab'' = Ret t'
    \<and> look (loadManifest 1 (demo_env no_fetch)) t' ''ab'' = None"
  using deleteEntry_refines [OF _ demo_trie_ok demo_opens, of "demo_env no_fetch" 1 "''ab''"]
  by (auto simp: package_manifests_def demo_env_def)

text \<open>
  C17: \<open>getEntry\<close> regularises the path and goes down the subtries on the way along it; let the deepest one be that under its first \<open>k\<close>
  bytes (0 for the trie itself). It returns the entry under the longest known prefix of the path, which has at least \<open>k\<close> bytes. It
  returns nothing exactly when no prefix of at least \<open>k\<close> bytes is known, or when the entry in the slot of the next byte has a path that the rest does
  not start with; a shorter prefix is never tried. In particular, where that slot is empty the document of the subtrie itself is the
  fallback, and a path that is known is always found. Loading subtries on the way does not change what is known.
\<close>

theorem getEntry_longest:
  assumes "mtrie_ok False t" "opens (loadManifest n E) t (RegularSlashes sp)"
  shows "\<exists>found pos t' k. getEntry (loadManifest n E) t sp = Ret ((found, take pos (RegularSlashes sp)), t')
    \<and> look (loadManifest n E) t' = look (loadManifest n E) t
    \<and> deepest (loadManifest n E) t (RegularSlashes sp) k
    \<and> (found = None \<longleftrightarrow> blocked (loadManifest n E) t (RegularSlashes sp)
         \<or> (\<forall>j. k \<le> j \<and> j \<le> length (RegularSlashes sp) \<longrightarrow> look (loadManifest n E) t (take j (RegularSlashes sp)) = None))
    \<and> (case found of
         None \<Rightarrow> pos = 0 \<and> look (loadManifest n E) t (RegularSlashes sp) = None
       | Some e \<Rightarrow> k \<le> pos \<and> pos \<le> length (RegularSlashes sp)
           \<and> look (loadManifest n E) t (take pos (RegularSlashes sp)) = Some (te_Hash e, te_ContentType e, te_Status e)
           \<and> (\<forall>j. pos < j \<and> j \<le> length (RegularSlashes sp) \<longrightarrow> look (loadManifest n E) t (take j (RegularSlashes sp)) = None))"
proof -
  obtain found pos t' where f: "findPrefixOf (loadManifest n E) t (RegularSlashes sp) = Ret ((found, pos), t')"
    "look (loadManifest n E) t' = look (loadManifest n E) t" "longest (look (loadManifest n E) t) (RegularSlashes sp) found pos"
    "one_branch (loadManifest n E) t (RegularSlashes sp) found pos"
    using findPrefixOf_longest [OF stored.trie_loader_axioms assms] by metis
  then obtain k where "deepest (loadManifest n E) t (RegularSlashes sp) k"
    "found = None \<longleftrightarrow> blocked (loadManifest n E) t (RegularSlashes sp)
       \<or> (\<forall>j. k \<le> j \<and> j \<le> length (RegularSlashes sp) \<longrightarrow> look (loadManifest n E) t (take j (RegularSlashes sp)) = None)"
    "found \<noteq> None \<longrightarrow> k \<le> pos"
    unfolding one_branch_def by blast
  with f show ?thesis by (intro exI [of _ found] exI [of _ pos] exI [of _ t'] exI [of _ k])
      (auto simp: getEntry_def longest_def doc_def Let_def split: option.splits)
qed

text \<open>The fallback: \<open>b\<close> is not known, and no entry stands in its slot, so the document under the empty path is found.\<close>

definition fallback_trie :: manifestTrie where
  "fallback_trie = ManifestTrie ((mt_entries demo_trie)[256 := Some (demo_doc '''' ''02'')]) None"

lemma fallback_facts:
  "mtrie_ok m fallback_trie" "opens ld fallback_trie p" "\<not> inner ld fallback_trie p" "\<not> blocked ld fallback_trie ''b''"
  "look ld fallback_trie p = (if p = ''ab'' then Some (''01'', ''text/plain'', 200) else if p = [] then Some (''02'', ''text/plain'', 200) else None)"
proof -
  have "entry_ok m (demo_doc '''' ''02'')" by (simp add: entry_ok_iff demo_doc_def plain_text_def ascii_def)
  then show "mtrie_ok m fallback_trie"
    unfolding fallback_trie_def using demo_trie_ok [of m] by (intro mtrie_ok_put) (auto simp: demo_trie_def slot_Nil)
  have es: "mt_entries fallback_trie ! i =
      (if i = 97 then Some (demo_doc ''ab'' ''01'') else if i = 256 then Some (demo_doc '''' ''02'') else None)" if "i < 257" for i
    using that by (simp add: fallback_trie_def demo_trie_def nth_list_update)
  obtain es' where t: "fallback_trie = ManifestTrie es' None" "es' = mt_entries fallback_trie" by (simp add: fallback_trie_def)
  show "opens ld fallback_trie p" unfolding t(1) opens_slot using es [OF slot_lt [of p]] t(2) by (auto split: if_splits)
  show "\<not> inner ld fallback_trie p" unfolding t(1) inner_slot using es [OF slot_lt [of p]] t(2) by (auto split: if_splits)
  show "\<not> blocked ld fallback_trie ''b''" by (subst blocked.simps) (simp add: es)
  show "look ld fallback_trie p = (if p = ''ab'' then Some (''01'', ''text/plain'', 200) else if p = [] then Some (''02'', ''text/plain'', 200) else None)"
    unfolding t(1) look_slot using es [OF slot_lt [of p]] t(2) by (auto simp: slot_Nil split: if_splits)
qed

theorem getEntry_longest_witness:
  "\<exists>e t'. getEntry (loadManifest 1 (demo_env no_fetch)) fallback_trie ''//b/'' = Ret ((Some e, ''''), t') \<and> te_Hash e = ''02''"
proof -
  let ?L = "loadManifest 1 (demo_env no_fetch)"
  have p: "RegularSlashes ''//b/'' = ''b''" by (simp add: RegularSlashes_def Let_def numeral_eq_Suc)
  obtain found pos t' k where g: "getEntry ?L fallback_trie ''//b/'' = Ret ((found, take pos ''b''), t')"
    and d: "deepest ?L fallback_trie ''b'' k"
    and n: "found = None \<longleftrightarrow> blocked ?L fallback_trie ''b'' \<or> (\<forall>j. k \<le> j \<and> j \<le> length ''b'' \<longrightarrow> look ?L fallback_trie (take j ''b'') = None)"
    and c: "\<forall>e. found = Some e \<longrightarrow> look ?L fallback_trie (take pos ''b'') = Some (te_Hash e, te_ContentType e, te_Status e)"
    using getEntry_longest [OF fallback_facts(1,2), of 1 "demo_env no_fetch" "''//b/''", unfolded p] by fastforce
  have "k = 0" using d fallback_facts(3) by (simp add: deepest_def)
  then have "\<not> (\<forall>j. k \<le> j \<and> j \<le> length ''b'' \<longrightarrow> look ?L fallback_trie (take j ''b'') = None)"
    by (intro notI) (drule spec [of _ 0], simp add: fallback_facts(5))
  then obtain e where e: "found = Some e" using n fallback_facts(4) by blast
  then have l: "look ?L fallback_trie (take pos ''b'') = Some (te_Hash e, te_ContentType e, te_Status e)" using c by blast
  then have "take pos ''b'' = ''''" "te_Hash e = ''02''" by (auto simp: fallback_facts(5) take_Cons' split: if_splits)
  then show ?thesis using g e by simp
qed

end
