(* ===== verification/Api_Props.thy ===== *)
theory Api_Props
  imports Manifest_Props
begin

text \<open>
  Properties of stored manifests and of the operations of the API: what is stored is found again,
  a change of a manifest is visible under the new hash, uploaded files are found, and the inputs
  on which these operations panic.
\<close>

section \<open>A concrete codec\<close>

definition demo_codec :: "(bytes \<times> json_entry list) list" where
  "demo_codec =
     [([1], [(''ab'', ''01'', ''text/plain'', 200)]),
      ([2], [(''ab'', ''01'', ''text/plain'', 200), (''x'', ''02'', ''text/html'', 0)]),
      ([3], [(''a'', ''ff'', manifestType, 0)]),
      ([4], [(''ab'', ''01'', ''text/plain'', 200), (''x'', ''0100000000000000090000000000000000000000000000000000000000000000'', ''text/html'', 0)]),
      ([5], [(''x'', ''0100000000000000090000000000000000000000000000000000000000000000'', ''text/html'', 0)])]"

definition codec_env :: "fetch \<Rightarrow> man_env" where
  "codec_env f = \<lparr>me_chunker = demo_chunker, me_fetch = f, me_wg = None,
     me_Unmarshal = (\<lambda>d. map_option (map Some) (map_of demo_codec d)),
     me_Marshal = (\<lambda>js. map_option fst (find (\<lambda>x. map Some (snd x) = js) demo_codec))\<rparr>"

definition stored_text :: "bytes \<Rightarrow> Key \<times> Chunk list" where
  "stored_text d = (case DPA_Store (codec_env no_fetch) None [(d, None)] (length d) of Ret r \<Rightarrow> r | _ \<Rightarrow> ([], []))"

definition fetch_of :: "Chunk list \<Rightarrow> fetch" where
  "fetch_of cs k = (case find (\<lambda>c. ch_Key c = k) cs of Some c \<Rightarrow> (ch_SData c, ch_Size c) | None \<Rightarrow> (None, 0))"

lemma codec_exact: "json_exact (codec_env f) 64"
  by (auto simp: json_exact_def codec_env_def demo_codec_def split: if_splits)

lemma demo_chunker_ok: "chunker_ok demo_chunker" "1 < branches demo_chunker"
  by (auto simp: chunker_ok_def demo_chunker_def hasher_ok_def)

lemma demo_later:
  assumes "extends (loadManifest n (codec_env f)) (loadManifest (Suc n) (codec_env f'))"
  shows "later (codec_env f) (codec_env f') 0 n"
  using assms codec_exact [of f] demo_chunker_ok by (simp add: later_def codec_env_def demo_chunker_def)

lemma demo_missing:
  assumes "fst (f k) = None"
  shows "loadManifest (Suc n) (codec_env f) k = Ret (Inl ManifestNotFound)"
  using assms by (simp add: loadManifest.simps readManifest_def DPA_Retrieve_def codec_env_def LazyChunkReader_Size_def
      TreeChunker_Join_def retrieve_def sdata_def Let_def)

lemma demo_no_fetch: "extends (loadManifest n (codec_env no_fetch)) ld"
  using demo_missing [of no_fetch] by (cases n) (auto simp: extends_def no_fetch_def loadManifest.simps(1))

lemma demo_store_run:
  "recalcAndStore (codec_env no_fetch) demo_trie =
    Ret (None, ManifestTrie (mt_entries demo_trie) (Some (fst (stored_text [1]))), snd (stored_text [1]))"
  by code_simp

lemma demo_serves: "serves (fetch_of (snd (stored_text [1]))) (snd (stored_text [1]))"
  by code_simp

section \<open>Stored manifests\<close>

text \<open>
  C15: a trie that \<open>recalcAndStore\<close> has written is found again. Where the chunks it handed to the
  store are served and older manifests can still be loaded, loading the hash it set gives a
  trie in which every path has the document it had, through all levels of subtries.
\<close>

theorem recalcAndStore_reloads:
  assumes "later E E' mm n" "mtrie_ok True t" "recalcAndStore E t = Ret (None, t', cs)" "serves (me_fetch E') cs"
  shows "\<exists>k t2. mt_hash t' = Some k \<and> loadManifest (Suc n) E' k = Ret (Inr t2)
    \<and> (\<forall>p. opens (loadManifest n E) t p \<longrightarrow>
         look (loadManifest (Suc n) E') t2 p = look (loadManifest n E) t p)"
  using recalc_reloads(1) [OF assms(1,3,2,4)] by (auto simp: same_map_def)

theorem recalcAndStore_reloads_witness:
  "\<exists>t2. loadManifest 2 (codec_env (fetch_of (snd (stored_text [1])))) (fst (stored_text [1])) = Ret (Inr t2)
    \<and> look (loadManifest 2 (codec_env (fetch_of (snd (stored_text [1]))))) t2 ''ab'' = Some (''01'', ''text/plain'', 200)"
proof -
  let ?E' = "codec_env (fetch_of (snd (stored_text [1])))"
  have "serves (me_fetch ?E') (snd (stored_text [1]))" using demo_serves by (simp add: codec_env_def)
  from recalcAndStore_reloads [OF demo_later [OF demo_no_fetch] demo_trie_ok demo_store_run this, of 1]
  show ?thesis using demo_opens by (auto simp: demo_look numeral_2_eq_2)
qed

text \<open>
  A manifest with the entry \<open>null\<close> crashes the node that loads it: the nil pointer is handed to
  \<open>addEntry\<close>, which reads its path.
\<close>

theorem null_entry_panics:
  assumes "chunker_ok (me_chunker E)" "1 < branches (me_chunker E)" "d \<noteq> []"
    "length d \<le> chunkSize (me_chunker E) * branches (me_chunker E) ^ mm"
    "chunkSize (me_chunker E) * branches (me_chunker E) ^ mm < 2 ^ 63"
    "DPA_Store E wg [(d, None)] (length d) = Ret (key, cs)" "serves (me_fetch E) cs"
    "me_Unmarshal E d = Some (None # js)"
    "parse uri = Ret (host, path)" "Api_Resolve dns host nameresolver = (key, err)"
  shows "Api_Get (Suc n) E dns uri nameresolver = Panic"
proof -
  have "loadManifest (Suc n) E key = Panic"
    using readManifest_stored(1) [OF assms(1-6) refl assms(7,8)] by (simp add: loadManifest.simps)
  then show ?thesis using assms(9,10) by (simp add: Api_Get_def parseAndResolve_def)
qed

section \<open>Changing a manifest\<close>

lemma recalc_entries_panic:
  assumes "i < length es" "es ! i = Some e" "te_Hash e = ''''" "te_subtrie e = None"
    "\<forall>j < i. \<forall>x. es ! j = Some x \<longrightarrow> te_Hash x \<noteq> ''''"
  shows "recalc_entries E es = Panic"
  using assms
proof (induction es arbitrary: i)
  case (Cons x es)
  show ?case
  proof (cases i)
    case 0
    then show ?thesis using Cons.prems by (cases e) simp
  next
    case (Suc i')
    have "recalc_entries E es = Panic"
      using Cons.IH [of i'] Cons.prems Suc by fastforce
    moreover have "\<exists>y. recalc_entry E y' = Ret (None, y', [])" if "x = Some y'" for y'
      using Cons.prems(5) Suc that by (cases y') force
    ultimately show ?thesis by (cases x) auto
  qed
qed simp

text \<open>
  Changing a manifest below a subtrie that cannot be loaded crashes the node. \<open>loadSubTrie\<close>
  clears the hash of the entry although the load failed, \<open>addEntry\<close> gives up silently, and
  \<open>recalcAndStore\<close> follows the nil subtrie of the entry without hash.
\<close>

theorem modify_unreachable_panics:
  assumes "parse uri = Ret (host, path)" "Api_Resolve dns host nameresolver = (root, err0)" "path \<noteq> []"
    and load: "loadManifest n E root = Ret (Inr (ManifestTrie es h))"
    and e: "es ! slot path = Some e" "is_manifest e" "prefix (te_Path e) path" "te_Path e \<noteq> path"
      "te_subtrie e = None" "loadManifest n E (Hex2Bytes (te_Hash e)) = Ret (Inl err)"
    and hashes: "\<forall>x. Some x \<in> set es \<longrightarrow> te_Hash x \<noteq> ''''"
    and "contentHash \<noteq> ''''"
  shows "Api_Modify n E dns uri contentHash contentType nameresolver = Panic"
proof -
  let ?new = "with_Hash '''' (with_subtrie None e)"
  have ok: "mtrie_ok False (ManifestTrie es h)" using loadManifest_shape [OF load] .
  have len: "length es = 257" using mtrie_ok_length [OF ok] .
  have pos: "of_char (path ! 0) = slot path" using \<open>path \<noteq> []\<close> by (simp add: slot_def)
  have cpl: "cpl_loop path (te_Path e) = length (te_Path e)" using e(3) by (simp add: cpl_loop_prefix)
  have "addEntry (loadManifest n E) (ManifestTrie es h) (ManifestTrieEntry path contentHash contentType 0 None) =
      Ret (ManifestTrie (es[slot path := Some ?new]) None)"
    using e pos cpl \<open>path \<noteq> []\<close> by (simp add: addEntry_def Let_def loadSubTrie_def)
  moreover have "recalc_entries E (es[slot path := Some ?new]) = Panic"
  proof (rule recalc_entries_panic [of "slot path" _ ?new])
    show "\<forall>j < slot path. \<forall>x. es[slot path := Some ?new] ! j = Some x \<longrightarrow> te_Hash x \<noteq> ''''"
    proof (intro allI impI)
      fix j x
      assume "j < slot path" "es[slot path := Some ?new] ! j = Some x"
      then have "es ! j = Some x" "j < length es" using len less_trans [OF _ slot_lt, of j path] by simp_all
      then show "te_Hash x \<noteq> ''''" using hashes by (metis nth_mem)
    qed
  qed (use len in simp_all)
  ultimately show ?thesis
    using assms(1,2,12) load by (simp add: Api_Modify_def parseAndResolve_def)
qed

definition null_env :: man_env where
  "null_env = (codec_env (fetch_of (snd (stored_text [1]))))\<lparr>me_Unmarshal := (\<lambda>_. Some [None])\<rparr>"

theorem null_entry_panics_witness:
  "Api_Get 1 null_env None (Key_String (fst (stored_text [1])) @ ''/'') True = Panic"
proof -
  let ?k = "fst (stored_text [1])"
  have k: "length ?k = 32" by code_simp
  have st: "DPA_Store null_env None [([1], None)] (length [1 :: byte]) = Ret (?k, snd (stored_text [1]))" by code_simp
  have p: "parse (Key_String ?k @ ''/'') = Ret (Key_String ?k, '''')"
    using parse_root [OF hashMatcher_key(2,3) [OF k], of "''''"] by (simp add: regular_def)
  have r: "Api_Resolve None (Key_String ?k) True = (?k, None)"
    using hashMatcher_key(1) [OF k] Key_String_32 [OF k] by (simp add: Api_Resolve_def)
  show ?thesis
    using null_entry_panics [OF _ _ _ _ _ st _ _ p r, of 0 "[]" 0] demo_chunker_ok demo_serves
    by (simp add: null_env_def codec_env_def demo_chunker_def)
qed

lemma demo_unreachable_root:
  "loadManifest 1 (codec_env (fetch_of (snd (stored_text [3])))) (fst (stored_text [3])) =
    Ret (Inr (ManifestTrie ((replicate 257 None)[97 := Some (ManifestTrieEntry ''a'' ''ff'' manifestType 0 None)]) None))"
  by code_simp

theorem modify_unreachable_panics_witness:
  "Api_Modify 1 (codec_env (fetch_of (snd (stored_text [3])))) None
     (Key_String (fst (stored_text [3])) @ ''/ab'') ''02'' ''text/html'' True = Panic"
proof -
  let ?k = "fst (stored_text [3])" and ?E = "codec_env (fetch_of (snd (stored_text [3])))"
  have k: "length ?k = 32" by code_simp
  have p: "parse (Key_String ?k @ ''/ab'') = Ret (Key_String ?k, ''ab'')"
    using parse_root [OF hashMatcher_key(2,3) [OF k], of "''ab''"] by (simp add: regular_def)
  have r: "Api_Resolve None (Key_String ?k) True = (?k, None)"
    using hashMatcher_key(1) [OF k] Key_String_32 [OF k] by (simp add: Api_Resolve_def)
  have h: "Hex2Bytes ''ff'' = [255]" by code_simp
  have "fst (fetch_of (snd (stored_text [3])) [255]) = None" by code_simp
  then have m: "loadManifest 1 ?E (Hex2Bytes ''ff'') = Ret (Inl ManifestNotFound)"
    using demo_missing [of _ _ 0] h by simp
  have "Some x \<in> set ((replicate 257 None)[97 := Some (ManifestTrieEntry ''a'' ''ff'' manifestType 0 None)])
      \<Longrightarrow> te_Hash x \<noteq> ''''" for x
    using set_update_subset_insert [of "replicate 257 None" 97 "Some (ManifestTrieEntry ''a'' ''ff'' manifestType 0 None)"]
    by auto
  then show ?thesis
    using modify_unreachable_panics [OF p r _ demo_unreachable_root, of "ManifestTrieEntry ''a'' ''ff'' manifestType 0 None"] m
    by simp
qed

text \<open>What \<open>Get\<close> answers for a path of a manifest that was stored and can be loaded.\<close>

lemma Get_known:
  assumes "length k = 32" "loadManifest n E k = Ret (Inr t)" "opens (loadManifest n E) t p" "regular p"
    "look (loadManifest n E) t p = Some (h, c, s)"
  shows "Api_Get n E dns (Key_String k @ ''/'' @ p) nameresolver = Ret (Inr (DPA_Retrieve E (Hex2Bytes h), c, s))"
proof -
  have p: "parse (Key_String k @ ''/'' @ p) = Ret (Key_String k, p)"
    using parse_root [OF hashMatcher_key(2,3) [OF assms(1)] assms(4)] by simp
  have r: "Api_Resolve dns (Key_String k) nameresolver = (k, None)"
    using hashMatcher_key(1) [OF assms(1)] Key_String_32 [OF assms(1)] by (simp add: Api_Resolve_def)
  obtain e t' where "getEntry (loadManifest n E) t p = Ret ((Some e, p), t')" "te_Hash e = h" "te_ContentType e = c" "te_Status e = s"
    using getEntry_exact [OF stored.trie_loader_axioms loadManifest_shape [OF assms(2)] assms(3-5)] by blast
  then show ?thesis using p r assms(2) by (simp add: Api_Get_def parseAndResolve_def)
qed

text \<open>The manifest that \<open>Modify\<close> leaves, when it has entered a document.\<close>

lemma Modify_reloads:
  assumes later: "later E E' mm n" "package_manifests E"
    and uri: "parse uri = Ret (host, path)" "Api_Resolve dns host nameresolver = (root, err)"
    and plain: "ascii path" "ascii h" "ascii c" "h \<noteq> ''''" "c \<noteq> manifestType"
    and load: "loadManifest n E root = Ret (Inr t)" "opens (loadManifest n E) t path"
    and modify: "Api_Modify n E dns uri h c nameresolver = Ret (Inr (root', cs))" "serves (me_fetch E') cs"
  shows "\<exists>k t1 t3. root' = Key_String k \<and> length k = 32 \<and> loadManifest (Suc n) E' k = Ret (Inr t3)
    \<and> sets (loadManifest n E) path (Some (h, c, 0)) t t1
    \<and> same_map (loadManifest n E) (loadManifest (Suc n) E') t1 t3"
proof -
  let ?L = "loadManifest n E" and ?e = "ManifestTrieEntry path h c 0 None"
  have L: "trie_loader ?L True" by (rule package_loader [OF later(2)])
  have e: "entry_ok True ?e" using plain(1-3) by (simp add: entry_ok_iff plain_text_def)
  obtain t1 where t1: "addEntry ?L t ?e = Ret t1" "mtrie_ok True t1" "sets ?L path (Some (h, c, 0)) t t1"
    using addEntry_sets [OF L trie_loader.loads_ok [OF L load(1)], of ?e] load(2) plain(5) e by (auto simp: doc_def)
  obtain t2 where t2: "recalcAndStore E t1 = Ret (None, t2, cs)"
    "root' = Key_String (case mt_hash t2 of None \<Rightarrow> [] | Some k \<Rightarrow> k)"
    using modify(1) uri plain(4) load(1) t1(1)
    by (auto simp: Api_Modify_def parseAndResolve_def go_bind_Ret_iff split: option.splits)
  obtain k t3 where k: "mt_hash t2 = Some k" "length k = 32" "loadManifest (Suc n) E' k = Ret (Inr t3)"
    "same_map ?L (loadManifest (Suc n) E') t1 t3"
    using recalc_reloads(1) [OF later(1) t2(1) t1(2) modify(2)] by blast
  show ?thesis using k t1(3) t2(2) by auto
qed


definition table :: "json_entry list \<Rightarrow> manifestTrieEntry option list" where
  "table js = fold (\<lambda>j es. es[slot (fst j) := Some (of_json j)]) js (replicate 257 None)"

lemma table_ok:
  assumes "\<forall>(p, h, c, s) \<in> set js. ascii p \<and> ascii h \<and> ascii c \<and> (p = [] \<longrightarrow> c \<noteq> manifestType)"
  shows "mtrie_ok True (ManifestTrie (table js) None)"
proof -
  have "mtrie_ok True (ManifestTrie (fold (\<lambda>j es. es[slot (fst j) := Some (of_json j)]) js es) None)"
    if "mtrie_ok True (ManifestTrie es None)" for es
    using that assms
  proof (induction js arbitrary: es)
    case (Cons j js)
    have "mtrie_ok True (ManifestTrie (es[slot (fst j) := Some (of_json j)]) None)"
      using Cons.prems by (intro mtrie_ok_put) (auto simp: entry_ok_iff plain_text_def)
    then show ?case using Cons by simp
  qed simp
  then show ?thesis using mtrie_ok_new [of True] by (simp add: table_def newTrie_def)
qed

lemma demo_package: "package_manifests (codec_env f)"
  unfolding package_manifests_def
proof (intro allI impI)
  fix k d js
  assume "me_Unmarshal (codec_env f) d = Some js"
  then obtain l where l: "js = map Some l" "(d, l) \<in> set demo_codec"
    by (auto simp: codec_env_def dest: map_of_SomeD)
  have "list_all (\<lambda>x. entries_json (table (snd x)) = map Some (snd x)) demo_codec" by code_simp
  moreover have "list_all (\<lambda>x. \<forall>(p, h, c, s) \<in> set (snd x). ascii p \<and> ascii h \<and> ascii c \<and> (p = [] \<longrightarrow> c \<noteq> manifestType)) demo_codec"
    by code_simp
  ultimately have "entries_json (table l) = js" "mtrie_ok True (ManifestTrie (table l) None)"
    using l table_ok [of l] by (auto simp: list_all_iff)
  then show "\<exists>es. mtrie_ok True (ManifestTrie es None) \<and> js = entries_json es" by metis
qed

definition before_env :: man_env where
  "before_env = codec_env (fetch_of (snd (stored_text [1])))"

definition after_env :: man_env where
  "after_env = codec_env (fetch_of (snd (stored_text [1]) @ snd (stored_text [2])))"

lemma before_load: "loadManifest 1 before_env (fst (stored_text [1])) = Ret (Inr demo_trie)"
  by code_simp

lemma after_load: "loadManifest 2 after_env (fst (stored_text [1])) = Ret (Inr demo_trie)"
  by code_simp

lemma before_later_at:
  assumes "loadManifest 2 (codec_env (fetch_of (snd (stored_text [1]) @ cs))) (fst (stored_text [1])) = Ret (Inr demo_trie)"
  shows "later before_env (codec_env (fetch_of (snd (stored_text [1]) @ cs))) 0 1"
  unfolding before_env_def
proof (rule demo_later)
  show "extends (loadManifest 1 (codec_env (fetch_of (snd (stored_text [1])))))
      (loadManifest (Suc 1) (codec_env (fetch_of (snd (stored_text [1]) @ cs))))"
    unfolding extends_def
  proof (intro allI impI)
    fix k t
    assume l: "loadManifest 1 (codec_env (fetch_of (snd (stored_text [1])))) k = Ret (Inr t)"
    then have "fst (fetch_of (snd (stored_text [1])) k) \<noteq> None"
      using demo_missing [of _ k 0] by (metis One_nat_def go.inject(1) sum.distinct(1))
    then have "\<exists>c \<in> set (snd (stored_text [1])). ch_Key c = k"
      by (auto simp: fetch_of_def find_Some_iff split: option.splits)
    moreover have "\<forall>c \<in> set (snd (stored_text [1])). ch_Key c = fst (stored_text [1])" by code_simp
    ultimately have "k = fst (stored_text [1])" by blast
    then show "loadManifest (Suc 1) (codec_env (fetch_of (snd (stored_text [1]) @ cs))) k = Ret (Inr t)"
      using l before_load assms by (simp add: before_env_def numeral_2_eq_2)
  qed
qed

lemma before_later: "later before_env after_env 0 1"
  using before_later_at [of "snd (stored_text [2])"] after_load by (simp add: after_env_def)


end
