(* ===== verification/Upload_Props.thy ===== *)
theory Upload_Props
  imports Manifest_Props
begin

text \<open>
  Paths in addresses and manifests, and the manifest of an uploaded directory.
\<close>

section \<open>Uploaded files\<close>

type_synonym uploaded = "string \<times> string \<times> string"

definition upload_path :: "nat \<Rightarrow> uploaded \<Rightarrow> string" where
  "upload_path start u = RegularSlashes (drop start (fst u))"

definition upload_doc :: "uploaded \<Rightarrow> document" where
  "upload_doc u = (fst (snd u), snd (snd u), 0)"

definition upload_ok :: "uploaded \<Rightarrow> upload" where
  "upload_ok u = (fst u, Inr (snd u))"

text \<open>
  Files come in an order in which no path is a prefix of an earlier one, as \<open>filepath.Walk\<close>
  visits them.
\<close>

definition walk_order :: "nat \<Rightarrow> uploaded list \<Rightarrow> bool" where
  "walk_order start us \<longleftrightarrow> sorted_wrt (\<lambda>u v. \<not> prefix (upload_path start v) (upload_path start u)) us
     \<and> (\<forall>u \<in> set us. upload_path start u \<noteq> [] \<and> snd (snd u) \<noteq> manifestType)"

lemma Upload_step:
  assumes ld: "trie_loader ld m" "mtrie_ok m t" "\<forall>q. opens ld t q" and p: "\<not> inner ld t p"
    and c: "c \<noteq> manifestType" "m \<longrightarrow> ascii p \<and> ascii h \<and> ascii c"
  obtains t' where "addEntry ld t (ManifestTrieEntry p h c 0 None) = Ret t'" "mtrie_ok m t'" "\<forall>q. opens ld t' q"
    "\<And>q. look ld t' q = (if q = p then Some (h, c, 0) else look ld t q)" "\<And>q. inner ld t' q \<Longrightarrow> inner ld t q \<or> prefix q p"
proof -
  let ?e = "ManifestTrieEntry p h c 0 None"
  have "entry_ok m ?e" using c(2) by (simp add: entry_ok_iff plain_text_def)
  then obtain t' where "addEntry ld t ?e = Ret t'" "mtrie_ok m t'" "sets ld p (Some (h, c, 0)) t t'"
    using addEntry_sets [OF ld(1,2), of ?e] ld(3) c by (auto simp: doc_def)
  then show thesis using that setsD sets_inner sets_opens ld(3) p by metis
qed

lemma Upload_entries_found:
  assumes ld: "trie_loader ld m"
    and t: "mtrie_ok m t" "\<forall>q. opens ld t q" "\<forall>q. inner ld t q \<longrightarrow> (\<exists>d \<in> D. prefix q d)"
    and us: "walk_order start us" "\<forall>u \<in> set us. \<forall>d \<in> D. \<not> prefix (upload_path start u) d"
      "m \<longrightarrow> (\<forall>u \<in> set us. ascii (upload_path start u) \<and> ascii (fst (snd u)) \<and> ascii (snd (snd u)))"
  shows "\<exists>t'. Upload_entries ld start index t (map upload_ok us) = Ret (Inr t')
    \<and> mtrie_ok m t' \<and> (\<forall>q. opens ld t' q) \<and> (\<forall>q. inner ld t' q \<longrightarrow> (\<exists>d \<in> upload_path start ` set us \<union> D. prefix q d))
    \<and> (\<forall>u \<in> set us. look ld t' (upload_path start u) = Some (upload_doc u))
    \<and> (\<forall>q. q \<notin> upload_path start ` set us \<and> q \<noteq> [] \<longrightarrow> look ld t' q = look ld t q)
    \<and> look ld t' [] = (if index \<in> upload_path start ` set us then look ld t' index else look ld t [])"
  using t us
proof (induction us arbitrary: t D)
  case (Cons u us)
  obtain f h c where u: "u = (f, h, c)" by (cases u)
  let ?p = "upload_path start u"
  have c: "c \<noteq> manifestType" "?p \<noteq> []" using Cons.prems(4) u by (auto simp: walk_order_def)
  have plain: "m \<longrightarrow> ascii ?p \<and> ascii h \<and> ascii c" "m \<longrightarrow> ascii [] \<and> ascii h \<and> ascii c" using Cons.prems(6) u by auto
  have np: "\<not> inner ld t ?p" using Cons.prems(3,5) by auto
  have empty: "\<not> inner ld t []" by simp
  obtain t1 where t1: "(if ?p = index then addEntry ld t (ManifestTrieEntry '''' h c 0 None) else Ret t) = Ret t1"
    "mtrie_ok m t1" "\<forall>q. opens ld t1 q"
    "\<And>q. look ld t1 q = (if q = [] \<and> ?p = index then Some (h, c, 0) else look ld t q)"
    "\<And>q. inner ld t1 q \<Longrightarrow> inner ld t q"
  proof (cases "?p = index")
    case True
    obtain t' where t': "addEntry ld t (ManifestTrieEntry '''' h c 0 None) = Ret t'" "mtrie_ok m t'" "\<forall>q. opens ld t' q"
      "\<And>q. look ld t' q = (if q = [] then Some (h, c, 0) else look ld t q)" "\<And>q. inner ld t' q \<Longrightarrow> inner ld t q \<or> prefix q []"
      using Upload_step [OF ld Cons.prems(1,2) empty c(1) plain(2)] by metis
    have "inner ld t q" if "inner ld t' q" for q using t'(5) [OF that] that by (cases "q = []") auto
    then show ?thesis using that [of t'] t'(1-4) True by simp
  next
    case False
    then show ?thesis using that Cons.prems(1,2) by simp
  qed
  obtain t2 where t2: "addEntry ld t1 (ManifestTrieEntry ?p h c 0 None) = Ret t2" "mtrie_ok m t2" "\<forall>q. opens ld t2 q"
    "\<And>q. look ld t2 q = (if q = ?p then Some (h, c, 0) else look ld t1 q)" "\<And>q. inner ld t2 q \<Longrightarrow> inner ld t1 q \<or> prefix q ?p"
    using Upload_step [OF ld t1(2,3) _ c(1) plain(1)] np t1(5) by metis
  have step: "Upload_entries ld start index t (map upload_ok (u # us)) = Upload_entries ld start index t2 (map upload_ok us)"
    using t1(1) t2(1) by (simp add: u upload_ok_def upload_path_def Let_def)
  have "\<forall>q. inner ld t2 q \<longrightarrow> (\<exists>d \<in> insert ?p D. prefix q d)" using t2(5) t1(5) Cons.prems(3) by blast
  moreover have "walk_order start us" "\<forall>v \<in> set us. \<not> prefix (upload_path start v) ?p"
    using Cons.prems(4) by (auto simp: walk_order_def)
  ultimately obtain t' where t': "Upload_entries ld start index t2 (map upload_ok us) = Ret (Inr t')" "mtrie_ok m t'" "\<forall>q. opens ld t' q"
    "\<forall>q. inner ld t' q \<longrightarrow> (\<exists>d \<in> upload_path start ` set us \<union> insert ?p D. prefix q d)"
    "\<forall>v \<in> set us. look ld t' (upload_path start v) = Some (upload_doc v)"
    "\<forall>q. q \<notin> upload_path start ` set us \<and> q \<noteq> [] \<longrightarrow> look ld t' q = look ld t2 q"
    "look ld t' [] = (if index \<in> upload_path start ` set us then look ld t' index else look ld t2 [])"
    using Cons.IH [OF t2(2,3), of "insert ?p D"] Cons.prems(5,6) by auto
  have fresh: "?p \<notin> upload_path start ` set us"
    using \<open>\<forall>v \<in> set us. \<not> prefix (upload_path start v) ?p\<close> by auto
  have "look ld t' ?p = Some (upload_doc u)" using t'(6) fresh c(2) t2(4) u by (simp add: upload_doc_def)
  moreover have "look ld t' q = look ld t q" if "q \<notin> upload_path start ` set (u # us)" "q \<noteq> []" for q
    using t'(6) t2(4) [of q] t1(4) [of q] that by simp
  moreover have "look ld t' [] = (if index \<in> upload_path start ` set (u # us) then look ld t' index else look ld t [])"
    using t'(7) t2(4) [of "[]"] t1(4) [of "[]"] c(2) calculation(1) u by (auto simp: upload_doc_def split: if_splits)
  ultimately show ?case using step t'(1-5) by (intro exI [of _ t']) auto
qed simp

text \<open>
  The manifest built for an uploaded directory knows every file under its path relative to
  the directory, knows nothing else, and answers the empty path with the file named as index.
\<close>

theorem upload_files_found:
  assumes "walk_order start us"
  shows "\<exists>t. Upload_entries (loadManifest n E) start index newTrie (map upload_ok us) = Ret (Inr t)
    \<and> (\<forall>u \<in> set us. look (loadManifest n E) t (upload_path start u) = Some (upload_doc u))
    \<and> (\<forall>q. q \<notin> upload_path start ` set us \<and> q \<noteq> [] \<longrightarrow> look (loadManifest n E) t q = None)
    \<and> look (loadManifest n E) t [] =
        (if index \<in> upload_path start ` set us then look (loadManifest n E) t index else None)"
proof -
  have "opens (loadManifest n E) newTrie q" "\<not> inner (loadManifest n E) newTrie q" for q
    by (simp_all add: newTrie_def opens_slot inner_slot)
  then show ?thesis
    using Upload_entries_found [OF stored.trie_loader_axioms mtrie_ok_new, of n E "{}" start us index] assms
    by (auto cong: if_cong)
qed

theorem upload_files_found_witness:
  "\<exists>t. Upload_entries (loadManifest 1 (demo_env no_fetch)) 2 ''a'' newTrie
       [(''/d/a'', Inr (''01'', ''text/plain'')), (''/d/ab'', Inr (''02'', ''text/html''))] = Ret (Inr t)
    \<and> look (loadManifest 1 (demo_env no_fetch)) t ''a'' = Some (''01'', ''text/plain'', 0)
    \<and> look (loadManifest 1 (demo_env no_fetch)) t '''' = Some (''01'', ''text/plain'', 0)
    \<and> look (loadManifest 1 (demo_env no_fetch)) t ''ab'' = Some (''02'', ''text/html'', 0)"
proof -
  have p: "RegularSlashes ''/a'' = ''a''" "RegularSlashes ''/ab'' = ''ab''"
    by (simp_all add: RegularSlashes_def Let_def numeral_eq_Suc)
  have "walk_order 2 [(''/d/a'', ''01'', ''text/plain''), (''/d/ab'', ''02'', ''text/html'')]"
    by (simp add: walk_order_def upload_path_def p manifestType_def)
  then obtain t where t: "Upload_entries (loadManifest 1 (demo_env no_fetch)) 2 ''a'' newTrie
       (map upload_ok [(''/d/a'', ''01'', ''text/plain''), (''/d/ab'', ''02'', ''text/html'')]) = Ret (Inr t)"
    and found: "\<forall>u \<in> set [(''/d/a'', ''01'', ''text/plain''), (''/d/ab'', ''02'', ''text/html'')].
       look (loadManifest 1 (demo_env no_fetch)) t (upload_path 2 u) = Some (upload_doc u)"
    and index: "look (loadManifest 1 (demo_env no_fetch)) t [] =
       (if ''a'' \<in> upload_path 2 ` set [(''/d/a'', ''01'', ''text/plain''), (''/d/ab'', ''02'', ''text/html'')]
        then look (loadManifest 1 (demo_env no_fetch)) t ''a'' else None)"
    using upload_files_found by blast
  have u: "upload_path 2 (''/d/a'', x) = ''a''" "upload_path 2 (''/d/ab'', x) = ''ab''" for x
    by (simp_all add: upload_path_def p)
  have "look (loadManifest 1 (demo_env no_fetch)) t ''a'' = Some (''01'', ''text/plain'', 0)"
    "look (loadManifest 1 (demo_env no_fetch)) t ''ab'' = Some (''02'', ''text/html'', 0)"
    using bspec [OF found, of "(''/d/a'', ''01'', ''text/plain'')"] bspec [OF found, of "(''/d/ab'', ''02'', ''text/html'')"]
    by (simp_all add: u upload_doc_def)
  moreover have "look (loadManifest 1 (demo_env no_fetch)) t [] = look (loadManifest 1 (demo_env no_fetch)) t ''a''"
    using index by (simp add: u)
  ultimately show ?thesis using t by (intro exI [of _ t]) (simp add: upload_ok_def)
qed

section \<open>Paths\<close>

text \<open>
  \<open>RegularSlashes\<close> returns the path with the same segments that has no leading, trailing or
  repeated slash, and leaves such a path as it is.
\<close>

theorem RegularSlashes_normal_form:
  "regular (RegularSlashes p) \<and> segs (RegularSlashes p) = segs p \<and> RegularSlashes (RegularSlashes p) = RegularSlashes p"
  using RegularSlashes_regular RegularSlashes_segs RegularSlashes_same by blast

text \<open>
  C34: the parser of addresses takes the first segment as the host and keeps the following
  segments in the path. It panics exactly for an address without segments, that is one made of
  slashes only or the empty one.
\<close>

theorem parse_address:
  "(parse uri = Panic \<longleftrightarrow> segs uri = []) \<and> (segs uri \<noteq> [] \<longrightarrow>
     (\<exists>path. parse uri = Ret (hd (segs uri), path) \<and> segs path = tl (segs uri)))"
  using parse_segs [of uri] by (auto split: go.splits)

theorem parse_address_witness:
  "parse ''//'' = Panic \<and> (\<exists>path. parse ''/ab//c/d'' = Ret (''ab'', path) \<and> segs path = [''c'', ''d''])"
  using parse_address [of "''//''"] parse_address [of "''/ab//c/d''"] by simp

end
