(* ===== verification/Manifest_List.thy ===== *)
theory Manifest_List
  imports Manifest_Props
begin

text \<open>
  The listing of a manifest trie under a prefix, on which \<open>FileSystem.Download\<close> rests.
\<close>

section \<open>Tries in memory\<close>

fun in_memory :: "manifestTrie \<Rightarrow> bool" and entry_in_memory :: "manifestTrieEntry \<Rightarrow> bool" where
  "in_memory (ManifestTrie es h) \<longleftrightarrow> (\<forall>x \<in> set es. case x of None \<Rightarrow> True | Some e \<Rightarrow> entry_in_memory e)"
| "entry_in_memory (ManifestTrieEntry p h c s st) \<longleftrightarrow>
     (case st of None \<Rightarrow> c \<noteq> manifestType | Some t \<Rightarrow> in_memory t)"

lemma entry_in_memory_iff:
  "entry_in_memory e \<longleftrightarrow> (case te_subtrie e of None \<Rightarrow> \<not> is_manifest e | Some t \<Rightarrow> in_memory t)"
  by (cases e) (simp cong: option.case_cong)

lemma in_memory_entry: "in_memory (ManifestTrie es h) \<Longrightarrow> Some e \<in> set es \<Longrightarrow> entry_in_memory e"
  by force

lemma size_subtrie:
  assumes "Some e \<in> set es" "te_subtrie e = Some t"
  shows "size t < size (ManifestTrie es h)"
proof -
  have "size t < size e" using assms(2) by (cases e) simp
  moreover have "size e < size (ManifestTrie es h)"
    using size_list_estimation' [OF assms(1), of "size e" "size_option size"] by simp
  ultimately show ?thesis by simp
qed

lemma in_memory_listable: "in_memory t \<Longrightarrow> size t < m \<Longrightarrow> listable ld m t"
proof (induction m arbitrary: t)
  case (Suc m)
  obtain es h where t: "t = ManifestTrie es h" by (cases t)
  have "\<exists>sub. subtrie_of ld e = Some sub \<and> listable ld m sub" if e: "Some e \<in> set es" "is_manifest e" for e
  proof -
    obtain sub where "te_subtrie e = Some sub" "in_memory sub"
      using in_memory_entry [OF Suc.prems(1) [unfolded t] e(1)] e(2) by (auto simp: entry_in_memory_iff split: option.splits)
    then show ?thesis
      using Suc.IH [of sub] size_subtrie [OF e(1), of sub h] Suc.prems(2) t by (auto simp: subtrie_of_def)
  qed
  then show ?case using t by simp
qed simp

section \<open>The loop over the slots\<close>

text \<open>Visiting a slot may load its subtrie; the other slots stay as they are.\<close>

definition visits :: "(nat \<Rightarrow> manifestTrie \<Rightarrow> listing mrun) \<Rightarrow> manifestTrieEntry option list \<Rightarrow> nat
    \<Rightarrow> (manifestTrieEntry \<times> string) list \<Rightarrow> bool" where
  "visits visit es i out \<longleftrightarrow> (\<forall>t. length (mt_entries t) = length es \<longrightarrow> mt_entries t ! i = es ! i \<longrightarrow>
     (\<exists>t'. visit i t = Ret (out, None, t') \<and> length (mt_entries t') = length es
        \<and> (\<forall>j. j \<noteq> i \<longrightarrow> mt_entries t' ! j = mt_entries t ! j)))"

lemma list_slots_concat:
  assumes "\<And>i. a \<le> i \<Longrightarrow> i < a + k \<Longrightarrow> visits visit es i (out i)"
    "length (mt_entries t) = length es" "\<And>i. a \<le> i \<Longrightarrow> mt_entries t ! i = es ! i"
  shows "\<exists>t'. list_slots visit a k t = Ret (concat (map out [a..<a + k]), None, t')"
  using assms
proof (induction k arbitrary: a t)
  case (Suc k)
  have u: "[a..<a + Suc k] = a # [Suc a..<Suc a + k]" using upt_rec by simp
  obtain t1 where t1: "visit a t = Ret (out a, None, t1)" "length (mt_entries t1) = length es"
    "\<And>j. j \<noteq> a \<Longrightarrow> mt_entries t1 ! j = mt_entries t ! j"
    using Suc.prems(1) [of a] Suc.prems(2) Suc.prems(3) [of a] by (auto simp: visits_def)
  obtain t2 where "list_slots visit (Suc a) k t1 = Ret (concat (map out [Suc a..<Suc a + k]), None, t2)"
    using Suc.IH [of "Suc a" t1] Suc.prems t1(2,3) by fastforce
  then show ?case using t1(1) u by simp
qed simp

definition listed :: "(manifestTrieEntry \<times> string) list \<Rightarrow> (string \<times> document) set" where
  "listed out = (\<lambda>(e, sfx). (sfx, doc e)) ` set out"

lemma listed_simps [simp]: "listed [] = {}" "listed (concat outs) = (\<Union>out \<in> set outs. listed out)"
  by (simp_all add: listed_def image_UN)

definition below :: "(string \<Rightarrow> document option) \<Rightarrow> string \<Rightarrow> string \<Rightarrow> (string \<times> document) set" where
  "below M p rp = {(rp @ s, v) | s v. M (p @ s) = Some v}"

lemma below_slots:
  assumes "mtrie_ok m (ManifestTrie es h)"
  shows "below (look ld (ManifestTrie es h)) p rp =
    (\<Union>i \<in> (if p = [] then {0..<257} else {slot p}). below (look_entry ld (es ! i)) p rp)"
proof -
  have only: "slot s = i" if i: "i < 257" "look_entry ld (es ! i) s = Some v" for i s v
  proof -
    obtain e where e: "es ! i = Some e" using i(2) by (cases "es ! i") auto
    then show ?thesis
      using mtrie_ok_entry(1) [OF assms e i(1)] look_entry_Some_slot [of ld e s] i(2) by (metis option.distinct(1))
  qed
  show ?thesis
  proof (cases "p = []")
    case True
    then show ?thesis using only by (auto simp: below_def look_slot) force+
  next
    case False
    then have "slot (p @ s) = slot p" for s using slot_prefix [of p "p @ s"] by simp
    then show ?thesis using False by (simp add: below_def look_slot)
  qed
qed

section \<open>One entry\<close>

lemma below_document:
  "\<not> is_manifest e \<Longrightarrow> below (look_entry ld (Some e)) p rp =
    (if length p \<le> length (te_Path e) \<and> p = take (length p) (te_Path e)
     then {(rp @ drop (length p) (te_Path e), doc e)} else {})"
  by (auto simp: below_def) (metis append_take_drop_id append_eq_conv_conj)+

lemma below_manifest:
  assumes "is_manifest e" "te_Path e \<noteq> []" "subtrie_of ld e = Some sub"
    "l = (if length (te_Path e) < length p then length (te_Path e) else length p)"
  shows "below (look_entry ld (Some e)) p rp =
    (if take l p = take l (te_Path e) then below (look ld sub) (drop l p) (rp @ drop l (te_Path e)) else {})"
proof -
  have e: "look_entry ld (Some e) q = (if prefix (te_Path e) q then look ld sub (drop (length (te_Path e)) q) else None)" for q
    using assms(1-3) by (simp add: look_entry_def)
  show ?thesis
  proof (cases "length (te_Path e) < length p")
    case True
    have "prefix (te_Path e) (p @ s) \<longleftrightarrow> take l p = te_Path e" for s
      using True assms(4) take_eq_prefix [of "te_Path e" p] by (auto simp: prefix_append)
    then show ?thesis using True assms(4) by (auto simp: below_def e)
  next
    case False
    then have l: "l = length p" using assms(4) by simp
    have iff: "prefix (te_Path e) (p @ s) \<longleftrightarrow> (\<exists>r. te_Path e = p @ r \<and> prefix r s)" for s
      using False prefix_length_prefix [of p "p @ s" "te_Path e"] by (auto simp: prefix_def)
    show ?thesis
    proof (cases "p = take l (te_Path e)")
      case True
      then obtain r where r: "te_Path e = p @ r" by (metis append_take_drop_id)
      have "look_entry ld (Some e) (p @ s) = Some v \<longleftrightarrow> (\<exists>s'. s = r @ s' \<and> look ld sub s' = Some v)" for s v
        using r by (auto simp: e prefix_def)
      then have "below (look_entry ld (Some e)) p rp = {(rp @ r @ s', v) | s' v. look ld sub s' = Some v}"
        unfolding below_def by blast
      then show ?thesis using l r by (simp add: below_def)
    next
      case False
      then have "\<not> prefix (te_Path e) (p @ s)" for s using iff l by auto
      then show ?thesis using False l by (simp add: below_def e)
    qed
  qed
qed

section \<open>The listing\<close>

lemma listWithPrefixInt_slots:
  "listWithPrefixInt (Suc n) ld p rp t =
    list_slots (list_slot (listWithPrefixInt n ld) ld p rp) (if p = [] then 0 else slot p) (if p = [] then 257 else 1) t"
  by (simp add: slot_def Let_def)

declare listWithPrefixInt.simps [simp del]

lemma list_slot_visits:
  assumes ok: "mtrie_ok True (ManifestTrie es h)" and i: "i < 257" and ld: "trie_loader ld True"
    and sub: "\<And>sub p rp. mtrie_ok True sub \<Longrightarrow> listable ld m sub \<Longrightarrow>
        \<exists>out t'. listed_by p rp sub = Ret (out, None, t') \<and> listed out = below (look ld sub) p rp"
    and l: "listable_entry ld m (es ! i)"
  shows "\<exists>out. visits (list_slot listed_by ld p rp) es i out \<and> listed out = below (look_entry ld (es ! i)) p rp"
proof (cases "es ! i")
  case None
  then show ?thesis by (intro exI [of _ "[]"]) (simp add: visits_def list_slot_def below_def)
next
  case (Some e)
  note e_ok = mtrie_ok_entry [OF ok Some i]
  show ?thesis
  proof (cases "is_manifest e")
    case False
    define out where "out = (if length p \<le> length (te_Path e) \<and> p = take (length p) (te_Path e) then [(e, rp @ drop (length p) (te_Path e))] else [])"
    have "visits (list_slot listed_by ld p rp) es i out" using False Some by (auto simp: visits_def list_slot_def Let_def out_def)
    moreover have "listed out = below (look_entry ld (es ! i)) p rp"
      using False Some by (auto simp: below_document listed_def out_def)
    ultimately show ?thesis by blast
  next
    case True
    obtain s where s: "subtrie_of ld e = Some s" "listable ld m s" using l True Some by (auto simp: listable_entry_def)
    have s_ok: "mtrie_ok True s" using trie_loader.subtrie_ok [OF ld e_ok(2) s(1)] .
    have ne: "te_Path e \<noteq> []" using e_ok(3) True by auto
    define k where "k = (if length (te_Path e) < length p then length (te_Path e) else length p)"
    obtain out s' where out: "listed_by (drop k p) (rp @ drop k (te_Path e)) s = Ret (out, None, s')"
      "listed out = below (look ld s) (drop k p) (rp @ drop k (te_Path e))" using sub [OF s_ok s(2)] by blast
    obtain e' where e': "loadSubTrie ld e = Ret (e', None)" "te_subtrie e' = Some s"
      using s(1) by (auto simp: loadSubTrie_def subtrie_of_def split: option.splits go.splits sum.splits)
    define out' where "out' = (if take k p = take k (te_Path e) then out else [])"
    have "visits (list_slot listed_by ld p rp) es i out'"
      using True Some e' out(1) by (auto simp: visits_def list_slot_def Let_def k_def [symmetric] out'_def)
    moreover have "listed out' = below (look_entry ld (es ! i)) p rp"
      using below_manifest [OF True ne s(1) k_def, of rp] out(2) Some by (simp add: out'_def)
    ultimately show ?thesis by blast
  qed
qed

lemma list_listable:
  assumes "trie_loader ld True" "mtrie_ok True t" "listable ld m t"
  shows "\<exists>out t'. listWithPrefixInt m ld p rp t = Ret (out, None, t') \<and> listed out = below (look ld t) p rp"
  using assms
proof (induction m arbitrary: t p rp)
  case (Suc m)
  obtain es h where t: "t = ManifestTrie es h" by (cases t)
  note ok = Suc.prems(2) [unfolded t]
  have len: "length es = 257" using ok mtrie_ok_length by blast
  have "listable_entry ld m (es ! i)" if "i < 257" for i
    using Suc.prems(3) that len nth_mem [of i es] unfolding listable_entries t by simp
  then have "\<exists>out. visits (list_slot (listWithPrefixInt m ld) ld p rp) es i out \<and> listed out = below (look_entry ld (es ! i)) p rp" if "i < 257" for i
    using list_slot_visits [OF ok that Suc.prems(1), where m = m and listed_by = "listWithPrefixInt m ld"] Suc.IH [OF Suc.prems(1)] that by blast
  then obtain out where out: "\<And>i. i < 257 \<Longrightarrow> visits (list_slot (listWithPrefixInt m ld) ld p rp) es i (out i)
      \<and> listed (out i) = below (look_entry ld (es ! i)) p rp" by metis
  let ?a = "if p = [] then 0 else slot p" and ?k = "if p = [] then 257 else 1 :: nat"
  have "visits (list_slot (listWithPrefixInt m ld) ld p rp) es i (out i)" if "?a \<le> i" "i < ?a + ?k" for i
  proof -
    have "i < 257" using that less_trans [OF _ slot_lt, of i p] slot_lt [of p] by (auto simp: less_Suc_eq split: if_splits)
    then show ?thesis using out by blast
  qed
  then have "\<exists>t'. listWithPrefixInt (Suc m) ld p rp t = Ret (concat (map out [?a..<?a + ?k]), None, t')"
    unfolding listWithPrefixInt_slots by (rule list_slots_concat) (simp_all add: t)
  moreover have "listed (concat (map out [?a..<?a + ?k])) = below (look ld t) p rp"
    unfolding t below_slots [OF ok] using out by (auto simp: atLeastLessThan_def [symmetric])
  ultimately show ?case by blast
qed simp

text \<open>A trie whose inner nodes have short paths, and all of whose paths can be followed, can be listed.\<close>

lemma listable_bounded:
  assumes "trie_loader ld True" "mtrie_ok True t" "\<forall>q. opens ld t q" "\<forall>q. inner ld t q \<longrightarrow> length q < m"
  shows "listable ld (Suc m) t"
  using assms
proof (induction m arbitrary: t rule: less_induct)
  case (less m)
  obtain es h where t: "t = ManifestTrie es h" by (cases t)
  note ok = less.prems(2) [unfolded t]
  have "\<exists>sub. subtrie_of ld e = Some sub \<and> listable ld m sub" if e: "Some e \<in> set es" "is_manifest e" for e
  proof -
    obtain i where i: "i < 257" "es ! i = Some e" using e(1) ok mtrie_ok_length by (metis in_set_conv_nth)
    note e_ok = mtrie_ok_entry [OF ok i(2,1)]
    have ne: "te_Path e \<noteq> []" using e_ok(3) e(2) by auto
    have sl: "es ! slot (te_Path e @ q) = Some e" for q using e_ok(1) i(2) slot_prefix [of "te_Path e" "te_Path e @ q"] ne by simp
    have op: "\<exists>s. subtrie_of ld e = Some s \<and> opens ld s q" for q
      using less.prems(3) [rule_format, of "te_Path e @ q"] sl e(2) ne by (auto simp: t opens_slot opens_entry_def)
    then obtain s where s: "subtrie_of ld e = Some s" "\<forall>q. opens ld s q" by (metis option.inject)
    have lt: "length (te_Path e) + length q < m" if "inner ld s q \<or> q = []" for q
      using less.prems(4) [rule_format, of "te_Path e @ q"] sl [of q] e(2) ne s(1) that by (auto simp: t inner_slot inner_of_def)
    have "\<forall>q. inner ld s q \<longrightarrow> length q < m - length (te_Path e)" using lt by fastforce
    then have "listable ld (Suc (m - length (te_Path e))) s"
      using less.IH [OF _ less.prems(1) trie_loader.subtrie_ok [OF less.prems(1) e_ok(2) s(1)] s(2)] lt [of "[]"] ne by (cases "te_Path e") auto
    then show ?thesis using s(1) listable_mono [of "Suc (m - length (te_Path e))" m] ne lt [of "[]"] by (cases "te_Path e") auto
  qed
  then show ?case using t by simp
qed

section \<open>Property\<close>

text \<open>
  C18: listing a trie ends without error and reports exactly the documents whose path starts with the
  prefix, each under the rest of its path, through all subtries that are loaded on the way. A bound on the nesting of
  the subtries is enough for the nesting of the calls.
\<close>

theorem listWithPrefix_exact:
  assumes "package_manifests E" "mtrie_ok True t" "listable (loadManifest n E) m t"
  shows "\<exists>out t'. listWithPrefix m (loadManifest n E) p t = Ret (out, None, t')
    \<and> {(sfx, te_Hash e, te_ContentType e, te_Status e) | e sfx. (e, sfx) \<in> set out} =
      {(sfx, v). look (loadManifest n E) t (p @ sfx) = Some v}"
proof -
  obtain out t' where out: "listWithPrefixInt m (loadManifest n E) p '''' t = Ret (out, None, t')"
    "listed out = below (look (loadManifest n E) t) p ''''"
    using list_listable [OF package_loader [OF assms(1)] assms(2,3)] by blast
  have "{(sfx, te_Hash e, te_ContentType e, te_Status e) | e sfx. (e, sfx) \<in> set out} = listed out"
    by (force simp: listed_def doc_def)
  also have "\<dots> = {(sfx, v). look (loadManifest n E) t (p @ sfx) = Some v}" using out(2) by (auto simp: below_def)
  finally show ?thesis using out(1) by (auto simp: listWithPrefix_def)
qed

theorem listWithPrefix_exact_witness:
  "\<exists>out t'. listWithPrefix (Suc (size demo_trie)) (loadManifest 1 (demo_env no_fetch)) ''a'' demo_trie = Ret (out, None, t')
    \<and> (''b'', ''01'', ''text/plain'', 200) \<in> {(sfx, te_Hash e, te_ContentType e, te_Status e) | e sfx. (e, sfx) \<in> set out}"
proof -
  have "in_memory demo_trie"
    using set_update_subset_insert [of "replicate 257 None" 97 "Some (demo_doc ''ab'' ''01'')"]
    by (auto simp: demo_trie_def demo_doc_def manifestType_def)
  then have l: "listable (loadManifest 1 (demo_env no_fetch)) (Suc (size demo_trie)) demo_trie" by (rule in_memory_listable) simp
  have "package_manifests (demo_env no_fetch)" by (simp add: package_manifests_def demo_env_def)
  then obtain out t' where out: "listWithPrefix (Suc (size demo_trie)) (loadManifest 1 (demo_env no_fetch)) ''a'' demo_trie = Ret (out, None, t')"
    "{(sfx, te_Hash e, te_ContentType e, te_Status e) | e sfx. (e, sfx) \<in> set out} =
      {(sfx, v). look (loadManifest 1 (demo_env no_fetch)) demo_trie (''a'' @ sfx) = Some v}"
    using listWithPrefix_exact [OF _ demo_trie_ok l] by blast
  have "look (loadManifest 1 (demo_env no_fetch)) demo_trie (''a'' @ ''b'') = Some (''01'', ''text/plain'', 200)"
    by (simp add: demo_look)
  then have "(''b'', ''01'', ''text/plain'', 200) \<in> {(sfx, te_Hash e, te_ContentType e, te_Status e) | e sfx. (e, sfx) \<in> set out}"
    unfolding out(2) by simp
  then show ?thesis using out(1) by (intro exI [of _ out] exI [of _ t'] conjI)
qed

end
