(* ===== verification/Pyramid.thy ===== *)
theory Pyramid
  imports Chunker Event_Systems
begin

text \<open>
  \<open>storage/pyramid.go\<close>: a second splitter. \<open>Split\<close> cuts the document into chunks and hands them to
  eight workers over a channel. A worker hashes its chunk and inserts the hash into a table of
  unfinished nodes, one map per level, under a lock; the worker whose hash was the last one missing
  from a node goes on with that node, hashes it and inserts it into the level above.

  The goroutines interleave: \<open>pyramid_step\<close> is the effect of one move of one of them. Reading of
  the input does not depend on the workers, so the list of tasks is computed by \<open>feed_loop\<close>
  beforehand and sent task by task. Nodes are shared by pointer: the tables map indices to addresses in a heap.
  The chunks go to \<open>chunkC\<close>, whose receiver always takes them. A panic of a worker takes the process down (\<open>py_crashed\<close>).

  The depth of the tree is computed in floating point,
  \<open>math.Ceil(math.Log(chunks) / math.Log(branches))\<close>; this expression is the parameter \<open>ceil_log\<close>. Indices and
  powers are \<open>int64\<close> in the code; the powers are at most \<open>branches\<close> times the number of chunks times
  \<open>branches\<close>, which fits for documents below \<open>2 ^ 61\<close> bytes, so they are natural numbers here.
\<close>

definition processors :: nat where
  "processors = 8"

record Node =
  nd_Pending :: int
  nd_Size :: u64
  nd_Children :: "bytes list"
  nd_Last :: bool

record Task =
  tk_Index :: nat
  tk_Size :: u64
  tk_Data :: bytes
  tk_Last :: bool

record PyramidChunker =
  pc_hashFunc :: Hasher
  pc_chunkSize :: nat
  pc_hashSize :: nat
  pc_branches :: nat
  pc_workerCount :: nat

definition NewPyramidChunker :: "Hasher \<Rightarrow> Hasher \<Rightarrow> ChunkerParams \<Rightarrow> PyramidChunker option" where
  "NewPyramidChunker sha256 keccak256 params =
     (case MakeHashFunc sha256 keccak256 (cp_Hash params) of
        None \<Rightarrow> None
      | Some H \<Rightarrow> Some \<lparr>pc_hashFunc = H, pc_chunkSize = h_Size H * cp_Branches params,
                      pc_hashSize = h_Size H, pc_branches = cp_Branches params, pc_workerCount = 1\<rparr>)"

section \<open>Reading the document\<close>

lemma reader_Read_shrinks:
  "reader_Read rs n = (d, None, rs') \<Longrightarrow> 0 < n \<Longrightarrow>
     length rs' < length rs \<or>
     (length rs' = length rs \<and> length (reader_content rs') < length (reader_content rs))"
  by (cases "(rs, n)" rule: reader_Read.cases) (auto split: if_splits)

text \<open>
  The loop that feeds the pool: the tasks, and whether it was left by the branch that closes
  \<open>abortC\<close>. \<open>rd\<close> is the number of bytes read so far. That branch leaves the loop at once, so the
  case \<open><-abortC\<close> of the \<open>select\<close> is never taken.
\<close>

function feed_loop :: "nat \<Rightarrow> nat \<Rightarrow> reader \<Rightarrow> nat \<Rightarrow> nat \<Rightarrow> Task list \<times> bool" where
  "feed_loop cs sz rs rd index =
     (if cs = 0 then ([], False)
      else case reader_Read rs cs of (d, err, rs') \<Rightarrow>
        let n = length d;
            isLast = (rd + n = sz \<or> err = Some ErrUnexpectedEOF \<or> err = Some EOF)
        in if err \<noteq> None \<and> \<not> isLast then ([], True)
           else let task = \<lparr>tk_Index = index, tk_Size = of_nat n,
                            tk_Data = LittleEndian_PutUint64 (of_nat n) @ d, tk_Last = isLast\<rparr>
             in if isLast then ([task], False)
                else case feed_loop cs sz rs' (rd + n) (Suc index) of (ts, ab) \<Rightarrow> (task # ts, ab))"
  by pat_completeness auto
termination
  by (relation "measures [\<lambda>(cs, sz, rs, rd, index). length rs,
        \<lambda>(cs, sz, rs, rd, index). length (reader_content rs)]")
     (auto dest!: reader_Read_shrinks [OF sym])

declare feed_loop.simps [simp del]

section \<open>The pool\<close>

text \<open>
  A worker waits for a task, holds one at a level (\<open>node\<close> is the node it has completed, none at the
  leaves), or has hashed what it holds and is about to take the lock. \<open>depth\<close> and \<open>pow\<close> are the
  variables of the loop.
\<close>

datatype worker =
    Idle
  | is_Holding: Holding Task (w_depth: nat) (w_pow: nat) "addr option"
  | is_Hashed: Hashed Task (w_depth: nat) (w_pow: nat) (w_hash: bytes) (w_data: bytes) (w_size: u64) (w_last: bool)
  | Exited

record pyramid =
  py_todo :: "Task list"
  py_tasks :: "Task list"
  py_workers :: "worker list"
  py_Chunks :: nat
  py_Levels :: "(nat \<rightharpoonup> addr) list"
  py_heap :: "Node list"
  py_chunkC :: "Chunk list"
  py_crashed :: bool

text \<open>The bytes of an inner chunk: \<open>copy(data[i*hasher.Size()+8:], hash[:])\<close> for every child.\<close>

fun copy_children :: "nat \<Rightarrow> bytes \<Rightarrow> nat \<Rightarrow> bytes list \<Rightarrow> bytes" where
  "copy_children hs data i [] = data"
| "copy_children hs data i (h # ks) =
     copy_children hs (take (i * hs + 8) data @ go_copy (drop (i * hs + 8) data) h) (Suc i) ks"

definition inner_data :: "PyramidChunker \<Rightarrow> Node \<Rightarrow> bytes" where
  "inner_data P node =
     (let hs = h_Size (pc_hashFunc P) in
      copy_children hs
        (LittleEndian_PutUint64 (nd_Size node) @ replicate (hs * length (nd_Children node)) 0)
        0 (nd_Children node))"

text \<open>The unlocked part of an iteration: the hash of the task or of the completed node.\<close>

definition processor_hash :: "PyramidChunker \<Rightarrow> Node list \<Rightarrow> worker \<Rightarrow> worker" where
  "processor_hash P heap w =
     (case w of
        Holding task depth pow None \<Rightarrow>
          Hashed task depth pow (h_Sum (pc_hashFunc P) (tk_Data task)) (tk_Data task) (tk_Size task) (tk_Last task)
      | Holding task depth pow (Some a) \<Rightarrow>
          let node = heap ! a in
          Hashed task depth pow
            (h_Sum (pc_hashFunc P) (LittleEndian_PutUint64 (nd_Size node) @ concat (nd_Children node)))
            (inner_data P node) (nd_Size node) (tk_Last task \<or> nd_Last node)
      | _ \<Rightarrow> w)"

text \<open>The number of children a new node waits for.\<close>

definition initial_pending :: "nat \<Rightarrow> nat \<Rightarrow> nat \<Rightarrow> nat \<Rightarrow> nat" where
  "initial_pending br chunks pow index =
     (if index div pow = chunks div pow
      then (chunks + pow div br - 1) div (pow div br) mod br
      else br)"

text \<open>The node a hash goes to: the one in the table, or a new one.\<close>

definition find_node :: "PyramidChunker \<Rightarrow> pyramid \<Rightarrow> Task \<Rightarrow> nat \<Rightarrow> nat \<Rightarrow> bool \<Rightarrow> addr \<times> pyramid" where
  "find_node P s task depth pow isLast =
     (let k = tk_Index task div pow in
      case (py_Levels s ! depth) k of
        Some a \<Rightarrow> (a, s)
      | None \<Rightarrow>
          let pending = initial_pending (pc_branches P) (py_Chunks s) pow (tk_Index task);
              node = \<lparr>nd_Pending = int pending, nd_Size = 0,
                      nd_Children = replicate pending (replicate 32 0), nd_Last = isLast\<rparr>
          in (length (py_heap s),
              s\<lparr>py_heap := py_heap s @ [node],
                py_Levels := (py_Levels s)[depth := (py_Levels s ! depth)(k \<mapsto> length (py_heap s))]\<rparr>))"

text \<open>
  The locked part of an iteration and what the worker does next. Indexing past the children
  of the node panics.
\<close>

definition processor_insert :: "PyramidChunker \<Rightarrow> nat option \<Rightarrow> pyramid \<Rightarrow> nat \<Rightarrow> pyramid" where
  "processor_insert P swg s w =
     (case py_workers s ! w of
        Hashed task depth pow hash data sz isLast \<Rightarrow>
          (case find_node P s task depth pow isLast of (a, s1) \<Rightarrow>
             let node = py_heap s1 ! a;
                 p = pow div pc_branches P;
                 i = tk_Index task div p mod pc_branches P;
                 left = nd_Pending node - 1
             in if length (nd_Children node) \<le> i then s1\<lparr>py_crashed := True\<rparr>
                else
                  s1\<lparr>py_heap := (py_heap s1)[a := node\<lparr>nd_Pending := left,
                        nd_Last := nd_Last node \<or> isLast,
                        nd_Children := (nd_Children node)[i := go_copy (nd_Children node ! i) hash],
                        nd_Size := nd_Size node + sz\<rparr>],
                     py_chunkC := py_chunkC s1 @ [(NewChunk hash None)\<lparr>ch_SData := Some data, ch_wg := swg\<rparr>],
                     py_Levels := (if depth + 1 < length (py_Levels s1)
                       then (py_Levels s1)[depth + 1 := (py_Levels s1 ! (depth + 1))(tk_Index task div p := None)]
                       else py_Levels s1),
                     py_workers := (py_workers s1)[w :=
                       (if left > 0 \<or> depth = 0 then Idle
                        else Holding task (depth - 1) (pow * pc_branches P) (Some a))]\<rparr>)
      | _ \<Rightarrow> s)"

text \<open>
  The moves: \<open>Split\<close> sends the next task, a worker takes one, hashes, inserts, or leaves when the
  channel is closed and empty. The channel holds \<open>2 * processors\<close> tasks.
\<close>

datatype pyramid_event = Feed | Take nat | Hash nat | Insert nat | Exit nat

definition pyramid_step ::
    "PyramidChunker \<Rightarrow> nat option \<Rightarrow> pyramid_event \<Rightarrow> pyramid \<Rightarrow> pyramid option" where
  "pyramid_step P swg e s =
     (if py_crashed s then None
      else case e of
        Feed \<Rightarrow>
          (case py_todo s of
             [] \<Rightarrow> None
           | t # ts \<Rightarrow> if length (py_tasks s) < 2 * processors
                      then Some (s\<lparr>py_todo := ts, py_tasks := py_tasks s @ [t]\<rparr>) else None)
      | Take w \<Rightarrow>
          (case py_tasks s of
             [] \<Rightarrow> None
           | t # ts \<Rightarrow> if w < length (py_workers s) \<and> py_workers s ! w = Idle
                      then Some (s\<lparr>py_tasks := ts, py_workers := (py_workers s)[w :=
                             Holding t (length (py_Levels s) - 1) (pc_branches P) None]\<rparr>)
                      else None)
      | Hash w \<Rightarrow>
          (if w < length (py_workers s) \<and> is_Holding (py_workers s ! w)
           then Some (s\<lparr>py_workers := (py_workers s)[w := processor_hash P (py_heap s) (py_workers s ! w)]\<rparr>)
           else None)
      | Insert w \<Rightarrow>
          (if w < length (py_workers s) \<and> is_Hashed (py_workers s ! w)
           then Some (processor_insert P swg s w) else None)
      | Exit w \<Rightarrow>
          (if w < length (py_workers s) \<and> py_workers s ! w = Idle \<and> py_todo s = [] \<and> py_tasks s = []
           then Some (s\<lparr>py_workers := (py_workers s)[w := Exited]\<rparr>) else None))"

section \<open>\<open>Split\<close>\<close>

text \<open>
  Up to the start of the pool. A size that is not positive gives a logarithm of zero and a negative
  depth, for which \<open>make\<close> panics.
\<close>

definition pyramid_chunks :: "PyramidChunker \<Rightarrow> nat \<Rightarrow> nat" where
  "pyramid_chunks P sz = (sz + pc_chunkSize P - 1) div pc_chunkSize P"

definition pyramid_start :: "PyramidChunker \<Rightarrow> (nat \<Rightarrow> nat \<Rightarrow> int) \<Rightarrow> reader \<Rightarrow> nat \<Rightarrow> (split_error, pyramid) go" where
  "pyramid_start P ceil_log data sz =
     (if pc_chunkSize P = 0 then Panic
      else let depth = ceil_log (pyramid_chunks P sz) (pc_branches P) + 1 in
        if depth < 0 then Panic
        else Ret \<lparr>py_todo = fst (feed_loop (pc_chunkSize P) sz data 0 0), py_tasks = [],
               py_workers = replicate processors Idle, py_Chunks = pyramid_chunks P sz,
               py_Levels = replicate (nat depth) Map.empty, py_heap = [], py_chunkC = [],
               py_crashed = False\<rparr>)"

text \<open>\<open>pend.Wait\<close> returns when all tasks are done and all workers have left.\<close>

definition pyramid_final :: "pyramid \<Rightarrow> bool" where
  "pyramid_final s \<longleftrightarrow> py_todo s = [] \<and> py_tasks s = [] \<and> list_all (\<lambda>w. w = Exited) (py_workers s)"

text \<open>\<open>results.Levels[0][0].Children[0]\<close>: a missing level, node or child panics.\<close>

definition pyramid_key :: "pyramid \<Rightarrow> (split_error, Key) go" where
  "pyramid_key s =
     (case py_Levels s of
        [] \<Rightarrow> Panic
      | l # _ \<Rightarrow> (case l 0 of
           None \<Rightarrow> Panic
         | Some a \<Rightarrow> (case nd_Children (py_heap s ! a) of [] \<Rightarrow> Panic | k # _ \<Rightarrow> Ret k)))"

end
