(* ===== verification/Pyramid_Laws.thy ===== *)
theory Pyramid_Laws
  imports Pyramid "HOL-Library.Multiset"
begin

text \<open>
  The invariant of the worker pool of the pyramid chunker. The reference is \<open>layer\<close>: the chunks of
  height \<open>h\<close> above the leaves as a function of the document. A set \<open>D\<close> of pairs (height, index)
  stands for the chunks already inserted; everything in the state of the pool is a function of it, up
  to which worker carries which of the chunks that are complete but not yet inserted.
\<close>

section \<open>The layers of the pyramid\<close>

type_synonym pitem = "bytes \<times> u64 \<times> bytes"

definition leaf_item :: "Hasher \<Rightarrow> bytes \<Rightarrow> pitem" where
  "leaf_item H b =
     (let d = LittleEndian_PutUint64 (of_nat (length b)) @ b in (h_Sum H d, of_nat (length b), d))"

definition node_item :: "Hasher \<Rightarrow> pitem list \<Rightarrow> pitem" where
  "node_item H ps =
     (let n = sum_list (map (fst \<circ> snd) ps); d = LittleEndian_PutUint64 n @ concat (map fst ps)
      in (h_Sum H d, n, d))"

fun layer :: "PyramidChunker \<Rightarrow> bytes \<Rightarrow> nat \<Rightarrow> pitem list" where
  "layer P doc 0 = map (leaf_item (pc_hashFunc P)) (blocks (pc_chunkSize P) doc)"
| "layer P doc (Suc h) = map (node_item (pc_hashFunc P)) (blocks (pc_branches P) (layer P doc h))"

definition pyramid_ok :: "PyramidChunker \<Rightarrow> bool" where
  "pyramid_ok P \<longleftrightarrow> hasher_ok (pc_hashFunc P) \<and> h_Size (pc_hashFunc P) = 32 \<and> 1 < pc_branches P
     \<and> 0 < pc_chunkSize P"

text \<open>The counts at which a node is given no room for its children.\<close>

definition pyramid_gap :: "nat \<Rightarrow> nat \<Rightarrow> nat \<Rightarrow> bool" where
  "pyramid_gap br n h \<longleftrightarrow> (n + br ^ h - 1) div br ^ h mod br = 0 \<and> n mod br ^ Suc h \<noteq> 0"

section \<open>Counting\<close>

lemma nat_eqI_less: "(\<And>i. i < m \<longleftrightarrow> i < n) \<Longrightarrow> (m :: nat) = n"
  by (metis linorder_neq_iff)

lemma ceil_ceil:
  assumes "(0::nat) < a" "0 < b"
  shows "((n + a - 1) div a + b - 1) div b = (n + a * b - 1) div (a * b)"
  by (rule nat_eqI_less) (simp only: less_ceil assms nat_0_less_mult_iff simp_thms mult.assoc mult.commute [of a b])

lemma length_layer:
  assumes "pyramid_ok P"
  shows "length (layer P doc h) = (length (layer P doc 0) + pc_branches P ^ h - 1) div pc_branches P ^ h"
proof (induction h)
  case (Suc h)
  have "0 < pc_branches P" using assms by (simp add: pyramid_ok_def)
  then have "length (layer P doc (Suc h)) = (length (layer P doc h) + pc_branches P - 1) div pc_branches P"
    by (simp add: length_blocks)
  also have "\<dots> = (length (layer P doc 0) + pc_branches P ^ h * pc_branches P - 1) div (pc_branches P ^ h * pc_branches P)"
    by (simp only: Suc.IH) (rule ceil_ceil, use \<open>0 < pc_branches P\<close> in simp_all)
  finally show ?case by (simp add: mult.commute)
qed simp

lemma less_layer:
  "pyramid_ok P \<Longrightarrow> c < length (layer P doc h) \<longleftrightarrow> c * pc_branches P ^ h < length (layer P doc 0)"
  by (subst length_layer, assumption, rule less_ceil) (simp add: pyramid_ok_def)

lemma layer_parent:
  assumes "pyramid_ok P" "c < length (layer P doc h)"
  shows "c div pc_branches P < length (layer P doc (Suc h))"
proof -
  have "c div pc_branches P * pc_branches P \<le> c" by simp
  then have "c div pc_branches P * pc_branches P * pc_branches P ^ h \<le> c * pc_branches P ^ h"
    by (rule mult_le_mono1)
  also have "c * pc_branches P ^ h < length (layer P doc 0)"
    using assms(2) less_layer [OF assms(1)] by blast
  finally have "c div pc_branches P * pc_branches P ^ Suc h < length (layer P doc 0)"
    by (simp only: power_Suc mult.assoc)
  then show ?thesis using less_layer [OF assms(1)] by blast
qed

definition kids :: "PyramidChunker \<Rightarrow> bytes \<Rightarrow> nat \<Rightarrow> nat \<Rightarrow> nat set" where
  "kids P doc h k = {c. c < length (layer P doc h) \<and> c div pc_branches P = k}"

lemma finite_kids [simp]: "finite (kids P doc h k)"
  by (simp add: kids_def)

lemma kids_interval:
  assumes "pyramid_ok P"
  shows "kids P doc h k = {k * pc_branches P ..< min (length (layer P doc h)) (k * pc_branches P + pc_branches P)}"
proof -
  have br: "0 < pc_branches P" using assms by (simp add: pyramid_ok_def)
  have "c div pc_branches P = k \<longleftrightarrow> k \<le> c div pc_branches P \<and> c div pc_branches P < Suc k" for c
    by auto
  then have "c div pc_branches P = k \<longleftrightarrow> k * pc_branches P \<le> c \<and> c < k * pc_branches P + pc_branches P" for c
    unfolding add.commute [of "k * pc_branches P"] mult_Suc [symmetric]
    by (simp only: less_eq_div_iff_mult_less_eq [OF br] div_less_iff_less_mult [OF br])
  then show ?thesis by (intro set_eqI) (simp only: kids_def mem_Collect_eq atLeastLessThan_iff min_less_iff_conj, blast)
qed


lemma card_kids:
  "pyramid_ok P \<Longrightarrow>
     card (kids P doc h k) = min (length (layer P doc h)) (k * pc_branches P + pc_branches P) - k * pc_branches P"
  by (simp add: kids_interval)

lemma card_kids_blocks:
  assumes "pyramid_ok P" "k < length (layer P doc (Suc h))"
  shows "card (kids P doc h k) = length (blocks (pc_branches P) (layer P doc h) ! k)"
proof -
  have br: "0 < pc_branches P" using assms by (simp add: pyramid_ok_def)
  have "k < (length (layer P doc h) + pc_branches P - 1) div pc_branches P"
    using assms(2) by (simp add: length_blocks [OF br])
  then have "k * pc_branches P < length (layer P doc h)"
    using less_ceil [OF br] by blast
  then show ?thesis
    by (simp add: card_kids [OF assms(1)] nth_blocks [OF br])
qed

lemma kid_position:
  assumes "pyramid_ok P" "c \<in> kids P doc h k"
  shows "c mod pc_branches P < card (kids P doc h k)" "c = k * pc_branches P + c mod pc_branches P"
proof -
  show c: "c = k * pc_branches P + c mod pc_branches P"
    using assms(2) by (auto simp: kids_def)
  have "c < min (length (layer P doc h)) (k * pc_branches P + pc_branches P)"
    using assms(2) unfolding kids_interval [OF assms(1)] by simp
  then show "c mod pc_branches P < card (kids P doc h k)"
    using c unfolding card_kids [OF assms(1)] by linarith
qed

text \<open>The children a new node waits for are those it has, or none where there is a gap.\<close>

lemma initial_pending_kids:
  assumes ok: "pyramid_ok P" and c: "c < length (layer P doc h)" "index div pc_branches P ^ h = c"
  defines "n \<equiv> length (layer P doc 0)" and "k \<equiv> c div pc_branches P"
  shows "initial_pending (pc_branches P) n (pc_branches P ^ Suc h) index =
     (if pyramid_gap (pc_branches P) n h \<and> k = n div pc_branches P ^ Suc h then 0
      else card (kids P doc h k))"
proof -
  let ?b = "pc_branches P" and ?l = "length (layer P doc h)"
  have br: "0 < ?b" using ok by (simp add: pyramid_ok_def)
  have k: "index div ?b ^ Suc h = k"
    using c(2) by (simp add: k_def power_Suc2 div_mult2_eq del: power_Suc)
  have len: "(n + ?b ^ h - 1) div ?b ^ h = ?l" by (simp add: n_def length_layer [OF ok, of doc h])
  have lt: "i < ?l \<longleftrightarrow> i * ?b ^ h < n" for i using less_layer [OF ok, of i doc h] by (simp add: n_def)
  have kb: "k * ?b < ?l" using c(1) by (metis div_mult_mod_eq k_def le_add1 le_less_trans)
  show ?thesis
  proof (cases "k = n div ?b ^ Suc h")
    case False
    have "k * ?b ^ Suc h < n" using kb lt by (metis mult.assoc power_Suc)
    then have "k \<le> n div ?b ^ Suc h" using br by (simp add: less_eq_div_iff_mult_less_eq del: power_Suc)
    then have "Suc k * ?b ^ Suc h \<le> n" using False br
      by (metis Suc_leI le_neq_implies_less less_eq_div_iff_mult_less_eq zero_less_power)
    then have full: "Suc k * ?b * ?b ^ h \<le> n" by (simp only: power_Suc mult.assoc)
    have "Suc k * ?b \<le> ?l"
    proof (rule ccontr)
      assume "\<not> Suc k * ?b \<le> ?l"
      then have "?l * ?b ^ h < n" using full br
        by (metis less_le_trans mult_less_cancel2 not_le_imp_less zero_less_power)
      then show False using lt by blast
    qed
    then show ?thesis using False k by (simp add: initial_pending_def card_kids [OF ok])
  next
    case True
    have nk: "n < Suc k * ?b ^ Suc h" using True br by (simp add: dividend_less_div_times)
    then have "\<not> Suc k * ?b < ?l" using lt by (metis mult.assoc not_less_iff_gr_or_eq power_Suc)
    then have le: "?l \<le> Suc k * ?b" by simp
    have card: "card (kids P doc h k) = ?l - k * ?b"
      using le by (simp add: card_kids [OF ok])
    have mod: "?l mod ?b = (if ?l = Suc k * ?b then 0 else ?l - k * ?b)"
    proof (cases "?l = Suc k * ?b")
      case False
      then have "?l - k * ?b < ?b" "?l = k * ?b + (?l - k * ?b)" using le kb by simp_all
      then show ?thesis using False by (metis mod_less mod_mult_self3)
    qed simp
    have "n mod ?b ^ Suc h \<noteq> 0"
    proof
      assume "n mod ?b ^ Suc h = 0"
      then have "n = k * ?b * ?b ^ h"
        using True div_mult_mod_eq [of n "?b ^ Suc h"] by (simp add: mult.assoc)
      then show False using kb lt by blast
    qed
    then have gap: "pyramid_gap ?b n h \<longleftrightarrow> ?l = Suc k * ?b"
      unfolding pyramid_gap_def len using mod kb by auto
    show ?thesis using mod k True card len br by (simp add: initial_pending_def gap)
  qed
qed

section \<open>The invariant\<close>

text \<open>
  \<open>m\<close> is the number of tasks, at most the number of leaves. A chunk is ready when it has not been inserted
  but can be: a leaf among the tasks, or a node all of whose children have been inserted.
\<close>

definition ready :: "PyramidChunker \<Rightarrow> bytes \<Rightarrow> nat \<Rightarrow> nat \<Rightarrow> (nat \<times> nat) set \<Rightarrow> (nat \<times> nat) set" where
  "ready P doc L m D = {(h, c). h < L \<and> c < length (layer P doc h) \<and> (h, c) \<notin> D
     \<and> (case h of 0 \<Rightarrow> c < m | Suc h' \<Rightarrow> \<forall>c' \<in> kids P doc h' c. (h', c') \<in> D)}"

definition inserted_ok :: "PyramidChunker \<Rightarrow> bytes \<Rightarrow> nat \<Rightarrow> nat \<Rightarrow> (nat \<times> nat) set \<Rightarrow> bool" where
  "inserted_ok P doc L m D \<longleftrightarrow> (\<forall>(h, c) \<in> D. h < L \<and> c < length (layer P doc h)
     \<and> \<not> (pyramid_gap (pc_branches P) (length (layer P doc 0)) h
          \<and> c div pc_branches P = length (layer P doc 0) div pc_branches P ^ Suc h)
     \<and> (case h of 0 \<Rightarrow> c < m | Suc h' \<Rightarrow> \<forall>c' \<in> kids P doc h' c. (h', c') \<in> D))"

definition present :: "PyramidChunker \<Rightarrow> bytes \<Rightarrow> nat \<Rightarrow> nat \<Rightarrow> (nat \<times> nat) set \<Rightarrow> nat set" where
  "present P doc h k D = {c \<in> kids P doc h k. (h, c) \<in> D}"

definition node_ok :: "PyramidChunker \<Rightarrow> bytes \<Rightarrow> nat \<Rightarrow> nat \<Rightarrow> (nat \<times> nat) set \<Rightarrow> Node \<Rightarrow> bool" where
  "node_ok P doc h k D n \<longleftrightarrow>
     nd_Pending n = int (card (kids P doc h k)) - int (card (present P doc h k D))
   \<and> length (nd_Children n) = card (kids P doc h k)
   \<and> (\<forall>c \<in> kids P doc h k. nd_Children n ! (c mod pc_branches P) =
        (if (h, c) \<in> D then fst (layer P doc h ! c) else replicate 32 0))
   \<and> nd_Size n = (\<Sum>c \<in> present P doc h k D. fst (snd (layer P doc h ! c)))"

text \<open>
  The tables: the nodes with some child inserted that are not themselves inserted. Only the nodes in
  \<open>X\<close> may have no child yet.
\<close>

definition table_ok ::
    "PyramidChunker \<Rightarrow> bytes \<Rightarrow> nat \<Rightarrow> (nat \<times> nat) set \<Rightarrow> (nat \<times> nat) set \<Rightarrow> (nat \<rightharpoonup> addr) list
      \<Rightarrow> Node list \<Rightarrow> bool" where
  "table_ok P doc L X D levels heap \<longleftrightarrow> length levels = L
   \<and> (\<forall>h < L. \<forall>k a. (levels ! (L - 1 - h)) k = Some a \<longrightarrow>
        (present P doc h k D \<noteq> {} \<or> (h, k) \<in> X) \<and> (Suc h, k) \<notin> D \<and> a < length heap \<and> node_ok P doc h k D (heap ! a))
   \<and> (\<forall>h < L. \<forall>k. (levels ! (L - 1 - h)) k = None \<longrightarrow> present P doc h k D = {} \<or> (Suc h, k) \<in> D)
   \<and> (\<forall>h < L. \<forall>h' < L. \<forall>k k' a. (levels ! (L - 1 - h)) k = Some a \<longrightarrow> (levels ! (L - 1 - h')) k' = Some a
        \<longrightarrow> h = h' \<and> k = k')"

definition task_ok :: "PyramidChunker \<Rightarrow> bytes \<Rightarrow> Task \<Rightarrow> bool" where
  "task_ok P doc t \<longleftrightarrow> tk_Index t < length (layer P doc 0)
     \<and> snd (layer P doc 0 ! tk_Index t) = (tk_Size t, tk_Data t)"

definition height :: "nat \<Rightarrow> nat \<Rightarrow> nat" where
  "height L d = L - 1 - d"

definition item_at :: "PyramidChunker \<Rightarrow> nat \<Rightarrow> Task \<Rightarrow> nat \<Rightarrow> nat \<times> nat" where
  "item_at P L t d = (height L d, tk_Index t div pc_branches P ^ height L d)"

fun carry :: "PyramidChunker \<Rightarrow> nat \<Rightarrow> worker \<Rightarrow> (nat \<times> nat) multiset" where
  "carry P L (Holding t d p n) = {#item_at P L t d#}"
| "carry P L (Hashed t d p hash data sz l) = {#item_at P L t d#}"
| "carry P L _ = {#}"

fun worker_ok :: "PyramidChunker \<Rightarrow> bytes \<Rightarrow> nat \<Rightarrow> (nat \<rightharpoonup> addr) list \<Rightarrow> worker \<Rightarrow> bool" where
  "worker_ok P doc L levels (Holding t d p n) \<longleftrightarrow> d < L \<and> p = pc_branches P ^ Suc (height L d)
     \<and> (case n of
          None \<Rightarrow> height L d = 0 \<and> task_ok P doc t
        | Some a \<Rightarrow> 0 < height L d \<and> (levels ! Suc d) (snd (item_at P L t d)) = Some a)"
| "worker_ok P doc L levels (Hashed t d p hash data sz l) \<longleftrightarrow> d < L \<and> p = pc_branches P ^ Suc (height L d)
     \<and> layer P doc (height L d) ! snd (item_at P L t d) = (hash, sz, data)"
| "worker_ok P doc L levels _ \<longleftrightarrow> True"

definition chunk_of :: "nat option \<Rightarrow> pitem \<Rightarrow> Chunk" where
  "chunk_of swg p = (NewChunk (fst p) None)\<lparr>ch_SData := Some (snd (snd p)), ch_wg := swg\<rparr>"

definition pool_inv ::
    "PyramidChunker \<Rightarrow> nat option \<Rightarrow> bytes \<Rightarrow> nat \<Rightarrow> nat \<Rightarrow> (nat \<times> nat) set \<Rightarrow> pyramid \<Rightarrow> bool" where
  "pool_inv P swg doc L m D s \<longleftrightarrow>
     py_Chunks s = length (layer P doc 0) \<and> inserted_ok P doc L m D
   \<and> table_ok P doc L {} D (py_Levels s) (py_heap s)
   \<and> (\<forall>t \<in> set (py_tasks s) \<union> set (py_todo s). task_ok P doc t)
   \<and> (\<forall>w \<in> set (py_workers s). worker_ok P doc L (py_Levels s) w)
   \<and> mset (map (\<lambda>t. (0, tk_Index t)) (py_tasks s @ py_todo s)) + sum_list (map (carry P L) (py_workers s))
      = mset_set (ready P doc L m D)
   \<and> mset (py_chunkC s) = image_mset (\<lambda>(h, c). chunk_of swg (layer P doc h ! c)) (mset_set D)
   \<and> (Exited \<in> set (py_workers s) \<longrightarrow> py_tasks s = [] \<and> py_todo s = [])"

section \<open>Hashing a complete node\<close>

lemma copy_children_concat:
  assumes "\<forall>k \<in> set ks. length k = hs" "length pre = i * hs + 8"
  shows "copy_children hs (pre @ replicate (hs * length ks) 0) i ks = pre @ concat ks"
  using assms
proof (induction ks arbitrary: pre i)
  case (Cons k ks)
  have "take (i * hs + 8) (pre @ replicate (hs * length (k # ks)) 0)
      @ go_copy (drop (i * hs + 8) (pre @ replicate (hs * length (k # ks)) 0)) k
    = (pre @ k) @ replicate (hs * length ks) 0"
    using Cons.prems by (simp add: go_copy_def)
  moreover have "length (pre @ k) = Suc i * hs + 8" using Cons.prems by simp
  ultimately show ?case using Cons.IH [of "pre @ k" "Suc i"] Cons.prems(1) by simp
qed simp

lemma inner_data_concat:
  assumes "pyramid_ok P" "\<forall>k \<in> set (nd_Children n). length k = 32"
  shows "inner_data P n = LittleEndian_PutUint64 (nd_Size n) @ concat (nd_Children n)"
  using copy_children_concat [of "nd_Children n" 32 "LittleEndian_PutUint64 (nd_Size n)" 0] assms
  by (simp add: inner_data_def pyramid_ok_def)

lemma layer_key_length:
  assumes "pyramid_ok P" "c < length (layer P doc h)"
  shows "length (fst (layer P doc h ! c)) = 32"
  using assms by (cases h) (auto simp: leaf_item_def node_item_def Let_def pyramid_ok_def hasher_ok_def)

lemma sum_list_kids:
  assumes "pyramid_ok P" "k < length (layer P doc (Suc h))"
  shows "sum_list (map f (blocks (pc_branches P) (layer P doc h) ! k)) = (\<Sum>c \<in> kids P doc h k. f (layer P doc h ! c))"
proof -
  let ?b = "pc_branches P" and ?l = "layer P doc h"
  have br: "0 < ?b" using assms by (simp add: pyramid_ok_def)
  have "k < (length ?l + ?b - 1) div ?b" using assms(2) by (simp add: length_blocks [OF br])
  then have k: "k * ?b < length ?l" using less_ceil [OF br] by blast
  have "sum_list (map f (take ?b (drop (k * ?b) ?l))) = (\<Sum>i = 0..<card (kids P doc h k). f (?l ! (k * ?b + i)))"
    using card_kids_blocks [OF assms] k
    by (simp add: sum_list_sum_nth nth_blocks [OF br])
  also have "\<dots> = (\<Sum>c \<in> kids P doc h k. f (?l ! c))"
    unfolding kids_interval [OF assms(1)]
    by (rule sum.reindex_bij_witness [where i = "\<lambda>c. c - k * ?b" and j = "\<lambda>i. k * ?b + i"]) auto
  finally show ?thesis using k by (simp add: nth_blocks [OF br])
qed

lemma node_ok_complete:
  assumes ok: "pyramid_ok P" and k: "k < length (layer P doc (Suc h))" and n: "node_ok P doc h k D n"
    and all: "\<forall>c \<in> kids P doc h k. (h, c) \<in> D"
  shows "layer P doc (Suc h) ! k =
     (h_Sum (pc_hashFunc P) (LittleEndian_PutUint64 (nd_Size n) @ concat (nd_Children n)),
      nd_Size n, inner_data P n)"
proof -
  let ?b = "pc_branches P" and ?ps = "blocks (pc_branches P) (layer P doc h) ! k"
  have br: "0 < ?b" using ok by (simp add: pyramid_ok_def)
  have pres: "present P doc h k D = kids P doc h k" using all by (auto simp: present_def)
  have "nd_Size n = sum_list (map (fst \<circ> snd) ?ps)"
    using n pres by (simp only: node_ok_def sum_list_kids [OF ok k] comp_def)
  moreover have "nd_Children n = map fst ?ps"
  proof (rule nth_equalityI)
    show len: "length (nd_Children n) = length (map fst ?ps)"
      using n card_kids_blocks [OF ok k] by (simp add: node_ok_def)
    fix i assume "i < length (nd_Children n)"
    then have i: "i < card (kids P doc h k)" using n by (simp add: node_ok_def)
    have ib: "i < ?b" using i card_kids [OF ok, of doc h k] by simp
    have c: "k * ?b + i \<in> kids P doc h k"
      using i unfolding kids_interval [OF ok] by auto
    then have "nd_Children n ! i = fst (layer P doc h ! (k * ?b + i))"
      using n all ib unfolding node_ok_def by (metis mod_less mod_mult_self3)
    moreover have "k * ?b < length (layer P doc h)" using c by (simp add: kids_def)
    ultimately show "nd_Children n ! i = map fst ?ps ! i"
      using i len ib c by (simp add: nth_blocks [OF br] kids_def)
  qed
  moreover have "\<forall>x \<in> set (nd_Children n). length x = 32"
  proof
    fix x assume "x \<in> set (nd_Children n)"
    then obtain i where i: "i < card (kids P doc h k)" "x = nd_Children n ! i"
      using n by (auto simp: in_set_conv_nth node_ok_def)
    have c: "k * ?b + i \<in> kids P doc h k"
      using i unfolding kids_interval [OF ok] by auto
    moreover have "i < ?b" using i card_kids [OF ok, of doc h k] by simp
    ultimately have "x = fst (layer P doc h ! (k * ?b + i))"
      using n all i(2) unfolding node_ok_def by (metis mod_less mod_mult_self3)
    then show "length x = 32" using layer_key_length [OF ok, of "k * ?b + i"] c by (simp add: kids_def)
  qed
  ultimately show ?thesis
    using k inner_data_concat [OF ok, of n] by (simp add: node_item_def Let_def)
qed

section \<open>Moves of the pool\<close>

lemma finite_ready [simp]: "finite (ready P doc L m D)"
proof (rule finite_subset)
  show "ready P doc L m D \<subseteq> (SIGMA h : {..<L}. {..<length (layer P doc h)})"
    by (auto simp: ready_def)
qed auto

lemma finite_inserted: "inserted_ok P doc L m D \<Longrightarrow> finite D"
proof (rule finite_subset)
  show "inserted_ok P doc L m D \<Longrightarrow> D \<subseteq> (SIGMA h : {..<L}. {..<length (layer P doc h)})"
    by (auto simp: inserted_ok_def)
qed auto

lemma sum_list_update_mset:
  "w < length ws \<Longrightarrow> sum_list (map f (ws[w := x])) + f (ws ! w) = sum_list (map f ws) + (f x :: 'b multiset)"
  by (induction ws arbitrary: w) (auto split: nat.splits simp: ac_simps)

lemma ready_insert:
  assumes "pyramid_ok P" "inserted_ok P doc L m D" "(h, c) \<in> ready P doc L m D"
  defines "k \<equiv> c div pc_branches P" and "D' \<equiv> insert (h, c) D"
  shows "ready P doc L m D' = ready P doc L m D - {(h, c)} \<union>
     (if Suc h < L \<and> (\<forall>c' \<in> kids P doc h k. (h, c') \<in> D') then {(Suc h, k)} else {})"
proof -
  have c: "c \<in> kids P doc h k" "k < length (layer P doc (Suc h))"
    using assms(3) layer_parent [OF assms(1)] by (auto simp: ready_def kids_def k_def)
  have nD: "(h, c) \<notin> D" using assms(3) by (auto simp: ready_def)
  have up: "(Suc h, k) \<notin> D" using assms(2) c nD by (auto simp: inserted_ok_def)
  have other: "c \<notin> kids P doc h j" if "j \<noteq> k" for j using that by (auto simp: kids_def k_def)
  have below: "(\<forall>x \<in> kids P doc j e. (j, x) \<in> D') \<longleftrightarrow> (\<forall>x \<in> kids P doc j e. (j, x) \<in> D)" if "(j, e) \<noteq> (h, k)" for j e
    using other that by (auto simp: D'_def)
  have kc: "\<not> (\<forall>x \<in> kids P doc h k. (h, x) \<in> D)" using c(1) nD by blast
  show ?thesis
  proof (intro set_eqI iffI)
    fix x assume x: "x \<in> ready P doc L m D'"
    show "x \<in> ready P doc L m D - {(h, c)} \<union>
        (if Suc h < L \<and> (\<forall>c' \<in> kids P doc h k. (h, c') \<in> D') then {(Suc h, k)} else {})"
    proof (cases x)
      case (Pair h' c')
      then show ?thesis
        using x below by (cases "x = (Suc h, k)"; cases h') (auto simp: ready_def D'_def)
    qed
  next
    fix x assume x: "x \<in> ready P doc L m D - {(h, c)} \<union>
        (if Suc h < L \<and> (\<forall>c' \<in> kids P doc h k. (h, c') \<in> D') then {(Suc h, k)} else {})"
    show "x \<in> ready P doc L m D'"
    proof (cases "x = (Suc h, k)")
      case True
      then show ?thesis using x c(2) up kc by (auto simp: ready_def D'_def split: if_splits)
    next
      case False
      obtain h' c' where hc: "x = (h', c')" by (cases x)
      then have "x \<in> ready P doc L m D" "x \<noteq> (h, c)" using x False by (auto split: if_splits)
      then show ?thesis using False below hc by (cases h') (auto simp: ready_def D'_def)
    qed
  qed
qed

end
