(* ===== verification/Pyramid_Moves.thy ===== *)
theory Pyramid_Moves
  imports Pyramid_Laws
begin

text \<open>
  Every move of the pool of the pyramid chunker preserves its invariant, and makes progress: a
  measure of the state decreases, and some move is enabled until the pool has finished.
\<close>

section \<open>The tables under an insertion\<close>

lemma table_lookup:
  assumes "table_ok P doc L X D levels heap" "h < L" "(levels ! (L - 1 - h)) k = Some a"
  shows "present P doc h k D \<noteq> {} \<or> (h, k) \<in> X" "(Suc h, k) \<notin> D" "a < length heap" "node_ok P doc h k D (heap ! a)"
  using assms unfolding table_ok_def by blast+

lemma table_absent:
  assumes "table_ok P doc L X D levels heap" "h < L" "(levels ! (L - 1 - h)) k = None"
  shows "present P doc h k D = {} \<or> (Suc h, k) \<in> D"
  using assms unfolding table_ok_def by blast

lemma table_inj:
  assumes "table_ok P doc L X D levels heap" "h < L" "h' < L"
    "(levels ! (L - 1 - h)) k = Some a" "(levels ! (L - 1 - h')) k' = Some a"
  shows "h = h' \<and> k = k'"
  using assms unfolding table_ok_def by blast

lemma table_okI:
  assumes "length levels = L"
    "\<And>h k a. h < L \<Longrightarrow> (levels ! (L - 1 - h)) k = Some a \<Longrightarrow>
       (present P doc h k D \<noteq> {} \<or> (h, k) \<in> X) \<and> (Suc h, k) \<notin> D \<and> a < length heap \<and> node_ok P doc h k D (heap ! a)"
    "\<And>h k. h < L \<Longrightarrow> (levels ! (L - 1 - h)) k = None \<Longrightarrow> present P doc h k D = {} \<or> (Suc h, k) \<in> D"
    "\<And>h h' k k' a. h < L \<Longrightarrow> h' < L \<Longrightarrow> (levels ! (L - 1 - h)) k = Some a \<Longrightarrow>
       (levels ! (L - 1 - h')) k' = Some a \<Longrightarrow> h = h' \<and> k = k'"
  shows "table_ok P doc L X D levels heap"
  using assms unfolding table_ok_def by blast

lemma levels_update:
  assumes "length levels = L" "h < L" "h' < L"
  shows "(levels[L - 1 - h := f] ! (L - 1 - h')) = (if h' = h then f else levels ! (L - 1 - h'))"
proof -
  have "L - 1 - h = L - 1 - h' \<longleftrightarrow> h = h'" using assms by linarith
  then show ?thesis using assms by (simp add: nth_list_update)
qed

lemma node_ok_new:
  assumes "present P doc h k D = {}" "pyramid_ok P"
  shows "node_ok P doc h k D \<lparr>nd_Pending = int (card (kids P doc h k)), nd_Size = 0,
     nd_Children = replicate (card (kids P doc h k)) (replicate 32 0), nd_Last = l\<rparr>"
proof -
  have "c mod pc_branches P < card (kids P doc h k) \<and> (h, c) \<notin> D" if "c \<in> kids P doc h k" for c
    using kid_position(1) [OF assms(2) that] assms(1) that by (auto simp: present_def)
  then show ?thesis using assms(1) by (simp add: node_ok_def)
qed

lemma node_ok_insert:
  assumes n: "node_ok P doc h k D n" and ok: "pyramid_ok P" and c: "c \<in> kids P doc h k" "(h, c) \<notin> D"
    and item: "layer P doc h ! c = (hash, sz, data)"
  shows "node_ok P doc h k (insert (h, c) D) (n\<lparr>nd_Pending := nd_Pending n - 1, nd_Last := l,
     nd_Children := (nd_Children n)[c mod pc_branches P := go_copy (nd_Children n ! (c mod pc_branches P)) hash],
     nd_Size := nd_Size n + sz\<rparr>)"
proof -
  have pres: "present P doc h k (insert (h, c) D) = insert c (present P doc h k D)" "c \<notin> present P doc h k D"
    using c by (auto simp: present_def)
  have fin: "finite (present P doc h k D)" by (simp add: present_def)
  have pos: "c' mod pc_branches P < length (nd_Children n)"
    "c' mod pc_branches P = c mod pc_branches P \<Longrightarrow> c' = c" if "c' \<in> kids P doc h k" for c'
    using n kid_position [OF ok that] kid_position(2) [OF ok c(1)] by (simp_all add: node_ok_def)
  have "length hash = 32" using layer_key_length [OF ok, of c doc h] item c(1) by (simp add: kids_def)
  then have "go_copy (nd_Children n ! (c mod pc_branches P)) hash = hash"
    using n c by (simp add: node_ok_def)
  then show ?thesis
    using n pres fin pos c(1) item by (auto simp: node_ok_def nth_list_update)
qed

lemma table_find:
  assumes tab: "table_ok P doc L {} D (py_Levels s) (py_heap s)" and ok: "pyramid_ok P"
    and D: "inserted_ok P doc L m D" and rdy: "(h, c) \<in> ready P doc L m D"
    and t: "tk_Index t div pc_branches P ^ h = c" and n: "py_Chunks s = length (layer P doc 0)"
    and nogap: "\<not> (pyramid_gap (pc_branches P) (length (layer P doc 0)) h
         \<and> c div pc_branches P = length (layer P doc 0) div pc_branches P ^ Suc h)"
    and find: "find_node P s t (L - 1 - h) (pc_branches P ^ Suc h) l = (a, s1)"
  shows "table_ok P doc L {(h, c div pc_branches P)} D (py_Levels s1) (py_heap s1)"
    "(py_Levels s1 ! (L - 1 - h)) (c div pc_branches P) = Some a"
    "\<forall>j x b. j < L \<longrightarrow> (py_Levels s ! j) x = Some b \<longrightarrow> (py_Levels s1 ! j) x = Some b"
    "\<exists>levels heap. s1 = s\<lparr>py_Levels := levels, py_heap := heap\<rparr>"
proof -
  let ?k = "c div pc_branches P"
  have h: "h < L" "c \<in> kids P doc h ?k" "(h, c) \<notin> D" "c < length (layer P doc h)"
    using rdy by (auto simp: ready_def kids_def)
  have len: "length (py_Levels s) = L" using tab by (simp add: table_ok_def)
  have k: "tk_Index t div pc_branches P ^ Suc h = ?k"
    using t by (simp add: power_Suc2 div_mult2_eq del: power_Suc)
  have up: "(Suc h, ?k) \<notin> D" using D h by (auto simp: inserted_ok_def)
  have "table_ok P doc L {(h, ?k)} D (py_Levels s1) (py_heap s1)
    \<and> (py_Levels s1 ! (L - 1 - h)) ?k = Some a
    \<and> (\<forall>j x b. j < L \<longrightarrow> (py_Levels s ! j) x = Some b \<longrightarrow> (py_Levels s1 ! j) x = Some b)
    \<and> (\<exists>levels heap. s1 = s\<lparr>py_Levels := levels, py_heap := heap\<rparr>)"
  proof (cases "(py_Levels s ! (L - 1 - h)) ?k")
    case (Some b)
    then have s1: "a = b" "s1 = s" using find k by (simp_all add: find_node_def del: power_Suc)
    have "table_ok P doc L {(h, ?k)} D (py_Levels s) (py_heap s)"
      using tab unfolding table_ok_def by blast
    moreover have "s = s\<lparr>py_Levels := py_Levels s, py_heap := py_heap s\<rparr>" by simp
    ultimately show ?thesis using Some s1 by blast
  next
    case None
    have empty: "present P doc h ?k D = {}" using table_absent [OF tab h(1) None] up by blast
    have pend: "initial_pending (pc_branches P) (py_Chunks s) (pc_branches P ^ Suc h) (tk_Index t) = card (kids P doc h ?k)"
      unfolding n initial_pending_kids [OF ok h(4) t] using nogap by (simp only: if_False)
    let ?n = "\<lparr>nd_Pending = int (card (kids P doc h ?k)), nd_Size = 0,
       nd_Children = replicate (card (kids P doc h ?k)) (replicate 32 0), nd_Last = l\<rparr>"
    let ?lv = "(py_Levels s)[L - 1 - h := (py_Levels s ! (L - 1 - h))(?k \<mapsto> length (py_heap s))]"
    have s1: "a = length (py_heap s)" "s1 = s\<lparr>py_heap := py_heap s @ [?n], py_Levels := ?lv\<rparr>"
      using find None k pend by (auto simp: find_node_def Let_def simp del: power_Suc)
    have look: "(?lv ! (L - 1 - h')) x = (if h' = h \<and> x = ?k then Some a else (py_Levels s ! (L - 1 - h')) x)"
      if "h' < L" for h' x
      using levels_update [OF len h(1) that] s1(1) by simp
    have old: "(py_Levels s ! (L - 1 - h')) x \<noteq> Some a" if "h' < L" for h' x
      using table_lookup(3) [OF tab that] s1(1) by blast
    have "table_ok P doc L {(h, ?k)} D ?lv (py_heap s @ [?n])"
    proof (rule table_okI)
      fix h' x a' assume "h' < L" "(?lv ! (L - 1 - h')) x = Some a'"
      then show "(present P doc h' x D \<noteq> {} \<or> (h', x) \<in> {(h, ?k)}) \<and> (Suc h', x) \<notin> D \<and> a' < length (py_heap s @ [?n])
          \<and> node_ok P doc h' x D ((py_heap s @ [?n]) ! a')"
        using look table_lookup [OF tab] node_ok_new [OF empty ok] up s1(1)
        by (cases "h' = h \<and> x = ?k") (auto simp: nth_append)
    next
      fix h' x assume "h' < L" "(?lv ! (L - 1 - h')) x = None"
      then show "present P doc h' x D = {} \<or> (Suc h', x) \<in> D"
        using look table_absent [OF tab] by (auto split: if_splits)
    next
      fix h1 h2 x y b
      assume "h1 < L" "h2 < L" "(?lv ! (L - 1 - h1)) x = Some b" "(?lv ! (L - 1 - h2)) y = Some b"
      then show "h1 = h2 \<and> x = y"
        using look old table_inj [OF tab] by (auto split: if_splits)
    qed (use len in simp)
    moreover have "(?lv ! (L - 1 - h)) ?k = Some a" using look h(1) by simp
    moreover have "\<forall>j x b. j < L \<longrightarrow> (py_Levels s ! j) x = Some b \<longrightarrow> (?lv ! j) x = Some b"
      using None len by (auto simp: nth_list_update)
    moreover have "s1 = s\<lparr>py_Levels := ?lv, py_heap := py_heap s @ [?n]\<rparr>" by (simp add: s1(2))
    ultimately show ?thesis using s1(2) by fastforce
  qed
  then show "table_ok P doc L {(h, ?k)} D (py_Levels s1) (py_heap s1)"
    "(py_Levels s1 ! (L - 1 - h)) ?k = Some a"
    "\<forall>j x b. j < L \<longrightarrow> (py_Levels s ! j) x = Some b \<longrightarrow> (py_Levels s1 ! j) x = Some b"
    "\<exists>levels heap. s1 = s\<lparr>py_Levels := levels, py_heap := heap\<rparr>"
    by blast+
qed

lemma present_insert_other: "(h', k') \<noteq> (h, c div pc_branches P) \<Longrightarrow>
    present P doc h' k' (insert (h, c) D) = present P doc h' k' D"
  by (auto simp: present_def kids_def)

lemma node_ok_insert_other:
  assumes "(h', k') \<noteq> (h, c div pc_branches P)"
  shows "node_ok P doc h' k' (insert (h, c) D) n \<longleftrightarrow> node_ok P doc h' k' D n"
proof -
  have "(h', x) \<in> insert (h, c) D \<longleftrightarrow> (h', x) \<in> D" if "x \<in> kids P doc h' k'" for x
    using assms that by (auto simp: kids_def)
  then show ?thesis
    using present_insert_other [OF assms] by (simp add: node_ok_def del: insert_iff cong: ball_cong)
qed

text \<open>The entry of an inserted node is deleted from the level below.\<close>

definition drop_entry :: "nat \<Rightarrow> nat \<Rightarrow> (nat \<rightharpoonup> addr) list \<Rightarrow> (nat \<rightharpoonup> addr) list" where
  "drop_entry d c levels = (if Suc d < length levels then levels[Suc d := (levels ! Suc d)(c := None)] else levels)"

lemma drop_entry_lookup:
  assumes "length levels = L" "h < L" "h' < L"
  shows "(drop_entry (L - 1 - h) c levels ! (L - 1 - h')) x =
     (if Suc h' = h \<and> x = c then None else (levels ! (L - 1 - h')) x)"
proof -
  show ?thesis
  proof (cases "Suc h' = h")
    case True
    then have "Suc (L - 1 - h) = L - 1 - h'" "L - 1 - h' < L" using assms by linarith+
    then show ?thesis using True assms(1) by (simp add: drop_entry_def)
  next
    case False
    then have "Suc (L - 1 - h) \<noteq> L - 1 - h'" using assms(2,3) by linarith
    then show ?thesis using False by (simp add: drop_entry_def)
  qed
qed

lemma table_insert:
  assumes tab: "table_ok P doc L {(h, c div pc_branches P)} D levels heap" and D: "inserted_ok P doc L m D"
    and rdy: "(h, c) \<in> ready P doc L m D" and a: "(levels ! (L - 1 - h)) (c div pc_branches P) = Some a"
    and n: "node_ok P doc h (c div pc_branches P) (insert (h, c) D) n"
  shows "table_ok P doc L {} (insert (h, c) D) (drop_entry (L - 1 - h) c levels) (heap[a := n])"
proof -
  let ?k = "c div pc_branches P" and ?D = "insert (h, c) D"
  have h: "h < L" "c \<in> kids P doc h ?k" "(h, c) \<notin> D" using rdy by (auto simp: ready_def kids_def)
  have len: "length levels = L" using tab by (simp add: table_ok_def)
  note look = drop_entry_lookup [OF len h(1)]
  show ?thesis
  proof (rule table_okI)
    show "length (drop_entry (L - 1 - h) c levels) = L" using len by (simp add: drop_entry_def)
  next
    fix h' x a' assume h': "h' < L" and "(drop_entry (L - 1 - h) c levels ! (L - 1 - h')) x = Some a'"
    then have l: "(levels ! (L - 1 - h')) x = Some a'" "(Suc h', x) \<noteq> (h, c)"
      using look [OF h'] by (auto split: if_splits)
    note old = table_lookup [OF tab h' l(1)]
    show "(present P doc h' x ?D \<noteq> {} \<or> (h', x) \<in> {}) \<and> (Suc h', x) \<notin> ?D \<and> a' < length (heap[a := n])
        \<and> node_ok P doc h' x ?D (heap[a := n] ! a')"
    proof (cases "(h', x) = (h, ?k)")
      case True
      then show ?thesis using old l a n h by (auto simp: present_def)
    next
      case False
      then have "a' \<noteq> a" using table_inj [OF tab h' h(1) l(1)] a by blast
      then show ?thesis
        using old l False present_insert_other [OF False] node_ok_insert_other [OF False] by auto
    qed
  next
    fix h' x assume h': "h' < L" and none: "(drop_entry (L - 1 - h) c levels ! (L - 1 - h')) x = None"
    show "present P doc h' x ?D = {} \<or> (Suc h', x) \<in> ?D"
    proof (cases "(Suc h', x) = (h, c)")
      case False
      then have l: "(levels ! (L - 1 - h')) x = None" using none look [OF h'] by auto
      then have "(h', x) \<noteq> (h, ?k)" using a by auto
      then show ?thesis using present_insert_other table_absent [OF tab h' l] by auto
    qed simp
  next
    fix h1 h2 x y b
    assume "h1 < L" "h2 < L" "(drop_entry (L - 1 - h) c levels ! (L - 1 - h1)) x = Some b"
      "(drop_entry (L - 1 - h) c levels ! (L - 1 - h2)) y = Some b"
    then show "h1 = h2 \<and> x = y" using look table_inj [OF tab] by (auto split: if_splits)
  qed
qed

section \<open>The moves\<close>

lemma pool_invD:
  assumes "pool_inv P swg doc L m D s"
  shows "py_Chunks s = length (layer P doc 0)" "inserted_ok P doc L m D"
    "table_ok P doc L {} D (py_Levels s) (py_heap s)"
    "\<And>t. t \<in> set (py_tasks s) \<union> set (py_todo s) \<Longrightarrow> task_ok P doc t"
    "\<And>w. w \<in> set (py_workers s) \<Longrightarrow> worker_ok P doc L (py_Levels s) w"
    "mset (map (\<lambda>t. (0, tk_Index t)) (py_tasks s @ py_todo s)) + sum_list (map (carry P L) (py_workers s))
      = mset_set (ready P doc L m D)"
    "mset (py_chunkC s) = image_mset (\<lambda>(h, c). chunk_of swg (layer P doc h ! c)) (mset_set D)"
    "Exited \<in> set (py_workers s) \<Longrightarrow> py_tasks s = [] \<and> py_todo s = []"
    "length (py_Levels s) = L"
  using assms unfolding pool_inv_def table_ok_def by blast+

lemma carry_ready:
  assumes "pool_inv P swg doc L m D s" "w < length (py_workers s)" "x \<in># carry P L (py_workers s ! w)"
  shows "x \<in> ready P doc L m D"
proof -
  have "carry P L (py_workers s ! w) \<in> set (map (carry P L) (py_workers s))" using assms(2) by simp
  then have "x \<in># sum_list (map (carry P L) (py_workers s))"
    using assms(3) by auto
  then have "x \<in># mset_set (ready P doc L m D)"
    using pool_invD(6) [OF assms(1)] by (metis union_iff)
  then show ?thesis by simp
qed

lemma carry_unique:
  assumes "pool_inv P swg doc L m D s" "w < length (py_workers s)" "w' < length (py_workers s)" "w \<noteq> w'"
    "x \<in># carry P L (py_workers s ! w)"
  shows "x \<notin># carry P L (py_workers s ! w')"
proof
  let ?ws = "py_workers s"
  assume w': "x \<in># carry P L (?ws ! w')"
  have "sum_list (map (carry P L) (?ws[w := Idle])) + carry P L (?ws ! w) = sum_list (map (carry P L) ?ws)"
    using sum_list_update_mset [OF assms(2), of "carry P L" Idle] by simp
  moreover have "sum_list (map (carry P L) (?ws[w := Idle, w' := Idle])) + carry P L (?ws ! w')
      = sum_list (map (carry P L) (?ws[w := Idle]))"
    using sum_list_update_mset [of w' "?ws[w := Idle]" "carry P L" Idle] assms(2-4) by simp
  ultimately have "count (sum_list (map (carry P L) ?ws)) x =
      count (sum_list (map (carry P L) (?ws[w := Idle, w' := Idle]))) x
      + count (carry P L (?ws ! w')) x + count (carry P L (?ws ! w)) x"
    by (metis count_union)
  moreover have "0 < count (carry P L (?ws ! w')) x" "0 < count (carry P L (?ws ! w)) x"
    using assms(5) w' by simp_all
  ultimately have "2 \<le> count (sum_list (map (carry P L) ?ws)) x" by linarith
  moreover have "count (sum_list (map (carry P L) ?ws)) x \<le> count (mset_set (ready P doc L m D)) x"
    using pool_invD(6) [OF assms(1)] by (metis count_union le_add2)
  ultimately show False by (simp add: count_mset_set' split: if_splits)
qed

lemma pool_invI:
  assumes "py_Chunks s = length (layer P doc 0)" "inserted_ok P doc L m D"
    "table_ok P doc L {} D (py_Levels s) (py_heap s)"
    "\<And>t. t \<in> set (py_tasks s) \<union> set (py_todo s) \<Longrightarrow> task_ok P doc t"
    "\<And>w. w < length (py_workers s) \<Longrightarrow> worker_ok P doc L (py_Levels s) (py_workers s ! w)"
    "mset (map (\<lambda>t. (0, tk_Index t)) (py_tasks s @ py_todo s)) + sum_list (map (carry P L) (py_workers s))
      = mset_set (ready P doc L m D)"
    "mset (py_chunkC s) = image_mset (\<lambda>(h, c). chunk_of swg (layer P doc h ! c)) (mset_set D)"
    "Exited \<in> set (py_workers s) \<Longrightarrow> py_tasks s = [] \<and> py_todo s = []"
  shows "pool_inv P swg doc L m D s"
proof -
  have "\<forall>w \<in> set (py_workers s). worker_ok P doc L (py_Levels s) w"
    using assms(5) by (auto simp: in_set_conv_nth)
  then show ?thesis using assms unfolding pool_inv_def by blast
qed

text \<open>An insertion: a crash where there is a gap, otherwise the chunk is inserted.\<close>

lemma insert_gap:
  assumes inv: "pool_inv P swg doc L m D s" and ok: "pyramid_ok P"
    and w: "w < length (py_workers s)" "py_workers s ! w = Hashed t d p hash data sz l"
    and gap: "pyramid_gap (pc_branches P) (length (layer P doc 0)) (height L d)"
      "snd (item_at P L t d) div pc_branches P = length (layer P doc 0) div pc_branches P ^ Suc (height L d)"
  shows "py_crashed (processor_insert P swg s w)"
proof -
  define h where "h = height L d"
  define c where "c = snd (item_at P L t d)"
  have dp: "d < L" "p = pc_branches P ^ Suc h"
    using pool_invD(5) [OF inv nth_mem [OF w(1)]] w by (auto simp: h_def)
  then have d: "d = L - 1 - h" "h < L" by (simp_all add: h_def height_def)
  have c: "tk_Index t div pc_branches P ^ h = c" by (simp add: c_def h_def item_at_def)
  have rdy: "(h, c) \<in> ready P doc L m D"
    using carry_ready [OF inv w(1), of "item_at P L t d"] w(2) by (simp add: c_def h_def item_at_def)
  then have cl: "c < length (layer P doc h)" by (simp add: ready_def)
  have k: "tk_Index t div p = c div pc_branches P"
    using c dp(2) by (simp add: power_Suc2 div_mult2_eq del: power_Suc)
  have "present P doc h (c div pc_branches P) D = {}"
    using pool_invD(2) [OF inv] gap unfolding h_def [symmetric] c_def [symmetric]
    by (fastforce simp: inserted_ok_def present_def kids_def)
  then have none: "(py_Levels s ! d) (c div pc_branches P) = None"
    using table_lookup(1) [OF pool_invD(3) [OF inv] d(2)] d(1) by (cases "(py_Levels s ! d) (c div pc_branches P)") auto
  have "initial_pending (pc_branches P) (py_Chunks s) p (tk_Index t) = 0"
    unfolding pool_invD(1) [OF inv] dp(2) initial_pending_kids [OF ok cl c]
    using gap by (simp only: h_def c_def simp_thms if_True)
  then show ?thesis
    using w none k by (simp add: processor_insert_def find_node_def Let_def)
qed

lemma worker_ok_levels:
  assumes "worker_ok P doc L levels w"
    "\<And>t d p a. w = Holding t d p (Some a) \<Longrightarrow> d < L \<Longrightarrow> 0 < height L d \<Longrightarrow>
       (levels ! Suc d) (snd (item_at P L t d)) = Some a \<Longrightarrow> (levels' ! Suc d) (snd (item_at P L t d)) = Some a"
  shows "worker_ok P doc L levels' w"
  using assms by (cases w) (auto split: option.splits)

text \<open>What an insertion does to the ready chunks and to the worker that made it.\<close>

lemma insert_ready:
  assumes ok: "pyramid_ok P" and D: "inserted_ok P doc L m D" and rdy: "(h, c) \<in> ready P doc L m D"
    and n: "node_ok P doc h (c div pc_branches P) (insert (h, c) D) n"
  shows "mset_set (ready P doc L m (insert (h, c) D)) + {#(h, c)#} = mset_set (ready P doc L m D)
     + (if nd_Pending n > 0 \<or> L - 1 - h = 0 then {#} else {#(Suc h, c div pc_branches P)#})"
proof -
  let ?k = "c div pc_branches P" and ?D = "insert (h, c) D"
  have h: "h < L" "c \<in> kids P doc h ?k" "(h, c) \<notin> D" using rdy by (auto simp: ready_def kids_def)
  have up: "(Suc h, ?k) \<notin> D" using D h by (auto simp: inserted_ok_def)
  have "present P doc h ?k ?D \<subseteq> kids P doc h ?k" by (auto simp: present_def)
  then have "card (present P doc h ?k ?D) = card (kids P doc h ?k) \<longleftrightarrow> present P doc h ?k ?D = kids P doc h ?k"
    using card_subset_eq [OF finite_kids] by metis
  moreover have "card (present P doc h ?k ?D) \<le> card (kids P doc h ?k)"
    using \<open>_ \<subseteq> _\<close> by (simp add: card_mono)
  ultimately have "nd_Pending n > 0 \<longleftrightarrow> \<not> (\<forall>c' \<in> kids P doc h ?k. (h, c') \<in> ?D)"
    using n unfolding node_ok_def present_def by auto
  then have r: "ready P doc L m ?D = ready P doc L m D - {(h, c)} \<union>
      (if nd_Pending n > 0 \<or> L - 1 - h = 0 then {} else {(Suc h, ?k)})"
    using ready_insert [OF ok D rdy] h(1) by auto
  have "(Suc h, ?k) \<notin> ready P doc L m D" using h by (auto simp: ready_def)
  then show ?thesis
    using rdy unfolding r by (auto simp: mset_set.remove [OF finite_ready rdy])
qed

lemma inserted_ok_insert:
  assumes "inserted_ok P doc L m D" "(h, c) \<in> ready P doc L m D"
    "\<not> (pyramid_gap (pc_branches P) (length (layer P doc 0)) h
         \<and> c div pc_branches P = length (layer P doc 0) div pc_branches P ^ Suc h)"
  shows "inserted_ok P doc L m (insert (h, c) D)"
  using assms unfolding inserted_ok_def ready_def by (fastforce split: nat.splits)

lemma mset_balance:
  assumes "S' + X = S + Y" "R' + X = R + Y" "T + S = R"
  shows "T + S' = (R' :: 'a multiset)"
proof -
  have "T + S' + X = R' + X" using assms by (simp only: add.assoc) (simp only: add.assoc [symmetric])
  then show ?thesis by simp
qed

lemma insert_fits:
  assumes inv: "pool_inv P swg doc L m D s" and ok: "pyramid_ok P" and crash: "\<not> py_crashed s"
    and w: "w < length (py_workers s)" "py_workers s ! w = Hashed t d p hash data sz l"
    and nogap: "\<not> (pyramid_gap (pc_branches P) (length (layer P doc 0)) (height L d)
      \<and> snd (item_at P L t d) div pc_branches P = length (layer P doc 0) div pc_branches P ^ Suc (height L d))"
  shows "pool_inv P swg doc L m (insert (item_at P L t d) D) (processor_insert P swg s w)
    \<and> \<not> py_crashed (processor_insert P swg s w)"
proof -
  define h where "h = height L d"
  define c where "c = snd (item_at P L t d)"
  define k where "k = c div pc_branches P"
  have it: "item_at P L t d = (h, c)" by (simp add: h_def c_def item_at_def)
  have dp: "d < L" "p = pc_branches P ^ Suc h" "layer P doc h ! c = (hash, sz, data)"
    using pool_invD(5) [OF inv nth_mem [OF w(1)]] w by (auto simp: h_def c_def)
  then have d: "d = L - 1 - h" "h < L" by (simp_all add: h_def height_def)
  have br: "0 < pc_branches P" using ok by (simp add: pyramid_ok_def)
  have c: "tk_Index t div pc_branches P ^ h = c" by (simp add: c_def h_def item_at_def)
  have rdy: "(h, c) \<in> ready P doc L m D"
    using carry_ready [OF inv w(1), of "(h, c)"] w(2) it by simp
  then have ck: "c \<in> kids P doc h k" "(h, c) \<notin> D" by (auto simp: ready_def kids_def k_def)
  obtain a s1 where find: "find_node P s t d p l = (a, s1)" by (cases "find_node P s t d p l")
  note ng = nogap [folded h_def c_def]
  note tf = table_find [OF pool_invD(3) [OF inv] ok pool_invD(2) [OF inv] rdy c pool_invD(1) [OF inv] ng
      find [unfolded d(1) dp(2)], folded k_def]
  obtain levels heap where s1: "s1 = s\<lparr>py_Levels := levels, py_heap := heap\<rparr>" using tf(4) by blast
  have a: "(levels ! (L - 1 - h)) k = Some a" "table_ok P doc L {(h, k)} D levels heap"
    using tf(1,2) s1 by simp_all
  note node = table_lookup [OF a(2) d(2) a(1)]
  have p: "p div pc_branches P = pc_branches P ^ h" using br dp(2) by simp
  have i: "c mod pc_branches P < length (nd_Children (heap ! a))"
    using kid_position(1) [OF ok ck(1)] node(4) by (simp add: node_ok_def)
  let ?n = "(heap ! a)\<lparr>nd_Pending := nd_Pending (heap ! a) - 1, nd_Last := nd_Last (heap ! a) \<or> l,
     nd_Children := (nd_Children (heap ! a))[c mod pc_branches P :=
        go_copy (nd_Children (heap ! a) ! (c mod pc_branches P)) hash],
     nd_Size := nd_Size (heap ! a) + sz\<rparr>"
  have n: "node_ok P doc h k (insert (h, c) D) ?n"
    by (rule node_ok_insert [OF node(4) ok ck dp(3)])
  let ?w = "if nd_Pending ?n > 0 \<or> d = 0 then Idle else Holding t (d - 1) (p * pc_branches P) (Some a)"
  have s': "processor_insert P swg s w = s\<lparr>py_Levels := drop_entry d c levels, py_heap := heap[a := ?n],
      py_chunkC := py_chunkC s @ [chunk_of swg (hash, sz, data)], py_workers := (py_workers s)[w := ?w]\<rparr>"
    using w find i c p s1
    by (simp add: processor_insert_def Let_def drop_entry_def chunk_of_def del: power_Suc)
  have hd: "height L (d - 1) = Suc h \<and> Suc (d - 1) = L - 1 - h" if "0 < d"
    using that d dp(1) by (auto simp: height_def)
  have up: "tk_Index t div pc_branches P ^ Suc h = k"
    using c by (simp add: k_def power_Suc2 div_mult2_eq del: power_Suc)
  have levels: "length levels = L" using a(2) by (simp add: table_ok_def)
  have cw: "carry P L ?w = (if nd_Pending ?n > 0 \<or> L - 1 - h = 0 then {#} else {#(Suc h, k)#})"
    using hd up d(1) by (auto simp: item_at_def simp del: power_Suc)
  have okw: "worker_ok P doc L (drop_entry d c levels) ?w"
    using hd up a(1) dp(1,2) drop_entry_lookup [OF levels d(2) d(2), of c k] d(1)
    by (auto simp: item_at_def simp del: power_Suc) (simp_all add: mult.commute)
  have other: "worker_ok P doc L (drop_entry d c levels) (py_workers s ! w')"
    if w': "w' < length (py_workers s)" "w' \<noteq> w" for w'
  proof (rule worker_ok_levels [OF pool_invD(5) [OF inv nth_mem [OF w'(1)]]])
    fix t' d' p' a'
    assume h': "py_workers s ! w' = Holding t' d' p' (Some a')" "d' < L" "0 < height L d'"
      "(py_Levels s ! Suc d') (snd (item_at P L t' d')) = Some a'"
    define h'' where "h'' = height L d' - 1"
    have hh: "Suc d' = L - 1 - h''" "h'' < L" "Suc h'' = height L d'" using h'(2,3) by (auto simp: h''_def height_def)
    have "item_at P L t' d' \<noteq> (h, c)"
      using carry_unique [OF inv w(1) w'(1), of "(h, c)"] w'(2) w(2) h'(1) it by auto
    then have "\<not> (Suc h'' = h \<and> snd (item_at P L t' d') = c)" using hh(3) by (auto simp: item_at_def)
    moreover have "(levels ! Suc d') (snd (item_at P L t' d')) = Some a'"
      using tf(3) h'(4) hh s1 by fastforce
    ultimately show "(drop_entry d c levels ! Suc d') (snd (item_at P L t' d')) = Some a'"
      using drop_entry_lookup [OF levels d(2) hh(2)] hh(1) d(1) by simp
  qed
  have "pool_inv P swg doc L m (insert (h, c) D) (processor_insert P swg s w)"
    unfolding s'
  proof (rule pool_invI, goal_cases)
    case 1
    then show ?case using pool_invD(1) [OF inv] by simp
  next
    case 2
    then show ?case by (rule inserted_ok_insert [OF pool_invD(2) [OF inv] rdy ng])
  next
    case 3
    then show ?case
      using table_insert [OF a(2) [unfolded k_def] pool_invD(2) [OF inv] rdy a(1) [unfolded k_def] n [unfolded k_def]] d(1)
      by simp
  next
    case (4 t')
    then show ?case using pool_invD(4) [OF inv] by simp
  next
    case (5 w')
    then show ?case using okw other by (cases "w' = w") simp_all
  next
    case 6
    have "sum_list (map (carry P L) ((py_workers s)[w := ?w])) + {#(h, c)#}
        = sum_list (map (carry P L) (py_workers s)) + carry P L ?w"
      using sum_list_update_mset [OF w(1), of "carry P L" ?w] w(2) it by simp
    moreover have "mset_set (ready P doc L m (insert (h, c) D)) + {#(h, c)#}
        = mset_set (ready P doc L m D) + carry P L ?w"
      using insert_ready [OF ok pool_invD(2) [OF inv] rdy n [unfolded k_def]] unfolding cw k_def .
    ultimately have "mset (map (\<lambda>t. (0, tk_Index t)) (py_tasks s @ py_todo s))
        + sum_list (map (carry P L) ((py_workers s)[w := ?w])) = mset_set (ready P doc L m (insert (h, c) D))"
      by (rule mset_balance [OF _ _ pool_invD(6) [OF inv]])
    then show ?case by (simp split del: if_split)
  next
    case 7
    then show ?case
      using pool_invD(7) [OF inv] finite_inserted [OF pool_invD(2) [OF inv]] ck(2) dp(3) by simp
  next
    case 8
    then show ?case using pool_invD(8) [OF inv] set_update_subset_insert [of "py_workers s" w ?w]
      by (auto split: if_splits)
  qed
  then show ?thesis using crash it by (simp add: s')
qed

lemma hash_correct:
  assumes inv: "pool_inv P swg doc L m D s" and ok: "pyramid_ok P"
    and w: "w < length (py_workers s)" "is_Holding (py_workers s ! w)"
  shows "worker_ok P doc L (py_Levels s) (processor_hash P (py_heap s) (py_workers s ! w))"
    "carry P L (processor_hash P (py_heap s) (py_workers s ! w)) = carry P L (py_workers s ! w)"
    "is_Hashed (processor_hash P (py_heap s) (py_workers s ! w))"
proof -
  obtain t d p n where hold: "py_workers s ! w = Holding t d p n" using w(2) by (cases "py_workers s ! w") auto
  define h where "h = height L d"
  define c where "c = snd (item_at P L t d)"
  have wok: "worker_ok P doc L (py_Levels s) (Holding t d p n)"
    using pool_invD(5) [OF inv nth_mem [OF w(1)]] hold by simp
  have rdy: "(h, c) \<in> ready P doc L m D"
    using carry_ready [OF inv w(1), of "(h, c)"] hold by (simp add: h_def c_def item_at_def)
  show "worker_ok P doc L (py_Levels s) (processor_hash P (py_heap s) (py_workers s ! w))"
  proof (cases n)
    case None
    then have "c = tk_Index t" "h = 0" "task_ok P doc t" using wok by (auto simp: c_def h_def item_at_def)
    then have "layer P doc h ! c = (h_Sum (pc_hashFunc P) (tk_Data t), tk_Size t, tk_Data t)"
      by (auto simp: task_ok_def leaf_item_def Let_def)
    then show ?thesis using None wok hold by (simp add: processor_hash_def h_def c_def)
  next
    case (Some a)
    then have h: "d < L" "0 < h" "(py_Levels s ! Suc d) c = Some a" using wok by (auto simp: h_def c_def)
    then have d: "Suc d = L - 1 - (h - 1)" "h - 1 < L" "h = Suc (h - 1)" by (auto simp: h_def height_def)
    have "node_ok P doc (h - 1) c D (py_heap s ! a)"
      using table_lookup(4) [OF pool_invD(3) [OF inv] d(2)] h(3) d(1) by simp
    moreover have "\<forall>c' \<in> kids P doc (h - 1) c. (h - 1, c') \<in> D" "c < length (layer P doc (Suc (h - 1)))"
      using rdy d(3) by (cases h; auto simp: ready_def)+
    ultimately have "layer P doc h ! c =
       (h_Sum (pc_hashFunc P) (LittleEndian_PutUint64 (nd_Size (py_heap s ! a)) @ concat (nd_Children (py_heap s ! a))),
        nd_Size (py_heap s ! a), inner_data P (py_heap s ! a))"
      using node_ok_complete [OF ok] d(3) by metis
    then show ?thesis using Some wok hold by (simp add: processor_hash_def h_def c_def Let_def)
  qed
qed (use w in \<open>cases "py_workers s ! w"; auto simp: processor_hash_def Let_def split: option.splits\<close>)+

lemma pool_inv_worker:
  assumes inv: "pool_inv P swg doc L m D s" and w: "w < length (py_workers s)"
    and "carry P L x = carry P L (py_workers s ! w)" "worker_ok P doc L (py_Levels s) x"
    "x = Exited \<Longrightarrow> py_tasks s = [] \<and> py_todo s = []"
  shows "pool_inv P swg doc L m D (s\<lparr>py_workers := (py_workers s)[w := x]\<rparr>)"
proof (rule pool_invI, goal_cases)
  case (5 w')
  then show ?case using assms(4) pool_invD(5) [OF inv nth_mem, of w'] by (cases "w' = w") simp_all
next
  case 6
  have "sum_list (map (carry P L) ((py_workers s)[w := x])) = sum_list (map (carry P L) (py_workers s))"
    using sum_list_update_mset [OF w, of "carry P L" x] assms(3) by simp
  then show ?case using pool_invD(6) [OF inv] by simp
next
  case 8
  then show ?case using pool_invD(8) [OF inv] assms(5) set_update_subset_insert [of "py_workers s" w x] by auto
qed (use pool_invD [OF inv] in auto)

text \<open>The invariant of all states that the pool reaches.\<close>

definition pool_state :: "PyramidChunker \<Rightarrow> nat option \<Rightarrow> bytes \<Rightarrow> nat \<Rightarrow> nat \<Rightarrow> pyramid \<Rightarrow> bool" where
  "pool_state P swg doc L m s \<longleftrightarrow> (pyramid_ok P \<longrightarrow>
     (if py_crashed s then \<exists>h < L. pyramid_gap (pc_branches P) (length (layer P doc 0)) h
      else \<exists>D. pool_inv P swg doc L m D s))"

lemma pool_step:
  assumes inv: "pool_inv P swg doc L m D s" and ok: "pyramid_ok P"
    and step: "pyramid_step P swg e s = Some s'"
  shows "pool_state P swg doc L m s'"
proof -
  have run: "\<not> py_crashed s" using step by (auto simp: pyramid_step_def split: if_splits)
  show ?thesis
  proof (cases e)
    case Feed
    then obtain t ts where t: "py_todo s = t # ts" "s' = s\<lparr>py_todo := ts, py_tasks := py_tasks s @ [t]\<rparr>"
      using step by (auto simp: pyramid_step_def split: if_splits list.splits)
    have "pool_inv P swg doc L m D s'"
      unfolding t(2) by (rule pool_invI) (use pool_invD [OF inv] t(1) in \<open>auto simp: ac_simps\<close>)
    then show ?thesis using run t(2) by (auto simp: pool_state_def)
  next
    case (Take w)
    then obtain t ts where t: "py_tasks s = t # ts" "w < length (py_workers s)" "py_workers s ! w = Idle"
      "s' = s\<lparr>py_tasks := ts, py_workers := (py_workers s)[w := Holding t (length (py_Levels s) - 1) (pc_branches P) None]\<rparr>"
      using step by (auto simp: pyramid_step_def split: if_splits list.splits)
    let ?w = "Holding t (L - 1) (pc_branches P) None"
    have s': "s' = s\<lparr>py_tasks := ts, py_workers := (py_workers s)[w := ?w]\<rparr>" using t(4) pool_invD(9) [OF inv] by simp
    have "(0, tk_Index t) \<in># mset_set (ready P doc L m D)"
      using pool_invD(6) [OF inv] t(1) by (metis (no_types, lifting) append_Cons in_multiset_in_set list.set_intros(1) list.simps(9) union_iff)
    then have "(0, tk_Index t) \<in> ready P doc L m D" by simp
    then have "0 < L" by (simp add: ready_def)
    have sum: "sum_list (map (carry P L) ((py_workers s)[w := ?w])) = sum_list (map (carry P L) (py_workers s)) + {#(0, tk_Index t)#}"
      using sum_list_update_mset [OF t(2), of "carry P L" ?w] t(3) by (simp add: item_at_def height_def)
    have new: "worker_ok P doc L (py_Levels s) ?w"
      using pool_invD(4) [OF inv, of t] t(1) \<open>0 < L\<close> by (simp add: height_def)
    have stay: "Exited \<notin> set ((py_workers s)[w := ?w])"
      using pool_invD(8) [OF inv] t(1) set_update_subset_insert [of "py_workers s" w ?w] by auto
    have "pool_inv P swg doc L m D s'"
      unfolding s'
    proof (rule pool_invI, goal_cases)
      case (5 w')
      then show ?case using new pool_invD(5) [OF inv nth_mem, of w'] by (cases "w' = w") simp_all
    next
      case 6
      then show ?case using sum pool_invD(6) [OF inv] t(1) by simp
    next
      case 8
      then show ?case using stay by simp
    qed (use pool_invD [OF inv] t(1) in auto)
    then show ?thesis using run s' by (auto simp: pool_state_def)
  next
    case (Hash w)
    then have w: "w < length (py_workers s)" "is_Holding (py_workers s ! w)"
      and s': "s' = s\<lparr>py_workers := (py_workers s)[w := processor_hash P (py_heap s) (py_workers s ! w)]\<rparr>"
      using step by (auto simp: pyramid_step_def split: if_splits)
    have "pool_inv P swg doc L m D s'"
      unfolding s' using hash_correct [OF inv ok w] by (intro pool_inv_worker [OF inv w(1)]) auto
    then show ?thesis using run s' by (auto simp: pool_state_def)
  next
    case (Insert w)
    then have w: "w < length (py_workers s)" "is_Hashed (py_workers s ! w)" and s': "s' = processor_insert P swg s w"
      using step by (auto simp: pyramid_step_def split: if_splits)
    then obtain t d p hash data sz l where h: "py_workers s ! w = Hashed t d p hash data sz l"
      by (cases "py_workers s ! w") auto
    have "height L d < L" using pool_invD(5) [OF inv nth_mem [OF w(1)]] h by (auto simp: height_def)
    then show ?thesis
      using insert_gap [OF inv ok w(1) h] insert_fits [OF inv ok run w(1) h] s'
      unfolding pool_state_def by metis
  next
    case (Exit w)
    then have w: "w < length (py_workers s)" "py_workers s ! w = Idle" "py_todo s = []" "py_tasks s = []"
      and s': "s' = s\<lparr>py_workers := (py_workers s)[w := Exited]\<rparr>"
      using step by (auto simp: pyramid_step_def split: if_splits)
    have "pool_inv P swg doc L m D s'"
      unfolding s' using w by (intro pool_inv_worker [OF inv w(1)]) auto
    then show ?thesis using run s' by (auto simp: pool_state_def)
  qed
qed

interpretation pool: event_invariant "pyramid_step P swg" "\<lambda>_. True" "pool_state P swg doc L m" for P swg doc L m
proof
  fix s e s' assume I: "pool_state P swg doc L m s" and step: "pyramid_step P swg e s = Some s'"
  have "\<not> py_crashed s" using step by (auto simp: pyramid_step_def split: if_splits)
  then have "pyramid_ok P \<Longrightarrow> \<exists>D. pool_inv P swg doc L m D s" using I by (simp add: pool_state_def)
  then show "pool_state P swg doc L m s'"
    using pool_step [OF _ _ step] by (cases "pyramid_ok P") (blast, simp add: pool_state_def)
qed

section \<open>Progress\<close>

fun worker_weight :: "worker \<Rightarrow> nat" where
  "worker_weight (Holding t d p n) = 2"
| "worker_weight Exited = 0"
| "worker_weight _ = 1"

definition pool_items :: "PyramidChunker \<Rightarrow> bytes \<Rightarrow> nat \<Rightarrow> nat" where
  "pool_items P doc L = (\<Sum>h < L. length (layer P doc h))"

definition pool_measure :: "PyramidChunker \<Rightarrow> bytes \<Rightarrow> nat \<Rightarrow> pyramid \<Rightarrow> nat" where
  "pool_measure P doc L s = (if py_crashed s then 0
     else 1 + 4 * length (py_todo s) + 3 * length (py_tasks s) + sum_list (map worker_weight (py_workers s))
       + 3 * (pool_items P doc L - length (py_chunkC s)))"

lemma inserted_less:
  assumes "inserted_ok P doc L m D" "x \<in> ready P doc L m D"
  shows "card D < pool_items P doc L"
proof -
  let ?A = "SIGMA h : {..<L}. {..<length (layer P doc h)}"
  have "D \<subset> ?A" using assms by (auto simp: inserted_ok_def ready_def)
  then have "card D < card ?A" by (intro psubset_card_mono) auto
  then show ?thesis by (simp add: pool_items_def)
qed

lemma sum_list_update_weight:
  "w < length ws \<Longrightarrow> sum_list (map f (ws[w := x])) + f (ws ! w) = sum_list (map f ws) + (f x :: nat)"
  by (induction ws arbitrary: w) (auto split: nat.splits)

lemma pool_measure_less:
  assumes inv: "pool_inv P swg doc L m D s" and ok: "pyramid_ok P"
    and step: "pyramid_step P swg e s = Some s'"
  shows "pool_measure P doc L s' < pool_measure P doc L s"
proof -
  have run: "\<not> py_crashed s" using step by (auto simp: pyramid_step_def split: if_splits)
  note weight = sum_list_update_weight [of _ "py_workers s" worker_weight]
  show ?thesis
  proof (cases e)
    case Feed
    then show ?thesis using step run
      by (auto simp: pyramid_step_def pool_measure_def split: if_splits list.splits)
  next
    case (Take w)
    then show ?thesis using step run weight [of w "Holding (hd (py_tasks s)) (length (py_Levels s) - 1) (pc_branches P) None"]
      by (auto simp: pyramid_step_def pool_measure_def split: if_splits list.splits)
  next
    case (Hash w)
    then have w: "w < length (py_workers s)" "is_Holding (py_workers s ! w)" using step
      by (auto simp: pyramid_step_def split: if_splits)
    then have "worker_weight (py_workers s ! w) = 2" "worker_weight (processor_hash P (py_heap s) (py_workers s ! w)) = 1"
      using hash_correct(3) [OF inv ok w]
      by (cases "py_workers s ! w"; cases "processor_hash P (py_heap s) (py_workers s ! w)"; auto)+
    then show ?thesis using step run Hash w weight [of w "processor_hash P (py_heap s) (py_workers s ! w)"]
      by (auto simp: pyramid_step_def pool_measure_def)
  next
    case (Insert w)
    then have w: "w < length (py_workers s)" "is_Hashed (py_workers s ! w)" "s' = processor_insert P swg s w"
      using step by (auto simp: pyramid_step_def split: if_splits)
    then obtain t d p hash data sz l where h: "py_workers s ! w = Hashed t d p hash data sz l"
      by (cases "py_workers s ! w") auto
    have "card D < pool_items P doc L"
      using inserted_less [OF pool_invD(2) [OF inv] carry_ready [OF inv w(1), of "item_at P L t d"]] h by simp
    moreover have "size (mset (py_chunkC s)) = size (mset_set D)" unfolding pool_invD(7) [OF inv] by simp
    ultimately have n: "length (py_chunkC s) < pool_items P doc L" by simp
    obtain a s1 where find: "find_node P s t d p l = (a, s1)" by (cases "find_node P s t d p l")
    then have s1: "py_todo s1 = py_todo s" "py_tasks s1 = py_tasks s" "py_workers s1 = py_workers s"
      "py_chunkC s1 = py_chunkC s" "py_crashed s1 = py_crashed s"
      by (auto simp: find_node_def Let_def split: option.splits)
    show ?thesis
      using run n w(1,3) h find s1 weight [of w Idle] weight [of w "Holding t (d - 1) (p * pc_branches P) (Some a)"]
      by (auto simp: processor_insert_def Let_def pool_measure_def split: option.splits if_splits)
  next
    case (Exit w)
    then show ?thesis using step run weight [of w Exited]
      by (auto simp: pyramid_step_def pool_measure_def split: if_splits)
  qed
qed

text \<open>A run is no longer than the measure of its first state.\<close>

lemma pool_run_bound:
  assumes "pool_state P swg doc L m s0" "pyramid_ok P" "run_events (pyramid_step P swg) es s0 = Some s"
  shows "length es + pool_measure P doc L s \<le> pool_measure P doc L s0"
  using assms(1,3)
proof (induction es arbitrary: s0)
  case (Cons e es)
  then obtain s1 where s1: "pyramid_step P swg e s0 = Some s1" "run_events (pyramid_step P swg) es s1 = Some s"
    by (auto split: option.splits)
  have "\<not> py_crashed s0" using s1(1) by (auto simp: pyramid_step_def split: if_splits)
  then obtain D where "pool_inv P swg doc L m D s0" using Cons.prems(1) assms(2) by (auto simp: pool_state_def)
  then have "pool_measure P doc L s1 < pool_measure P doc L s0" by (rule pool_measure_less [OF _ assms(2) s1(1)])
  moreover have "length es + pool_measure P doc L s \<le> pool_measure P doc L s1"
    using Cons.IH [OF pool.preserved [OF Cons.prems(1) _ s1(1)] s1(2)] by simp
  ultimately show ?case by simp
qed simp

text \<open>Until the pool has finished some move is enabled.\<close>

lemma pool_not_stuck:
  assumes inv: "pool_inv P swg doc L m D s" and run: "\<not> py_crashed s"
    and ws: "py_workers s \<noteq> []" and nf: "\<not> pyramid_final s"
  shows "\<exists>e s'. pyramid_step P swg e s = Some s'"
proof (cases "\<exists>w < length (py_workers s). py_workers s ! w \<notin> {Idle, Exited}")
  case True
  then obtain w where "w < length (py_workers s)" "is_Holding (py_workers s ! w) \<or> is_Hashed (py_workers s ! w)"
    by (metis insertCI worker.exhaust_disc)
  then show ?thesis using run
    by (auto simp: pyramid_step_def intro: exI [of _ "Hash w"] exI [of _ "Insert w"])
next
  case False
  show ?thesis
  proof (cases "Exited \<in> set (py_workers s)")
    case True
    then have empty: "py_tasks s = []" "py_todo s = []" using pool_invD(8) [OF inv] by auto
    then obtain w where "w < length (py_workers s)" "py_workers s ! w = Idle"
      using nf False by (auto simp: pyramid_final_def list_all_length)
    then show ?thesis using run empty by (intro exI [of _ "Exit w"]) (auto simp: pyramid_step_def)
  next
    case noexit: False
    then have idle: "py_workers s ! 0 = Idle" "0 < length (py_workers s)"
      using False ws nth_mem [of 0 "py_workers s"] by (metis empty_iff insert_iff length_greater_0_conv)+
    show ?thesis
    proof (cases "py_tasks s")
      case (Cons t ts)
      then show ?thesis using run idle by (intro exI [of _ "Take 0"]) (auto simp: pyramid_step_def)
    next
      case Nil
      show ?thesis
      proof (cases "py_todo s")
        case (Cons t ts)
        then show ?thesis using run Nil by (intro exI [of _ Feed]) (auto simp: pyramid_step_def processors_def)
      next
        case Nil
        then show ?thesis using run idle \<open>py_tasks s = []\<close>
          by (intro exI [of _ "Exit 0"]) (auto simp: pyramid_step_def)
      qed
    qed
  qed
qed

end
