(* ===== verification/Pyramid_Props.thy ===== *)
theory Pyramid_Props
  imports Pyramid_Moves Chunk_Join "HOL-Library.Sublist"
begin

text \<open>
  What \<open>PyramidChunker.Split\<close> computes under every interleaving of its workers, where it panics, and
  how its keys relate to those of the tree chunker.
\<close>

section \<open>The tasks\<close>

lemma blocks_short: "xs \<noteq> [] \<Longrightarrow> length xs \<le> t \<Longrightarrow> blocks t xs = [xs]"
  by (cases t) (simp_all add: blocks.simps [of _ xs])

lemma blocks_long: "0 < t \<Longrightarrow> t < length xs \<Longrightarrow> blocks t xs = take t xs # blocks t (drop t xs)"
  by (subst blocks.simps) auto

definition leaf_task :: "nat \<Rightarrow> bytes \<Rightarrow> Task \<Rightarrow> bool" where
  "leaf_task i b t \<longleftrightarrow> tk_Index t = i \<and> tk_Size t = of_nat (length b)
     \<and> tk_Data t = LittleEndian_PutUint64 (of_nat (length b)) @ b"

text \<open>A reader that delivers all bytes gives one task per block; a failing one loses its last block.\<close>

lemma feed_complete:
  assumes "0 < cs" "blk \<noteq> []" "rd + length blk = sz"
  shows "\<exists>ts. feed_loop cs sz [(blk, None)] rd index = (ts, False) \<and> length ts = length (blocks cs blk)
     \<and> (\<forall>i < length ts. leaf_task (index + i) (blocks cs blk ! i) (ts ! i))"
  using assms(2,3)
proof (induction "length blk" arbitrary: blk rd index rule: less_induct)
  case less
  show ?case
  proof (cases "cs < length blk")
    case False
    then show ?thesis
      using less.prems \<open>0 < cs\<close> by (subst feed_loop.simps) (simp add: blocks_short leaf_task_def Let_def)
  next
    case True
    then obtain ts where ts: "feed_loop cs sz [(drop cs blk, None)] (rd + cs) (Suc index) = (ts, False)"
      "length ts = length (blocks cs (drop cs blk))"
      "\<forall>i < length ts. leaf_task (Suc index + i) (blocks cs (drop cs blk) ! i) (ts ! i)"
      using less.hyps [of "drop cs blk" "rd + cs" "Suc index"] less.prems \<open>0 < cs\<close> by auto
    let ?t = "\<lparr>tk_Index = index, tk_Size = of_nat cs, tk_Data = LittleEndian_PutUint64 (of_nat cs) @ take cs blk, tk_Last = False\<rparr>"
    have "feed_loop cs sz [(blk, None)] rd index = (?t # ts, False)"
      using True less.prems \<open>0 < cs\<close> ts(1) by (subst feed_loop.simps) (simp add: Let_def)
    moreover have "leaf_task (index + i) (blocks cs blk ! i) ((?t # ts) ! i)" if "i < length (?t # ts)" for i
      using that ts(3) True \<open>0 < cs\<close> by (cases i) (simp_all add: blocks_long leaf_task_def)
    ultimately show ?thesis using ts(2) True \<open>0 < cs\<close> by (auto simp: blocks_long)
  qed
qed

lemma feed_failing:
  assumes "0 < cs" "blk \<noteq> []" "rd + length blk < sz" "e \<noteq> EOF" "e \<noteq> ErrUnexpectedEOF"
  shows "\<exists>ts. feed_loop cs sz [(blk, Some e)] rd index = (ts, True) \<and> Suc (length ts) = length (blocks cs blk)
     \<and> (\<forall>i < length ts. leaf_task (index + i) (blocks cs blk ! i) (ts ! i))"
  using assms(2,3)
proof (induction "length blk" arbitrary: blk rd index rule: less_induct)
  case less
  show ?case
  proof (cases "cs < length blk")
    case False
    then show ?thesis
      using less.prems assms by (subst feed_loop.simps) (simp add: blocks_short Let_def)
  next
    case True
    then obtain ts where ts: "feed_loop cs sz [(drop cs blk, Some e)] (rd + cs) (Suc index) = (ts, True)"
      "Suc (length ts) = length (blocks cs (drop cs blk))"
      "\<forall>i < length ts. leaf_task (Suc index + i) (blocks cs (drop cs blk) ! i) (ts ! i)"
      using less.hyps [of "drop cs blk" "rd + cs" "Suc index"] less.prems \<open>0 < cs\<close> by auto
    let ?t = "\<lparr>tk_Index = index, tk_Size = of_nat cs, tk_Data = LittleEndian_PutUint64 (of_nat cs) @ take cs blk, tk_Last = False\<rparr>"
    have "feed_loop cs sz [(blk, Some e)] rd index = (?t # ts, True)"
      using True less.prems \<open>0 < cs\<close> ts(1) by (subst feed_loop.simps) (simp add: Let_def)
    moreover have "leaf_task (index + i) (blocks cs blk ! i) ((?t # ts) ! i)" if "i < length (?t # ts)" for i
      using that ts(3) True \<open>0 < cs\<close> by (cases i) (simp_all add: blocks_long leaf_task_def)
    ultimately show ?thesis using ts(2) True \<open>0 < cs\<close> by (auto simp: blocks_long)
  qed
qed

lemma layer_0_length: "0 < pc_chunkSize P \<Longrightarrow> length (layer P doc 0) = pyramid_chunks P (length doc)"
  by (simp add: length_blocks pyramid_chunks_def)

section \<open>The first and the last state\<close>

lemma sum_list_empty: "(\<And>x. x \<in> set xs \<Longrightarrow> f x = {#}) \<Longrightarrow> sum_list (map f xs) = {#}"
  by (induction xs) auto

lemma mset_nth: "image_mset ((!) xs) (mset_set {..<length xs}) = mset xs"
  by (metis atLeast0LessThan map_nth mset_map mset_upt)

lemma pool_start:
  assumes ok: "pyramid_ok P" and ts: "length ts \<le> length (layer P doc 0)"
    "\<forall>i < length ts. leaf_task i (blocks (pc_chunkSize P) doc ! i) (ts ! i)"
  shows "pool_inv P swg doc (Suc d) (length ts) {}
    \<lparr>py_todo = ts, py_tasks = [], py_workers = replicate processors Idle, py_Chunks = length (layer P doc 0),
     py_Levels = replicate (Suc d) Map.empty, py_heap = [], py_chunkC = [], py_crashed = False\<rparr>"
proof (rule pool_invI, goal_cases)
  case 3
  then show ?case
    by (intro table_okI) (auto simp: present_def simp del: replicate_Suc)
next
  case (4 t)
  then obtain i where "i < length ts" "t = ts ! i" by (auto simp: in_set_conv_nth)
  then show ?case using ts by (auto simp: task_ok_def leaf_task_def leaf_item_def Let_def)
next
  case 6
  have "map (\<lambda>t. (0::nat, tk_Index t)) ts = map (\<lambda>i. (0, i)) [0..<length ts]"
    by (rule nth_equalityI) (use ts(2) in \<open>auto simp: leaf_task_def\<close>)
  moreover have "ready P doc (Suc d) (length ts) {} = (\<lambda>i. (0, i)) ` {0..<length ts}"
  proof -
    have "kids P doc h c \<noteq> {}" if "c < length (layer P doc (Suc h))" for h c
    proof -
      have "c * pc_branches P < length (layer P doc h)"
        using that ok length_blocks [of "pc_branches P" "layer P doc h"] less_ceil [of "pc_branches P" c "length (layer P doc h)"]
        by (simp add: pyramid_ok_def)
      then have "c * pc_branches P \<in> kids P doc h c" using ok by (simp add: kids_def pyramid_ok_def)
      then show ?thesis by blast
    qed
    then have "(h, c) \<in> ready P doc (Suc d) (length ts) {} \<longleftrightarrow> (h, c) \<in> (\<lambda>i. (0, i)) ` {0..<length ts}" for h c
      using ts(1) by (cases h) (auto simp: ready_def)
    then show ?thesis by (auto simp del: image_iff)
  qed
  moreover have "sum_list (map (carry P (Suc d)) (replicate processors Idle)) = {#}"
    by (rule sum_list_empty) auto
  moreover have "mset_set ((\<lambda>i. (0::nat, i)) ` {0..<length ts}) = mset (map (\<lambda>i. (0, i)) [0..<length ts])"
    by (simp add: image_mset_mset_set [symmetric] inj_on_def)
  ultimately show ?case by (simp only: pyramid.simps append_Nil) simp
qed (auto simp: inserted_ok_def)

lemma final_ready:
  assumes "pool_inv P swg doc L m D s" "pyramid_final s"
  shows "ready P doc L m D = {}"
proof -
  have "sum_list (map (carry P L) (py_workers s)) = {#}"
    using assms(2) by (intro sum_list_empty) (auto simp: pyramid_final_def list_all_iff)
  then have "mset_set (ready P doc L m D) = {#}"
    using pool_invD(6) [OF assms(1)] assms(2) by (simp add: pyramid_final_def)
  then show ?thesis by (simp add: mset_set_empty_iff)
qed

lemma final_all:
  assumes inv: "pool_inv P swg doc L (length (layer P doc 0)) D s" and fin: "pyramid_final s"
    and "h < L" "c < length (layer P doc h)"
  shows "(h, c) \<in> D"
  using assms(3,4)
proof (induction h arbitrary: c)
  case 0
  then have "(0, c) \<in> ready P doc L (length (layer P doc 0)) D \<or> (0, c) \<in> D" by (simp add: ready_def)
  then show ?case using final_ready [OF inv fin] by blast
next
  case (Suc h)
  then have "\<forall>c' \<in> kids P doc h c. (h, c') \<in> D" by (auto simp: kids_def)
  then have "(Suc h, c) \<in> ready P doc L (length (layer P doc 0)) D \<or> (Suc h, c) \<in> D"
    using Suc.prems by (simp add: ready_def)
  then show ?case using final_ready [OF inv fin] by blast
qed

lemma inserted_below:
  assumes ok: "pyramid_ok P" and D: "inserted_ok P doc L m D" and top: "(h, 0) \<in> D" "length (layer P doc h) \<le> 1"
    and c: "j \<le> h" "c < length (layer P doc j)"
  shows "(j, c) \<in> D"
  using c
proof (induction "h - j" arbitrary: j c)
  case 0
  then have "j = h" by simp
  then have "c = 0" using 0 top(2) by simp
  then show ?case using top(1) \<open>j = h\<close> by simp
next
  case (Suc x)
  have "(Suc j, c div pc_branches P) \<in> D"
    using Suc.hyps(1) [of "Suc j"] Suc.hyps(2) Suc.prems layer_parent [OF ok Suc.prems(2)] by simp
  then have "\<forall>c' \<in> kids P doc j (c div pc_branches P). (j, c') \<in> D" using D by (auto simp: inserted_ok_def)
  then show ?case using Suc.prems(2) by (auto simp: kids_def)
qed

lemma top_layer:
  assumes "pyramid_ok P" "layer P doc 0 \<noteq> []" "length (layer P doc 0) \<le> pc_branches P ^ d"
  shows "length (layer P doc d) = 1"
proof -
  have "0 < length (layer P doc d)" "\<not> 1 < length (layer P doc d)"
    using assms(2,3) less_layer [OF assms(1), of 0 doc d] less_layer [OF assms(1), of 1 doc d] by auto
  then show ?thesis by linarith
qed

text \<open>The root of the tables holds the key exactly when the top chunk has been inserted.\<close>

lemma pyramid_key_top:
  assumes ok: "pyramid_ok P" and inv: "pool_inv P swg doc (Suc d) m D s" and top: "length (layer P doc d) = 1"
  shows "pyramid_key s = (if (d, 0) \<in> D then Ret (fst (layer P doc d ! 0)) else Panic)"
proof -
  note tab = pool_invD(3) [OF inv]
  obtain l ls where lv: "py_Levels s = l # ls" using pool_invD(9) [OF inv] by (cases "py_Levels s") auto
  have kids: "kids P doc d 0 = {0}" using top by (auto simp: kids_def)
  have pres: "present P doc d 0 D \<noteq> {} \<longleftrightarrow> (d, 0) \<in> D" unfolding present_def kids by auto
  have up: "(Suc d, 0) \<notin> D" using pool_invD(2) [OF inv] by (auto simp: inserted_ok_def)
  show ?thesis
  proof (cases "l 0")
    case None
    then have "(d, 0) \<notin> D" using table_absent [OF tab, of d 0] lv up pres by auto
    then show ?thesis using lv None by (simp add: pyramid_key_def)
  next
    case (Some a)
    then have a: "(py_Levels s ! (Suc d - 1 - d)) 0 = Some a" using lv by simp
    note n = table_lookup [OF tab _ a]
    have D: "(d, 0) \<in> D" using n(1) pres by simp
    then have "length (nd_Children (py_heap s ! a)) = 1" "nd_Children (py_heap s ! a) ! 0 = fst (layer P doc d ! 0)"
      using n(4) unfolding node_ok_def kids by auto
    then have "nd_Children (py_heap s ! a) = [fst (layer P doc d ! 0)]"
      by (metis One_nat_def length_0_conv length_Suc_conv nth_Cons_0)
    then show ?thesis using lv Some D by (simp add: pyramid_key_def)
  qed
qed

lemma all_chunks:
  assumes D: "inserted_ok P doc (Suc d) m D" and all: "\<And>h c. h \<le> d \<Longrightarrow> c < length (layer P doc h) \<Longrightarrow> (h, c) \<in> D"
  shows "image_mset (\<lambda>(h, c). chunk_of swg (layer P doc h ! c)) (mset_set D)
    = (\<Sum>h \<le> d. image_mset (chunk_of swg) (mset (layer P doc h)))"
proof -
  let ?f = "\<lambda>(h, c). chunk_of swg (layer P doc h ! c)"
  have "image_mset ?f (mset_set (SIGMA h : {..n}. {..<length (layer P doc h)}))
      = (\<Sum>h \<le> n. image_mset (chunk_of swg) (mset (layer P doc h)))" for n
  proof (induction n)
    case 0
    have "(SIGMA h : {..0::nat}. {..<length (layer P doc h)}) = Pair 0 ` {..<length (layer P doc 0)}" by auto
    then show ?case
      by (simp add: image_mset_mset_set [symmetric] inj_on_def multiset.map_comp comp_def mset_nth [symmetric] del: layer.simps)
  next
    case (Suc n)
    let ?S = "Pair (Suc n) ` {..<length (layer P doc (Suc n))}"
    have "(SIGMA h : {..Suc n}. {..<length (layer P doc h)}) = (SIGMA h : {..n}. {..<length (layer P doc h)}) \<union> ?S"
      by (auto simp: le_Suc_eq simp del: layer.simps)
    moreover have "mset_set ((SIGMA h : {..n}. {..<length (layer P doc h)}) \<union> ?S)
        = mset_set (SIGMA h : {..n}. {..<length (layer P doc h)}) + mset_set ?S"
      by (rule mset_set_Union) auto
    moreover have "image_mset ?f (mset_set ?S) = image_mset (chunk_of swg) (mset (layer P doc (Suc n)))"
      by (simp add: image_mset_mset_set [symmetric] inj_on_def multiset.map_comp comp_def mset_nth [symmetric] del: layer.simps)
    ultimately show ?case using Suc.IH by (simp del: layer.simps)
  qed
  moreover have "D = (SIGMA h : {..d}. {..<length (layer P doc h)})"
    using D all by (auto simp: inserted_ok_def less_Suc_eq_le)
  ultimately show ?thesis by simp
qed

lemma workers_nonempty:
  assumes "run_events (pyramid_step P swg) es s0 = Some s" "py_workers s0 \<noteq> []"
  shows "py_workers s \<noteq> []"
  using assms
proof (induction es arbitrary: s0)
  case (Cons e es)
  then obtain s1 where s1: "pyramid_step P swg e s0 = Some s1" "run_events (pyramid_step P swg) es s1 = Some s"
    by (auto split: option.splits)
  have "py_workers (snd (find_node P s0 t d p l)) = py_workers s0" for t d p l
    by (simp add: find_node_def Let_def split: option.splits)
  then have "length (py_workers (processor_insert P swg s0 w)) = length (py_workers s0)" for w
    by (auto simp: processor_insert_def Let_def split: worker.splits prod.splits) (metis snd_conv)+
  then have "length (py_workers s1) = length (py_workers s0)"
    using s1(1) by (auto simp: pyramid_step_def split: if_splits pyramid_event.splits list.splits)
  then show ?case using Cons.IH [OF s1(2)] Cons.prems(2) by (metis length_0_conv)
qed simp

text \<open>The runs of \<open>Split\<close> on a document of which the first \<open>m\<close> chunks are read.\<close>

definition split_run :: "PyramidChunker \<Rightarrow> nat option \<Rightarrow> bytes \<Rightarrow> nat \<Rightarrow> nat \<Rightarrow> pyramid \<Rightarrow> pyramid_event list \<Rightarrow> pyramid \<Rightarrow> bool" where
  "split_run P swg doc d m s0 es s \<longleftrightarrow> pyramid_ok P \<and> doc \<noteq> [] \<and> length (layer P doc 0) \<le> pc_branches P ^ d
     \<and> pool_inv P swg doc (Suc d) m {} s0 \<and> \<not> py_crashed s0 \<and> py_workers s0 \<noteq> []
     \<and> run_events (pyramid_step P swg) es s0 = Some s"

lemma split_run_state:
  assumes "split_run P swg doc d m s0 es s"
  shows "pool_state P swg doc (Suc d) m s" "length (layer P doc d) = 1"
    "length es \<le> pool_measure P doc (Suc d) s0"
    "(\<forall>e. pyramid_step P swg e s = None) \<Longrightarrow> py_crashed s \<or> pyramid_final s"
proof -
  have a: "pyramid_ok P" "doc \<noteq> []" "length (layer P doc 0) \<le> pc_branches P ^ d" "pool_state P swg doc (Suc d) m s0"
    "py_workers s0 \<noteq> []" "run_events (pyramid_step P swg) es s0 = Some s"
    using assms by (auto simp: split_run_def pool_state_def)
  show st: "pool_state P swg doc (Suc d) m s"
    by (rule pool.run_inv [OF a(4) _ a(6)]) (simp add: list_all_iff)
  have "layer P doc 0 \<noteq> []"
    using a(1,2) by (simp add: pyramid_ok_def) (subst blocks.simps, simp)
  then show "length (layer P doc d) = 1" using top_layer [OF a(1) _ a(3)] by simp
  show "length es \<le> pool_measure P doc (Suc d) s0"
    using pool_run_bound [OF a(4) a(1) a(6)] by simp
  assume "\<forall>e. pyramid_step P swg e s = None"
  then show "py_crashed s \<or> pyramid_final s"
    using pool_not_stuck [OF _ _ workers_nonempty [OF a(6,5)]] st a(1) by (fastforce simp: pool_state_def)
qed

lemma split_run_complete:
  assumes "split_run P swg doc d m s0 es s" "\<not> py_crashed s" "pyramid_final s"
    "m = length (layer P doc 0)"
  shows "pyramid_key s = Ret (fst (layer P doc d ! 0))"
    "mset (py_chunkC s) = (\<Sum>h \<le> d. image_mset (chunk_of swg) (mset (layer P doc h)))"
    "\<not> (\<exists>h \<le> d. pyramid_gap (pc_branches P) (length (layer P doc 0)) h)"
proof -
  have ok: "pyramid_ok P" using assms(1) by (simp add: split_run_def)
  obtain D where inv: "pool_inv P swg doc (Suc d) m D s"
    using split_run_state(1) [OF assms(1)] assms(2) ok by (auto simp: pool_state_def)
  have all: "(h, c) \<in> D" if "h \<le> d" "c < length (layer P doc h)" for h c
    using final_all [OF inv [unfolded assms(4)] assms(3)] that by simp
  show "pyramid_key s = Ret (fst (layer P doc d ! 0))"
    using pyramid_key_top [OF ok inv split_run_state(2) [OF assms(1)]] all [of d 0] split_run_state(2) [OF assms(1)] by simp
  show "mset (py_chunkC s) = (\<Sum>h \<le> d. image_mset (chunk_of swg) (mset (layer P doc h)))"
    unfolding pool_invD(7) [OF inv] by (rule all_chunks [OF pool_invD(2) [OF inv] all])
  show "\<not> (\<exists>h \<le> d. pyramid_gap (pc_branches P) (length (layer P doc 0)) h)"
  proof clarify
    fix h assume h: "h \<le> d" and gap: "pyramid_gap (pc_branches P) (length (layer P doc 0)) h"
    let ?b = "pc_branches P" and ?n = "length (layer P doc 0)"
    define k where "k = ?n div ?b ^ Suc h"
    have "k * ?b ^ Suc h < ?n"
      using gap div_mult_mod_eq [of ?n "?b ^ Suc h"] unfolding pyramid_gap_def k_def by linarith
    then have "k * ?b < length (layer P doc h)"
      using less_layer [OF ok, of "k * ?b" doc h] by (simp add: mult.assoc)
    then have "(h, k * ?b) \<in> D" using all h by blast
    then show False
      using pool_invD(2) [OF inv] gap ok by (fastforce simp: inserted_ok_def k_def pyramid_ok_def)
  qed
qed

text \<open>Every run can be continued until no move is left.\<close>

lemma split_run_ends:
  assumes "split_run P swg doc d m s0 es s"
  shows "\<exists>es' s'. split_run P swg doc d m s0 es' s' \<and> (\<forall>e. pyramid_step P swg e s' = None)"
  using assms
proof (induction "pool_measure P doc (Suc d) s0 - length es" arbitrary: es s rule: less_induct)
  case less
  show ?case
  proof (cases "\<forall>e. pyramid_step P swg e s = None")
    case True
    then show ?thesis using less.prems by blast
  next
    case False
    then obtain e s' where "pyramid_step P swg e s = Some s'" by auto
    then have next_run: "split_run P swg doc d m s0 (es @ [e]) s'"
      using less.prems by (simp add: split_run_def run_events_append)
    have "length (es @ [e]) \<le> pool_measure P doc (Suc d) s0" by (rule split_run_state(3) [OF next_run])
    then show ?thesis using less.hyps [OF _ next_run] by simp
  qed
qed

lemma pyramid_start_complete:
  assumes "pyramid_ok P" "doc \<noteq> []" "ceil_log (pyramid_chunks P (length doc)) (pc_branches P) = int d"
    "pyramid_chunks P (length doc) \<le> pc_branches P ^ d"
    "pyramid_start P ceil_log [(doc, None)] (length doc) = Ret s0"
    "run_events (pyramid_step P swg) es s0 = Some s"
  shows "split_run P swg doc d (length (layer P doc 0)) s0 es s"
    "pool_measure P doc (Suc d) s0 = 9 + 4 * pyramid_chunks P (length doc) + 3 * (\<Sum>h \<le> d. length (layer P doc h))"
proof -
  have cs: "0 < pc_chunkSize P" using assms(1) by (simp add: pyramid_ok_def)
  obtain ts where ts: "feed_loop (pc_chunkSize P) (length doc) [(doc, None)] 0 0 = (ts, False)"
    "length ts = length (layer P doc 0)" "\<forall>i < length ts. leaf_task i (blocks (pc_chunkSize P) doc ! i) (ts ! i)"
    using feed_complete [OF cs assms(2), of 0 "length doc" 0] by auto
  have s0: "s0 = \<lparr>py_todo = ts, py_tasks = [], py_workers = replicate processors Idle, py_Chunks = length (layer P doc 0),
     py_Levels = replicate (Suc d) Map.empty, py_heap = [], py_chunkC = [], py_crashed = False\<rparr>"
    using assms(3,5) cs ts(1) by (simp add: pyramid_start_def Let_def layer_0_length [OF cs] nat_add_distrib del: layer.simps replicate_Suc)
  show "split_run P swg doc d (length (layer P doc 0)) s0 es s"
    using pool_start [OF assms(1) _ ts(3)] ts(2) assms(1,2,4,6) layer_0_length [OF cs]
    by (simp add: split_run_def s0 processors_def)
  show "pool_measure P doc (Suc d) s0 = 9 + 4 * pyramid_chunks P (length doc) + 3 * (\<Sum>h \<le> d. length (layer P doc h))"
    using ts(2) layer_0_length [OF cs, of doc]
    by (simp add: pool_measure_def s0 pool_items_def processors_def lessThan_Suc_atMost del: layer.simps) (simp add: numeral_eq_Suc)
qed

lemma pyramid_start_failing:
  assumes "pyramid_ok P" "doc \<noteq> []" "ceil_log (pyramid_chunks P (length doc)) (pc_branches P) = int d"
    "pyramid_chunks P (length doc) \<le> pc_branches P ^ d"
    "got \<noteq> []" "prefix got doc" "got \<noteq> doc" "e \<noteq> EOF" "e \<noteq> ErrUnexpectedEOF"
    "pyramid_start P ceil_log [(got, Some e)] (length doc) = Ret s0"
    "run_events (pyramid_step P swg) es s0 = Some s"
  shows "\<exists>m < length (layer P doc 0). split_run P swg doc d m s0 es s"
proof -
  have cs: "0 < pc_chunkSize P" using assms(1) by (simp add: pyramid_ok_def)
  obtain tl where tl: "doc = got @ tl" using assms(6) by (auto simp: prefix_def)
  then have short: "0 + length got < length doc" using assms(7) by simp
  obtain ts where ts: "feed_loop (pc_chunkSize P) (length doc) [(got, Some e)] 0 0 = (ts, True)"
    "Suc (length ts) = length (blocks (pc_chunkSize P) got)"
    "\<forall>i < length ts. leaf_task i (blocks (pc_chunkSize P) got ! i) (ts ! i)"
    using feed_failing [OF cs assms(5) short assms(8,9), of 0] by auto
  have full: "Suc i * pc_chunkSize P < length got" if "i < length ts" for i
  proof -
    have "Suc i < length (blocks (pc_chunkSize P) got)" using ts(2) that by simp
    then show ?thesis by (simp only: length_blocks [OF cs] less_ceil [OF cs])
  qed
  have le: "length ts < length (layer P doc 0)"
  proof -
    have "length ts * pc_chunkSize P < length got"
      using ts(2) by (metis length_blocks [OF cs] less_ceil [OF cs] lessI)
    then have "length ts * pc_chunkSize P < length doc" using short by simp
    then show ?thesis
      by (simp only: layer.simps length_map length_blocks [OF cs] less_ceil [OF cs])
  qed
  have "blocks (pc_chunkSize P) doc ! i = blocks (pc_chunkSize P) got ! i" if "i < length ts" for i
    using full [OF that] cs by (simp add: nth_blocks tl)
  then have lt: "\<forall>i < length ts. leaf_task i (blocks (pc_chunkSize P) doc ! i) (ts ! i)" using ts(3) by simp
  have s0: "s0 = \<lparr>py_todo = ts, py_tasks = [], py_workers = replicate processors Idle, py_Chunks = length (layer P doc 0),
     py_Levels = replicate (Suc d) Map.empty, py_heap = [], py_chunkC = [], py_crashed = False\<rparr>"
    using assms(3,10) cs ts(1) by (simp add: pyramid_start_def Let_def layer_0_length [OF cs] nat_add_distrib del: layer.simps replicate_Suc)
  have "split_run P swg doc d (length ts) s0 es s"
    using pool_start [OF assms(1) _ lt, of swg d] le assms(1,2,4,11) layer_0_length [OF cs]
    by (simp add: split_run_def s0 processors_def)
  then show ?thesis using le by blast
qed

section \<open>Concrete runs\<close>

text \<open>
  A hash of 32 bytes, two or three branches, and a schedule in which one worker does all the work.
\<close>

definition wide_hasher :: Hasher where
  "wide_hasher = \<lparr>h_Size = 32, h_Sum = (\<lambda>x. replicate 31 0 @ [last x + of_nat (length x)])\<rparr>"

definition toy_pyramid :: "nat \<Rightarrow> PyramidChunker" where
  "toy_pyramid br = \<lparr>pc_hashFunc = wide_hasher, pc_chunkSize = 2, pc_hashSize = 32, pc_branches = br, pc_workerCount = 1\<rparr>"

definition toy_doc :: "nat \<Rightarrow> bytes" where
  "toy_doc n = map of_nat [0..<n]"

text \<open>\<open>ceil_log\<close> computed exactly.\<close>

fun exact_log :: "nat \<Rightarrow> nat \<Rightarrow> nat \<Rightarrow> nat \<Rightarrow> nat" where
  "exact_log 0 p n br = 0"
| "exact_log (Suc f) p n br = (if n \<le> p then 0 else Suc (exact_log f (p * br) n br))"

definition toy_log :: "nat \<Rightarrow> nat \<Rightarrow> int" where
  "toy_log n br = int (exact_log n 1 n br)"

lemma toy_pyramid_ok: "1 < br \<Longrightarrow> pyramid_ok (toy_pyramid br)"
  by (simp add: pyramid_ok_def toy_pyramid_def hasher_ok_def wide_hasher_def)

lemma toy_facts [simp]:
  "length (toy_doc n) = n" "toy_doc (Suc n) \<noteq> []" "pc_branches (toy_pyramid br) = br" "pc_chunkSize (toy_pyramid br) = 2"
  by (simp_all add: toy_doc_def toy_pyramid_def)

lemma toy_chunks_of: "pyramid_chunks (toy_pyramid br) n = (n + 1) div 2"
  by (simp add: pyramid_chunks_def)

lemma toy_log_4: "toy_log 4 3 = 2"
  by code_simp

lemma toy_no_gap: "h \<le> 2 \<Longrightarrow> \<not> pyramid_gap 3 4 h"
  by (auto simp: pyramid_gap_def numeral_2_eq_2 le_Suc_eq)

section \<open>Properties\<close>

text \<open>
  C8: \<open>PyramidChunker.Split\<close> does not depend on the schedule of its workers. On a reader that delivers the
  document in full reads, when no level has a gap, every interleaving ends after at most the given
  number of moves, none panics, and when no move is left all workers have returned, the key is the
  top of the pyramid of layers, and the chunks sent are exactly those of all layers, each once.
\<close>

theorem pyramid_split_any_order:
  assumes "pyramid_ok P" "doc \<noteq> []" "ceil_log (pyramid_chunks P (length doc)) (pc_branches P) = int d"
    "pyramid_chunks P (length doc) \<le> pc_branches P ^ d"
    "\<forall>h \<le> d. \<not> pyramid_gap (pc_branches P) (pyramid_chunks P (length doc)) h"
    "pyramid_start P ceil_log [(doc, None)] (length doc) = Ret s0"
    "run_events (pyramid_step P swg) es s0 = Some s"
  shows "\<not> py_crashed s
    \<and> length es \<le> 9 + 4 * pyramid_chunks P (length doc) + 3 * (\<Sum>h \<le> d. length (layer P doc h))
    \<and> ((\<forall>e. pyramid_step P swg e s = None) \<longrightarrow> pyramid_final s
        \<and> pyramid_key s = Ret (fst (layer P doc d ! 0))
        \<and> mset (py_chunkC s) = (\<Sum>h \<le> d. image_mset (chunk_of swg) (mset (layer P doc h))))"
proof -
  note run = pyramid_start_complete [OF assms(1-4,6,7)]
  have n: "length (layer P doc 0) = pyramid_chunks P (length doc)"
    using layer_0_length assms(1) by (simp add: pyramid_ok_def)
  have "\<not> py_crashed s"
    using split_run_state(1) [OF run(1)] assms(1,5) n by (auto simp: pool_state_def less_Suc_eq_le)
  then show ?thesis
    using split_run_state(3,4) [OF run(1)] split_run_complete [OF run(1)] run(2) by auto
qed

theorem pyramid_split_any_order_witness:
  "\<exists>s0 es s. pyramid_start (toy_pyramid 3) toy_log [(toy_doc 7, None)] 7 = Ret s0
    \<and> run_events (pyramid_step (toy_pyramid 3) None) es s0 = Some s \<and> pyramid_final s
    \<and> pyramid_key s = Ret (fst (layer (toy_pyramid 3) (toy_doc 7) 2 ! 0))"
proof -
  obtain s0 where s0: "pyramid_start (toy_pyramid 3) toy_log [(toy_doc 7, None)] 7 = Ret s0"
    by (simp add: pyramid_start_def toy_log_def)
  have doc: "toy_doc 7 \<noteq> []" by (simp add: toy_doc_def)
  note hyps = toy_pyramid_ok [of 3] doc toy_chunks_of toy_log_4 toy_no_gap s0
  obtain es s where es: "split_run (toy_pyramid 3) None (toy_doc 7) 2 (length (layer (toy_pyramid 3) (toy_doc 7) 0)) s0 es s"
    "\<forall>e. pyramid_step (toy_pyramid 3) None e s = None"
    using split_run_ends [OF pyramid_start_complete(1) [of "toy_pyramid 3" "toy_doc 7" toy_log 2 s0 None "[]" s0]] hyps by auto
  then have run: "run_events (pyramid_step (toy_pyramid 3) None) es s0 = Some s" by (simp add: split_run_def)
  have "pyramid_final s \<and> pyramid_key s = Ret (fst (layer (toy_pyramid 3) (toy_doc 7) 2 ! 0))"
    using pyramid_split_any_order [of "toy_pyramid 3" "toy_doc 7" toy_log 2 s0 None es s] run es(2) hyps by simp
  then show ?thesis using s0 run by blast
qed

text \<open>
  C35: with a gap on some level the pool panics under every schedule: a run ends after at most the given number of moves,
  and when no move is left it has crashed. (With 128 branches, \<open>default_gap\<close> below, every document of more than
  16256 and fewer than 16384 chunks has a gap.)
\<close>

theorem pyramid_gap_crashes:
  assumes "pyramid_ok P" "doc \<noteq> []" "ceil_log (pyramid_chunks P (length doc)) (pc_branches P) = int d"
    "pyramid_chunks P (length doc) \<le> pc_branches P ^ d"
    "h \<le> d" "pyramid_gap (pc_branches P) (pyramid_chunks P (length doc)) h"
    "pyramid_start P ceil_log [(doc, None)] (length doc) = Ret s0"
    "run_events (pyramid_step P swg) es s0 = Some s"
  shows "length es \<le> 9 + 4 * pyramid_chunks P (length doc) + 3 * (\<Sum>h \<le> d. length (layer P doc h))
    \<and> ((\<forall>e. pyramid_step P swg e s = None) \<longrightarrow> py_crashed s)"
proof -
  note run = pyramid_start_complete [OF assms(1-4,7,8)]
  have n: "length (layer P doc 0) = pyramid_chunks P (length doc)"
    using layer_0_length assms(1) by (simp add: pyramid_ok_def)
  show ?thesis
    using split_run_state(3,4) [OF run(1)] split_run_complete(3) [OF run(1)] run(2) assms(5,6) n by auto
qed

lemma default_gap: "16256 < n \<Longrightarrow> n < 16384 \<Longrightarrow> pyramid_gap 128 n 1"
proof -
  assume a: "16256 < n" "n < 16384"
  then have "(n + 127) div 128 = 128" by simp
  then show ?thesis using a by (simp add: pyramid_gap_def add.commute)
qed

theorem pyramid_gap_crashes_witness:
  "\<exists>s0 es s. pyramid_start (toy_pyramid 3) toy_log [(toy_doc 13, None)] 13 = Ret s0
    \<and> run_events (pyramid_step (toy_pyramid 3) None) es s0 = Some s \<and> py_crashed s"
proof -
  obtain s0 where s0: "pyramid_start (toy_pyramid 3) toy_log [(toy_doc 13, None)] 13 = Ret s0"
    by (simp add: pyramid_start_def toy_log_def)
  have doc: "toy_doc 13 \<noteq> []" by (simp add: toy_doc_def)
  have log: "toy_log 7 3 = 2" by code_simp
  have gap: "pyramid_gap 3 7 1" by (simp add: pyramid_gap_def)
  note hyps = toy_pyramid_ok [of 3] doc toy_chunks_of log gap s0
  obtain es s where es: "split_run (toy_pyramid 3) None (toy_doc 13) 2 (length (layer (toy_pyramid 3) (toy_doc 13) 0)) s0 es s"
    "\<forall>e. pyramid_step (toy_pyramid 3) None e s = None"
    using split_run_ends [OF pyramid_start_complete(1) [of "toy_pyramid 3" "toy_doc 13" toy_log 2 s0 None "[]" s0]] hyps by auto
  then have run: "run_events (pyramid_step (toy_pyramid 3) None) es s0 = Some s" by (simp add: split_run_def)
  have "py_crashed s"
    using pyramid_gap_crashes [of "toy_pyramid 3" "toy_doc 13" toy_log 2 1 s0 None es s] run es(2) hyps by simp
  then show ?thesis using s0 run by blast
qed

text \<open>
  An error of the reader is not reported. When the input fails before the end of the document, no
  schedule makes \<open>Split\<close> return: the pool ends without a root node and reading the key panics.
\<close>

theorem pyramid_read_error_panics:
  assumes "pyramid_ok P" "doc \<noteq> []" "ceil_log (pyramid_chunks P (length doc)) (pc_branches P) = int d"
    "pyramid_chunks P (length doc) \<le> pc_branches P ^ d"
    "got \<noteq> []" "prefix got doc" "got \<noteq> doc" "e \<noteq> EOF" "e \<noteq> ErrUnexpectedEOF"
    "pyramid_start P ceil_log [(got, Some e)] (length doc) = Ret s0"
    "run_events (pyramid_step P swg) es s0 = Some s"
    "\<forall>e. pyramid_step P swg e s = None"
  shows "py_crashed s \<or> (pyramid_final s \<and> pyramid_key s = Panic)"
proof -
  obtain m where m: "m < length (layer P doc 0)" and run: "split_run P swg doc d m s0 es s"
    using pyramid_start_failing [OF assms(1-11)] by blast
  note st = split_run_state [OF run]
  show ?thesis
  proof (cases "py_crashed s")
    case False
    then obtain D where inv: "pool_inv P swg doc (Suc d) m D s" using st(1) assms(1) by (auto simp: pool_state_def)
    have "(0, m) \<notin> D" using pool_invD(2) [OF inv] by (auto simp: inserted_ok_def)
    then have "(d, 0) \<notin> D"
      using inserted_below [OF assms(1) pool_invD(2) [OF inv] _ _ _ m, of d] st(2) by auto
    then show ?thesis
      using pyramid_key_top [OF assms(1) inv st(2)] st(4) assms(12) False by simp
  qed simp
qed

theorem pyramid_read_error_panics_witness:
  "\<exists>s0 es s. pyramid_start (toy_pyramid 3) toy_log [(toy_doc 3, Some (IOErr 0))] 7 = Ret s0
    \<and> run_events (pyramid_step (toy_pyramid 3) None) es s0 = Some s
    \<and> (py_crashed s \<or> (pyramid_final s \<and> pyramid_key s = Panic))"
proof -
  obtain s0 where s0: "pyramid_start (toy_pyramid 3) toy_log [(toy_doc 3, Some (IOErr 0))] 7 = Ret s0"
    by (simp add: pyramid_start_def toy_log_def)
  have doc: "toy_doc 7 \<noteq> []" "toy_doc 3 \<noteq> []" "prefix (toy_doc 3) (toy_doc 7)" "toy_doc 3 \<noteq> toy_doc 7"
    by (simp_all add: toy_doc_def upt_rec)
  note hyps = toy_pyramid_ok [of 3] doc toy_chunks_of toy_log_4 s0
  obtain m where "split_run (toy_pyramid 3) None (toy_doc 7) 2 m s0 [] s0"
    using pyramid_start_failing [of "toy_pyramid 3" "toy_doc 7" toy_log 2 "toy_doc 3" "IOErr 0" s0 None "[]" s0] hyps by auto
  then obtain es s where es: "split_run (toy_pyramid 3) None (toy_doc 7) 2 m s0 es s"
    "\<forall>e. pyramid_step (toy_pyramid 3) None e s = None"
    using split_run_ends by blast
  then have run: "run_events (pyramid_step (toy_pyramid 3) None) es s0 = Some s" by (simp add: split_run_def)
  have "py_crashed s \<or> (pyramid_final s \<and> pyramid_key s = Panic)"
    by (rule pyramid_read_error_panics [of "toy_pyramid 3" "toy_doc 7" toy_log 2 "toy_doc 3" "IOErr 0" s0 None es s])
      (use hyps run es(2) in simp_all)
  then show ?thesis using s0 run by blast
qed

end
