(* ===== verification/Pyramid_Tree.thy ===== *)
theory Pyramid_Tree
  imports Pyramid_Props
begin

text \<open>
  The keys of the pyramid chunker and of the tree chunker. Both hash the same leaves; they differ in
  how they treat the last, partly filled subtree: the tree chunker leaves out the levels its data does not fill,
  the pyramid chunker wraps a single child into a node at every level.
\<close>

section \<open>Layers of parts of a document\<close>

lemma blocks_drop: "0 < t \<Longrightarrow> blocks t (drop (c * t) xs) = drop c (blocks t xs)"
proof (induction c arbitrary: xs)
  case (Suc c)
  show ?case
  proof (cases "xs = []")
    case False
    have "blocks t xs = take t xs # blocks t (drop t xs)" using False Suc.prems by (subst blocks.simps) simp
    then show ?thesis using Suc.IH [OF Suc.prems, of "drop t xs"] by (simp add: add.commute)
  qed simp
qed simp

lemma blocks_take: "0 < t \<Longrightarrow> blocks t (take (q * t) xs) = take q (blocks t xs)"
proof (induction q arbitrary: xs)
  case (Suc q)
  show ?case
  proof (cases "xs = []")
    case False
    have "blocks t xs = take t xs # blocks t (drop t xs)" using False Suc.prems by (subst blocks.simps) simp
    moreover have "blocks t (take (Suc q * t) xs) = take t xs # blocks t (take (q * t) (drop t xs))"
      using False Suc.prems by (subst blocks.simps) (simp add: take_drop add.commute)
    ultimately show ?thesis using Suc.IH [OF Suc.prems, of "drop t xs"] by simp
  qed simp
qed simp

lemma layer_drop:
  "pyramid_ok P \<Longrightarrow> layer P (drop (c * (pc_chunkSize P * pc_branches P ^ h)) doc) h = drop c (layer P doc h)"
proof (induction h arbitrary: c)
  case 0
  then show ?case by (simp add: blocks_drop drop_map pyramid_ok_def)
next
  case (Suc h)
  have eq: "c * (pc_chunkSize P * pc_branches P ^ Suc h) = c * pc_branches P * (pc_chunkSize P * pc_branches P ^ h)"
    by (simp add: ac_simps)
  show ?case
    unfolding eq layer.simps Suc.IH [OF Suc.prems] using Suc.prems by (simp add: blocks_drop drop_map pyramid_ok_def)
qed

lemma layer_take:
  "pyramid_ok P \<Longrightarrow> layer P (take (q * (pc_chunkSize P * pc_branches P ^ h)) doc) h = take q (layer P doc h)"
proof (induction h arbitrary: q)
  case 0
  then show ?case by (simp add: blocks_take take_map pyramid_ok_def)
next
  case (Suc h)
  have eq: "q * (pc_chunkSize P * pc_branches P ^ Suc h) = q * pc_branches P * (pc_chunkSize P * pc_branches P ^ h)"
    by (simp add: ac_simps)
  show ?case
    unfolding eq layer.simps Suc.IH [OF Suc.prems] using Suc.prems by (simp add: blocks_take take_map pyramid_ok_def)
qed

text \<open>A document that the tree chunker nowhere shrinks.\<close>

fun tails_fit :: "nat \<Rightarrow> nat \<Rightarrow> nat \<Rightarrow> nat \<Rightarrow> bool" where
  "tails_fit cs br 0 n \<longleftrightarrow> True"
| "tails_fit cs br (Suc d) n \<longleftrightarrow> cs * br ^ d \<le> n
     \<and> (n mod (cs * br ^ d) = 0 \<or> tails_fit cs br d (n mod (cs * br ^ d)))"

lemma tails_fit_full: "tails_fit cs br d (cs * br ^ d)" if "0 < br"
  using that by (cases d) auto

definition same_params :: "TreeChunker \<Rightarrow> PyramidChunker \<Rightarrow> bool" where
  "same_params T P \<longleftrightarrow> hashFunc T = pc_hashFunc P \<and> branches T = pc_branches P \<and> chunkSize T = pc_chunkSize P
     \<and> hashSize T = pc_hashSize P \<and> pc_hashSize P = h_Size (pc_hashFunc P)"

lemma level_chunk_key:
  assumes "same_params T P" "pyramid_ok P"
  shows "fst (level_chunk T swg n body) = h_Sum (pc_hashFunc P) (LittleEndian_PutUint64 (of_nat n) @ body)"
  using assms by (simp add: level_chunk_def hashChunk_def Let_def same_params_def pyramid_ok_def hasher_ok_def)

lemma length_layer_doc:
  assumes "pyramid_ok P"
  shows "length (layer P doc h) = length (blocks (pc_chunkSize P * pc_branches P ^ h) doc)"
proof -
  have pos: "0 < pc_chunkSize P" "0 < pc_branches P ^ h" using assms by (simp_all add: pyramid_ok_def)
  then have S: "0 < pc_chunkSize P * pc_branches P ^ h" by simp
  show ?thesis
    unfolding length_layer [OF assms, of doc h] length_blocks [OF S] layer.simps length_map length_blocks [OF pos(1)]
    by (rule ceil_ceil [OF pos])
qed

lemma layer_nth:
  assumes "pyramid_ok P" "i < length (layer P doc h)" "layer P (blocks (pc_chunkSize P * pc_branches P ^ h) doc ! i) h = [x]"
  shows "layer P doc h ! i = x"
proof -
  let ?S = "pc_chunkSize P * pc_branches P ^ h"
  have S: "0 < ?S" using assms(1) by (simp add: pyramid_ok_def)
  have "i * ?S < length doc"
    using assms(2) unfolding length_layer_doc [OF assms(1)] by (simp only: length_blocks [OF S] less_ceil [OF S])
  then have b: "blocks ?S doc ! i = take (1 * ?S) (drop (i * ?S) doc)" using nth_blocks [OF S] by simp
  have "[x] = take 1 (drop i (layer P doc h))"
    using assms(3) unfolding b layer_take [OF assms(1)] layer_drop [OF assms(1)] by simp
  then show ?thesis using assms(2) by (simp add: take_Suc hd_drop_conv_nth)
qed

text \<open>The slices of a document that fits are full or are the tail.\<close>

lemma block_fits:
  assumes "0 < S" "i < length (blocks S doc)" "length doc mod S \<noteq> 0 \<Longrightarrow> Q (length doc mod S)" "Q S"
  shows "Q (length (blocks S doc ! i)) \<and> blocks S doc ! i \<noteq> [] \<and> length (blocks S doc ! i) \<le> S"
proof -
  have i: "i * S < length doc" using assms(1,2) by (simp only: length_blocks less_ceil)
  have len: "length (blocks S doc ! i) = min (length doc - i * S) S"
    by (simp add: nth_blocks [OF assms(1) i])
  have "length doc mod S = length doc - i * S" if "length doc - i * S < S"
  proof -
    have "length doc = i * S + (length doc - i * S)" using i by simp
    then show ?thesis using that by (metis mod_less mod_mult_self3)
  qed
  then have "Q (length (blocks S doc ! i))" using len assms(3,4) i by (cases "length doc - i * S < S") auto
  moreover have "0 < length (blocks S doc ! i)" "length (blocks S doc ! i) \<le> S" using len i assms(1) by simp_all
  ultimately show ?thesis by simp
qed

lemma sum_of_nat_lengths: "sum_list (map (\<lambda>b. of_nat (length b)) xss) = (of_nat (length (concat xss)) :: 'a :: semiring_1)"
  by (induction xss) auto

lemma layer_merkle:
  assumes par: "same_params T P" and ok: "pyramid_ok P"
  shows "doc \<noteq> [] \<Longrightarrow> length doc \<le> pc_chunkSize P * pc_branches P ^ d \<Longrightarrow>
     tails_fit (pc_chunkSize P) (pc_branches P) d (length doc) \<Longrightarrow> level T d t \<Longrightarrow>
     \<exists>data. layer P doc d = [(fst (merkle T swg d t doc), of_nat (length doc), data)]"
proof (induction d arbitrary: doc t)
  case 0
  have "layer P doc 0 = [leaf_item (pc_hashFunc P) doc]" using 0 by (simp add: blocks_short)
  moreover have "fst (merkle T swg 0 t doc) = h_Sum (pc_hashFunc P) (LittleEndian_PutUint64 (of_nat (length doc)) @ doc)"
    using level_chunk_key [OF par ok] by (subst merkle.simps) (simp add: split_beta)
  ultimately show ?case by (simp add: leaf_item_def Let_def)
next
  case (Suc d)
  let ?b = "pc_branches P" and ?S = "pc_chunkSize P * pc_branches P ^ d" and ?H = "pc_hashFunc P"
  have pos: "0 < ?b" "0 < ?S" using ok by (simp_all add: pyramid_ok_def)
  have t: "t = ?S" "branches T = ?b" using Suc.prems(4) par by (simp_all add: level_def same_params_def)
  have lv: "level T d (t div ?b)" using level_child [OF Suc.prems(4)] t(2) pos(1) by simp
  let ?bl = "blocks ?S doc" and ?sub = "merkle T swg d (t div ?b)"
  have item: "\<exists>data. layer P doc d ! i = (fst (?sub (?bl ! i)), of_nat (length (?bl ! i)), data)"
    if i: "i < length (layer P doc d)" for i
  proof -
    have "tails_fit (pc_chunkSize P) ?b d (length (?bl ! i)) \<and> ?bl ! i \<noteq> [] \<and> length (?bl ! i) \<le> ?S"
      using Suc.prems(3) tails_fit_full [OF pos(1)] i unfolding length_layer_doc [OF ok]
      by (intro block_fits [OF pos(2)]) auto
    then show ?thesis using Suc.IH [of "?bl ! i"] lv layer_nth [OF ok i] by blast
  qed
  then have fields: "fst (layer P doc d ! i) = fst (?sub (?bl ! i))" "fst (snd (layer P doc d ! i)) = of_nat (length (?bl ! i))"
    if "i < length (layer P doc d)" for i
    using that by (metis fst_conv snd_conv)+
  have keys: "map fst (layer P doc d) = map fst (map ?sub ?bl)"
    by (rule nth_equalityI) (use fields length_layer_doc [OF ok, of doc d] in auto)
  have "map (fst \<circ> snd) (layer P doc d) = map (\<lambda>b. of_nat (length b)) ?bl"
    by (rule nth_equalityI) (use fields length_layer_doc [OF ok, of doc d] in auto)
  then have "sum_list (map (fst \<circ> snd) (layer P doc d)) = of_nat (length (concat ?bl))"
    by (simp only: sum_of_nat_lengths)
  then have sizes: "sum_list (map (fst \<circ> snd) (layer P doc d)) = of_nat (length doc)"
    by (simp add: concat_blocks [OF pos(2)])
  have "layer P doc (Suc d) = [node_item ?H (layer P doc d)]"
  proof -
    have "?bl \<noteq> []" using Suc.prems(1) pos(2) by (subst blocks.simps) simp
    then have "layer P doc d \<noteq> []" using length_layer_doc [OF ok, of doc d] by force
    moreover have "\<not> ?b < length (layer P doc d)"
      using Suc.prems(2) unfolding length_layer_doc [OF ok] length_blocks [OF pos(2)] less_ceil [OF pos(2)]
      by (simp add: ac_simps)
    ultimately show ?thesis by (simp add: blocks_short)
  qed
  moreover have "shrink (branches T) (Suc d) t (int (length doc)) = (Suc d, t)"
    using Suc.prems(3) t by (simp only: tails_fit.simps shrink.simps of_nat_less_iff) simp
  then have "fst (merkle T swg (Suc d) t doc) =
      h_Sum ?H (LittleEndian_PutUint64 (of_nat (length doc)) @ concat (map fst (map ?sub ?bl)))"
    using t level_chunk_key [OF par ok]
    by (subst merkle.simps) (simp add: Let_def split_beta comp_def del: shrink.simps)
  ultimately show ?case by (simp add: node_item_def Let_def sizes keys)
qed

section \<open>Properties\<close>

text \<open>
  C9: where the tree chunker nowhere leaves out a level, the two splitters agree, if the pyramid chunker does not crash. Every run of its pool
  ends after at most the given number of moves. When no move is left, then with a gap on some level it has crashed; without
  one it has returned, and its key is the key of \<open>TreeChunker.Split\<close>.
\<close>

theorem pyramid_matches_tree:
  assumes "same_params T P" "chunker_ok T" "pyramid_ok P" "doc \<noteq> []"
    "length doc \<le> chunkSize T * branches T ^ d" "\<forall>j<d. chunkSize T * branches T ^ j < length doc"
    "chunkSize T * branches T ^ d < 2 ^ 63" "tails_fit (chunkSize T) (branches T) d (length doc)"
    "ceil_log (pyramid_chunks P (length doc)) (pc_branches P) = int d"
    "pyramid_start P ceil_log [(doc, None)] (length doc) = Ret s0"
    "run_events (pyramid_step P swg) es s0 = Some s"
  shows "\<exists>key cs. TreeChunker_Split T swg [(doc, None)] (length doc) = Ret (key, cs)
    \<and> length es \<le> 9 + 4 * pyramid_chunks P (length doc) + 3 * (\<Sum>h \<le> d. length (layer P doc h))
    \<and> ((\<forall>e. pyramid_step P swg e s = None) \<longrightarrow>
        (if \<exists>h \<le> d. pyramid_gap (pc_branches P) (pyramid_chunks P (length doc)) h then py_crashed s
         else \<not> py_crashed s \<and> pyramid_final s \<and> pyramid_key s = Ret key))"
proof -
  have par: "branches T = pc_branches P" "chunkSize T = pc_chunkSize P" using assms(1) by (simp_all add: same_params_def)
  have br: "1 < branches T" "0 < pc_chunkSize P" using assms(3) par by (simp_all add: pyramid_ok_def)
  obtain d' where d': "length doc \<le> chunkSize T * branches T ^ d'" "\<forall>j<d'. chunkSize T * branches T ^ j < length doc"
      "level T d' (chunkSize T * branches T ^ d' div branches T)"
      "TreeChunker_Split T swg [(doc, None)] (length doc) =
         Ret (merkle T swg d' (chunkSize T * branches T ^ d' div branches T) doc)"
    using Split_merkle [OF assms(2) br(1), of "[(doc, None)]" "length doc" d swg] assms(5,7)
    by (auto simp: reader_clean_def)
  have "d' = d" using d'(1,2) assms(5,6) by (metis linorder_neqE_nat not_le)
  have chunks: "pyramid_chunks P (length doc) \<le> pc_branches P ^ d"
  proof (rule ccontr)
    assume "\<not> ?thesis"
    then have "pc_branches P ^ d * pc_chunkSize P < length doc"
      unfolding pyramid_chunks_def not_le less_ceil [OF br(2)] .
    then show False using assms(5) par by (simp add: mult.commute)
  qed
  note run = pyramid_start_complete [OF assms(3,4,9) chunks assms(10,11)]
  have n: "length (layer P doc 0) = pyramid_chunks P (length doc)" using layer_0_length br(2) by simp
  obtain data where "layer P doc d = [(fst (merkle T swg d (chunkSize T * branches T ^ d div branches T) doc), of_nat (length doc), data)]"
    using layer_merkle [OF assms(1,3,4), of d _ swg] assms(5,8) d'(3) \<open>d' = d\<close> par by auto
  then have key: "pyramid_key s = Ret (fst (merkle T swg d (chunkSize T * branches T ^ d div branches T) doc))"
    if "\<not> py_crashed s" "pyramid_final s"
    using split_run_complete(1) [OF run(1) that] by simp
  have "\<not> py_crashed s" if "\<not> (\<exists>h \<le> d. pyramid_gap (pc_branches P) (pyramid_chunks P (length doc)) h)"
    using split_run_state(1) [OF run(1)] assms(3) that n by (auto simp: pool_state_def less_Suc_eq_le)
  moreover have "py_crashed s" if "\<exists>h \<le> d. pyramid_gap (pc_branches P) (pyramid_chunks P (length doc)) h" "\<forall>e. pyramid_step P swg e s = None"
    using split_run_state(4) [OF run(1) that(2)] split_run_complete(3) [OF run(1)] that(1) n by auto
  ultimately have "(\<forall>e. pyramid_step P swg e s = None) \<longrightarrow>
      (if \<exists>h \<le> d. pyramid_gap (pc_branches P) (pyramid_chunks P (length doc)) h then py_crashed s
       else \<not> py_crashed s \<and> pyramid_final s \<and> pyramid_key s = Ret (fst (merkle T swg d (chunkSize T * branches T ^ d div branches T) doc)))"
    using split_run_state(4) [OF run(1)] key by auto
  then show ?thesis
    using d'(4) \<open>d' = d\<close> split_run_state(3) [OF run(1)] run(2)
    by (cases "merkle T swg d (chunkSize T * branches T ^ d div branches T) doc") auto
qed

text \<open>A tree chunker and a pyramid chunker with three branches and chunks of 96 bytes.\<close>

definition tree3 :: TreeChunker where
  "tree3 = \<lparr>branches = 3, hashFunc = wide_hasher, hashSize = 32, chunkSize = 96, workerCount = 1\<rparr>"

definition pyramid3 :: PyramidChunker where
  "pyramid3 = \<lparr>pc_hashFunc = wide_hasher, pc_chunkSize = 96, pc_hashSize = 32, pc_branches = 3, pc_workerCount = 1\<rparr>"

lemma pyramid3_ok: "same_params tree3 pyramid3" "chunker_ok tree3" "pyramid_ok pyramid3"
  by (simp_all add: same_params_def tree3_def pyramid3_def chunker_ok_def hasher_ok_def wide_hasher_def pyramid_ok_def)

definition doc3 :: bytes where
  "doc3 = replicate 289 1"

definition chunks3 :: "Chunk list" where
  "chunks3 = map (chunk_of None) (layer pyramid3 doc3 0 @ layer pyramid3 doc3 1 @ layer pyramid3 doc3 2)"

text \<open>A store that serves a list of chunks, with their sizes read from the data as \<open>LocalStore.Get\<close> does.\<close>

definition fetch_from :: "Chunk list \<Rightarrow> fetch" where
  "fetch_from cs k = (case find (\<lambda>c. ch_Key c = k) cs of
     None \<Rightarrow> (None, 0)
   | Some c \<Rightarrow> (ch_SData c, case data_size (sdata c) of None \<Rightarrow> 0 | Some n \<Rightarrow> n))"

lemma log_2: "toy_log 2 3 = 1" "toy_log 4 3 = 2"
  by code_simp+

lemma pyramid3_run:
  assumes "doc \<noteq> []" "pyramid_chunks pyramid3 (length doc) = n" "toy_log n 3 = int d" "n \<le> 3 ^ d" "\<forall>h \<le> d. \<not> pyramid_gap 3 n h"
  shows "\<exists>s0 es s. pyramid_start pyramid3 toy_log [(doc, None)] (length doc) = Ret s0
    \<and> run_events (pyramid_step pyramid3 None) es s0 = Some s \<and> pyramid_final s \<and> \<not> py_crashed s
    \<and> pyramid_key s = Ret (fst (layer pyramid3 doc d ! 0))
    \<and> mset (py_chunkC s) = (\<Sum>h \<le> d. image_mset (chunk_of None) (mset (layer pyramid3 doc h)))"
proof -
  have br: "pc_branches pyramid3 = 3" "0 < pc_chunkSize pyramid3" by (simp_all add: pyramid3_def)
  obtain s0 where s0: "pyramid_start pyramid3 toy_log [(doc, None)] (length doc) = Ret s0"
    using assms(2,3) br by (simp add: pyramid_start_def)
  obtain es s where es: "split_run pyramid3 None doc d (length (layer pyramid3 doc 0)) s0 es s"
    "\<forall>e. pyramid_step pyramid3 None e s = None"
    using split_run_ends [OF pyramid_start_complete(1) [OF pyramid3_ok(3) assms(1) _ _ s0, of d None "[]" s0]] assms br by auto
  have "\<not> py_crashed s"
    using split_run_state(1) [OF es(1)] assms(2,5) pyramid3_ok(3) br layer_0_length [OF br(2), of doc]
    by (auto simp: pool_state_def less_Suc_eq_le)
  moreover have "pyramid_final s" using split_run_state(4) [OF es] calculation by blast
  ultimately show ?thesis
    using split_run_complete [OF es(1)] s0 es(1) unfolding split_run_def by blast
qed

theorem pyramid_matches_tree_witness:
  "\<exists>s0 es s key cs. pyramid_start pyramid3 toy_log [(replicate 100 1, None)] 100 = Ret s0
    \<and> run_events (pyramid_step pyramid3 None) es s0 = Some s \<and> pyramid_final s
    \<and> TreeChunker_Split tree3 None [(replicate 100 1, None)] 100 = Ret (key, cs) \<and> pyramid_key s = Ret key"
proof -
  let ?doc = "replicate 100 (1 :: byte)"
  have n: "pyramid_chunks pyramid3 100 = 2" "pc_branches pyramid3 = 3" by (simp_all add: pyramid_chunks_def pyramid3_def)
  have "\<forall>h \<le> 1. \<not> pyramid_gap 3 2 h" by (auto simp: pyramid_gap_def le_Suc_eq)
  then have gap: "\<not> (\<exists>h \<le> 1. pyramid_gap 3 2 h)" by blast
  obtain s0 where s0: "pyramid_start pyramid3 toy_log [(?doc, None)] 100 = Ret s0"
    by (simp add: pyramid_start_def pyramid3_def toy_log_def)
  have log: "toy_log (pyramid_chunks pyramid3 (length ?doc)) (pc_branches pyramid3) = int 1" using log_2 n by simp
  have fits: "length ?doc \<le> chunkSize tree3 * branches tree3 ^ 1" "\<forall>j<1. chunkSize tree3 * branches tree3 ^ j < length ?doc"
    "chunkSize tree3 * branches tree3 ^ 1 < 2 ^ 63" "tails_fit (chunkSize tree3) (branches tree3) 1 (length ?doc)"
    by (simp_all add: tree3_def)
  have ne: "?doc \<noteq> []" by simp
  note match = pyramid_matches_tree [of tree3 pyramid3 ?doc 1 toy_log s0 None, OF pyramid3_ok ne fits log]
  have "split_run pyramid3 None ?doc 1 (length (layer pyramid3 ?doc 0)) s0 [] s0"
    by (rule pyramid_start_complete(1) [OF pyramid3_ok(3)]) (use log n s0 in simp_all)
  then obtain es s where es: "split_run pyramid3 None ?doc 1 (length (layer pyramid3 ?doc 0)) s0 es s" "\<forall>e. pyramid_step pyramid3 None e s = None"
    using split_run_ends by blast
  then have run: "run_events (pyramid_step pyramid3 None) es s0 = Some s" by (simp add: split_run_def)
  then obtain key cs where "TreeChunker_Split tree3 None [(?doc, None)] 100 = Ret (key, cs)" "pyramid_final s" "pyramid_key s = Ret key"
    using match [of es s] s0 gap es(2) n by auto
  then show ?thesis using s0 run by blast
qed

text \<open>
  C37: otherwise the document is not read back. With three branches a document of 289 bytes is split
  without a crash, its key is not the key of the tree chunker, and reading the last byte
  through the lazy reader, with every chunk served, returns a byte of a hash and no error.
\<close>

theorem pyramid_reads_back_wrong:
  "\<exists>s0 es s key. pyramid_start pyramid3 toy_log [(doc3, None)] 289 = Ret s0
    \<and> run_events (pyramid_step pyramid3 None) es s0 = Some s \<and> pyramid_final s
    \<and> pyramid_key s = Ret key \<and> mset (py_chunkC s) = mset chunks3
    \<and> (\<forall>cs. TreeChunker_Split tree3 None [(doc3, None)] 289 \<noteq> Ret (key, cs))
    \<and> fst (LazyChunkReader_ReadAt (fetch_from chunks3) (TreeChunker_Join tree3 key) [0] 288) = Ret (1, [0], Some EOF)
    \<and> doc3 ! 288 = 1"
proof -
  have doc: "doc3 \<noteq> []" "length doc3 = 289" by (simp_all add: doc3_def)
  have gap: "\<forall>h \<le> 2. \<not> pyramid_gap 3 4 h" using toy_no_gap by blast
  obtain s0 es s where run: "pyramid_start pyramid3 toy_log [(doc3, None)] 289 = Ret s0"
    "run_events (pyramid_step pyramid3 None) es s0 = Some s" "pyramid_final s"
    "pyramid_key s = Ret (fst (layer pyramid3 doc3 2 ! 0))"
    "mset (py_chunkC s) = (\<Sum>h \<le> 2. image_mset (chunk_of None) (mset (layer pyramid3 doc3 h)))"
    using pyramid3_run [OF doc(1), of 4 2] log_2 gap doc(2) by (auto simp: pyramid_chunks_def pyramid3_def)
  have "mset (py_chunkC s) = mset chunks3"
    unfolding run(5) chunks3_def by (simp add: numeral_2_eq_2 del: layer.simps)
  moreover have "fst (LazyChunkReader_ReadAt (fetch_from chunks3) (TreeChunker_Join tree3 (fst (layer pyramid3 doc3 2 ! 0))) [0] 288)
      = Ret (1, [0], Some EOF)"
    by code_simp
  moreover have "case TreeChunker_Split tree3 None [(doc3, None)] 289 of Ret (k, cs) \<Rightarrow> k \<noteq> fst (layer pyramid3 doc3 2 ! 0) | _ \<Rightarrow> False"
    by code_simp
  moreover have "doc3 ! 288 = 1" by (simp add: doc3_def)
  ultimately show ?thesis using run(1-4) by (fastforce split: go.splits)
qed

end
