(* ===== verification/Http_Gateway.thy ===== *)
theory Http_Gateway
  imports Api
begin

text \<open>
  \<open>api/http/server.go\<close> and \<open>roundtripper.go\<close>: the HTTP gateway. A request is dispatched on the
  protocol in front of its path (\<open>bzz:\<close>, \<open>bzzi:\<close> or \<open>bzzr:\<close>) and its method to the operations of the API.

  \<open>handler\<close> returns the calls the code makes on the response writer, in order, with the chunks handed
  to the store. \<open>respond\<close> is what \<open>net/http\<close> makes of these calls for a request without a range and
  without conditions: the first call that writes decides the status; \<open>rp_Location\<close> is the address given to \<open>http.Redirect\<close>,
  which is relative to the one of the request. \<open>http.ServeContent\<close> copies the whole document.
\<close>

section \<open>The patterns\<close>

definition is_slash :: "char \<Rightarrow> bool" where
  "is_slash c \<longleftrightarrow> c = CHR ''/''"

text \<open>
  \<open>^/+bzz[ir]?:/+\<close> and \<open>^/+bzz[i]?:/+\<close>: the text matched at the start of a path. \<open>marks\<close> are the
  letters that may follow \<open>bzz\<close>.
\<close>

definition after_mark :: "char list \<Rightarrow> string \<Rightarrow> string" where
  "after_mark marks s = (case s of [] \<Rightarrow> [] | c # cs \<Rightarrow> if c \<in> set marks then cs else s)"

definition match_proto :: "char list \<Rightarrow> string \<Rightarrow> string option" where
  "match_proto marks uri =
     (let r = dropWhile is_slash uri in
      if uri = r \<or> take 3 r \<noteq> ''bzz'' then None
      else case after_mark marks (drop 3 r) of
        [] \<Rightarrow> None
      | c # r' \<Rightarrow>
          if c = CHR '':'' \<and> takeWhile is_slash r' \<noteq> []
          then Some (take (length uri - length (dropWhile is_slash r')) uri) else None)"

definition bzzPrefix :: "string \<Rightarrow> string option" where
  "bzzPrefix = match_proto [CHR ''i'', CHR ''r'']"

definition rootDocumentUri :: "string \<Rightarrow> bool" where
  "rootDocumentUri uri =
     (case match_proto [CHR ''i''] uri of
        None \<Rightarrow> False
      | Some p \<Rightarrow> let r = drop (length p) uri in r \<noteq> [] \<and> \<not> list_ex is_slash r)"

definition trailingSlashes :: "string \<Rightarrow> string" where
  "trailingSlashes path = rev (dropWhile is_slash (rev path))"

section \<open>Requests and responses\<close>

record http_request =
  rq_Method :: string
  rq_Path :: string
  rq_Content_Length :: string
  rq_ContentLength :: int
  rq_Content_Type :: string
  rq_query_content_type :: string
  rq_Body :: reader

datatype http_text = Msg string | ErrorText api_error
datatype content = Text string | Doc LazyChunkReader

datatype http_action =
    SetContentType string
  | WriteHeader int
  | HttpError http_text int
  | ServeContent content
  | Redirect string int

definition rawType :: string where
  "rawType = ''application/octet-stream''"

text \<open>\<open>io.LimitReader\<close>: at most \<open>n\<close> bytes of a reader, then \<open>EOF\<close>.\<close>

fun limit_reader :: "nat \<Rightarrow> reader \<Rightarrow> reader" where
  "limit_reader n [] = []"
| "limit_reader n ((b, e) # rs) =
     (if n = 0 then [] else if n < length b then [(take n b, None)]
      else (b, e) # limit_reader (n - length b) rs)"

section \<open>The handler\<close>

type_synonym handled = "http_action list \<times> Chunk list"

text \<open>
  \<open>POST\<close> and \<open>PUT\<close>: the body is stored before the request is looked at further. A negative length panics
  in the chunker.
\<close>

definition serve_store :: "nat \<Rightarrow> man_env \<Rightarrow> resolver option \<Rightarrow> http_request \<Rightarrow> bool \<Rightarrow> bool \<Rightarrow> string \<Rightarrow> handled mrun" where
  "serve_store n E dns r raw nameresolver path0 =
     (if rq_Content_Length r = '''' then
        Ret ([HttpError (Msg ''Missing Content-Length header in request.'') 400], [])
      else if rq_ContentLength r < 0 then Panic
      else go_bind (Api_Store E None (limit_reader (nat (rq_ContentLength r)) (rq_Body r)) (nat (rq_ContentLength r)))
        (\<lambda>res. case res of
           Inl err \<Rightarrow> Ret ([HttpError (ErrorText err) 400], [])
         | Inr (key, cs) \<Rightarrow>
             if rq_Method r = ''POST'' then
               (if raw then Ret ([SetContentType ''text/plain'', ServeContent (Text (hex_encode key))], cs)
                else Ret ([HttpError (Msg (''No POST to '' @ rq_Path r @ '' allowed.'')) 400], cs))
             else if raw then Ret ([HttpError (Msg ''No PUT to /raw allowed.'') 400], cs)
             else
               let path = RegularSlashes path0 in
               go_bind (Api_Modify n E dns path (hex_encode key) (rq_Content_Type r) nameresolver)
                 (\<lambda>res'. case res' of
                    Inr (newKey, cs') \<Rightarrow>
                      Ret ([SetContentType ''text/plain'', ServeContent (Text newKey)], cs @ cs')
                  | Inl _ \<Rightarrow> Ret ([HttpError (Msg (''PUT to '' @ path @ ''failed.'')) 400], cs))))"

definition serve_delete :: "nat \<Rightarrow> man_env \<Rightarrow> resolver option \<Rightarrow> bool \<Rightarrow> bool \<Rightarrow> string \<Rightarrow> handled mrun" where
  "serve_delete n E dns raw nameresolver path0 =
     (if raw then Ret ([HttpError (Msg ''No DELETE to /raw allowed.'') 400], [])
      else
        let path = RegularSlashes path0 in
        go_bind (Api_Modify n E dns path '''' '''' nameresolver)
          (\<lambda>res. case res of
             Inr (newKey, cs) \<Rightarrow> Ret ([SetContentType ''text/plain'', ServeContent (Text newKey)], cs)
           | Inl _ \<Rightarrow> Ret ([HttpError (Msg (''DELETE to '' @ path @ ''failed.'')) 400], [])))"

definition serve_get_raw :: "man_env \<Rightarrow> resolver option \<Rightarrow> http_request \<Rightarrow> bool \<Rightarrow> string \<Rightarrow> handled mrun" where
  "serve_get_raw E dns r nameresolver path =
     (case Api_Resolve dns path nameresolver of
        (_, Some err) \<Rightarrow> Ret ([HttpError (ErrorText err) 400], [])
      | (key, None) \<Rightarrow>
          (case LazyChunkReader_Size (me_fetch E) (Api_Retrieve E key) of
             (Panic, _) \<Rightarrow> Panic
           | (Err e, _) \<Rightarrow> Ret ([HttpError (ErrorText (EReader e)) 404], [])
           | (Ret sz, reader) \<Rightarrow>
               let mimeType = (if rq_query_content_type r = '''' then rawType else rq_query_content_type r)
               in Ret ([SetContentType mimeType, ServeContent (Doc reader)], [])))"

text \<open>
  \<open>err.(api.ErrResolve)\<close>: \<open>ErrResolve\<close> is an interface with the methods of \<open>error\<close>, so the assertion
  holds for every error.
\<close>

definition is_ErrResolve :: "api_error \<Rightarrow> bool" where
  "is_ErrResolve err \<longleftrightarrow> True"

definition serve_get :: "nat \<Rightarrow> man_env \<Rightarrow> resolver option \<Rightarrow> http_request \<Rightarrow> bool \<Rightarrow> string \<Rightarrow> handled mrun" where
  "serve_get n E dns r nameresolver path =
     (if rootDocumentUri (rq_Path r) then Ret ([Redirect (path @ ''/'') 302], [])
      else go_bind (Api_Get n E dns path nameresolver)
        (\<lambda>res. case res of
           Inl err \<Rightarrow> Ret ([HttpError (ErrorText err) (if is_ErrResolve err then 400 else 404)], [])
         | Inr (reader, mimeType, status) \<Rightarrow>
             let pre = SetContentType mimeType # (if status > 0 then [WriteHeader status] else []) in
             (case LazyChunkReader_Size (me_fetch E) reader of
                (Panic, _) \<Rightarrow> Panic
              | (Err e, _) \<Rightarrow> Ret (pre @ [HttpError (ErrorText (EReader e)) 404], [])
              | (Ret sz, reader') \<Rightarrow> Ret (pre @ [ServeContent (Doc reader')], []))))"

text \<open>
  \<open>log_errors\<close> is \<open>glog.V(logger.Error)\<close>: the refusal of a path without protocol stands inside that test.
  \<open>proto[1:5]\<close> are the four characters after the first one.
\<close>

definition handler :: "nat \<Rightarrow> man_env \<Rightarrow> resolver option \<Rightarrow> bool \<Rightarrow> http_request \<Rightarrow> handled mrun" where
  "handler n E dns log_errors r =
     (let uri = rq_Path r;
          proto = (case bzzPrefix uri of None \<Rightarrow> '''' | Some p \<Rightarrow> p);
          path = drop (length proto) uri in
      if proto = '''' \<and> log_errors then
        Ret ([HttpError (Msg ''Invalid request URL: need access protocol (bzz:/, bzzr:/, bzzi:/) as first element in path.'') 400], [])
      else
        let raw = (length proto > 4 \<and> take 4 (drop 1 proto) = ''bzzr'');
            nameresolver = (length proto > 4 \<and> take 4 (drop 1 proto) \<noteq> ''bzzi'') in
        if rq_Method r = ''POST'' \<or> rq_Method r = ''PUT'' then serve_store n E dns r raw nameresolver path
        else if rq_Method r = ''DELETE'' then serve_delete n E dns raw nameresolver path
        else if rq_Method r = ''GET'' \<or> rq_Method r = ''HEAD'' then
          (let path' = trailingSlashes path in
           if raw then serve_get_raw E dns r nameresolver path' else serve_get n E dns r nameresolver path')
        else Ret ([HttpError (Msg (''Method '' @ rq_Method r @ '' is not supported.'')) 405], []))"

section \<open>The response\<close>

datatype http_body = NoBody | Message http_text | Bytes bytes | Broken join_error | Crashed

record http_response =
  rp_Status :: int
  rp_ContentType :: string
  rp_Location :: string
  rp_Body :: http_body

definition content_bytes :: "fetch \<Rightarrow> content \<Rightarrow> http_body" where
  "content_bytes fetch c =
     (case c of
        Text s \<Rightarrow> Bytes (bytes_of s)
      | Doc reader \<Rightarrow>
          (case read_document fetch reader of Panic \<Rightarrow> Crashed | Err e \<Rightarrow> Broken e | Ret body \<Rightarrow> Bytes body))"

fun respond_from :: "fetch \<Rightarrow> bool \<Rightarrow> int option \<Rightarrow> string \<Rightarrow> http_action list \<Rightarrow> http_response" where
  "respond_from f head st ct [] =
     \<lparr>rp_Status = (case st of None \<Rightarrow> 200 | Some c \<Rightarrow> c), rp_ContentType = ct, rp_Location = '''', rp_Body = NoBody\<rparr>"
| "respond_from f head st ct (SetContentType v # as) = respond_from f head st (if st = None then v else ct) as"
| "respond_from f head st ct (WriteHeader c # as) = respond_from f head (if st = None then Some c else st) ct as"
| "respond_from f head st ct (HttpError msg c # as) =
     (case st of
        None \<Rightarrow> \<lparr>rp_Status = c, rp_ContentType = ''text/plain; charset=utf-8'', rp_Location = '''', rp_Body = Message msg\<rparr>
      | Some c' \<Rightarrow> \<lparr>rp_Status = c', rp_ContentType = ct, rp_Location = '''', rp_Body = Message msg\<rparr>)"
| "respond_from f head st ct (ServeContent c # as) =
     \<lparr>rp_Status = (case st of None \<Rightarrow> 200 | Some c \<Rightarrow> c), rp_ContentType = ct, rp_Location = '''',
      rp_Body = (if head then NoBody else content_bytes f c)\<rparr>"
| "respond_from f head st ct (Redirect loc c # as) =
     \<lparr>rp_Status = c, rp_ContentType = ct, rp_Location = loc, rp_Body = NoBody\<rparr>"

definition respond :: "man_env \<Rightarrow> http_request \<Rightarrow> http_action list \<Rightarrow> http_response" where
  "respond E r as = respond_from (me_fetch E) (rq_Method r = ''HEAD'') None '''' as"

section \<open>The proxy\<close>

record RoundTripper =
  rt_Host :: string
  rt_Port :: string

text \<open>The address \<open>RoundTrip\<close> asks for; \<open>req.Proto\<close> is the HTTP version of the request.\<close>

definition RoundTrip_url :: "RoundTripper \<Rightarrow> string \<Rightarrow> string \<Rightarrow> string \<Rightarrow> string" where
  "RoundTrip_url rt proto url_host url_path =
     (let host = (if length (rt_Host rt) = 0 then ''localhost'' else rt_Host rt) in
      ''http://'' @ host @ '':'' @ rt_Port rt @ ''/'' @ proto @ '':/'' @ url_host @ ''/'' @ url_path)"

end
