(* ===== verification/Http_Props.thy ===== *)
theory Http_Props
  imports Http_Gateway Api_Props
begin

text \<open>
  Properties of the HTTP gateway: what is posted or put is served again, what refused requests leave
  behind, and how errors are reported.
\<close>

section \<open>Protocols\<close>

lemma is_slash_iff [simp]: "is_slash c \<longleftrightarrow> c = CHR ''/''"
  by (simp add: is_slash_def)

definition no_slash :: "string \<Rightarrow> bool" where
  "no_slash s \<longleftrightarrow> s = [] \<or> hd s \<noteq> CHR ''/''"

lemma dropWhile_no_slash: "no_slash s \<Longrightarrow> dropWhile is_slash s = s" "no_slash s \<Longrightarrow> takeWhile is_slash s = []"
  by (cases s; simp add: no_slash_def)+

lemma bzzPrefix_raw: "no_slash s \<Longrightarrow> bzzPrefix (''/bzzr:/'' @ s) = Some ''/bzzr:/''"
  by (simp add: bzzPrefix_def match_proto_def after_mark_def dropWhile_no_slash Let_def)

lemma bzzPrefix_bzz: "no_slash s \<Longrightarrow> bzzPrefix (''/bzz:/'' @ s) = Some ''/bzz:/''"
  by (simp add: bzzPrefix_def match_proto_def after_mark_def dropWhile_no_slash Let_def)

lemma rootDocumentUri_bzz: "no_slash s \<Longrightarrow> rootDocumentUri (''/bzz:/'' @ s) \<longleftrightarrow> s \<noteq> [] \<and> CHR ''/'' \<notin> set s"
  by (simp add: rootDocumentUri_def match_proto_def after_mark_def dropWhile_no_slash Let_def list_ex_iff)

lemma trailingSlashes_same: "s = [] \<or> last s \<noteq> CHR ''/'' \<Longrightarrow> trailingSlashes s = s"
  by (cases s rule: rev_cases) (simp_all add: trailingSlashes_def)

lemma no_slash_I: "CHR ''/'' \<notin> set s \<Longrightarrow> no_slash (s @ t) \<or> s = []" "CHR ''/'' \<notin> set s \<Longrightarrow> no_slash s"
  by (cases s; auto simp: no_slash_def)+

section \<open>Bodies\<close>

lemma limit_reader_clean: "reader_clean rs \<Longrightarrow> reader_clean (limit_reader n rs)"
proof (induction n rs rule: limit_reader.induct)
  case (2 n b e rs)
  show ?case
  proof (cases "n = 0 \<or> n < length b")
    case True
    then show ?thesis by (auto simp: reader_clean_def)
  next
    case False
    have "reader_clean rs" using "2.prems" by (simp add: reader_clean_Cons)
    then show ?thesis
      using 2 False by (cases rs) (auto simp: reader_clean_Cons split: if_splits)
  qed
qed simp

lemma limit_reader_content: "reader_content (limit_reader n rs) = take n (reader_content rs)"
  by (induction n rs rule: limit_reader.induct) auto

lemma Doc_bytes:
  assumes T: "chunker_ok T" "1 < branches T" and r: "reader_clean r" "body = reader_content r" "body \<noteq> []"
    and sz: "length body \<le> chunkSize T * branches T ^ m" "chunkSize T * branches T ^ m < 2 ^ 63"
    and st: "TreeChunker_Split T swg r (length body) = Ret (key, cs)" "serves f cs"
  shows "\<exists>R. LazyChunkReader_Size f (TreeChunker_Join T key) = (Ret (int (length body)), R)
     \<and> content_bytes f (Doc R) = Bytes body" "length key = hashSize T" "read_document f (TreeChunker_Join T key) = Ret body"
proof -
  note hyps = T r(1) arg_cong [OF r(2), of length] sz st
  show "length key = hashSize T" by (rule Size_served(1) [OF hyps])
  let ?R = "TreeChunker_Join T key" and ?b = "replicate (length body) (0 :: byte)"
  obtain c where c: "ch_Size c = int (length body)"
    "LazyChunkReader_Size f ?R = (Ret (int (length body)), ?R\<lparr>lr_chunk := Some c\<rparr>)"
    using Size_served(2) [OF hyps] by blast
  have s: "LazyChunkReader_Size f (?R\<lparr>lr_chunk := Some c\<rparr>) = (Ret (int (length body)), ?R\<lparr>lr_chunk := Some c\<rparr>)"
    using c(1) by (simp add: LazyChunkReader_Size_def)
  have "fst (LazyChunkReader_ReadAt f (?R\<lparr>lr_chunk := Some c\<rparr>) ?b 0) = Ret (length body, body, Some EOF)"
    using ReadAt_slice [OF hyps, of ?b 0] r ReadAt_after_Size [OF c(2,1)] by simp
  then have rd: "read_document f (?R\<lparr>lr_chunk := Some c\<rparr>) = Ret body" "read_document f ?R = Ret body"
    using s c(2) by (cases "LazyChunkReader_ReadAt f (?R\<lparr>lr_chunk := Some c\<rparr>) ?b 0", simp add: read_document_def)+
  show "read_document f ?R = Ret body" by (rule rd(2))
  have "content_bytes f (Doc (?R\<lparr>lr_chunk := Some c\<rparr>)) = Bytes body" using rd(1) by (simp add: content_bytes_def)
  then show "\<exists>R. LazyChunkReader_Size f ?R = (Ret (int (length body)), R) \<and> content_bytes f (Doc R) = Bytes body"
    using c(2) by blast
qed

section \<open>Round trips\<close>

text \<open>A request that carries a body: the header is there, the reader delivers exactly the announced bytes.\<close>

definition carries :: "http_request \<Rightarrow> bytes \<Rightarrow> bool" where
  "carries r body \<longleftrightarrow> rq_Content_Length r \<noteq> '''' \<and> rq_ContentLength r = int (length body) \<and> body \<noteq> []
     \<and> reader_clean (rq_Body r) \<and> reader_content (rq_Body r) = body"

definition splitter_ok :: "TreeChunker \<Rightarrow> bytes \<Rightarrow> bool" where
  "splitter_ok T body \<longleftrightarrow> chunker_ok T \<and> 1 < branches T \<and> hashSize T = 32
     \<and> (\<exists>m. length body \<le> chunkSize T * branches T ^ m \<and> chunkSize T * branches T ^ m < 2 ^ 63)"

text \<open>What the store makes of a document: a key of 32 bytes, and chunks from which it can be read.\<close>

definition reads_back :: "man_env \<Rightarrow> Key \<Rightarrow> Chunk list \<Rightarrow> bytes \<Rightarrow> bool" where
  "reads_back E key cs body \<longleftrightarrow> (\<forall>E'. me_chunker E' = me_chunker E \<longrightarrow> serves (me_fetch E') cs \<longrightarrow>
     read_document (me_fetch E') (DPA_Retrieve E' key) = Ret body
     \<and> (\<exists>R. LazyChunkReader_Size (me_fetch E') (DPA_Retrieve E' key) = (Ret (int (length body)), R)
          \<and> content_bytes (me_fetch E') (Doc R) = Bytes body))"

lemma stored_reader:
  assumes "reader_clean rd" "reader_content rd = body" "splitter_ok (me_chunker E) body"
  shows "\<exists>key cs. Api_Store E wg rd (length body) = Ret (Inr (key, cs)) \<and> length key = 32
     \<and> (body \<noteq> [] \<longrightarrow> reads_back E key cs body)"
proof -
  let ?T = "me_chunker E"
  obtain m where m: "length body \<le> chunkSize ?T * branches ?T ^ m" "chunkSize ?T * branches ?T ^ m < 2 ^ 63"
    and T: "chunker_ok ?T" "1 < branches ?T" "hashSize ?T = 32" using assms(3) by (auto simp: splitter_ok_def)
  note len = arg_cong [OF assms(2) [symmetric], of length]
  obtain key cs where st: "TreeChunker_Split ?T wg rd (length body) = Ret (key, cs)"
    using Split_merkle [OF T(1,2) assms(1) len m, of wg] by (metis surj_pair)
  then have "Api_Store E wg rd (length body) = Ret (Inr (key, cs))" by (simp add: Api_Store_def DPA_Store_def)
  moreover have "reads_back E key cs body" if "body \<noteq> []"
    using Doc_bytes(1,3) [OF T(1,2) assms(1) assms(2) [symmetric] that m st] by (auto simp: reads_back_def DPA_Retrieve_def)
  moreover have "length key = 32"
  proof -
    obtain d t where "merkle ?T wg d t (reader_content rd) = (key, cs)"
      using Split_merkle [OF T(1,2) assms(1) len m, of wg] st by auto
    then show ?thesis using merkle_key(2) [OF T(1), of wg d t "reader_content rd"] T(3) by simp
  qed
  ultimately show ?thesis by blast
qed

lemma stored_body:
  assumes "carries r body" "splitter_ok (me_chunker E) body"
  shows "\<exists>key cs. Api_Store E None (limit_reader (nat (rq_ContentLength r)) (rq_Body r)) (nat (rq_ContentLength r)) = Ret (Inr (key, cs))
     \<and> length key = 32 \<and> reads_back E key cs body"
  using stored_reader [of "limit_reader (length body) (rq_Body r)" body E None] assms
    limit_reader_clean limit_reader_content by (auto simp: carries_def)

lemma hex_key:
  assumes "length k = 32"
  shows "Key_String k = hex_encode k" "Hex2Bytes (hex_encode k) = k" "hashMatcher (hex_encode k)"
    "CHR ''/'' \<notin> set (hex_encode k)" "hex_encode k \<noteq> []"
  using hashMatcher_key [OF assms] Key_String_32 [OF assms] assms by (simp_all add: Key_String_def)

text \<open>
  C16: what is posted to \<open>/bzzr:/\<close> is served under the address in the reply. The reply to a \<open>POST\<close> of a body
  is its key in hexadecimal; where the chunks it stored are served, a \<open>GET\<close> of \<open>/bzzr:/\<close> followed by that key is
  answered with status 200 and the body, under the content type of the query or the default one.
\<close>

theorem http_post_then_get:
  assumes "rq_Method r = ''POST''" "rq_Path r = ''/bzzr:/''" "carries r body" "splitter_ok (me_chunker E) body"
    and "rq_Method g = ''GET''" "me_chunker E' = me_chunker E"
  shows "\<exists>as cs addr. handler n E dns l r = Ret (as, cs)
    \<and> respond E r as = \<lparr>rp_Status = 200, rp_ContentType = ''text/plain'', rp_Location = '''', rp_Body = Bytes (bytes_of addr)\<rparr>
    \<and> (rq_Path g = ''/bzzr:/'' @ addr \<longrightarrow> serves (me_fetch E') cs \<longrightarrow>
        (\<exists>as'. handler n' E' dns' l' g = Ret (as', []) \<and> respond E' g as' =
          \<lparr>rp_Status = 200, rp_ContentType = (if rq_query_content_type g = '''' then rawType else rq_query_content_type g),
           rp_Location = '''', rp_Body = Bytes body\<rparr>))"
proof -
  obtain key cs where st: "Api_Store E None (limit_reader (nat (rq_ContentLength r)) (rq_Body r)) (nat (rq_ContentLength r)) = Ret (Inr (key, cs))"
    and k: "length key = 32" and served: "reads_back E key cs body"
    using stored_body [OF assms(3,4)] by blast
  note hx = hex_key [OF k]
  have p: "bzzPrefix ''/bzzr:/'' = Some ''/bzzr:/''" using bzzPrefix_raw [of "[]"] by (simp add: no_slash_def)
  have post: "handler n E dns l r = Ret ([SetContentType ''text/plain'', ServeContent (Text (hex_encode key))], cs)"
    using assms(1-3) st p by (simp add: handler_def Let_def serve_store_def carries_def)
  have "last (hex_encode key) \<noteq> CHR ''/''" using hx(4,5) last_in_set by metis
  then have t: "trailingSlashes (hex_encode key) = hex_encode key" by (simp add: trailingSlashes_same)
  have get: "\<exists>as'. handler n' E' dns' l' g = Ret (as', []) \<and> respond E' g as' =
          \<lparr>rp_Status = 200, rp_ContentType = (if rq_query_content_type g = '''' then rawType else rq_query_content_type g),
           rp_Location = '''', rp_Body = Bytes body\<rparr>"
    if g: "rq_Path g = ''/bzzr:/'' @ hex_encode key" "serves (me_fetch E') cs"
  proof -
    obtain R where R: "LazyChunkReader_Size (me_fetch E') (DPA_Retrieve E' key) = (Ret (int (length body)), R)"
      "content_bytes (me_fetch E') (Doc R) = Bytes body" using served assms(6) g(2) by (auto simp: reads_back_def)
    have pg: "bzzPrefix (rq_Path g) = Some ''/bzzr:/''" using bzzPrefix_raw no_slash_I(2) [OF hx(4)] g(1) by simp
    show ?thesis
      using assms(5) g(1) pg t R hx(2,3)
      by (simp add: handler_def Let_def serve_get_raw_def Api_Resolve_def Api_Retrieve_def respond_def)
  qed
  show ?thesis
    by (rule exI [of _ "[SetContentType ''text/plain'', ServeContent (Text (hex_encode key))]"], rule exI [of _ cs], rule exI [of _ "hex_encode key"])
      (use post get assms(1) in \<open>simp add: respond_def content_bytes_def\<close>)
qed

lemma ascii_hex: "ascii (hex_encode k)"
proof -
  have "of_char c < (128 :: nat)" if "from_hex_digit c \<noteq> None" for c
    using that by (auto simp: from_hex_digit_def Let_def split: if_splits)
  then show ?thesis using hex_encode_digits [of k] by (auto simp: ascii_def list_all_iff)
qed

lemma regular_join:
  assumes "CHR ''/'' \<notin> set host" "host \<noteq> []" "regular path" "path \<noteq> []"
  shows "regular (host @ ''/'' @ path)" "last path \<noteq> CHR ''/''"
proof -
  let ?P = "\<lambda>x y. \<not> (x = CHR ''/'' \<and> y = CHR ''/'')"
  have "successively ?P host" using assms(1) by (induction host rule: induct_list012) auto
  moreover have "hd host \<noteq> CHR ''/''" using assms(1,2) by (cases host) auto
  moreover have "last host \<noteq> CHR ''/''" using assms(1,2) last_in_set by metis
  moreover have p: "successively ?P (CHR ''/'' # path)" "last path \<noteq> CHR ''/''" using assms(3,4) by (auto simp: regular_def)
  ultimately have "successively ?P (CHR ''/'' # host @ CHR ''/'' # path)"
    using assms(2) by (simp only: successively_Cons successively_append_iff append_is_Nil_conv hd_append2 list.sel) simp
  then show "regular (host @ ''/'' @ path)" using p(2) assms(4) by (simp add: regular_def)
  show "last path \<noteq> CHR ''/''" by (rule p(2))
qed

text \<open>A \<open>GET\<close> of a path that the manifest knows.\<close>

lemma http_get_known:
  assumes k: "length k = 32" "loadManifest n E' k = Ret (Inr t)" "opens (loadManifest n E') t path"
      "look (loadManifest n E') t path = Some (hex_encode key, ct, 0)"
    and path: "regular path" "path \<noteq> []"
    and doc: "length key = 32" "reads_back E key cs body" "me_chunker E' = me_chunker E" "serves (me_fetch E') cs"
    and g: "rq_Method g = ''GET''" "rq_Path g = ''/bzz:/'' @ Key_String k @ ''/'' @ path"
  shows "\<exists>as. handler n E' dns l g = Ret (as, []) \<and> respond E' g as =
     \<lparr>rp_Status = 200, rp_ContentType = ct, rp_Location = '''', rp_Body = Bytes body\<rparr>"
proof -
  note hk = hashMatcher_key(2,3) [OF k(1)]
  have get: "Api_Get n E' dns (Key_String k @ ''/'' @ path) True = Ret (Inr (DPA_Retrieve E' key, ct, 0))"
    using Get_known [OF k(1-3) path(1) k(4)] hex_key(2) [OF doc(1)] by simp
  obtain R where R: "LazyChunkReader_Size (me_fetch E') (DPA_Retrieve E' key) = (Ret (int (length body)), R)"
    "content_bytes (me_fetch E') (Doc R) = Bytes body" using doc(2-4) by (auto simp: reads_back_def)
  have uri: "no_slash (Key_String k @ ''/'' @ path)" using hk by (cases "Key_String k") (auto simp: no_slash_def)
  have tr: "trailingSlashes (Key_String k @ ''/'' @ path) = Key_String k @ ''/'' @ path"
    using regular_join(2) [OF hk path] path(2) by (intro trailingSlashes_same) simp
  show ?thesis
    using g bzzPrefix_bzz [OF uri] rootDocumentUri_bzz [OF uri] tr get R
    by (simp add: handler_def Let_def serve_get_def respond_def)
qed

text \<open>
  C12: what is put under a path is served under that path of the new manifest. A \<open>PUT\<close> to a path of a
  manifest that succeeds replies with a new root; where the chunks it stored are served, a \<open>GET\<close>
  of the path under the new root is answered with status 200, the content type of the \<open>PUT\<close> and its body.
\<close>

theorem http_put_then_get:
  assumes later: "later E E' mm n" "package_manifests E"
    and r: "rq_Method r = ''PUT''" "rq_Path r = ''/bzz:/'' @ Key_String root @ ''/'' @ path" "length root = 32"
      "carries r body" "splitter_ok (me_chunker E) body"
    and plain: "regular path" "path \<noteq> []" "ascii path" "ascii (rq_Content_Type r)" "rq_Content_Type r \<noteq> manifestType"
    and load: "loadManifest n E root = Ret (Inr t)" "opens (loadManifest n E) t path"
    and put: "handler n E dns l r = Ret ([SetContentType ''text/plain'', ServeContent (Text root')], cs)"
      "serves (me_fetch E') cs"
    and g: "rq_Method g = ''GET''" "rq_Path g = ''/bzz:/'' @ root' @ ''/'' @ path"
  shows "\<exists>as. handler (Suc n) E' dns' l' g = Ret (as, []) \<and> respond E' g as =
     \<lparr>rp_Status = 200, rp_ContentType = rq_Content_Type r, rp_Location = '''', rp_Body = Bytes body\<rparr>"
proof -
  let ?uri = "Key_String root @ ''/'' @ path"
  obtain key cs1 where st: "Api_Store E None (limit_reader (nat (rq_ContentLength r)) (rq_Body r)) (nat (rq_ContentLength r)) = Ret (Inr (key, cs1))"
    and k: "length key = 32" and served: "reads_back E key cs1 body"
    using stored_body [OF r(4,5)] by blast
  note hx = hex_key [OF k] and rk = hashMatcher_key [OF r(3)]
  have uri: "no_slash ?uri" using rk(2,3) by (cases "Key_String root") (auto simp: no_slash_def)
  have same: "RegularSlashes ?uri = ?uri" by (rule RegularSlashes_same [OF regular_join(1) [OF rk(2,3) plain(1,2)]])
  note run = put(1) r(1,2,4) st bzzPrefix_bzz [OF uri] same
  have "\<exists>cs2. Api_Modify n E dns ?uri (hex_encode key) (rq_Content_Type r) True = Ret (Inr (root', cs2)) \<and> cs = cs1 @ cs2"
  proof (cases "Api_Modify n E dns ?uri (hex_encode key) (rq_Content_Type r) True")
    case (Ret res)
    then show ?thesis
      using run by (cases res) (auto simp: handler_def Let_def serve_store_def carries_def)
  qed (use run in \<open>simp_all add: handler_def Let_def serve_store_def carries_def\<close>)
  then obtain cs2 where md: "Api_Modify n E dns ?uri (hex_encode key) (rq_Content_Type r) True = Ret (Inr (root', cs2))" "cs = cs1 @ cs2"
    by blast
  have parse: "parse ?uri = Ret (Key_String root, path)" using parse_root [OF rk(2,3) plain(1)] by simp
  have res: "Api_Resolve dns (Key_String root) True = (root, None)"
    using rk(1) Key_String_32 [OF r(3)] by (simp add: Api_Resolve_def)
  have sv: "serves (me_fetch E') cs1" "serves (me_fetch E') cs2" using put(2) md(2) by simp_all
  note hyps = later parse res plain(3) ascii_hex plain(4) hx(5) plain(5) load md(1) sv(2)
  obtain k' t1 t3 where k': "root' = Key_String k'" "length k' = 32" "loadManifest (Suc n) E' k' = Ret (Inr t3)"
    "sets (loadManifest n E) path (Some (hex_encode key, rq_Content_Type r, 0)) t t1"
    "same_map (loadManifest n E) (loadManifest (Suc n) E') t1 t3"
    using Modify_reloads [OF hyps] by blast
  have "opens (loadManifest n E) t1 path" using sets_opens [OF k'(4) load(2)] .
  then have t3: "opens (loadManifest (Suc n) E') t3 path"
    "look (loadManifest (Suc n) E') t3 path = Some (hex_encode key, rq_Content_Type r, 0)"
    using k'(5) setsD [OF k'(4), of path] by (simp_all add: same_map_def)
  have ch: "me_chunker E' = me_chunker E" using later(1) by (simp add: later_def Let_def)
  show ?thesis using http_get_known [OF k'(2,3) t3 plain(1,2) k served ch sv(1) g(1)] g(2) k'(1) by simp
qed

section \<open>A posted and a put body\<close>

definition demo_request :: "string \<Rightarrow> string \<Rightarrow> http_request" where
  "demo_request m p = \<lparr>rq_Method = m, rq_Path = p, rq_Content_Length = ''1'', rq_ContentLength = 1,
     rq_Content_Type = ''text/html'', rq_query_content_type = '''', rq_Body = [([9], None)]\<rparr>"

definition demo_stored :: "Chunk list" where
  "demo_stored = snd (stored_text [9]) @ snd (stored_text [4])"

definition put_env :: man_env where
  "put_env = codec_env (fetch_of (snd (stored_text [1]) @ demo_stored))"

lemma demo_carries: "carries (demo_request m p) [9]"
  by (simp add: carries_def demo_request_def reader_clean_def)

lemma demo_splitter: "splitter_ok (me_chunker (codec_env f)) [9]"
  using demo_chunker_ok by (auto simp: splitter_ok_def codec_env_def demo_chunker_def intro: exI [of _ 0])

lemma put_load: "loadManifest 2 put_env (fst (stored_text [1])) = Ret (Inr demo_trie)"
  by code_simp

lemma put_later: "later before_env put_env 0 1"
  using before_later_at [of demo_stored] put_load by (simp add: put_env_def)

lemma put_serves: "serves (me_fetch put_env) demo_stored"
  by code_simp

lemma bytes_of_inj: "inj bytes_of"
proof -
  have "inj (\<lambda>c :: char. of_nat (of_char c) :: byte)"
  proof (rule injI)
    fix c d :: char
    assume "(of_nat (of_char c) :: byte) = of_nat (of_char d)"
    then have "unat (of_nat (of_char c) :: byte) = unat (of_nat (of_char d) :: byte)" by simp
    then have "(of_char c :: nat) mod 256 = of_char d mod 256" by (simp add: unsigned_of_nat take_bit_eq_mod)
    then show "c = d" by simp
  qed
  then have "inj (map (\<lambda>c :: char. of_nat (of_char c) :: byte))" by (rule inj_mapI)
  moreover have "bytes_of = map (\<lambda>c. of_nat (of_char c))" by (rule ext) (simp add: bytes_of_def)
  ultimately show ?thesis by simp
qed

theorem http_post_then_get_witness:
  "\<exists>as. handler 0 put_env None True (demo_request ''GET'' (''/bzzr:/'' @ hex_encode (fst (stored_text [9])))) = Ret (as, [])
    \<and> respond put_env (demo_request ''GET'' (''/bzzr:/'' @ hex_encode (fst (stored_text [9])))) as =
      \<lparr>rp_Status = 200, rp_ContentType = rawType, rp_Location = '''', rp_Body = Bytes [9]\<rparr>"
proof -
  let ?r = "demo_request ''POST'' ''/bzzr:/''" and ?addr = "hex_encode (fst (stored_text [9]))"
  let ?g = "demo_request ''GET'' (''/bzzr:/'' @ ?addr)"
  have post: "handler 0 before_env None True ?r = Ret ([SetContentType ''text/plain'', ServeContent (Text ?addr)], snd (stored_text [9]))"
    by code_simp
  have sv: "serves (me_fetch put_env) (snd (stored_text [9]))" using put_serves by (simp add: demo_stored_def)
  have g: "rq_Method ?g = ''GET''" "me_chunker put_env = me_chunker before_env" "splitter_ok (me_chunker before_env) [9]"
    "rq_Method ?r = ''POST''" "rq_Path ?r = ''/bzzr:/''" "rq_Path ?g = ''/bzzr:/'' @ ?addr" "rq_query_content_type ?g = ''''"
    using demo_splitter by (simp_all add: demo_request_def put_env_def before_env_def codec_env_def)
  obtain as cs addr where run: "handler 0 before_env None True ?r = Ret (as, cs)"
    "respond before_env ?r as = \<lparr>rp_Status = 200, rp_ContentType = ''text/plain'', rp_Location = '''', rp_Body = Bytes (bytes_of addr)\<rparr>"
    "rq_Path ?g = ''/bzzr:/'' @ addr \<longrightarrow> serves (me_fetch put_env) cs \<longrightarrow>
        (\<exists>as'. handler 0 put_env None True ?g = Ret (as', []) \<and> respond put_env ?g as' =
          \<lparr>rp_Status = 200, rp_ContentType = (if rq_query_content_type ?g = '''' then rawType else rq_query_content_type ?g),
           rp_Location = '''', rp_Body = Bytes [9]\<rparr>)"
    using http_post_then_get [OF g(4,5) demo_carries g(3,1,2)] by blast
  have cs: "cs = snd (stored_text [9])" and as: "as = [SetContentType ''text/plain'', ServeContent (Text ?addr)]"
    using run(1) post by simp_all
  have "bytes_of addr = bytes_of ?addr"
    using run(2) unfolding as by (simp add: respond_def content_bytes_def demo_request_def)
  then have "addr = ?addr" using bytes_of_inj by (simp add: inj_eq)
  then show ?thesis using run(3) g(6,7) sv cs by simp
qed

theorem http_put_then_get_witness:
  "\<exists>as. handler 2 put_env None True (demo_request ''GET'' (''/bzz:/'' @ Key_String (fst (stored_text [4])) @ ''/'' @ ''x'')) = Ret (as, [])
    \<and> respond put_env (demo_request ''GET'' (''/bzz:/'' @ Key_String (fst (stored_text [4])) @ ''/'' @ ''x'')) as =
      \<lparr>rp_Status = 200, rp_ContentType = ''text/html'', rp_Location = '''', rp_Body = Bytes [9]\<rparr>"
proof -
  let ?k = "fst (stored_text [1])" and ?root = "Key_String (fst (stored_text [4]))"
  let ?r = "demo_request ''PUT'' (''/bzz:/'' @ Key_String ?k @ ''/'' @ ''x'')"
  let ?g = "demo_request ''GET'' (''/bzz:/'' @ ?root @ ''/'' @ ''x'')"
  have put: "handler 1 before_env None True ?r = Ret ([SetContentType ''text/plain'', ServeContent (Text ?root)], demo_stored)"
    by code_simp
  have k: "length ?k = 32" by code_simp
  have r: "rq_Method ?r = ''PUT''" "rq_Path ?r = ''/bzz:/'' @ Key_String ?k @ ''/'' @ ''x''"
    "rq_Method ?g = ''GET''" "rq_Path ?g = ''/bzz:/'' @ ?root @ ''/'' @ ''x''"
    and ct: "rq_Content_Type ?r = ''text/html''" by (simp_all add: demo_request_def)
  have sp: "splitter_ok (me_chunker before_env) [9]" using demo_splitter by (simp add: before_env_def)
  have "package_manifests before_env" using demo_package by (simp add: before_env_def)
  moreover have "regular ''x''" "''x'' \<noteq> []" "ascii ''x''" "ascii (rq_Content_Type ?r)" "rq_Content_Type ?r \<noteq> manifestType"
    by (simp_all add: regular_def ascii_def demo_request_def manifestType_def)
  ultimately show ?thesis
    using http_put_then_get [OF put_later _ r(1,2) k demo_carries sp _ _ _ _ _ before_load demo_opens put put_serves r(3,4), of None True] ct
    by (simp add: numeral_2_eq_2)
qed

section \<open>Requests that go wrong\<close>

text \<open>
  A request that is refused, a \<open>POST\<close> outside \<open>/bzzr:/\<close> or a \<open>PUT\<close> to it, is answered with status 400 after
  its body was stored.
\<close>

theorem http_refused_is_stored:
  assumes "rq_Method r = ''POST'' \<and> rq_Path r = ''/bzz:/'' \<or> rq_Method r = ''PUT'' \<and> rq_Path r = ''/bzzr:/''"
    and "carries r body" "splitter_ok (me_chunker E) body"
  shows "\<exists>msg cs key. handler n E dns l r = Ret ([HttpError msg 400], cs) \<and> reads_back E key cs body"
proof -
  obtain key cs where st: "Api_Store E None (limit_reader (nat (rq_ContentLength r)) (rq_Body r)) (nat (rq_ContentLength r)) = Ret (Inr (key, cs))"
    and served: "reads_back E key cs body"
    using stored_body [OF assms(2,3)] by blast
  have p: "bzzPrefix ''/bzzr:/'' = Some ''/bzzr:/''" "bzzPrefix ''/bzz:/'' = Some ''/bzz:/''"
    using bzzPrefix_raw [of "[]"] bzzPrefix_bzz [of "[]"] by (simp_all add: no_slash_def)
  have "\<exists>msg. handler n E dns l r = Ret ([HttpError msg 400], cs)"
    using assms(1,2) st p by (elim disjE) (simp_all add: handler_def Let_def serve_store_def carries_def)
  then show ?thesis using served by blast
qed

text \<open>A \<open>GET\<close> of \<open>/bzz:/\<close> with nothing behind it panics in \<open>parse\<close>.\<close>

theorem http_get_nothing_panics: "rq_Method g = ''GET'' \<Longrightarrow> rq_Path g = ''/bzz:/'' \<Longrightarrow> handler n E dns l g = Panic"
proof -
  assume "rq_Method g = ''GET''" "rq_Path g = ''/bzz:/''"
  moreover have "parse [] = Panic" by code_simp
  ultimately show ?thesis
    using bzzPrefix_bzz [of "[]"] rootDocumentUri_bzz [of "[]"]
    by (simp add: handler_def Let_def serve_get_def no_slash_def trailingSlashes_def Api_Get_def parseAndResolve_def)
qed

text \<open>
  The proxy puts the HTTP version where the gateway looks for the protocol, so the gateway refuses each of its requests.
\<close>

theorem round_trip_refused:
  assumes "RoundTrip_url rt ''HTTP/1.1'' url_host url_path = ''http://'' @ (if rt_Host rt = [] then ''localhost'' else rt_Host rt) @ '':'' @ rt_Port rt @ path"
    and "rq_Path r = path"
  shows "\<exists>msg. handler n E dns True r = Ret ([HttpError msg 400], [])"
proof -
  have "path = ''/HTTP/1.1:/'' @ url_host @ ''/'' @ url_path"
    using assms(1) by (simp add: RoundTrip_url_def Let_def split: if_splits)
  then have "bzzPrefix (rq_Path r) = None"
    using assms(2) by (simp add: bzzPrefix_def match_proto_def Let_def)
  then show ?thesis by (simp add: handler_def Let_def)
qed

end
