(* ===== verification/File_System.thy ===== *)
theory File_System
  imports Path_Laws Event_Systems "HOL-Library.Char_ord"
begin

text \<open>
  \<open>api/filesystem.go\<close>: a directory is uploaded as a manifest, and a manifest is written to a directory.
  \<open>Upload\<close> collects the files below a directory, stores them with at most five goroutines at a time, and
  builds the manifest (\<open>Upload_manifest\<close> of \<open>Api\<close>). \<open>Download\<close> lists a manifest, makes the directories and
  writes the files, again with a bounded pool.

  The disk is a tree that does not change during an upload; opening a file or reading a directory may fail
  with an error number. The functions of \<open>path/filepath\<close> are those of Unix. \<open>http.DetectContentType\<close> is the
  parameter \<open>detect\<close>; the outcomes of \<open>os.MkdirAll\<close> and \<open>os.Create\<close> are the parameters \<open>mkdir\<close> and \<open>create\<close>.
\<close>

section \<open>Paths\<close>

fun join_slash :: "string list \<Rightarrow> string" where
  "join_slash [] = []"
| "join_slash [e] = e"
| "join_slash (e # es) = e @ ''/'' @ join_slash es"

text \<open>\<open>filepath.Clean\<close>: empty and \<open>.\<close> elements are dropped, \<open>..\<close> takes the element before it away.\<close>

fun clean_elems :: "bool \<Rightarrow> string list \<Rightarrow> string list \<Rightarrow> string list" where
  "clean_elems rooted out [] = rev out"
| "clean_elems rooted out (e # es) =
     (if e = ''.'' then clean_elems rooted out es
      else if e = ''..'' then
        (case out of
           [] \<Rightarrow> clean_elems rooted (if rooted then [] else [e]) es
         | d # ds \<Rightarrow> clean_elems rooted (if d = ''..'' then e # out else ds) es)
      else clean_elems rooted (e # out) es)"

definition filepath_Clean :: "string \<Rightarrow> string" where
  "filepath_Clean path =
     (let rooted = (path \<noteq> [] \<and> hd path = slash);
          s = join_slash (clean_elems rooted [] (segs path))
      in if rooted then slash # s else if s = [] then ''.'' else s)"

definition filepath_Join :: "string \<Rightarrow> string \<Rightarrow> string" where
  "filepath_Join dir name = filepath_Clean (dir @ ''/'' @ name)"

definition filepath_Abs :: "string option \<Rightarrow> string \<Rightarrow> string option" where
  "filepath_Abs wd path =
     (if path \<noteq> [] \<and> hd path = slash then Some (filepath_Clean path)
      else map_option (\<lambda>w. filepath_Join w path) wd)"

definition filepath_Dir :: "string \<Rightarrow> string" where
  "filepath_Dir path = filepath_Clean (rev (dropWhile (\<lambda>c. c \<noteq> slash) (rev path)))"

definition filepath_Ext :: "string \<Rightarrow> string" where
  "filepath_Ext path =
     (let name = takeWhile (\<lambda>c. c \<noteq> slash) (rev path) in
      if CHR ''.'' \<in> set name then CHR ''.'' # rev (takeWhile (\<lambda>c. c \<noteq> CHR ''.'') name) else '''')"

section \<open>The disk\<close>

text \<open>A directory lists its entries in the order of \<open>readDirNames\<close>, sorted by name.\<close>

datatype fnode = File "nat + bytes" | Directory "nat + (string \<times> fnode) list"

fun node_at :: "fnode \<Rightarrow> string list \<Rightarrow> fnode option" where
  "node_at n [] = Some n"
| "node_at (Directory (Inr es)) (name # names) =
     (case map_of es name of None \<Rightarrow> None | Some n \<Rightarrow> node_at n names)"
| "node_at _ (_ # _) = None"

text \<open>Opening a file and reading it: error 2 for a missing file, 21 for a directory.\<close>

definition os_Open :: "fnode \<Rightarrow> string \<Rightarrow> nat + bytes" where
  "os_Open disk path =
     (case node_at disk (segs path) of
        None \<Rightarrow> Inl 2
      | Some (Directory _) \<Rightarrow> Inl 21
      | Some (File r) \<Rightarrow> r)"

section \<open>Upload: the files\<close>

definition maxParallelFiles :: nat where
  "maxParallelFiles = 5"

text \<open>The function handed to \<open>filepath.Walk\<close>: its error, and the list with the entry it adds.\<close>

definition upload_visit :: "string \<Rightarrow> string \<Rightarrow> bool \<Rightarrow> nat option \<Rightarrow> string list \<Rightarrow> api_error option \<times> string list" where
  "upload_visit localpath path isDir err files =
     (if err = None \<and> \<not> isDir then
        (if length path \<le> length localpath then (Some (EMessage ''Path is too short''), files)
         else if take (length localpath) path \<noteq> localpath
           then (Some (EMessage (''Path prefix of '' @ path @ '' does not match localpath '' @ localpath)), files)
         else (None, files @ [path]))
      else (map_option EFile err, files))"

text \<open>\<open>filepath.Walk\<close> with that function.\<close>

fun walk :: "string \<Rightarrow> string \<Rightarrow> fnode \<Rightarrow> string list \<Rightarrow> api_error option \<times> string list"
  and walk_names :: "string \<Rightarrow> string \<Rightarrow> (string \<times> fnode) list \<Rightarrow> string list \<Rightarrow> api_error option \<times> string list" where
  "walk localpath path (File _) files = upload_visit localpath path False None files"
| "walk localpath path (Directory r) files =
     (case upload_visit localpath path True None files of
        (Some err, files') \<Rightarrow> (Some err, files')
      | (None, files') \<Rightarrow>
          (case r of
             Inl err \<Rightarrow> upload_visit localpath path True (Some err) files'
           | Inr es \<Rightarrow> walk_names localpath path es files'))"
| "walk_names localpath path [] files = (None, files)"
| "walk_names localpath path ((name, n) # es) files =
     (case walk localpath (filepath_Join path name) n files of
        (Some err, files') \<Rightarrow> (Some err, files')
      | (None, files') \<Rightarrow> walk_names localpath path es files')"

text \<open>The first part of \<open>Upload\<close>: \<open>start\<close> and the paths of the files. For a single file \<open>start\<close> is the length of its directory.\<close>

definition Upload_files :: "string option \<Rightarrow> fnode \<Rightarrow> string \<Rightarrow> api_error + nat \<times> string list" where
  "Upload_files wd disk lpath =
     (case filepath_Abs wd (filepath_Clean lpath) of
        None \<Rightarrow> Inl (EMessage ''getwd'')
      | Some localpath \<Rightarrow>
          (case node_at disk (segs localpath) of
             None \<Rightarrow> Inl (EFile 2)
           | Some (File (Inl err)) \<Rightarrow> Inl (EFile err)
           | Some (File (Inr _)) \<Rightarrow>
               let dir = filepath_Dir localpath; start = length dir in
               if length localpath \<le> start then Inl (EMessage ''Path is too short'')
               else if take start localpath \<noteq> dir
                 then Inl (EMessage (''Path prefix of '' @ localpath @ '' does not match dir '' @ dir))
               else Inr (start, [localpath])
           | Some (Directory r) \<Rightarrow>
               (case walk localpath localpath (Directory r) [] of
                  (Some err, _) \<Rightarrow> Inl err
                | (None, files) \<Rightarrow> Inr (length localpath, files))))"

section \<open>Upload: the pool\<close>

text \<open>
  The goroutine of one file: what it leaves in \<open>list[i]\<close> and \<open>errors[i]\<close>, and the chunks it stores.
\<close>

definition upload_file :: "man_env \<Rightarrow> (bytes \<Rightarrow> string) \<Rightarrow> nat option \<Rightarrow> fnode \<Rightarrow> string \<Rightarrow> (upload \<times> Chunk list) mrun" where
  "upload_file E detect wg disk path =
     (case os_Open disk path of
        Inl err \<Rightarrow> Ret ((path, Inl (EFile err)), [])
      | Inr data \<Rightarrow>
          go_bind (Api_Store E wg [(data, None)] (length data)) (\<lambda>r.
            case r of
              Inl err \<Rightarrow> Ret ((path, Inl err), [])
            | Inr (hash, cs) \<Rightarrow>
                let first512 = take 512 data;
                    mimeType = (if first512 = [] then ''''
                      else if filepath_Ext path = ''.css'' then ''text/css'' else detect first512)
                in Ret ((path, Inr (Key_String hash, mimeType)), cs)))"

text \<open>
  The loop that starts the goroutines, the goroutines, and the loop that waits for them. \<open>up_done\<close> is the
  number of values in the channel \<open>done\<close>. A goroutine writes only its own entries, so it is one move.
\<close>

record 'r upload_pool =
  up_next :: nat
  up_dcnt :: nat
  up_running :: "nat list"
  up_done :: nat
  up_results :: "'r option list"
  up_crashed :: bool

datatype upload_event = UpMain | UpWorker nat

definition upload_start :: "nat \<Rightarrow> 'r upload_pool" where
  "upload_start cnt = \<lparr>up_next = 0, up_dcnt = 0, up_running = [], up_done = 0,
     up_results = replicate cnt None, up_crashed = False\<rparr>"

definition upload_main :: "'r upload_pool \<Rightarrow> 'r upload_pool option" where
  "upload_main s =
     (let cnt = length (up_results s); i = up_next s in
      if i < cnt then
        (if i \<ge> up_dcnt s + maxParallelFiles then
           (if up_done s = 0 then None
            else Some (s\<lparr>up_done := up_done s - 1, up_dcnt := up_dcnt s + 1,
                         up_running := i # up_running s, up_next := i + 1\<rparr>))
         else Some (s\<lparr>up_running := i # up_running s, up_next := i + 1\<rparr>))
      else if up_dcnt s < cnt then
        (if up_done s = 0 then None else Some (s\<lparr>up_done := up_done s - 1, up_dcnt := up_dcnt s + 1\<rparr>))
      else None)"

definition upload_worker :: "(nat \<Rightarrow> 'r mrun) \<Rightarrow> nat \<Rightarrow> 'r upload_pool \<Rightarrow> 'r upload_pool option" where
  "upload_worker work i s =
     (if i \<notin> set (up_running s) then None
      else case work i of
        Panic \<Rightarrow> Some (s\<lparr>up_crashed := True\<rparr>)
      | Err _ \<Rightarrow> None
      | Ret r \<Rightarrow>
          if up_done s < maxParallelFiles
          then Some (s\<lparr>up_results := (up_results s)[i := Some r],
                       up_running := remove1 i (up_running s), up_done := up_done s + 1\<rparr>)
          else None)"

definition upload_step :: "(nat \<Rightarrow> 'r mrun) \<Rightarrow> upload_event \<Rightarrow> 'r upload_pool \<Rightarrow> 'r upload_pool option" where
  "upload_step work e s =
     (if up_crashed s then None
      else case e of UpMain \<Rightarrow> upload_main s | UpWorker i \<Rightarrow> upload_worker work i s)"

text \<open>Both loops have ended.\<close>

definition upload_over :: "'r upload_pool \<Rightarrow> bool" where
  "upload_over s \<longleftrightarrow> length (up_results s) \<le> up_next s \<and> length (up_results s) \<le> up_dcnt s"

text \<open>The last part of \<open>Upload\<close>, from what the goroutines left: the root hash, and all chunks that were stored.\<close>

definition Upload_finish :: "loader \<Rightarrow> man_env \<Rightarrow> nat \<Rightarrow> string \<Rightarrow> (upload \<times> Chunk list) upload_pool
    \<Rightarrow> (api_error + string \<times> Chunk list) mrun" where
  "Upload_finish ld E start index s =
     (let rs = List.map_filter (\<lambda>r. r) (up_results s) in
      go_bind (Upload_manifest ld E start index (map fst rs)) (\<lambda>r.
        case r of
          Inl err \<Rightarrow> Ret (Inl err)
        | Inr (hs, cs) \<Rightarrow> Ret (Inr (hs, concat (map snd rs) @ cs))))"

section \<open>Download\<close>

text \<open>
  The function handed to \<open>listWithPrefix\<close>. Its variables: the last directory, the error of the last
  \<open>MkdirAll\<close>, the list of files to fetch, and the directories made.
\<close>

record download_list =
  dn_prevPath :: string
  dn_mde :: "nat option"
  dn_list :: "(Key \<times> string) list"
  dn_made :: "string list"

definition download_visit :: "(string \<Rightarrow> nat option) \<Rightarrow> string \<Rightarrow> manifestTrieEntry \<times> string \<Rightarrow> download_list \<Rightarrow> download_list" where
  "download_visit mkdir lpath = (\<lambda>(entry, suffix) s.
     let key = Hex2Bytes (te_Hash entry);
         path = lpath @ ''/'' @ suffix;
         dir = filepath_Dir path;
         s' = (if dir \<noteq> dn_prevPath s
               then s\<lparr>dn_mde := mkdir dir, dn_prevPath := dir, dn_made := dn_made s @ [dir]\<rparr> else s)
     in if dn_mde s' = None \<and> path \<noteq> dir @ ''/''
        then s'\<lparr>dn_list := dn_list s' @ [(key, path)]\<rparr> else s')"

text \<open>\<open>Download\<close> up to the pool. \<open>m\<close> bounds the depth of the listing.\<close>

definition Download_files :: "nat \<Rightarrow> nat \<Rightarrow> man_env \<Rightarrow> resolver option \<Rightarrow> string option \<Rightarrow> (string \<Rightarrow> nat option)
    \<Rightarrow> string \<Rightarrow> string \<Rightarrow> (api_error + (Key \<times> string) list) mrun" where
  "Download_files m n E dns wd mkdir bzzpath localpath =
     (case filepath_Abs wd (filepath_Clean localpath) of
        None \<Rightarrow> Ret (Inl (EMessage ''getwd''))
      | Some lpath \<Rightarrow>
          (case mkdir lpath of
             Some err \<Rightarrow> Ret (Inl (EFile err))
           | None \<Rightarrow>
               go_bind (parseAndResolve dns bzzpath True) (\<lambda>(key, _, path, err).
                 case err of
                   Some e \<Rightarrow> Ret (Inl e)
                 | None \<Rightarrow>
                     let path' = (if length path > 0 then path @ ''/'' else path) in
                     go_bind (loadManifest n E key) (\<lambda>r.
                       case r of
                         Inl e \<Rightarrow> Ret (Inl (EManifest e))
                       | Inr trie \<Rightarrow>
                           go_bind (listWithPrefix m (loadManifest n E) path' trie) (\<lambda>(out, err, _).
                             case err of
                               Some e \<Rightarrow> Ret (Inl (EManifest e))
                             | None \<Rightarrow>
                                 Ret (Inr (dn_list (fold (download_visit mkdir lpath) out
                                   \<lparr>dn_prevPath = lpath, dn_mde = None, dn_list = [], dn_made = []\<rparr>))))))))"

text \<open>
  The pool. \<open>dl_done\<close> is the number of values in the channel \<open>done\<close>, \<open>dl_failed\<close> are the goroutines that wait to
  send their error on \<open>errC\<close>. Nothing closes \<open>quitC\<close>. A goroutine whose file was created reads the document;
  its errors are those of the inner \<open>err\<close>, so it goes on as if there had been none.
\<close>

record download_pool =
  dl_next :: nat
  dl_done :: nat
  dl_running :: "nat list"
  dl_failed :: "(nat \<times> nat) list"
  dl_files :: "(string \<times> (join_error, bytes) go) list"
  dl_result :: "nat option option"
  dl_crashed :: bool

definition download_start :: download_pool where
  "download_start = \<lparr>dl_next = 0, dl_done = 0, dl_running = [], dl_failed = [], dl_files = [],
     dl_result = None, dl_crashed = False\<rparr>"

datatype download_event = DlSpawn | DlWorker nat | DlReceive nat | DlClosed

definition download_worker :: "man_env \<Rightarrow> (string \<Rightarrow> nat option) \<Rightarrow> (Key \<times> string) list \<Rightarrow> nat \<Rightarrow> download_pool \<Rightarrow> download_pool" where
  "download_worker E create files i s =
     (case files ! i of (key, path) \<Rightarrow>
        let s' = s\<lparr>dl_running := remove1 i (dl_running s)\<rparr> in
        case create path of
          Some err \<Rightarrow> s'\<lparr>dl_failed := dl_failed s @ [(i, err)]\<rparr>
        | None \<Rightarrow>
            (case read_document (me_fetch E) (DPA_Retrieve E key) of
               Panic \<Rightarrow> s\<lparr>dl_crashed := True\<rparr>
             | r \<Rightarrow> s'\<lparr>dl_files := dl_files s @ [(path, r)], dl_done := dl_done s - 1\<rparr>))"

definition download_step :: "man_env \<Rightarrow> (string \<Rightarrow> nat option) \<Rightarrow> (Key \<times> string) list
    \<Rightarrow> download_event \<Rightarrow> download_pool \<Rightarrow> download_pool option" where
  "download_step E create files e s =
     (if dl_crashed s then None
      else case e of
        DlSpawn \<Rightarrow>
          if dl_next s < length files \<and> dl_done s < maxParallelFiles
          then Some (s\<lparr>dl_next := dl_next s + 1, dl_done := dl_done s + 1, dl_running := dl_next s # dl_running s\<rparr>)
          else None
      | DlWorker i \<Rightarrow>
          if i \<in> set (dl_running s) then Some (download_worker E create files i s) else None
      | DlReceive i \<Rightarrow>
          (case map_of (dl_failed s) i of
             Some err \<Rightarrow>
               if length files \<le> dl_next s \<and> dl_result s = None
               then Some (s\<lparr>dl_failed := filter (\<lambda>x. fst x \<noteq> i) (dl_failed s), dl_result := Some (Some err)\<rparr>)
               else None
           | None \<Rightarrow> None)
      | DlClosed \<Rightarrow>
          if length files \<le> dl_next s \<and> dl_running s = [] \<and> dl_failed s = [] \<and> dl_result s = None
          then Some (s\<lparr>dl_result := Some None\<rparr>) else None)"

end
