(* ===== verification/File_Laws.thy ===== *)
theory File_Laws
  imports File_System "HOL-Library.Sublist"
begin

text \<open>
  Absolute paths as lists of names, and the walk over a directory: which files it finds, in which order, and
  under which paths they enter the manifest.
\<close>

section \<open>Names and paths\<close>

definition name_ok :: "string \<Rightarrow> bool" where
  "name_ok e \<longleftrightarrow> e \<noteq> [] \<and> slash \<notin> set e \<and> e \<noteq> ''.'' \<and> e \<noteq> ''..''"

definition abs_path :: "string list \<Rightarrow> string" where
  "abs_path es = slash # join_slash es"

lemma join_slash_Cons: "join_slash (e # es) = (if es = [] then e else e @ slash # join_slash es)"
  by (cases es) simp_all

lemma join_slash_append: "join_slash (as @ bs) =
   (if as = [] then join_slash bs else if bs = [] then join_slash as else join_slash as @ slash # join_slash bs)"
  by (induction as) (auto simp: join_slash_Cons)

lemma join_slash_Nil: "list_all name_ok es \<Longrightarrow> join_slash es = [] \<longleftrightarrow> es = []"
  by (cases es) (auto simp: join_slash_Cons name_ok_def)

lemma segs_join: "list_all name_ok es \<Longrightarrow> segs (join_slash es) = es"
  by (induction es) (auto simp: join_slash_Cons segs_slash_append segs_none name_ok_def)

lemma segs_abs: "list_all name_ok es \<Longrightarrow> segs (abs_path es) = es"
  by (simp add: abs_path_def segs_join)

lemma segs_names: "e \<in> set (segs s) \<Longrightarrow> e \<noteq> [] \<and> slash \<notin> set e"
  by (induction s rule: segs.induct) (auto split: if_splits dest: set_takeWhileD)

lemma clean_elems_plain: "list_all name_ok es \<Longrightarrow> clean_elems r out es = rev out @ es"
  by (induction es arbitrary: out) (auto simp: name_ok_def)

lemma clean_elems_rooted:
  "\<forall>e \<in> set es. e \<noteq> [] \<and> slash \<notin> set e \<Longrightarrow> list_all name_ok out \<Longrightarrow> list_all name_ok (clean_elems True out es)"
proof (induction True out es rule: clean_elems.induct)
  case (2 out e es)
  then show ?case by (cases out) (auto simp: name_ok_def)
qed (simp add: list_all_rev)

lemma Clean_abs: "list_all name_ok es \<Longrightarrow> filepath_Clean (abs_path es) = abs_path es"
  by (simp add: filepath_Clean_def abs_path_def Let_def segs_join clean_elems_plain)

lemma Clean_rooted:
  assumes "p \<noteq> []" "hd p = slash"
  shows "\<exists>es. list_all name_ok es \<and> filepath_Clean p = abs_path es"
  using clean_elems_rooted [of "segs p" "[]"] segs_names assms by (auto simp: filepath_Clean_def abs_path_def Let_def)

lemma Abs_rooted:
  assumes "filepath_Abs wd p = Some q" "\<forall>w. wd = Some w \<longrightarrow> w \<noteq> [] \<and> hd w = slash"
  shows "\<exists>es. list_all name_ok es \<and> q = abs_path es"
proof (cases "p \<noteq> [] \<and> hd p = slash")
  case True
  then show ?thesis using assms(1) Clean_rooted [of p] by (auto simp: filepath_Abs_def)
next
  case False
  then obtain w where "wd = Some w" "q = filepath_Clean (w @ ''/'' @ p)"
    using assms(1) by (auto simp: filepath_Abs_def filepath_Join_def split: if_splits)
  then show ?thesis using assms(2) Clean_rooted [of "w @ ''/'' @ p"] by auto
qed

lemma Join_abs:
  assumes "list_all name_ok es" "name_ok e"
  shows "filepath_Join (abs_path es) e = abs_path (es @ [e])"
proof -
  have "segs (abs_path es @ ''/'' @ e) = es @ [e]"
    using segs_slash_append [of "abs_path es" e] segs_abs [OF assms(1)] assms(2) by (simp add: segs_none name_ok_def)
  then show ?thesis
    using assms by (simp add: filepath_Join_def filepath_Clean_def abs_path_def Let_def clean_elems_plain)
qed

lemma regular_slash: "RegularSlashes (slash # p) = RegularSlashes p"
  by (simp add: RegularSlashes_squeeze)

lemma noslash_successively: "slash \<notin> set e \<Longrightarrow> successively (\<lambda>x y. \<not> (x = slash \<and> y = slash)) e"
  by (induction e rule: induct_list012) auto

lemma join_successively:
  assumes "list_all name_ok es"
  shows "successively (\<lambda>x y. \<not> (x = slash \<and> y = slash)) (join_slash es)
    \<and> (es \<noteq> [] \<longrightarrow> hd (join_slash es) \<noteq> slash \<and> last (join_slash es) \<noteq> slash)"
  using assms
proof (induction es)
  case (Cons e es)
  have e: "e \<noteq> []" "slash \<notin> set e" "hd e \<noteq> slash" "last e \<noteq> slash" "successively (\<lambda>x y. \<not> (x = slash \<and> y = slash)) e"
    using Cons.prems noslash_successively by (auto simp: name_ok_def) (metis list.set_sel(1), metis last_in_set)
  show ?case
    using Cons e join_slash_Nil [of es] by (auto simp: join_slash_Cons successively_append_iff successively_Cons)
qed simp

lemma regular_join_slash: "list_all name_ok es \<Longrightarrow> regular (join_slash es)"
  using join_successively [of es] join_slash_Nil [of es] by (auto simp: regular_def successively_Cons)

text \<open>The path of a file in the manifest of its directory.\<close>

lemma relative_path:
  assumes "list_all name_ok ls" "list_all name_ok r"
  shows "RegularSlashes (drop (length (abs_path ls)) (abs_path (ls @ r))) = join_slash r"
proof -
  have "drop (length (abs_path ls)) (abs_path (ls @ r)) = (if ls = [] \<or> r = [] then join_slash r else slash # join_slash r)"
    by (simp add: abs_path_def join_slash_append)
  then show ?thesis using RegularSlashes_same [OF regular_join_slash [OF assms(2)]] by (simp add: regular_slash)
qed

lemma abs_path_longer:
  assumes "list_all name_ok ls" "list_all name_ok r" "r \<noteq> []"
  shows "length (abs_path ls) < length (abs_path (ls @ r))" "take (length (abs_path ls)) (abs_path (ls @ r)) = abs_path ls"
  using assms join_slash_Nil [OF assms(2)] by (auto simp: abs_path_def join_slash_append)

section \<open>Directories\<close>

text \<open>
  A directory that can be read: all names are proper and, as \<open>readDirNames\<close> gives them, in strictly
  ascending order; every directory and every file can be opened.
\<close>

fun fnode_ok :: "fnode \<Rightarrow> bool" where
  "fnode_ok (File r) \<longleftrightarrow> (case r of Inl _ \<Rightarrow> False | Inr _ \<Rightarrow> True)"
| "fnode_ok (Directory r) \<longleftrightarrow>
     (case r of Inl _ \<Rightarrow> False
      | Inr es \<Rightarrow> sorted_wrt ord_class.lexordp (map fst es) \<and> (\<forall>x \<in> set es. name_ok (fst x) \<and> fnode_ok (snd x)))"

text \<open>The files below a node, as the names that lead to them, with what they contain.\<close>

fun files_below :: "fnode \<Rightarrow> (string list \<times> bytes) list" where
  "files_below (File r) = (case r of Inl _ \<Rightarrow> [] | Inr data \<Rightarrow> [([], data)])"
| "files_below (Directory r) =
     (case r of Inl _ \<Rightarrow> []
      | Inr es \<Rightarrow> concat (map (\<lambda>x. map (\<lambda>f. (fst x # fst f, snd f)) (files_below (snd x))) es))"

lemma files_below_names: "fnode_ok n \<Longrightarrow> f \<in> set (files_below n) \<Longrightarrow> list_all name_ok (fst f)"
  by (induction n arbitrary: f) (fastforce split: sum.splits)+

lemma files_below_dir: "f \<in> set (files_below (Directory r)) \<Longrightarrow> fst f \<noteq> []"
  by (auto split: sum.splits)

lemma walk_finds:
  "\<lbrakk>localpath = abs_path ls; path = abs_path (ls @ ps); list_all name_ok ls; list_all name_ok ps; fnode_ok n; ps \<noteq> [] \<or> (\<exists>r. n = Directory r)\<rbrakk>
     \<Longrightarrow> walk localpath path n files = (None, files @ map (\<lambda>f. abs_path (ls @ ps @ fst f)) (files_below n))"
  "\<lbrakk>localpath = abs_path ls; path = abs_path (ls @ ps); list_all name_ok ls; list_all name_ok ps; \<forall>x \<in> set es. name_ok (fst x) \<and> fnode_ok (snd x)\<rbrakk>
     \<Longrightarrow> walk_names localpath path es files = (None, files @ map (\<lambda>f. abs_path (ls @ ps @ fst f)) (files_below (Directory (Inr es))))"
proof (induction localpath path n files and localpath path es files arbitrary: ps and ps rule: walk_walk_names.induct)
  case (1 localpath path r files)
  then obtain data where "r = Inr data" by (auto split: sum.splits)
  then show ?case using 1 abs_path_longer [of ls ps] by (simp add: upload_visit_def)
next
  case (2 localpath path r files)
  then obtain es where es: "r = Inr es" "\<forall>x \<in> set es. name_ok (fst x) \<and> fnode_ok (snd x)" by (auto split: sum.splits)
  have v: "upload_visit localpath path True None files = (None, files)" by (simp add: upload_visit_def)
  show ?case using 2(1) [OF v [symmetric] refl es(1) 2(2-5) es(2)] v es(1) by simp
next
  case (4 localpath path name n es files)
  have j: "filepath_Join path name = abs_path (ls @ ps @ [name])" "list_all name_ok (ps @ [name])"
    using Join_abs [of "ls @ ps" name] 4(3-7) by simp_all
  have w: "walk localpath (filepath_Join path name) n files = (None, files @ map (\<lambda>f. abs_path (ls @ (ps @ [name]) @ fst f)) (files_below n))"
    using 4(1) [OF 4(3) j(1) 4(5) j(2)] 4(7) by simp
  show ?case using 4(2) [OF w [symmetric] refl 4(3-6)] 4(7) w by (simp add: comp_def)
qed simp

section \<open>The order of the walk\<close>

lemma lexordp_prefix: "prefix a b \<Longrightarrow> \<not> ord_class.lexordp b (a :: string)"
proof (induction a arbitrary: b)
  case (Cons c a)
  then obtain b' where "b = c # b'" "prefix a b'" by (cases b) auto
  then show ?case using Cons.IH by simp
qed simp

lemma prefix_first_name:
  assumes "slash \<notin> set a" "slash \<notin> set b" "prefix (join_slash (a # r)) (join_slash (b # q))"
  shows "prefix a b"
proof -
  have "prefix a (b @ slash # join_slash q) \<or> prefix a b"
    using assms(3) by (auto simp: join_slash_Cons prefix_def split: if_splits)
  then show ?thesis
  proof
    assume "prefix a (b @ slash # join_slash q)"
    then consider "prefix a b" | t where "a = b @ t" "prefix t (slash # join_slash q)" by (auto simp: prefix_append)
    then show ?thesis using assms(1) by cases (auto simp: prefix_Cons)
  qed
qed

lemma sorted_concat:
  assumes "\<And>x. x \<in> set xs \<Longrightarrow> sorted_wrt R (f x)" "sorted_wrt (\<lambda>x y. \<forall>u \<in> set (f x). \<forall>v \<in> set (f y). R u v) xs"
  shows "sorted_wrt R (concat (map f xs))"
  using assms by (induction xs) (auto simp: sorted_wrt_append)

lemma files_below_sorted:
  "fnode_ok n \<Longrightarrow> sorted_wrt (\<lambda>f g. \<not> prefix (join_slash (fst g)) (join_slash (fst f))) (files_below n)"
proof (induction n)
  case (File r)
  then show ?case by (cases r) auto
next
  case (Directory r)
  let ?R = "\<lambda>f g :: string list \<times> bytes. \<not> prefix (join_slash (fst g)) (join_slash (fst f))"
  let ?f = "\<lambda>x :: string \<times> fnode. map (\<lambda>f. (fst x # fst f, snd f)) (files_below (snd x))"
  obtain es where es: "r = Inr es" "sorted_wrt ord_class.lexordp (map fst es)" "\<forall>x \<in> set es. name_ok (fst x) \<and> fnode_ok (snd x)"
    using Directory.prems by (auto split: sum.splits)
  have "sorted_wrt ?R (?f x)" if x: "x \<in> set es" for x
  proof (cases "snd x")
    case (File r')
    then show ?thesis by (cases r') auto
  next
    case (Directory r')
    have "sorted_wrt ?R (files_below (snd x))" using Directory.IH es(1,3) x by (cases x) (fastforce simp: es(1))
    then show ?thesis
      using Directory files_below_dir by (auto simp: sorted_wrt_map join_slash_Cons elim!: sorted_wrt_mono_rel [rotated])
  qed
  moreover have "sorted_wrt (\<lambda>x y. \<forall>u \<in> set (?f x). \<forall>v \<in> set (?f y). ?R u v) es"
  proof (rule sorted_wrt_mono_rel [OF _ es(2) [unfolded sorted_wrt_map]])
    fix x y
    assume "x \<in> set es" "y \<in> set es" "ord_class.lexordp (fst x) (fst y)"
    then show "\<forall>u \<in> set (?f x). \<forall>v \<in> set (?f y). ?R u v"
      using es(3) prefix_first_name [of "fst y" "fst x"] lexordp_prefix by (fastforce simp: name_ok_def)
  qed
  ultimately show ?case using es(1) sorted_concat [of es ?R ?f] by simp
qed

section \<open>Opening the files of a walk\<close>

lemma node_at_append: "node_at d as = Some n \<Longrightarrow> node_at d (as @ bs) = node_at n bs"
  by (induction d as rule: node_at.induct) (auto split: option.splits)

lemma sorted_distinct: "sorted_wrt ord_class.lexordp (xs :: string list) \<Longrightarrow> distinct xs"
  by (induction xs) (use lexordp_prefix [OF prefix_order.refl] in auto)

lemma node_at_file: "fnode_ok n \<Longrightarrow> f \<in> set (files_below n) \<Longrightarrow> node_at n (fst f) = Some (File (Inr (snd f)))"
proof (induction n arbitrary: f)
  case (File r)
  then show ?case by (cases r) auto
next
  case (Directory r)
  obtain es where es: "r = Inr es" "sorted_wrt ord_class.lexordp (map fst es)" "\<forall>x \<in> set es. fnode_ok (snd x)"
    using Directory.prems by (auto split: sum.splits)
  obtain name n g where g: "(name, n) \<in> set es" "g \<in> set (files_below n)" "f = (name # fst g, snd g)"
    using Directory.prems(2) es(1) by auto
  have "map_of es name = Some n" using g(1) sorted_distinct [OF es(2)] by (simp add: map_of_eq_Some_iff)
  moreover have "node_at n (fst g) = Some (File (Inr (snd g)))" using Directory.IH g(1,2) es(1,3) by fastforce
  ultimately show ?case using g(3) es(1) by simp
qed

lemma Open_below:
  assumes "list_all name_ok ls" "node_at disk ls = Some n" "fnode_ok n" "f \<in> set (files_below n)"
  shows "os_Open disk (abs_path (ls @ fst f)) = Inr (snd f)"
  using segs_abs [of "ls @ fst f"] files_below_names [OF assms(3,4)] node_at_append [OF assms(2)]
    node_at_file [OF assms(3,4)] assms(1) by (simp add: os_Open_def)

text \<open>The files of an upload: every file below the directory once, in an order in which no path is a prefix of an earlier one.\<close>

lemma Upload_files_dir:
  assumes "filepath_Abs wd (filepath_Clean lpath) = Some (abs_path ls)" "list_all name_ok ls"
    "node_at disk ls = Some (Directory r)" "fnode_ok (Directory r)"
  shows "Upload_files wd disk lpath =
    Inr (length (abs_path ls), map (\<lambda>f. abs_path (ls @ fst f)) (files_below (Directory r)))"
  using walk_finds(1) [OF refl _ assms(2) _ assms(4), of "abs_path ls" "[]" "[]"] assms segs_abs [OF assms(2)]
  by (simp add: Upload_files_def del: walk.simps files_below.simps)

end
