(* ===== verification/File_Pools.thy ===== *)
theory File_Pools
  imports File_System "HOL-Library.Multiset"
begin

text \<open>
  The two bounded pools of \<open>api/filesystem.go\<close>: an upload ends with the result of every file whatever the
  schedule; a download ends unless five of its files cannot be created, which blocks it for ever.
\<close>

lemma remove1_length: "i \<in> set xs \<Longrightarrow> length (remove1 i xs) + 1 = length xs"
  by (induction xs) auto

lemma filter_key_length: "distinct (map fst xs) \<Longrightarrow> (i, e) \<in> set xs \<Longrightarrow> length (filter (\<lambda>x. fst x \<noteq> i) xs) + 1 = length xs"
proof (induction xs)
  case (Cons x xs)
  show ?case
  proof (cases "fst x = i")
    case True
    then have "filter (\<lambda>x. fst x \<noteq> i) xs = xs" using Cons.prems(1) by (intro filter_True) (auto simp: image_iff)
    then show ?thesis using True by simp
  qed (use Cons in auto)
qed simp

section \<open>Upload\<close>

definition upload_inv :: "(nat \<Rightarrow> 'r mrun) \<Rightarrow> (nat \<Rightarrow> 'r) \<Rightarrow> nat \<Rightarrow> 'r upload_pool \<Rightarrow> bool" where
  "upload_inv work r n s \<longleftrightarrow>
     (\<forall>i < n. work i = Ret (r i)) \<and> length (up_results s) = n \<and> \<not> up_crashed s
     \<and> up_next s \<le> n \<and> up_dcnt s \<le> up_next s \<and> up_next s \<le> up_dcnt s + maxParallelFiles
     \<and> length (up_running s) + up_done s + up_dcnt s = up_next s
     \<and> distinct (up_running s) \<and> set (up_running s) \<subseteq> {..<up_next s}
     \<and> (\<forall>i < n. up_results s ! i = (if i < up_next s \<and> i \<notin> set (up_running s) then Some (r i) else None))"

lemma upload_inv_start: "\<forall>i < n. work i = Ret (r i) \<Longrightarrow> upload_inv work r n (upload_start n)"
  by (simp add: upload_inv_def upload_start_def)

lemma upload_main_inv:
  assumes "upload_inv work r n s" "upload_main s = Some s'"
  shows "upload_inv work r n s'"
  using assms by (auto simp: upload_inv_def upload_main_def Let_def less_Suc_eq subset_eq split: if_splits)

lemma upload_worker_inv:
  assumes inv: "upload_inv work r n s" and st: "upload_worker work i s = Some s'"
  shows "upload_inv work r n s'"
proof -
  have i: "i \<in> set (up_running s)" using st by (auto simp: upload_worker_def split: if_splits)
  then have n: "i < up_next s" "i < n" using inv by (auto simp: upload_inv_def)
  then have w: "work i = Ret (r i)" using inv by (simp add: upload_inv_def)
  then have s': "s' = s\<lparr>up_results := (up_results s)[i := Some (r i)], up_running := remove1 i (up_running s), up_done := up_done s + 1\<rparr>"
    using st i by (auto simp: upload_worker_def split: if_splits)
  have "length (remove1 i (up_running s)) + 1 = length (up_running s)" by (rule remove1_length [OF i])
  then show ?thesis using inv i n unfolding s' by (auto simp: upload_inv_def nth_list_update dest: notin_set_remove1)
qed

interpretation upload: event_invariant "upload_step work" "\<lambda>_. True" "upload_inv work r n" for work r n
proof
  fix s e s'
  assume "upload_inv work r n s" "upload_step work e s = Some s'"
  then show "upload_inv work r n s'"
    using upload_main_inv upload_worker_inv by (cases e) (auto simp: upload_step_def split: if_splits)
qed

definition upload_left :: "nat \<Rightarrow> 'r upload_pool \<Rightarrow> nat" where
  "upload_left n s = (n - up_next s) + (n - up_dcnt s) + (n - (up_next s - length (up_running s)))"

lemma upload_left_less:
  assumes "upload_inv work r n s" "upload_step work e s = Some s'"
  shows "upload_left n s' < upload_left n s"
proof (cases e)
  case UpMain
  then show ?thesis
    using assms by (auto simp: upload_step_def upload_main_def upload_inv_def upload_left_def Let_def split: if_splits)
next
  case (UpWorker i)
  then have w: "upload_worker work i s = Some s'" using assms(2) by (auto simp: upload_step_def split: if_splits)
  then have i: "i \<in> set (up_running s)" by (auto simp: upload_worker_def split: if_splits)
  then have "length (remove1 i (up_running s)) < length (up_running s)" using remove1_length by fastforce
  moreover have "work i = Ret (r i)" using assms(1) i by (auto simp: upload_inv_def)
  ultimately show ?thesis
    using w i assms(1) by (auto simp: upload_worker_def upload_inv_def upload_left_def split: if_splits)
qed

lemma run_measure:
  assumes "\<And>s e s'. I s \<Longrightarrow> step e s = Some s' \<Longrightarrow> I s' \<and> (\<mu> s' :: nat) < \<mu> s"
  shows "I s \<Longrightarrow> run_events step es s = Some s' \<Longrightarrow> length es + \<mu> s' \<le> \<mu> s"
proof (induction es arbitrary: s)
  case (Cons e es)
  obtain s1 where s1: "step e s = Some s1" "run_events step es s1 = Some s'" using Cons.prems(2) by (auto split: option.splits)
  then show ?case using Cons.IH [OF _ s1(2)] assms [OF Cons.prems(1) s1(1)] by simp
qed simp

lemma upload_not_stuck:
  assumes "upload_inv work r n s" "\<forall>e. upload_step work e s = None"
  shows "upload_over s"
proof (rule ccontr)
  assume o: "\<not> upload_over s"
  have m: "upload_main s = None" and w: "upload_worker work i s = None" for i
    using assms(2) assms(1) by (auto simp: upload_step_def upload_inv_def dest: spec [of _ UpMain] spec [of _ "UpWorker i"])
  have "up_done s = 0"
    using m o assms(1) by (auto simp: upload_main_def upload_over_def upload_inv_def Let_def split: if_splits)
  moreover have "up_running s \<noteq> []"
    using m o assms(1) by (auto simp: upload_main_def upload_over_def upload_inv_def maxParallelFiles_def Let_def split: if_splits)
  then obtain i where "i \<in> set (up_running s)" by (cases "up_running s") auto
  ultimately show False
    using w [of i] assms(1) by (auto simp: upload_worker_def upload_inv_def maxParallelFiles_def)
qed

lemma upload_idle:
  assumes "upload_inv work r n s" "upload_over s"
  shows "up_next s = n" "up_dcnt s = n" "up_running s = []"
proof -
  have "length (up_running s) + up_done s + up_dcnt s = up_next s" "up_next s \<le> n" "n \<le> up_next s" "n \<le> up_dcnt s"
    using assms by (auto simp: upload_inv_def upload_over_def)
  then have "up_next s = n" "up_dcnt s = n" "length (up_running s) = 0" by linarith+
  then show "up_next s = n" "up_dcnt s = n" "up_running s = []" by simp_all
qed

lemma upload_complete:
  assumes "upload_inv work r n s" "upload_over s"
  shows "up_results s = map (\<lambda>i. Some (r i)) [0..<n]"
proof -
  have "up_next s = n" "up_running s = []" using upload_idle [OF assms] by simp_all
  then show ?thesis using assms(1) by (auto simp: upload_inv_def intro: nth_equalityI)
qed

text \<open>What every run of the pool gives.\<close>

lemma upload_run:
  assumes "\<forall>i < n. work i = Ret (r i)" "run_events (upload_step work) es (upload_start n) = Some s"
  shows "length (up_running s) \<le> maxParallelFiles" "length es \<le> 3 * n"
    "(\<forall>e. upload_step work e s = None) \<longleftrightarrow> upload_over s"
    "upload_over s \<Longrightarrow> up_results s = map (\<lambda>i. Some (r i)) [0..<n]"
proof -
  have inv: "upload_inv work r n s"
    using upload.run_inv [OF upload_inv_start [OF assms(1)] _ assms(2)] by (simp add: list_all_iff)
  show "length (up_running s) \<le> maxParallelFiles" using inv by (auto simp: upload_inv_def)
  have "length es + upload_left n s \<le> upload_left n (upload_start n :: 'a upload_pool)"
    by (rule run_measure [where I = "upload_inv work r n", OF _ upload_inv_start [OF assms(1)] assms(2)])
      (use upload.preserved upload_left_less in auto)
  then show "length es \<le> 3 * n" by (simp add: upload_left_def upload_start_def)
  show "(\<forall>e. upload_step work e s = None) \<longleftrightarrow> upload_over s"
  proof
    assume "upload_over s"
    then show "\<forall>e. upload_step work e s = None"
      using upload_idle [OF inv] inv
      by (auto simp: upload_step_def upload_main_def upload_worker_def upload_inv_def Let_def split: upload_event.splits)
  qed (use upload_not_stuck [OF inv] in blast)
  show "upload_over s \<Longrightarrow> up_results s = map (\<lambda>i. Some (r i)) [0..<n]" by (rule upload_complete [OF inv])
qed

section \<open>Download\<close>

text \<open>What the goroutine of a file writes, and whether it cannot create its file.\<close>

definition download_out :: "man_env \<Rightarrow> (Key \<times> string) list \<Rightarrow> nat \<Rightarrow> string \<times> (join_error, bytes) go" where
  "download_out E files i = (snd (files ! i), read_document (me_fetch E) (DPA_Retrieve E (fst (files ! i))))"

definition creates :: "(string \<Rightarrow> nat option) \<Rightarrow> (Key \<times> string) list \<Rightarrow> nat \<Rightarrow> bool" where
  "creates create files i \<longleftrightarrow> create (snd (files ! i)) = None"

definition dl_tokens :: "(Key \<times> string) list \<Rightarrow> download_pool \<Rightarrow> bool" where
  "dl_tokens files s \<longleftrightarrow> \<not> dl_crashed s \<and> dl_next s \<le> length files \<and> dl_done s \<le> maxParallelFiles
     \<and> dl_done s = length (dl_running s) + length (dl_failed s) + (case dl_result s of Some (Some _) \<Rightarrow> 1 | _ \<Rightarrow> 0)"

definition dl_ranges :: "(string \<Rightarrow> nat option) \<Rightarrow> (Key \<times> string) list \<Rightarrow> download_pool \<Rightarrow> bool" where
  "dl_ranges create files s \<longleftrightarrow> distinct (dl_running s) \<and> (\<forall>i \<in> set (dl_running s). i < dl_next s)
     \<and> distinct (map fst (dl_failed s))
     \<and> (\<forall>x \<in> set (dl_failed s). fst x < dl_next s \<and> fst x \<notin> set (dl_running s) \<and> create (snd (files ! fst x)) = Some (snd x))"

definition dl_written :: "man_env \<Rightarrow> (string \<Rightarrow> nat option) \<Rightarrow> (Key \<times> string) list \<Rightarrow> download_pool \<Rightarrow> bool" where
  "dl_written E create files s \<longleftrightarrow>
     mset (dl_files s) + image_mset (download_out E files) (filter_mset (creates create files) (mset (dl_running s)))
       = image_mset (download_out E files) (filter_mset (creates create files) (mset [0..<dl_next s]))"

definition dl_returned :: "(string \<Rightarrow> nat option) \<Rightarrow> (Key \<times> string) list \<Rightarrow> download_pool \<Rightarrow> bool" where
  "dl_returned create files s \<longleftrightarrow>
     (case dl_result s of
        None \<Rightarrow> \<forall>i < dl_next s. \<not> creates create files i \<longrightarrow> i \<in> fst ` set (dl_failed s) \<or> i \<in> set (dl_running s)
      | Some None \<Rightarrow> dl_next s = length files \<and> dl_running s = [] \<and> (\<forall>i < length files. creates create files i)
      | Some (Some e) \<Rightarrow> dl_next s = length files \<and> (\<exists>i < length files. create (snd (files ! i)) = Some e))"

definition readable :: "man_env \<Rightarrow> (Key \<times> string) list \<Rightarrow> bool" where
  "readable E files \<longleftrightarrow> (\<forall>f \<in> set files. read_document (me_fetch E) (DPA_Retrieve E (fst f)) \<noteq> Panic)"

definition download_inv :: "man_env \<Rightarrow> (string \<Rightarrow> nat option) \<Rightarrow> (Key \<times> string) list \<Rightarrow> download_pool \<Rightarrow> bool" where
  "download_inv E create files s \<longleftrightarrow> readable E files \<and> dl_tokens files s \<and> dl_ranges create files s
     \<and> dl_written E create files s \<and> dl_returned create files s"

lemmas dl_defs = dl_tokens_def dl_ranges_def dl_written_def dl_returned_def

lemma download_inv_start: "readable E files \<Longrightarrow> download_inv E create files download_start"
  by (simp add: download_inv_def download_start_def dl_defs)

lemma download_spawn_inv:
  assumes "download_inv E create files s" "dl_next s < length files" "dl_done s < maxParallelFiles"
  shows "download_inv E create files (s\<lparr>dl_next := dl_next s + 1, dl_done := dl_done s + 1, dl_running := dl_next s # dl_running s\<rparr>)"
    (is "download_inv E create files ?s")
proof -
  have r: "dl_result s = None" using assms(1,2) by (auto simp: download_inv_def dl_returned_def split: option.splits)
  have "dl_tokens files ?s" using assms r by (auto simp: download_inv_def dl_tokens_def)
  moreover have "dl_ranges create files ?s" using assms(1) by (fastforce simp: download_inv_def dl_ranges_def)
  moreover have "dl_written E create files ?s" using assms(1) by (simp add: download_inv_def dl_written_def)
  moreover have "dl_returned create files ?s" using assms(1) r by (auto simp: download_inv_def dl_returned_def less_Suc_eq)
  ultimately show ?thesis using assms(1) by (simp add: download_inv_def)
qed

lemma download_worker_cases:
  assumes inv: "download_inv E create files s" and i: "i \<in> set (dl_running s)"
  obtains e where "create (snd (files ! i)) = Some e" "\<not> creates create files i"
      "download_worker E create files i s = s\<lparr>dl_running := remove1 i (dl_running s), dl_failed := dl_failed s @ [(i, e)]\<rparr>"
  | "creates create files i"
      "download_worker E create files i s = s\<lparr>dl_running := remove1 i (dl_running s),
         dl_files := dl_files s @ [download_out E files i], dl_done := dl_done s - 1\<rparr>"
proof (cases "create (snd (files ! i))")
  case None
  have "i < length files" using inv i by (auto simp: download_inv_def dl_ranges_def dl_tokens_def)
  then have "read_document (me_fetch E) (DPA_Retrieve E (fst (files ! i))) \<noteq> Panic"
    using inv nth_mem by (auto simp: download_inv_def readable_def)
  then show thesis
    using None that(2) by (cases "read_document (me_fetch E) (DPA_Retrieve E (fst (files ! i)))")
      (auto simp: download_worker_def creates_def download_out_def Let_def case_prod_unfold)
next
  case (Some e)
  then show thesis using that(1) by (auto simp: download_worker_def creates_def Let_def case_prod_unfold)
qed

lemma download_worker_inv:
  assumes inv: "download_inv E create files s" and i: "i \<in> set (dl_running s)"
  shows "download_inv E create files (download_worker E create files i s)"
proof -
  obtain R where ms: "mset (dl_running s) = add_mset i R" using i mset_add [of i "mset (dl_running s)"] by auto
  show ?thesis using inv i
  proof (cases rule: download_worker_cases)
    case (1 e)
    let ?s = "s\<lparr>dl_running := remove1 i (dl_running s), dl_failed := dl_failed s @ [(i, e)]\<rparr>"
    have "dl_tokens files ?s" using inv remove1_length [OF i] by (auto simp: download_inv_def dl_tokens_def)
    moreover have "dl_ranges create files ?s" using inv i 1(1) by (auto simp: download_inv_def dl_ranges_def dest: notin_set_remove1)
    moreover have "dl_written E create files ?s" using inv ms 1(2) by (simp add: download_inv_def dl_written_def)
    moreover have "dl_returned create files ?s" using inv i by (auto simp: download_inv_def dl_returned_def split: option.splits)
    ultimately show ?thesis using inv 1(3) by (simp add: download_inv_def)
  next
    case 2
    let ?s = "s\<lparr>dl_running := remove1 i (dl_running s), dl_files := dl_files s @ [download_out E files i], dl_done := dl_done s - 1\<rparr>"
    have "dl_tokens files ?s" using inv remove1_length [OF i] by (auto simp: download_inv_def dl_tokens_def)
    moreover have "dl_ranges create files ?s" using inv i by (auto simp: download_inv_def dl_ranges_def dest: notin_set_remove1)
    moreover have "dl_written E create files ?s" using inv ms 2(1) by (simp add: download_inv_def dl_written_def)
    moreover have "dl_returned create files ?s" 
      using inv i 2(1) by (auto simp: download_inv_def dl_returned_def split: option.splits) (metis in_set_remove1)
    ultimately show ?thesis using inv 2(2) by (simp add: download_inv_def)
  qed
qed

lemma download_receive_inv:
  assumes inv: "download_inv E create files s" and f: "map_of (dl_failed s) i = Some e" "length files \<le> dl_next s" "dl_result s = None"
  shows "download_inv E create files (s\<lparr>dl_failed := filter (\<lambda>x. fst x \<noteq> i) (dl_failed s), dl_result := Some (Some e)\<rparr>)"
    (is "download_inv E create files ?s")
proof -
  have i: "(i, e) \<in> set (dl_failed s)" using f(1) by (rule map_of_SomeD)
  have d: "distinct (map fst (dl_failed s))" using inv by (simp add: download_inv_def dl_ranges_def)
  have "length (filter (\<lambda>x. fst x \<noteq> i) (dl_failed s)) + 1 = length (dl_failed s)" by (rule filter_key_length [OF d i])
  then have "dl_tokens files ?s" using inv f(3) by (auto simp: download_inv_def dl_tokens_def)
  moreover have "dl_ranges create files ?s" using inv by (auto simp: download_inv_def dl_ranges_def distinct_map_filter)
  moreover have "dl_written E create files ?s" using inv by (simp add: download_inv_def dl_written_def)
  moreover have "dl_returned create files ?s" 
    using inv i f(2) by (auto simp: download_inv_def dl_returned_def dl_ranges_def dl_tokens_def intro!: exI [of _ i])
  ultimately show ?thesis using inv by (simp add: download_inv_def)
qed

lemma download_closed_inv:
  assumes inv: "download_inv E create files s" and f: "length files \<le> dl_next s" "dl_running s = []" "dl_failed s = []" "dl_result s = None"
  shows "download_inv E create files (s\<lparr>dl_result := Some None\<rparr>)"
  using assms by (auto simp: download_inv_def dl_defs)

interpretation download: event_invariant "download_step E create files" "\<lambda>_. True" "download_inv E create files" for E create files
proof
  fix s e s'
  assume inv: "download_inv E create files s" and st: "download_step E create files e s = Some s'"
  show "download_inv E create files s'"
  proof (cases e)
    case DlSpawn
    then show ?thesis using download_spawn_inv [OF inv] st by (auto simp: download_step_def split: if_splits)
  next
    case (DlWorker i)
    then show ?thesis using download_worker_inv [OF inv] st by (auto simp: download_step_def split: if_splits)
  next
    case (DlReceive i)
    then show ?thesis using download_receive_inv [OF inv] st by (auto simp: download_step_def split: if_splits option.splits)
  next
    case DlClosed
    then show ?thesis using download_closed_inv [OF inv] st by (auto simp: download_step_def split: if_splits)
  qed
qed

definition download_left :: "nat \<Rightarrow> download_pool \<Rightarrow> nat" where
  "download_left n s = 2 * (n - dl_next s) + length (dl_running s) + (if dl_result s = None then 1 else 0)"

lemma download_left_less:
  assumes inv: "download_inv E create files s" and st: "download_step E create files e s = Some s'"
  shows "download_left (length files) s' < download_left (length files) s"
proof (cases e)
  case (DlWorker i)
  then have i: "i \<in> set (dl_running s)" "s' = download_worker E create files i s"
    using st by (auto simp: download_step_def split: if_splits)
  show ?thesis using inv i(1) by (cases rule: download_worker_cases) (use i remove1_length [OF i(1)] in \<open>auto simp: download_left_def\<close>)
qed (use st in \<open>auto simp: download_step_def download_left_def split: if_splits option.splits\<close>)

lemma download_run:
  assumes "readable E files" "run_events (download_step E create files) es download_start = Some s"
  shows "download_inv E create files s" "length es \<le> 2 * length files + 1"
proof -
  show inv: "download_inv E create files s"
    using download.run_inv [OF download_inv_start [OF assms(1)] _ assms(2)] by (simp add: list_all_iff)
  have "length es + download_left (length files) s \<le> download_left (length files) download_start"
    by (rule run_measure [where I = "download_inv E create files", OF _ download_inv_start [OF assms(1)] assms(2)])
      (use download.preserved download_left_less in auto)
  then show "length es \<le> 2 * length files + 1" by (simp add: download_left_def download_start_def)
qed

lemma download_stuck:
  assumes inv: "download_inv E create files s" and stop: "\<forall>e. download_step E create files e s = None"
  shows "dl_running s = []" "dl_result s = None \<Longrightarrow> dl_next s < length files \<and> length (dl_failed s) = maxParallelFiles"
proof -
  have nc: "\<not> dl_crashed s" using inv by (simp add: download_inv_def dl_tokens_def)
  have "i \<notin> set (dl_running s)" for i using stop [rule_format, of "DlWorker i"] nc by (auto simp: download_step_def split: if_splits)
  then show r: "dl_running s = []" by (cases "dl_running s") auto
  assume n: "dl_result s = None"
  have "dl_next s < length files"
  proof (rule ccontr)
    assume l: "\<not> dl_next s < length files"
    show False
    proof (cases "dl_failed s")
      case Nil
      then show False using stop [rule_format, of DlClosed] nc r n l by (simp add: download_step_def)
    next
      case (Cons x xs)
      then show False using stop [rule_format, of "DlReceive (fst x)"] nc n l by (cases x) (simp add: download_step_def)
    qed
  qed
  moreover have "maxParallelFiles \<le> dl_done s"
    using stop [rule_format, of DlSpawn] nc calculation by (auto simp: download_step_def split: if_splits)
  ultimately show "dl_next s < length files \<and> length (dl_failed s) = maxParallelFiles"
    using inv r n by (simp add: download_inv_def dl_tokens_def)
qed

end
