(* ===== verification/File_Props.thy ===== *)
theory File_Props
  imports File_Laws File_Pools Http_Props Upload_Props Manifest_List
begin

text \<open>
  Properties of uploads and downloads: an uploaded directory is served file by file, whatever the schedule of the
  pool; how a download ends; and the paths it writes to.
\<close>

declare files_below.simps [simp del]

section \<open>Uploaded files\<close>

text \<open>The content type a file is entered with.\<close>

definition upload_mime :: "(bytes \<Rightarrow> string) \<Rightarrow> string list \<Rightarrow> bytes \<Rightarrow> string" where
  "upload_mime detect p data =
     (if data = [] then '''' else if filepath_Ext (join_slash p) = ''.css'' then ''text/css'' else detect (take 512 data))"

lemma Ext_below: "p \<noteq> [] \<Longrightarrow> filepath_Ext (abs_path (ls @ p)) = filepath_Ext (join_slash p)"
proof -
  have e: "filepath_Ext (x @ slash # q) = filepath_Ext q" for x q
    by (simp add: filepath_Ext_def takeWhile_append2 takeWhile_tail)
  assume "p \<noteq> []"
  then have "abs_path (ls @ p) = (if ls = [] then [] else slash # join_slash ls) @ slash # join_slash p"
    by (simp add: abs_path_def join_slash_append)
  then show ?thesis using e by metis
qed

definition uploaded_entry :: "(bytes \<Rightarrow> string) \<Rightarrow> string list \<Rightarrow> (string list \<times> bytes \<Rightarrow> Key) \<Rightarrow> string list \<times> bytes \<Rightarrow> uploaded" where
  "uploaded_entry detect ls key f = (abs_path (ls @ fst f), hex_encode (key f), upload_mime detect (fst f) (snd f))"

lemma upload_file_below:
  assumes "list_all name_ok ls" "node_at disk ls = Some (Directory r)" "fnode_ok (Directory r)" "f \<in> set (files_below (Directory r))"
    "Api_Store E wg [(snd f, None)] (length (snd f)) = Ret (Inr (key f, cs f))" "length (key f) = 32"
  shows "upload_file E detect wg disk (abs_path (ls @ fst f)) = Ret (upload_ok (uploaded_entry detect ls key f), cs f)"
  using Open_below [OF assms(1-4)] assms(5) hex_key(1) [OF assms(6)] Ext_below [OF files_below_dir [OF assms(4)], of ls]
  by (simp add: upload_file_def upload_ok_def uploaded_entry_def upload_mime_def Let_def)

lemma uploaded_walk_order:
  assumes "list_all name_ok ls" "fnode_ok (Directory r)" "\<forall>b. detect b \<noteq> manifestType"
  shows "walk_order (length (abs_path ls)) (map (uploaded_entry detect ls key) (files_below (Directory r)))"
    "f \<in> set (files_below (Directory r)) \<Longrightarrow> upload_path (length (abs_path ls)) (uploaded_entry detect ls key f) = join_slash (fst f)"
proof -
  let ?F = "files_below (Directory r)"
  show path: "upload_path (length (abs_path ls)) (uploaded_entry detect ls key f) = join_slash (fst f)" if "f \<in> set ?F" for f
    using relative_path [OF assms(1) files_below_names [OF assms(2) that]] by (simp add: upload_path_def uploaded_entry_def)
  have "sorted_wrt (\<lambda>u v. \<not> prefix (upload_path (length (abs_path ls)) v) (upload_path (length (abs_path ls)) u)) (map (uploaded_entry detect ls key) ?F)"
    unfolding sorted_wrt_map by (rule sorted_wrt_mono_rel [OF _ files_below_sorted [OF assms(2)]]) (simp only: path, simp)
  moreover have "upload_path (length (abs_path ls)) (uploaded_entry detect ls key f) \<noteq> []" if "f \<in> set ?F" for f
    using path [OF that] files_below_names [OF assms(2) that] files_below_dir [OF that] join_slash_Nil by simp
  moreover have "snd (snd (uploaded_entry detect ls key f)) \<noteq> manifestType" for f
    using assms(3) by (simp add: uploaded_entry_def upload_mime_def manifestType_def)
  ultimately show "walk_order (length (abs_path ls)) (map (uploaded_entry detect ls key) ?F)"
    by (auto simp: walk_order_def)
qed

text \<open>What the goroutines leave when the pool has ended.\<close>

lemma upload_pool_result:
  assumes dir: "list_all name_ok ls" "node_at disk ls = Some (Directory r)" "fnode_ok (Directory r)"
    and st: "\<forall>f \<in> set (files_below (Directory r)).
        Api_Store E wg [(snd f, None)] (length (snd f)) = Ret (Inr (key f, cs f)) \<and> length (key f) = 32"
    and run: "files = map (\<lambda>f. abs_path (ls @ fst f)) (files_below (Directory r))"
      "run_events (upload_step (\<lambda>i. upload_file E detect wg disk (files ! i))) es (upload_start (length files)) = Some s"
      "\<forall>e. upload_step (\<lambda>i. upload_file E detect wg disk (files ! i)) e s = None"
  shows "List.map_filter (\<lambda>r. r) (up_results s) =
     map (\<lambda>f. (upload_ok (uploaded_entry detect ls key f), cs f)) (files_below (Directory r))"
proof -
  let ?F = "files_below (Directory r)"
  let ?r = "\<lambda>i. (upload_ok (uploaded_entry detect ls key (?F ! i)), cs (?F ! i))"
  have w: "\<forall>i < length files. upload_file E detect wg disk (files ! i) = Ret (?r i)"
  proof (intro allI impI)
    fix i
    assume i: "i < length files"
    then have "?F ! i \<in> set ?F" "files ! i = abs_path (ls @ fst (?F ! i))" using run(1) by (simp_all)
    then show "upload_file E detect wg disk (files ! i) = Ret (?r i)" using upload_file_below [OF dir] st by metis
  qed
  have "up_results s = map (\<lambda>i. Some (?r i)) [0..<length files]"
    using upload_run(3,4) [OF w run(2)] run(3) by blast
  then have "List.map_filter (\<lambda>r. r) (up_results s) = map ?r [0..<length ?F]"
    using run(1) by (simp add: map_filter_def comp_def del: upt_Suc)
  also have "\<dots> = map (\<lambda>f. (upload_ok (uploaded_entry detect ls key f), cs f)) ?F"
    by (rule nth_equalityI) simp_all
  finally show ?thesis .
qed

lemma upload_manifest_reloads:
  assumes later: "later E E' mm n" "package_manifests E" and us: "walk_order start us"
      "\<forall>u \<in> set us. ascii (upload_path start u) \<and> ascii (fst (snd u)) \<and> ascii (snd (snd u))"
    and up: "Upload_manifest (loadManifest n E) E start index (map upload_ok us) = Ret (Inr (hs, cs))" "serves (me_fetch E') cs"
  shows "\<exists>k t m. hs = Key_String k \<and> length k = 32 \<and> loadManifest (Suc n) E' k = Ret (Inr t)
    \<and> listable (loadManifest (Suc n) E') m t \<and> (\<forall>q. opens (loadManifest (Suc n) E') t q)
    \<and> (\<forall>u \<in> set us. look (loadManifest (Suc n) E') t (upload_path start u) = Some (upload_doc u))
    \<and> (\<forall>q. q \<notin> upload_path start ` set us \<and> q \<noteq> [] \<longrightarrow> look (loadManifest (Suc n) E') t q = None)"
proof -
  let ?L = "loadManifest n E" and ?L' = "loadManifest (Suc n) E'"
  have ld: "trie_loader ?L True" by (rule package_loader [OF later(2)])
  have new: "\<forall>q. opens ?L newTrie q" "\<forall>q. inner ?L newTrie q \<longrightarrow> (\<exists>d \<in> {}. prefix q d)" "\<And>q. look ?L newTrie q = None"
    by (simp_all add: newTrie_def opens_slot inner_slot look_slot)
  obtain t where t: "Upload_entries ?L start index newTrie (map upload_ok us) = Ret (Inr t)" "mtrie_ok True t" "\<forall>q. opens ?L t q"
    "\<forall>q. inner ?L t q \<longrightarrow> (\<exists>d \<in> upload_path start ` set us. prefix q d)"
    "\<forall>u \<in> set us. look ?L t (upload_path start u) = Some (upload_doc u)"
    "\<forall>q. q \<notin> upload_path start ` set us \<and> q \<noteq> [] \<longrightarrow> look ?L t q = None"
    using Upload_entries_found [OF ld mtrie_ok_new new(1,2) us(1), of index] us(2) new(3) by auto
  define m where "m = Suc (sum_list (map (\<lambda>u. length (upload_path start u)) us))"
  have "length q < m" if q: "inner ?L t q" for q
  proof -
    obtain u where "u \<in> set us" "prefix q (upload_path start u)" using t(4) q by blast
    then show ?thesis
      using prefix_length_le member_le_sum_list [of "length (upload_path start u)" "map (\<lambda>u. length (upload_path start u)) us"]
      by (fastforce simp: m_def)
  qed
  then have l: "listable ?L (Suc m) t" using listable_bounded [OF ld t(2,3)] by blast
  obtain t' where t': "recalcAndStore E t = Ret (None, t', cs)" "hs = Key_String (case mt_hash t' of None \<Rightarrow> [] | Some k \<Rightarrow> k)"
    using up(1) t(1) by (auto simp: Upload_manifest_def go_bind_Ret_iff split: option.splits)
  obtain k t2 where k: "mt_hash t' = Some k" "length k = 32" "?L' k = Ret (Inr t2)" "same_map ?L ?L' t t2"
    using recalc_reloads(1) [OF later(1) t'(1) t(2) up(2)] by blast
  have "opens ?L' t2 q \<and> look ?L' t2 q = look ?L t q" for q using k(4) t(3) by (simp add: same_map_def)
  moreover have "listable ?L' (Suc m) t2" using k(4) l by (simp add: same_map_def del: listable.simps)
  ultimately show ?thesis using k(1-3) t'(2) t(5,6) by (intro exI [of _ k] exI [of _ t2] exI [of _ "Suc m"]) auto
qed

lemma Upload_finish_Ret:
  assumes "Upload_finish ld E start index s = Ret (Inr (hs, cs))" "List.map_filter (\<lambda>r. r) (up_results s) = rs"
  shows "\<exists>cs'. Upload_manifest ld E start index (map fst rs) = Ret (Inr (hs, cs')) \<and> cs = concat (map snd rs) @ cs'"
proof (cases "Upload_manifest ld E start index (map fst rs)")
  case (Ret res)
  then show ?thesis using assms by (cases res) (auto simp: Upload_finish_def)
qed (use assms in \<open>simp_all add: Upload_finish_def\<close>)

text \<open>What an upload leaves: the manifest under its root knows the files, and the files can be read.\<close>

lemma uploaded_manifest:
  assumes later: "later E E' mm n" "package_manifests E"
    and dir: "filepath_Abs wd (filepath_Clean lpath) = Some (abs_path ls)" "list_all name_ok ls"
      "node_at disk ls = Some (Directory r)" "fnode_ok (Directory r)"
    and plain: "\<forall>f \<in> set (files_below (Directory r)). ascii (join_slash (fst f)) \<and> splitter_ok (me_chunker E) (snd f)"
      "\<forall>b. ascii (detect b) \<and> detect b \<noteq> manifestType"
    and up: "Upload_files wd disk lpath = Inr (start, files)"
      "run_events (upload_step (\<lambda>i. upload_file E detect wg disk (files ! i))) es (upload_start (length files)) = Some s"
      "\<forall>e. upload_step (\<lambda>i. upload_file E detect wg disk (files ! i)) e s = None"
      "Upload_finish (loadManifest n E) E start index s = Ret (Inr (hs, cs))" "serves (me_fetch E') cs"
  shows "\<exists>k t m key. hs = Key_String k \<and> length k = 32 \<and> loadManifest (Suc n) E' k = Ret (Inr t)
    \<and> listable (loadManifest (Suc n) E') m t \<and> (\<forall>q. opens (loadManifest (Suc n) E') t q)
    \<and> (\<forall>f \<in> set (files_below (Directory r)).
         look (loadManifest (Suc n) E') t (join_slash (fst f)) = Some (hex_encode (key f), upload_mime detect (fst f) (snd f), 0)
         \<and> length (key f) = 32 \<and> (snd f \<noteq> [] \<longrightarrow> (\<exists>cs'. reads_back E (key f) cs' (snd f) \<and> serves (me_fetch E') cs')))
    \<and> (\<forall>q. q \<noteq> [] \<and> q \<notin> (\<lambda>f. join_slash (fst f)) ` set (files_below (Directory r)) \<longrightarrow> look (loadManifest (Suc n) E') t q = None)"
proof -
  let ?F = "files_below (Directory r)" and ?start = "length (abs_path ls)"
  have "\<forall>f \<in> set ?F. \<exists>x. Api_Store E wg [(snd f, None)] (length (snd f)) = Ret (Inr x) \<and> length (fst x) = 32
      \<and> (snd f \<noteq> [] \<longrightarrow> reads_back E (fst x) (snd x) (snd f))"
    using stored_reader [of "[(d, None)]" d E wg for d] plain(1) by (fastforce simp: reader_clean_def)
  then obtain x where x: "\<forall>f \<in> set ?F. Api_Store E wg [(snd f, None)] (length (snd f)) = Ret (Inr (x f)) \<and> length (fst (x f)) = 32
      \<and> (snd f \<noteq> [] \<longrightarrow> reads_back E (fst (x f)) (snd (x f)) (snd f))" by metis
  define key where "key = (\<lambda>f. fst (x f))"
  define u where "u = uploaded_entry detect ls key"
  have fs: "start = ?start" "files = map (\<lambda>f. abs_path (ls @ fst f)) ?F"
    using up(1) Upload_files_dir [OF dir] by simp_all
  have rs: "List.map_filter (\<lambda>r. r) (up_results s) = map (\<lambda>f. (upload_ok (u f), snd (x f))) ?F"
    using upload_pool_result [OF dir(2-4) _ fs(2) up(2,3), of key "\<lambda>f. snd (x f)"] x by (simp add: key_def u_def)
  obtain cs2 where fin: "Upload_manifest (loadManifest n E) E ?start index (map upload_ok (map u ?F)) = Ret (Inr (hs, cs2))"
    "cs = concat (map (\<lambda>f. snd (x f)) ?F) @ cs2"
    using Upload_finish_Ret [OF up(4) rs] fs(1) by (auto simp: comp_def)
  have sv: "serves (me_fetch E') cs2" "\<And>f. f \<in> set ?F \<Longrightarrow> serves (me_fetch E') (snd (x f))"
    using up(5) unfolding fin(2) by (auto simp: list_all_iff)
  have "\<forall>b. detect b \<noteq> manifestType" using plain(2) by blast
  note wo = uploaded_walk_order [OF dir(2,4) this, where key = key, folded u_def]
  have "ascii (upload_path ?start (u f)) \<and> ascii (fst (snd (u f))) \<and> ascii (snd (snd (u f)))" if "f \<in> set ?F" for f
    using wo(2) [OF that] plain that ascii_hex by (auto simp: u_def uploaded_entry_def upload_mime_def) (simp add: ascii_def)
  then have "\<forall>v \<in> set (map u ?F). ascii (upload_path ?start v) \<and> ascii (fst (snd v)) \<and> ascii (snd (snd v))"
    by (simp)
  then obtain k t m where k: "hs = Key_String k" "length k = 32" "loadManifest (Suc n) E' k = Ret (Inr t)"
    "listable (loadManifest (Suc n) E') m t" "\<forall>q. opens (loadManifest (Suc n) E') t q"
    and found: "\<forall>v \<in> set (map u ?F). look (loadManifest (Suc n) E') t (upload_path ?start v) = Some (upload_doc v)"
      "\<forall>q. q \<notin> upload_path ?start ` set (map u ?F) \<and> q \<noteq> [] \<longrightarrow> look (loadManifest (Suc n) E') t q = None"
    using upload_manifest_reloads [OF later wo(1) _ fin(1) sv(1)] by blast
  have paths: "upload_path ?start ` set (map u ?F) = (\<lambda>f. join_slash (fst f)) ` set ?F" using wo(2) by (simp add: image_image)
  have "look (loadManifest (Suc n) E') t (join_slash (fst f)) = Some (hex_encode (key f), upload_mime detect (fst f) (snd f), 0)"
    if "f \<in> set ?F" for f
    using found(1) wo(2) [OF that] that by (force simp: u_def uploaded_entry_def upload_doc_def)
  moreover have "length (key f) = 32 \<and> (snd f \<noteq> [] \<longrightarrow> (\<exists>cs'. reads_back E (key f) cs' (snd f) \<and> serves (me_fetch E') cs'))"
    if "f \<in> set ?F" for f using x that sv(2) [OF that] unfolding key_def by blast
  ultimately show ?thesis
    using k found(2) unfolding paths by (intro exI [of _ k] exI [of _ t] exI [of _ m] exI [of _ key]) blast
qed

text \<open>
  C11: an uploaded directory is served file by file. Let all names below the directory be plain text and
  all files readable. Under every schedule, when the pool of \<open>Upload\<close> has no move left and \<open>Upload\<close> returns the root \<open>hs\<close>,
  and where the chunks it stored are served, a \<open>GET\<close> of a file's path relative to the directory under \<open>/bzz:/hs/\<close> is answered with status 200,
  the detected content type and the bytes of the file.
\<close>

theorem upload_then_get:
  assumes later: "later E E' mm n" "package_manifests E"
    and dir: "filepath_Abs wd (filepath_Clean lpath) = Some (abs_path ls)" "list_all name_ok ls"
      "node_at disk ls = Some (Directory r)" "fnode_ok (Directory r)"
    and plain: "\<forall>f \<in> set (files_below (Directory r)). ascii (join_slash (fst f)) \<and> splitter_ok (me_chunker E) (snd f)"
      "\<forall>b. ascii (detect b) \<and> detect b \<noteq> manifestType"
    and up: "Upload_files wd disk lpath = Inr (start, files)"
      "run_events (upload_step (\<lambda>i. upload_file E detect wg disk (files ! i))) es (upload_start (length files)) = Some s"
      "\<forall>e. upload_step (\<lambda>i. upload_file E detect wg disk (files ! i)) e s = None"
      "Upload_finish (loadManifest n E) E start index s = Ret (Inr (hs, cs))" "serves (me_fetch E') cs"
    and f: "(p, data) \<in> set (files_below (Directory r))" "data \<noteq> []"
    and g: "rq_Method g = ''GET''" "rq_Path g = ''/bzz:/'' @ hs @ ''/'' @ join_slash p"
  shows "\<exists>as. handler (Suc n) E' dns l g = Ret (as, []) \<and> respond E' g as =
     \<lparr>rp_Status = 200, rp_ContentType = upload_mime detect p data, rp_Location = '''', rp_Body = Bytes data\<rparr>"
proof -
  let ?L = "loadManifest (Suc n) E'"
  obtain k t m key cs' where k: "hs = Key_String k" "length k = 32" "?L k = Ret (Inr t)"
    and lk: "opens ?L t (join_slash p)" "look ?L t (join_slash p) = Some (hex_encode (key (p, data)), upload_mime detect p data, 0)"
    and key: "length (key (p, data)) = 32" "reads_back E (key (p, data)) cs' data" "serves (me_fetch E') cs'"
    using uploaded_manifest [OF later dir plain up] f by fastforce
  have pn: "list_all name_ok p" "p \<noteq> []" using files_below_names [OF dir(4) f(1)] files_below_dir [OF f(1)] by simp_all
  have ch: "me_chunker E' = me_chunker E" using later(1) by (simp add: later_def Let_def)
  show ?thesis
    using http_get_known [OF k(2,3) lk regular_join_slash [OF pn(1)] _ key(1,2) ch key(3) g(1)] g(2) k(1) pn join_slash_Nil by simp
qed

definition demo_dir :: fnode where
  "demo_dir = Directory (Inr [(''x'', File (Inr [9]))])"

definition demo_disk :: fnode where
  "demo_disk = Directory (Inr [(''d'', demo_dir)])"

definition demo_detect :: "bytes \<Rightarrow> string" where
  "demo_detect b = ''text/html''"

definition demo_work :: "nat \<Rightarrow> (upload \<times> Chunk list) mrun" where
  "demo_work i = upload_file (codec_env no_fetch) demo_detect None demo_disk ([''/d/x''] ! i)"

definition demo_pool :: "(upload \<times> Chunk list) upload_pool" where
  "demo_pool = the (run_events (upload_step demo_work) [UpMain, UpWorker 0, UpMain] (upload_start 1))"

definition demo_uploaded :: "Chunk list" where
  "demo_uploaded = snd (stored_text [9]) @ snd (stored_text [5])"

lemma demo_upload_run: "run_events (upload_step demo_work) [UpMain, UpWorker 0, UpMain] (upload_start 1) = Some demo_pool"
  by code_simp

lemma demo_finish: "Upload_finish (loadManifest 0 (codec_env no_fetch)) (codec_env no_fetch) 2 '''' demo_pool =
    Ret (Inr (Key_String (fst (stored_text [5])), demo_uploaded))"
  by code_simp

lemma demo_dir_facts:
  "filepath_Abs None (filepath_Clean ''/d'') = Some (abs_path [''d''])" "list_all name_ok [''d'']"
  "node_at demo_disk [''d''] = Some demo_dir" "fnode_ok demo_dir" "files_below demo_dir = [([''x''], [9])]"
  "Upload_files None demo_disk ''/d'' = Inr (2, [''/d/x''])"
  by code_simp+

lemma demo_pool_over: "upload_step demo_work e demo_pool = None"
proof -
  have "upload_over demo_pool" by code_simp
  moreover have "\<forall>i < 1. demo_work i = Ret (the (up_results demo_pool ! 0))" by code_simp
  ultimately show ?thesis using upload_run(3) [of 1 demo_work "\<lambda>i. the (up_results demo_pool ! 0)", OF _ demo_upload_run] by blast
qed

text \<open>The hypotheses of an upload, for this directory.\<close>

lemma demo_upload:
  "later (codec_env no_fetch) (codec_env (fetch_of demo_uploaded)) 0 0" "serves (me_fetch (codec_env (fetch_of demo_uploaded))) demo_uploaded"
  "\<forall>f \<in> set (files_below demo_dir). ascii (join_slash (fst f)) \<and> splitter_ok (me_chunker (codec_env no_fetch)) (snd f)"
  "\<forall>b. ascii (demo_detect b) \<and> demo_detect b \<noteq> manifestType"
  "run_events (upload_step (\<lambda>i. upload_file (codec_env no_fetch) demo_detect None demo_disk ([''/d/x''] ! i))) [UpMain, UpWorker 0, UpMain]
      (upload_start (length [''/d/x''])) = Some demo_pool"
  "\<forall>e. upload_step (\<lambda>i. upload_file (codec_env no_fetch) demo_detect None demo_disk ([''/d/x''] ! i)) e demo_pool = None"
proof -
  show "later (codec_env no_fetch) (codec_env (fetch_of demo_uploaded)) 0 0" by (rule demo_later [OF demo_no_fetch])
  show "serves (me_fetch (codec_env (fetch_of demo_uploaded))) demo_uploaded" by code_simp
  show "\<forall>f \<in> set (files_below demo_dir). ascii (join_slash (fst f)) \<and> splitter_ok (me_chunker (codec_env no_fetch)) (snd f)"
    using demo_splitter [of no_fetch] by (simp add: demo_dir_facts(5) ascii_def)
  show "\<forall>b. ascii (demo_detect b) \<and> demo_detect b \<noteq> manifestType" by (simp add: demo_detect_def ascii_def manifestType_def)
qed (use demo_upload_run demo_pool_over in \<open>simp_all add: demo_work_def [abs_def]\<close>)

lemmas demo_dir_open = demo_dir_facts(1,2) demo_dir_facts(3,4) [unfolded demo_dir_def]

theorem upload_then_get_witness:
  "\<exists>as. handler 1 (codec_env (fetch_of demo_uploaded)) None True (demo_request ''GET'' (''/bzz:/'' @ Key_String (fst (stored_text [5])) @ ''/'' @ join_slash [''x''])) = Ret (as, [])
    \<and> respond (codec_env (fetch_of demo_uploaded)) (demo_request ''GET'' (''/bzz:/'' @ Key_String (fst (stored_text [5])) @ ''/'' @ join_slash [''x''])) as =
      \<lparr>rp_Status = 200, rp_ContentType = ''text/html'', rp_Location = '''', rp_Body = Bytes [9]\<rparr>"
proof -
  let ?g = "demo_request ''GET'' (''/bzz:/'' @ Key_String (fst (stored_text [5])) @ ''/'' @ join_slash [''x''])"
  have f: "([''x''], [9]) \<in> set (files_below demo_dir)" by (simp add: demo_dir_facts(5))
  have g: "rq_Method ?g = ''GET''" "rq_Path ?g = ''/bzz:/'' @ Key_String (fst (stored_text [5])) @ ''/'' @ join_slash [''x'']"
    by (simp_all add: demo_request_def)
  have "upload_mime demo_detect [''x''] [9] = ''text/html''" by code_simp
  then show ?thesis
    using upload_then_get [OF demo_upload(1) demo_package demo_dir_open demo_upload(3) [unfolded demo_dir_def] demo_upload(4) demo_dir_facts(6)
        demo_upload(5,6) demo_finish demo_upload(2) f [unfolded demo_dir_def] _ g, of None True] by simp
qed

section \<open>The pool of an upload\<close>

text \<open>
  The pool of \<open>Upload\<close> stores every file. Under every schedule at most five goroutines run at a time, the
  run ends after at most three moves per file, and it stops exactly when both loops have ended; then every file has its
  result, as if the files had been stored one after the other.
\<close>

theorem upload_pool_any_order:
  assumes "\<forall>i < length files. upload_file E detect wg disk (files ! i) = Ret (r i)"
    "run_events (upload_step (\<lambda>i. upload_file E detect wg disk (files ! i))) es (upload_start (length files)) = Some s"
  shows "length (up_running s) \<le> maxParallelFiles \<and> length es \<le> 3 * length files
    \<and> ((\<forall>e. upload_step (\<lambda>i. upload_file E detect wg disk (files ! i)) e s = None) \<longleftrightarrow> upload_over s)
    \<and> (upload_over s \<longrightarrow> up_results s = map (\<lambda>i. Some (r i)) [0..<length files])"
  using upload_run [OF assms] by blast

theorem upload_pool_any_order_witness:
  "up_results demo_pool = [Some (the (up_results demo_pool ! 0))] \<and> length (up_running demo_pool) \<le> 5"
proof -
  let ?r = "the (up_results demo_pool ! 0)"
  have "\<forall>i < length [''/d/x'']. upload_file (codec_env no_fetch) demo_detect None demo_disk ([''/d/x''] ! i) = Ret ?r" by code_simp
  from upload_pool_any_order [OF this demo_upload(5)] demo_upload(6)
  show ?thesis by (simp add: maxParallelFiles_def)
qed

end
