(* ===== verification/File_Download.thy ===== *)
theory File_Download
  imports File_Props
begin

text \<open>
  Properties of downloads: how the pool ends, when it never does, what reaches the disk when a directory is uploaded
  and downloaded again, and paths that leave the target directory.
\<close>

section \<open>How a download ends\<close>

lemma download_returned:
  assumes "download_inv E create files s" "dl_result s = Some None"
  shows "\<forall>f \<in> set files. create (snd f) = None"
    "mset (dl_files s) = mset (map (\<lambda>f. (snd f, read_document (me_fetch E) (DPA_Retrieve E (fst f)))) files)"
proof -
  have r: "dl_next s = length files" "dl_running s = []" and c: "\<forall>i < length files. creates create files i"
    using assms by (auto simp: download_inv_def dl_returned_def)
  show "\<forall>f \<in> set files. create (snd f) = None" using c by (metis creates_def in_set_conv_nth)
  have "filter_mset (creates create files) (mset [0..<length files]) = mset [0..<length files]"
    using c by (auto simp: filter_mset_eq_conv simp del: mset_upt)
  then have "mset (dl_files s) = mset (map (download_out E files) [0..<length files])"
    using assms(1) r by (simp add: download_inv_def dl_written_def)
  also have "map (download_out E files) [0..<length files] = map (\<lambda>f. (snd f, read_document (me_fetch E) (DPA_Retrieve E (fst f)))) files"
    by (rule nth_equalityI) (simp_all add: download_out_def)
  finally show "mset (dl_files s) = mset (map (\<lambda>f. (snd f, read_document (me_fetch E) (DPA_Retrieve E (fst f)))) files)" .
qed

lemma download_succeeds:
  assumes inv: "download_inv E create files s" and stop: "\<forall>e. download_step E create files e s = None" and c: "\<forall>p. create p = None"
  shows "dl_result s = Some None"
proof (cases "dl_result s")
  case None
  then obtain x where "x \<in> set (dl_failed s)"
    using download_stuck(2) [OF inv stop] by (cases "dl_failed s") (auto simp: maxParallelFiles_def)
  then have "create (snd (files ! fst x)) = Some (snd x)" using inv unfolding download_inv_def dl_ranges_def by blast
  then show ?thesis using c by simp
next
  case (Some res)
  then show ?thesis using inv c by (cases res) (auto simp: download_inv_def dl_returned_def)
qed

text \<open>
  C21: how a download ends. Every run of the pool of \<open>Download\<close> is finite. When no move is left,
  it has returned without error, and then all files could be created and each was written with
  what reading its document gave, be it an error; or it has returned the error of a file that could not be created;
  or it has not returned, and five files that could not be created hold the pool for ever.
\<close>

theorem download_outcomes:
  assumes "readable E files" "run_events (download_step E create files) es download_start = Some s"
  shows "length es \<le> 2 * length files + 1
    \<and> ((\<forall>e. download_step E create files e s = None) \<longrightarrow>
        (case dl_result s of
           Some None \<Rightarrow> (\<forall>f \<in> set files. create (snd f) = None)
             \<and> mset (dl_files s) = mset (map (\<lambda>f. (snd f, read_document (me_fetch E) (DPA_Retrieve E (fst f)))) files)
         | Some (Some err) \<Rightarrow> \<exists>f \<in> set files. create (snd f) = Some err
         | None \<Rightarrow> dl_next s < length files \<and> length (dl_failed s) = maxParallelFiles
             \<and> (\<forall>x \<in> set (dl_failed s). create (snd (files ! fst x)) = Some (snd x))))"
proof -
  note run = download_run [OF assms]
  have "\<exists>f \<in> set files. create (snd f) = Some e" if "dl_result s = Some (Some e)" for e
    using run(1) that nth_mem by (fastforce simp: download_inv_def dl_returned_def)
  moreover have "\<forall>x \<in> set (dl_failed s). create (snd (files ! fst x)) = Some (snd x)"
    using run(1) by (auto simp: download_inv_def dl_ranges_def)
  ultimately show ?thesis
    using run(2) download_returned [OF run(1)] download_stuck(2) [OF run(1)] by (auto split: option.splits)
qed

section \<open>A pool that is blocked\<close>

lemma download_spawns:
  assumes "5 < length files" "\<forall>i < 5. create (snd (files ! i)) \<noteq> None"
  shows "event_invariant (download_step E create files) (\<lambda>_. True) (\<lambda>s. download_inv E create files s \<and> dl_next s \<le> 5)"
proof
  fix s e s'
  assume s: "download_inv E create files s \<and> dl_next s \<le> 5" and st: "download_step E create files e s = Some s'"
  have "dl_next s' \<le> 5"
  proof (cases "e = DlSpawn \<and> dl_next s = 5")
    case True
    have res: "dl_result s = None" using s assms(1) by (auto simp: download_inv_def dl_returned_def split: option.splits)
    have "{..<5} \<subseteq> fst ` set (dl_failed s) \<union> set (dl_running s)"
      using s res True assms(2) by (auto simp: download_inv_def dl_returned_def creates_def)
    then have "card {..<5 :: nat} \<le> card (fst ` set (dl_failed s) \<union> set (dl_running s))" by (intro card_mono) auto
    also have "\<dots> \<le> card (fst ` set (dl_failed s)) + card (set (dl_running s))" by (rule card_Un_le)
    also have "\<dots> \<le> length (dl_failed s) + length (dl_running s)"
      by (intro add_mono card_length) (metis card_length length_map set_map)
    finally have "maxParallelFiles \<le> dl_done s" using s res by (simp add: download_inv_def dl_tokens_def maxParallelFiles_def)
    then show ?thesis using st True by (simp add: download_step_def split: if_splits)
  next
    case False
    then show ?thesis
      using st s by (cases e) (auto simp: download_step_def download_worker_def Let_def split: if_splits option.splits prod.splits go.splits)
  qed
  then show "download_inv E create files s' \<and> dl_next s' \<le> 5" using download.preserved s st by blast
qed

text \<open>
  C36: a download can block for ever. When the first five files cannot be created and there are more, no schedule
  lets \<open>Download\<close> return: the five goroutines wait for their errors to be received, and the loop that would
  receive them waits for a free place in the pool.
\<close>

theorem download_never_returns:
  assumes "readable E files" "5 < length files" "\<forall>i < 5. create (snd (files ! i)) \<noteq> None"
    "run_events (download_step E create files) es download_start = Some s"
  shows "dl_result s = None"
proof -
  have "download_inv E create files s \<and> dl_next s \<le> 5"
    using event_invariant.run_inv [OF download_spawns [OF assms(2,3)] _ _ assms(4)] download_inv_start [OF assms(1)]
    by (simp add: list_all_iff download_start_def)
  then show ?thesis using assms(2) by (auto simp: download_inv_def dl_returned_def split: option.splits)
qed

section \<open>From a directory to a directory\<close>

lemma parse_bare:
  assumes "h \<noteq> []" "slash \<notin> set h"
  shows "parse h = Ret (h, [])"
proof -
  have "slashes_Split 3 h = [h]"
    by (rule Split_step [of h 1]) (use assms(2) in \<open>auto simp: numeral_3_eq_3\<close>)
  then show ?thesis using assms(1) by (simp add: parse_def)
qed

definition download_target :: "string \<Rightarrow> manifestTrieEntry \<times> string \<Rightarrow> Key \<times> string" where
  "download_target lpath x = (Hex2Bytes (te_Hash (fst x)), lpath @ ''/'' @ snd x)"

lemma fold_download_visit:
  assumes "\<forall>d. mkdir d = None"
  shows "dn_mde s = None \<Longrightarrow> dn_list (fold (download_visit mkdir lpath) out s) = dn_list s @
    map (download_target lpath) (filter (\<lambda>x. lpath @ ''/'' @ snd x \<noteq> filepath_Dir (lpath @ ''/'' @ snd x) @ ''/'') out)"
  using assms by (induction out arbitrary: s) (auto simp: download_visit_def download_target_def Let_def)

lemma Dir_of_root: "list_all name_ok ls \<Longrightarrow> filepath_Dir (abs_path ls @ ''/'') = abs_path ls"
  using segs_slash_append [of "abs_path ls" "[]"] segs_abs [of ls]
  by (simp add: filepath_Dir_def filepath_Clean_def Let_def clean_elems_plain) (simp add: abs_path_def)

lemma listed_files:
  assumes "list_all name_ok ls" "mtrie_ok True t" "\<forall>d. mkdir d = None"
    and out: "listed out = {(q, v). look ld t q = Some v}"
    and F: "\<forall>f \<in> F. look ld t (join_slash (fst f)) = Some (hex_encode (key f), mime f, 0) \<and> length (key f) = 32"
      "\<forall>q. q \<noteq> [] \<and> q \<notin> (\<lambda>f. join_slash (fst f)) ` F \<longrightarrow> look ld t q = None"
      "\<forall>f \<in> F. list_all name_ok (fst f) \<and> fst f \<noteq> []"
  shows "set (dn_list (fold (download_visit mkdir (abs_path ls)) out
      \<lparr>dn_prevPath = abs_path ls, dn_mde = None, dn_list = [], dn_made = []\<rparr>)) =
    (\<lambda>f. (key f, abs_path ls @ ''/'' @ join_slash (fst f))) ` F" (is "set ?l = ?r")
proof -
  have noend: "path \<noteq> d @ ''/''" if "f \<in> F" "path = abs_path ls @ ''/'' @ join_slash (fst f)" for f path d
  proof -
    have "last (join_slash (fst f)) \<noteq> slash" "join_slash (fst f) \<noteq> []"
      using join_successively [of "fst f"] F(3) that(1) join_slash_Nil [of "fst f"] by auto
    then have "last path \<noteq> slash" using that(2) by simp
    then show ?thesis by auto
  qed
  have l: "set ?l = download_target (abs_path ls) ` {x \<in> set out. abs_path ls @ ''/'' @ snd x \<noteq> filepath_Dir (abs_path ls @ ''/'' @ snd x) @ ''/''}"
    using fold_download_visit [OF assms(3)] by simp
  show ?thesis
  proof (intro subset_antisym subsetI)
    fix y
    assume "y \<in> set ?l"
    then obtain e sfx where x: "(e, sfx) \<in> set out" "abs_path ls @ ''/'' @ sfx \<noteq> filepath_Dir (abs_path ls @ ''/'' @ sfx) @ ''/''"
      "y = (Hex2Bytes (te_Hash e), abs_path ls @ ''/'' @ sfx)" unfolding l by (auto simp: download_target_def)
    have "(sfx, doc e) \<in> listed out" unfolding listed_def using x(1) by (intro image_eqI [of _ _ "(e, sfx)"]) simp_all
    then have look: "look ld t sfx = Some (doc e)" unfolding out by simp
    have "sfx \<noteq> []" using x(2) Dir_of_root [OF assms(1)] by auto
    then have "sfx \<in> (\<lambda>f. join_slash (fst f)) ` F" using F(2) look by (metis option.distinct(1))
    then obtain f where "f \<in> F" "sfx = join_slash (fst f)" by blast
    moreover have "te_Hash e = hex_encode (key f)" "length (key f) = 32" using calculation F(1) look by (auto simp: doc_def)
    ultimately show "y \<in> ?r" using x(3) hex_key(2) [of "key f"] by simp
  next
    fix y
    assume "y \<in> ?r"
    then obtain f where f: "f \<in> F" "y = (key f, abs_path ls @ ''/'' @ join_slash (fst f))" by blast
    then have "(join_slash (fst f), hex_encode (key f), mime f, 0) \<in> listed out" using F(1) out by simp
    then obtain e where e: "(e, join_slash (fst f)) \<in> set out" "te_Hash e = hex_encode (key f)" by (auto simp: listed_def doc_def)
    then have "y = download_target (abs_path ls) (e, join_slash (fst f))" using f F(1) hex_key(2) by (simp add: download_target_def)
    then show "y \<in> set ?l" unfolding l using e(1) noend [OF f(1) refl] by auto
  qed
qed

text \<open>
  C7: a directory that is uploaded and downloaded again has the same files. Let all names below the
  directory be plain text, all files be readable and not empty, and let the chunks of the upload be served. With a bound that
  is large enough for the depth of the manifest, \<open>Download\<close> of the root finds the files; when every directory can be made and every file
  created, then every schedule of its pool is finite, and when no move is left it has returned without error and the files written below the target are
  those of the directory, with their contents.
\<close>

theorem upload_then_download:
  assumes later: "later E E' mm n" "package_manifests E" and after: "package_manifests E'"
    and dir: "filepath_Abs wd (filepath_Clean lpath) = Some (abs_path ls)" "list_all name_ok ls"
      "node_at disk ls = Some (Directory r)" "fnode_ok (Directory r)"
    and plain: "\<forall>f \<in> set (files_below (Directory r)). ascii (join_slash (fst f)) \<and> splitter_ok (me_chunker E) (snd f)"
      "\<forall>b. ascii (detect b) \<and> detect b \<noteq> manifestType"
    and up: "Upload_files wd disk lpath = Inr (start, files)"
      "run_events (upload_step (\<lambda>i. upload_file E detect wg disk (files ! i))) es (upload_start (length files)) = Some s"
      "\<forall>e. upload_step (\<lambda>i. upload_file E detect wg disk (files ! i)) e s = None"
      "Upload_finish (loadManifest n E) E start index s = Ret (Inr (hs, cs))" "serves (me_fetch E') cs"
    and full: "\<forall>f \<in> set (files_below (Directory r)). snd f \<noteq> []"
    and target: "filepath_Abs wd' (filepath_Clean localpath) = Some (abs_path ls')" "list_all name_ok ls'"
      "\<forall>d. mkdir d = None" "\<forall>p. create p = None"
  shows "\<exists>m fs. Download_files m (Suc n) E' dns wd' mkdir hs localpath = Ret (Inr fs)
    \<and> (\<forall>es' s'. run_events (download_step E' create fs) es' download_start = Some s' \<longrightarrow>
         length es' \<le> 2 * length fs + 1
         \<and> ((\<forall>e. download_step E' create fs e s' = None) \<longrightarrow> dl_result s' = Some None
             \<and> set (dl_files s') = {(abs_path ls' @ ''/'' @ join_slash p, Ret data) | p data. (p, data) \<in> set (files_below (Directory r))}))"
proof -
  let ?L = "loadManifest (Suc n) E'" and ?F = "set (files_below (Directory r))"
  obtain k t m key where k: "hs = Key_String k" "length k = 32" "?L k = Ret (Inr t)" "listable ?L m t"
    and F: "\<forall>f \<in> ?F. look ?L t (join_slash (fst f)) = Some (hex_encode (key f), upload_mime detect (fst f) (snd f), 0) \<and> length (key f) = 32"
      "\<forall>q. q \<noteq> [] \<and> q \<notin> (\<lambda>f. join_slash (fst f)) ` ?F \<longrightarrow> look ?L t q = None"
    and docs: "\<forall>f \<in> ?F. snd f \<noteq> [] \<longrightarrow> (\<exists>cs'. reads_back E (key f) cs' (snd f) \<and> serves (me_fetch E') cs')"
    using uploaded_manifest [OF later dir plain up] by blast
  have E': "me_chunker E' = me_chunker E" using later by (simp add: later_def Let_def)
  note ld = package_loader [OF after]
  have t_ok: "mtrie_ok True t" by (rule trie_loader.loads_ok [OF ld k(3)])
  obtain out t' where out: "listWithPrefixInt m ?L [] [] t = Ret (out, None, t')" "listed out = below (look ?L t) [] []"
    using list_listable [OF ld t_ok k(4)] by blast
  define fs where "fs = dn_list (fold (download_visit mkdir (abs_path ls')) out
      \<lparr>dn_prevPath = abs_path ls', dn_mde = None, dn_list = [], dn_made = []\<rparr>)"
  have names: "\<forall>f \<in> ?F. list_all name_ok (fst f) \<and> fst f \<noteq> []" using files_below_names [OF dir(4)] files_below_dir by blast
  have "listed out = {(q, v). look ?L t q = Some v}" unfolding out(2) below_def by auto
  from listed_files [OF target(2) t_ok target(3) this F names]
  have fs: "set fs = (\<lambda>f. (key f, abs_path ls' @ ''/'' @ join_slash (fst f))) ` ?F" by (simp add: fs_def)
  have rd: "read_document (me_fetch E') (DPA_Retrieve E' (key f)) = Ret (snd f)" if "f \<in> ?F" for f
    using docs full that E' by (force simp: reads_back_def)
  have "parse hs = Ret (hs, [])" using parse_bare hashMatcher_key(2,3) [OF k(2)] k(1) by simp
  moreover have "Api_Resolve dns hs True = (k, None)"
    using hashMatcher_key(1) [OF k(2)] Key_String_32 [OF k(2)] k(1) by (simp add: Api_Resolve_def)
  ultimately have "Download_files m (Suc n) E' dns wd' mkdir hs localpath = Ret (Inr fs)"
    using target(1,3) k(3) out(1) by (simp add: Download_files_def parseAndResolve_def listWithPrefix_def fs_def)
  moreover have rdb: "readable E' fs" using rd by (auto simp: readable_def fs)
  moreover have "dl_result s' = Some None
      \<and> set (dl_files s') = {(abs_path ls' @ ''/'' @ join_slash p, Ret data) | p data. (p, data) \<in> ?F}"
    if run: "run_events (download_step E' create fs) es' download_start = Some s'" "\<forall>e. download_step E' create fs e s' = None" for es' s'
  proof -
    note inv = download_run(1) [OF rdb run(1)]
    have res: "dl_result s' = Some None" by (rule download_succeeds [OF inv run(2) target(4)])
    have "set (dl_files s') = (\<lambda>f. (snd f, read_document (me_fetch E') (DPA_Retrieve E' (fst f)))) ` set fs"
      using mset_eq_setD [OF download_returned(2) [OF inv res]] by (simp only: set_map)
    also have "\<dots> = (\<lambda>f. (abs_path ls' @ ''/'' @ join_slash (fst f), Ret (snd f))) ` ?F"
      unfolding fs image_image by (intro image_cong) (simp_all add: rd)
    finally have "set (dl_files s') = {(abs_path ls' @ ''/'' @ join_slash p, Ret data) | p data. (p, data) \<in> ?F}" by force
    then show ?thesis using res by blast
  qed
  ultimately show ?thesis using download_run(2) by (intro exI [of _ m] exI [of _ fs]) blast
qed

section \<open>Paths that leave the target\<close>

text \<open>
  An entry of a manifest whose path starts with \<open>../\<close> is written beside the target directory: the path the file is
  created under is not cleaned, and cleaning it gives a path outside of the target.
\<close>

theorem download_escapes:
  assumes "list_all name_ok (ls @ [d])" "name_ok x" "\<forall>d. mkdir d = None"
  shows "\<exists>path. dn_list (download_visit mkdir (abs_path (ls @ [d])) (entry, ''../'' @ x)
        \<lparr>dn_prevPath = abs_path (ls @ [d]), dn_mde = None, dn_list = [], dn_made = []\<rparr>) = [(Hex2Bytes (te_Hash entry), path)]
    \<and> filepath_Clean path = abs_path (ls @ [x])"
proof -
  let ?path = "abs_path (ls @ [d]) @ ''/'' @ ''../'' @ x"
  have "last ?path \<noteq> slash" using assms(2) by (auto simp: name_ok_def) (metis last_in_set)
  then have ne: "?path \<noteq> q @ ''/''" for q by (metis last_snoc)
  have sg: "segs ?path = ls @ [d, ''..'', x]"
    using segs_slash_append [of "abs_path (ls @ [d])" "''../'' @ x"] segs_slash_append [of "''..''" x] segs_abs [OF assms(1)] assms(2)
    by (simp add: segs_none name_ok_def)
  have el: "clean_elems True out (ls @ [d, ''..'', x]) = rev out @ ls @ [x]" if "list_all name_ok (ls @ [d])" for out ls
    using that assms(2) by (induction ls arbitrary: out) (auto simp: name_ok_def)
  have "filepath_Clean ?path = abs_path (ls @ [x])"
    using sg el [OF assms(1), of "[]"] by (simp add: filepath_Clean_def abs_path_def Let_def)
  then show ?thesis using ne assms(3) by (simp add: download_visit_def Let_def)
qed

section \<open>Concrete downloads\<close>

definition no_file :: "string \<Rightarrow> nat option" where
  "no_file p = Some 13"

definition demo_targets :: "(Key \<times> string) list" where
  "demo_targets = map (\<lambda>p. (fst (stored_text [9]), p)) [''1'', ''2'', ''3'', ''4'', ''5'', ''6'']"

lemma demo_readable: "readable put_env demo_targets"
  by code_simp

theorem download_outcomes_witness:
  "\<exists>s. run_events (download_step put_env no_file demo_targets) [DlSpawn, DlWorker 0] download_start = Some s
    \<and> length [DlSpawn, DlWorker 0] \<le> 2 * length demo_targets + 1"
proof -
  obtain s where s: "run_events (download_step put_env no_file demo_targets) [DlSpawn, DlWorker 0] download_start = Some s"
    by (simp add: download_step_def download_start_def demo_targets_def maxParallelFiles_def download_worker_def no_file_def)
  show ?thesis using download_outcomes [OF demo_readable s] s by blast
qed

theorem download_never_returns_witness:
  "\<exists>s. run_events (download_step put_env no_file demo_targets) (replicate 5 DlSpawn @ map DlWorker [0..<5]) download_start = Some s
    \<and> (\<forall>e. download_step put_env no_file demo_targets e s = None) \<and> dl_result s = None"
proof -
  let ?es = "replicate 5 DlSpawn @ map DlWorker [0..<5]"
  obtain s where s: "run_events (download_step put_env no_file demo_targets) ?es download_start = Some s"
      "\<not> dl_crashed s" "dl_running s = []" "dl_next s = 5" "dl_done s = 5"
    by (simp add: download_step_def download_start_def demo_targets_def maxParallelFiles_def download_worker_def no_file_def upt_rec numeral_eq_Suc)
  have "length demo_targets = 6" by (simp add: demo_targets_def)
  then have "download_step put_env no_file demo_targets e s = None" for e
    using s(2-5) by (cases e) (auto simp: download_step_def maxParallelFiles_def split: option.splits)
  moreover have "dl_result s = None"
    using download_never_returns [OF demo_readable _ _ s(1)] by (simp add: demo_targets_def no_file_def)
  ultimately show ?thesis using s(1) by blast
qed

theorem upload_then_download_witness:
  "\<exists>m fs es s. Download_files m 1 (codec_env (fetch_of demo_uploaded)) None None (\<lambda>_. None) (Key_String (fst (stored_text [5]))) ''/t'' = Ret (Inr fs)
    \<and> run_events (download_step (codec_env (fetch_of demo_uploaded)) (\<lambda>_. None) fs) es download_start = Some s
    \<and> dl_result s = Some None \<and> set (dl_files s) = {(''/t/x'', Ret [9])}"
proof -
  let ?E' = "codec_env (fetch_of demo_uploaded)" and ?create = "\<lambda>_ :: string. None :: nat option"
  have full: "\<forall>f \<in> set (files_below demo_dir). snd f \<noteq> []" by (simp add: demo_dir_facts(5))
  have target: "filepath_Abs None (filepath_Clean ''/t'') = Some (abs_path [''t''])" "list_all name_ok [''t'']" by code_simp+
  obtain m fs where fs: "Download_files m (Suc 0) ?E' None None ?create (Key_String (fst (stored_text [5]))) ''/t'' = Ret (Inr fs)"
    "\<forall>es s. run_events (download_step ?E' ?create fs) es download_start = Some s \<longrightarrow> length es \<le> 2 * length fs + 1
       \<and> ((\<forall>e. download_step ?E' ?create fs e s = None) \<longrightarrow> dl_result s = Some None
          \<and> set (dl_files s) = {(abs_path [''t''] @ ''/'' @ join_slash p, Ret data) | p data. (p, data) \<in> set (files_below demo_dir)})"
    using upload_then_download [OF demo_upload(1) demo_package demo_package demo_dir_open demo_upload(3) [unfolded demo_dir_def] demo_upload(4) demo_dir_facts(6)
        demo_upload(5,6) demo_finish demo_upload(2) full [unfolded demo_dir_def] target, of ?create ?create None]
    unfolding demo_dir_def [symmetric] by blast
  obtain es s where es: "run_events (download_step ?E' ?create fs) es download_start = Some s" "\<forall>e. download_step ?E' ?create fs e s = None"
    using bounded_run_ends [of "download_step ?E' ?create fs" download_start "2 * length fs + 1"] fs(2) by blast
  have "{(abs_path [''t''] @ ''/'' @ join_slash p, Ret data) | p data. (p, data) \<in> set (files_below demo_dir)} = {(''/t/x'', Ret [9])}"
    by (auto simp: demo_dir_facts(5) abs_path_def)
  then have "dl_result s = Some None \<and> set (dl_files s) = {(''/t/x'', Ret [9])}"
    using fs(2) [THEN spec, THEN spec, THEN mp, OF es(1), THEN conjunct2, THEN mp, OF es(2)] by (simp only:)
  then show ?thesis using fs(1) es(1) by (intro exI [of _ m] exI [of _ fs] exI [of _ es] exI [of _ s]) simp
qed

end
