(* ===== verification/Spec2Isabelle.thy ===== *)
theory Spec2Isabelle
  imports Document_Store Chunk_Stores Db_Sync_Iterator Db_Store_Props Mem_Store_Laws Sync_Db_Runs Sync_Loop_Props
    Streamer_Props Bzz_Props Api_Props Upload_Props Manifest_List Pyramid_Tree Http_Props File_Download
begin

text \<open>
  A verification development of the livepeer swarm node, the Go program under \<open>src/livepeer\<close>: a
  content-addressed chunk store, the network through which nodes exchange chunks, and a broker
  of video streams on top of it.

  \<^bold>\<open>The program.\<close> A document is cut into chunks that form a Merkle tree (\<open>storage/chunker.go\<close>).
  Chunks are kept in a LevelDB database with garbage collection (\<open>storage/dbstore.go\<close> on
  \<open>storage/database.go\<close>) behind a cache that is a trie (\<open>storage/memstore.go\<close>); the local store joins
  the two and the network store asks the cloud for what is missing (\<open>storage/localstore.go\<close>,
  \<open>netstore.go\<close>, \<open>dpa.go\<close>). The cloud is the forwarder (\<open>network/forwarding.go\<close>), which asks the peers
  that the hive names (\<open>network/hive.go\<close>). Messages come in through the wire protocol
  (\<open>network/protocol.go\<close>, \<open>messages.go\<close>) and go to the depo (\<open>network/depo.go\<close>), which works on the
  stores, or to the stream broker (\<open>streaming/streamer.go\<close>, \<open>network/streamdb.go\<close>). Each peer has a syncer
  (\<open>network/syncer.go\<close>) that announces keys and delivers chunks through three queues, one per
  priority (\<open>network/syncdb.go\<close>), which overflow into a request database. On top of documents there
  are manifests (\<open>api/manifest.go\<close>), tables of documents under paths that are themselves stored as
  documents; \<open>api/api.go\<close>, \<open>api/storage.go\<close> and \<open>api/filesystem.go\<close> read and change them, and the HTTP gateway
  (\<open>api/http/server.go\<close>) serves them. \<open>storage/pyramid.go\<close> is a second, concurrent splitter.

  \<^bold>\<open>The model.\<close> A Go call returns a value, an error or panics: the type \<open>go\<close> of \<open>LP_Prelude\<close>; a call that
  blocks is \<open>None\<close> around it. Pointers that are compared or shared are addresses into a heap. A goroutine is
  given by its moves: an event names what happens next and carries what the outside decides (the
  outcome of a delivery or a database write, a random number, the case of a \<open>select\<close>), so a theorem
  about all event sequences is one about all interleavings. Machine integers are words
  where the code can wrap around. Code outside the repository is a parameter: the LevelDB engine
  (\<open>leveldb_ops\<close> with the laws of the locale \<open>leveldb\<close>), the hash, RLP, JSON and gob codecs, the Kademlia
  table, SWAP accounts.

  \<^item> \<open>LP_Prelude\<close>: results, slices, byte orders, hexadecimal text, list lemmas. \<open>Event_Systems\<close>: runs of a machine
    given by a step function, and the locale \<open>event_invariant\<close>, which is interpreted for the
    queue, the idle queue, the announcing loop, the broker and the pools of the pyramid chunker and of uploads and downloads.
  \<^item> \<open>Storage_Keys\<close> (\<open>storage/types.go\<close>): keys, their bit windows and JSON form, chunks.
  \<^item> \<open>Chunker\<close>, \<open>Chunk_Join\<close> (\<open>chunker.go\<close>): \<open>TreeChunker_Split\<close> equals the recursive tree hash,
    the lazy reader returns the document, chunks are bounded, and the depth loop does not end above \<open>2 ^ 61\<close>
    bytes. The depth loop is a \<open>partial_function\<close>; that it returns below that size is proved.
  \<^item> \<open>Pyramid\<close> (\<open>pyramid.go\<close>): the feeding loop and the workers as \<open>pyramid_step\<close> on a shared table of nodes.
    \<open>Pyramid_Laws\<close>, \<open>Pyramid_Moves\<close>: \<open>layer\<close>, the levels of the tree as a function of the document, and the invariant
    \<open>pool_inv\<close>, which relates the table and what the workers hold to it. \<open>Pyramid_Props\<close>: every schedule
    ends, with one key and one set of chunks, where no level has a gap, and panics where one has. \<open>Pyramid_Tree\<close>: where the key is that of the tree chunker, and where not.
  \<^item> \<open>Level_Db\<close> (\<open>database.go\<close>): the wrapper, the locales \<open>leveldb\<close> and \<open>kv_store\<close>, an engine for concrete runs.
  \<^item> \<open>Db_Store\<close>, \<open>Gc_Select\<close>, \<open>Db_Store_Laws\<close>, \<open>Db_Store_Props\<close>, \<open>Db_Sync_Iterator\<close> (\<open>dbstore.go\<close>): the
    content of a store as a map that \<open>Put\<close> and \<open>Get\<close> refine, the selection routine of the
    collector, exactly what a collection evicts, the exact range of the sync iterator, and two defects.
  \<^item> \<open>Mem_Store\<close>, \<open>Mem_Store_Laws\<close> (\<open>memstore.go\<close>): the trie keeps its shape and is a map.
  \<^item> \<open>Chunk_Stores\<close>, \<open>Document_Store\<close> (\<open>localstore.go\<close>, \<open>netstore.go\<close>, \<open>dpa.go\<close>): requests for one key
    are joined and answered once; a document stored in the database is read back.
  \<^item> \<open>Net_Messages\<close> (\<open>messages.go\<close>).
  \<^item> \<open>Sync_Db\<close> (\<open>syncdb.go\<close>): the two goroutines of a queue as the function \<open>syncDb_step\<close> on events.
    \<open>Sync_Db_Laws\<close>, \<open>Sync_Db_Queue\<close>, \<open>Sync_Db_Props\<close>: the invariant \<open>qinv\<close>, which relates the request
    database, the open batch, the reader and the buffer to a map of the entries still to be delivered,
    and its preservation by every move. \<open>Sync_Db_Runs\<close>: nothing is lost, the order is kept,
    the backlog is saved, a queue opens; what a replay takes from other queues, and three more defects.
  \<^item> \<open>Syncer\<close>, \<open>Sync_Loops\<close> (\<open>syncer.go\<close>): sync states, requests, the script, the two loops move by move.
    \<open>Sync_Loop_Props\<close>: keys are announced in order and are lost only with a batch that could not be written; which history the
    script covers, on every branch.
  \<^item> \<open>Streamer\<close> (\<open>streamer.go\<close>, \<open>types.go\<close>, \<open>streamdb.go\<close> and the subscriptions of \<open>lpms/stream\<close>).
    \<open>Streamer_Props\<close>: the tables stay consistent under all operations, so none that changes them panics (\<open>GetRTMPBuffer\<close>
    panics for an unknown stream); lookup after subscription; stream identifiers; downstream peers.
  \<^item> \<open>Hive\<close>, \<open>Forwarder\<close>, \<open>Depo\<close>, \<open>Bzz_Protocol\<close> (\<open>hive.go\<close>, \<open>forwarding.go\<close>, \<open>peer_muxer.go\<close>, \<open>depo.go\<close>,
    \<open>protocol.go\<close>) on the state \<open>node\<close>. \<open>Net_Props\<close>: proximity counts common leading bits, whom the
    forwarder asks and to whom it delivers, what a store request may change, which keys are
    requested. \<open>Bzz_Props\<close>: only a sync request gives a connection its syncer, and a delivery request before that panics.
  \<^item> \<open>Manifest\<close>, \<open>Api\<close> (\<open>manifest.go\<close>, \<open>api.go\<close>, \<open>storage.go\<close>): the trie of
    257 slots per node with subtries loaded on demand, and the operations of the API on it.
    \<open>Manifest_Laws\<close>: \<open>look\<close> reads a trie as a map from paths to documents; the locale \<open>trie_loader\<close>
    is the contract of loading, and in it insertion, deletion and search are operations on that map.
    \<open>Manifest_Store\<close>: \<open>loadManifest\<close> meets the contract, and a stored trie is loaded with the same map. \<open>Path_Laws\<close>:
    segments of paths. \<open>Manifest_Props\<close>, \<open>Manifest_List\<close>, \<open>Upload_Props\<close>, \<open>Api_Props\<close>: the operations refine the map,
    searches and listings are exact, uploaded files are found, a change is visible under the new hash; and where the
    operations panic. Where a theorem needs that the manifests in the store are of this package, the hypothesis \<open>package_manifests\<close> says so
    of the documents that can be read from the store; the JSON decoder itself may accept anything.
  \<^item> \<open>Http_Gateway\<close> (\<open>api/http\<close>): the handler as the list of calls it makes on the response writer, and the response
    these calls give. \<open>Http_Props\<close>: posted and put documents are served again; what refused requests leave behind.
  \<^item> \<open>File_System\<close> (\<open>api/filesystem.go\<close>): paths, the walk over a directory, which is a tree of files, and the pools of goroutines of
    \<open>Upload\<close> and \<open>Download\<close> as step functions. \<open>File_Laws\<close>: cleaned paths, the order of the walk and the entries it makes.
    \<open>File_Pools\<close>: every schedule of the two pools is finite, and how it ends. \<open>File_Props\<close>, \<open>File_Download\<close>: an uploaded file is served by the
    gateway, a directory that is uploaded and downloaded again has the same files, and when a download blocks or fails silently.

  \<^bold>\<open>Bounds.\<close> The queue theorems assume that the 64-bit counter does not wrap around, which is a bound
  on the number of requests of a session. Loops that the code may leave running are relations on events or
  partial functions. Fuel appears in the manifests only: \<open>addEntry\<close>, \<open>deleteEntry\<close> and \<open>findPrefixOf\<close> recurse on
  the length of the path, and the theorems show that they return within it; \<open>loadManifest n\<close> bounds
  how deep manifests load manifests while they are read (a manifest written by this package loads none, so \<open>n = 1\<close>
  is enough for it), and \<open>listWithPrefix n\<close> the depth of a listing, for which the size of the trie is enough.

  \<^bold>\<open>Not modelled.\<close> Configuration files, the listening side of the HTTP gateway and the media server (input and output around the parts above), the set-up of the node and the command line, profiling
  and metrics. Within modelled files: logging, errors of the database engine on writing outside the request queues, the time-outs of retrievals, the worker pools
  of the tree chunker and the DPA as concurrent processes, the gob codec of video chunks, the transcoding worker.
\<close>

end
